(* ===== verification/Prelude.thy ===== *)
theory Prelude
  imports Main "HOL-Library.Word"
begin

text \<open>
  Shared vocabulary of the development: the machine types of the Rust sources, fixed-size
  byte arrays, the dispatch results of FRAME extrinsics, transaction validity, and the
  execution of a sequence of extrinsics.

  Byte arrays. A Rust \<open>[u8; 32]\<close> is a 256-bit word and a \<open>[u8; 16]\<close> a 128-bit word, read
  little-endian: byte \<open>i\<close> of the array is bits \<open>8 i .. 8 i + 7\<close> of the word (\<open>le_bytes\<close>),
  so \<open>u128::from_le_bytes\<close> of the first half is the truncation of the word and the array
  \<open>[0u8; 32]\<close> is \<open>0\<close>. A slice or a \<open>Vec<u8>\<close> is a list of bytes.
\<close>

unbundle bit_operations_syntax

section \<open>Machine types\<close>

type_synonym u8 = "8 word"
type_synonym u32 = "32 word"
type_synonym u64 = "64 word"
type_synonym u128 = "128 word"
type_synonym h128 = "128 word"
type_synonym h256 = "256 word"
type_synonym bytes = "u8 list"

named_theorems storage_defs "definitions of the storage helpers the handlers of a pallet share"
named_theorems handler_defs "definitions of the extrinsics of a pallet"

lemma unat_ucast_up:
  "LENGTH('a) \<le> LENGTH('b) \<Longrightarrow> unat (ucast (w :: 'a::len word) :: 'b::len word) = unat w"
  by (simp add: unsigned_ucast_eq take_bit_nat_eq_self_iff)
    (meson le_less_trans less_le_trans one_le_numeral power_increasing unsigned_less order_less_le_trans)

lemma unat_of_nat_small: "n < 2 ^ LENGTH('a) \<Longrightarrow> unat (of_nat n :: 'a::len word) = n"
  by (simp add: unat_of_nat)

lemma ucast_up_down [simp]:
  "LENGTH('a) \<le> LENGTH('b) \<Longrightarrow> ucast (ucast (w :: 'a::len word) :: 'b::len word) = w"
  by (rule bit_word_eqI) (simp add: bit_simps)

lemma word_less_succ: "(n :: 'a::len word) \<noteq> - 1 \<Longrightarrow> n < n + 1"
proof -
  assume n: "n \<noteq> - 1"
  have "Suc (unat n) \<noteq> 2 ^ LENGTH('a)"
  proof
    assume "Suc (unat n) = 2 ^ LENGTH('a)"
    then have "(of_nat (Suc (unat n)) :: 'a word) = of_nat (2 ^ LENGTH('a))" by simp
    then have "1 + n = 0" by simp
    then show False using n by (simp add: add_eq_0_iff)
  qed
  then have "Suc (unat n) < 2 ^ LENGTH('a)" by (intro Suc_lessI unsigned_less)
  then have "unat n + unat (1 :: 'a word) < 2 ^ LENGTH('a)" by simp
  then have "unat (n + 1) = unat n + 1" using unat_add_lem [of n 1] by simp
  then show "n < n + 1" by (simp add: word_less_nat_alt)
qed

section \<open>Little-endian byte strings\<close>

definition le_bytes :: "nat \<Rightarrow> 'a::len word \<Rightarrow> bytes" where
  "le_bytes n w = map (\<lambda>i. ucast (drop_bit (8 * i) w)) [0..<n]"

fun of_le_bytes :: "bytes \<Rightarrow> 'a::len word" where
  "of_le_bytes [] = 0"
| "of_le_bytes (b # bs) = ucast b OR push_bit 8 (of_le_bytes bs)"

text \<open>The bytes of a literal \<open>b"..."\<close>.\<close>

definition ascii :: "string \<Rightarrow> bytes" where
  "ascii s = map of_char s"

lemma length_le_bytes [simp]: "length (le_bytes n w) = n"
  by (simp add: le_bytes_def)

lemma le_bytes_0 [simp]: "le_bytes 0 w = []"
  by (simp add: le_bytes_def)

lemma le_bytes_Suc: "le_bytes (Suc n) w = ucast w # le_bytes n (drop_bit 8 w)"
proof -
  have "[0..<Suc n] = 0 # map Suc [0..<n]"
    by (simp add: upt_conv_Cons map_Suc_upt del: upt_Suc)
  then show ?thesis by (simp add: le_bytes_def o_def add.commute del: upt_Suc)
qed

lemma bit_of_le_bytes:
  "bit (of_le_bytes bs :: 'a::len word) k \<longleftrightarrow>
     k < LENGTH('a) \<and> k div 8 < length bs \<and> bit (bs ! (k div 8)) (k mod 8)"
proof (induction bs arbitrary: k)
  case Nil
  then show ?case by simp
next
  case (Cons b bs)
  show ?case
  proof (cases "k < 8")
    case True
    then show ?thesis
      by (auto simp: bit_simps)
  next
    case False
    then have k: "k div 8 = Suc ((k - 8) div 8)" "k mod 8 = (k - 8) mod 8"
      by (simp_all add: le_div_geq le_mod_geq)
    have "\<not> bit b k"
      using False by (auto dest: bit_imp_le_length)
    with False k show ?thesis
      by (auto simp: bit_simps Cons.IH)
  qed
qed

lemma of_le_bytes_le_bytes:
  fixes w :: "'a::len word"
  assumes "LENGTH('a) \<le> 8 * n"
  shows "of_le_bytes (le_bytes n w) = w"
proof (rule bit_word_eqI)
  fix k assume k: "k < LENGTH('a)"
  then have "k div 8 < n" using assms by (auto simp: less_mult_imp_div_less mult.commute)
  moreover have "8 * (k div 8) + k mod 8 = k" by simp
  moreover have "k mod 8 < 8" by simp
  ultimately show "bit (of_le_bytes (le_bytes n w) :: 'a word) k = bit w k"
    using k by (simp add: bit_of_le_bytes le_bytes_def bit_simps add.commute del: mod_less_divisor)
qed

lemma le_bytes_inj:
  fixes v w :: "'a::len word"
  assumes "LENGTH('a) \<le> 8 * n" and "le_bytes n v = le_bytes n w"
  shows "v = w"
  using assms of_le_bytes_le_bytes by metis

lemma nth_le_bytes: "i < n \<Longrightarrow> le_bytes n w ! i = ucast (drop_bit (8 * i) w)"
  by (simp add: le_bytes_def)

lemma take_le_bytes: "m \<le> n \<Longrightarrow> take m (le_bytes n w) = le_bytes m w"
  by (simp add: le_bytes_def take_map)

end
