(* ===== verification/XcmTypes.thy ===== *)
theory XcmTypes
  imports Prelude
begin

text \<open>
  Types of the XCM and weight crates that the runtimes' own code mentions: locations, assets, and
  weights with their saturating arithmetic.
\<close>

section \<open>Locations and assets\<close>

text \<open>
  A location is a number of parents and a path of junctions. Of the junctions, those the code matches
  on; \<open>OtherJunction\<close> is any other.
\<close>

datatype body_id =
    BodyUnit | BodyMoniker u32 | BodyIndex u32 | BodyExecutive | BodyTechnical | BodyLegislative
  | BodyJudicial | BodyDefense | BodyAdministration | BodyTreasury

datatype junction = Parachain u32 | AccountId32 h256 | Plurality body_id | OtherJunction bytes

type_synonym location = "nat \<times> junction list"

record asset =
  xcm_asset_id :: location
  fungible :: u128

section \<open>Saturating arithmetic\<close>

definition sat_add :: "'a::len word \<Rightarrow> 'a word \<Rightarrow> 'a word" where
  "sat_add a b = (if unat a + unat b < 2 ^ LENGTH('a) then a + b else - 1)"

definition sat_mul :: "'a::len word \<Rightarrow> 'a word \<Rightarrow> 'a word" where
  "sat_mul a b = (if unat a * unat b < 2 ^ LENGTH('a) then a * b else - 1)"

lemma unat_minus_one: "unat (- 1 :: 'a::len word) = 2 ^ LENGTH('a) - 1"
  by (simp add: unsigned_minus_1_eq_mask mask_eq_exp_minus_1)

lemma unat_sat:
  fixes a b :: "'a::len word"
  shows unat_sat_add: "unat (sat_add a b) = min (unat a + unat b) (2 ^ LENGTH('a) - 1)"
    and unat_sat_mul: "unat (sat_mul a b) = min (unat a * unat b) (2 ^ LENGTH('a) - 1)"
proof -
  have "unat (a + b) = unat a + unat b" if "unat a + unat b < 2 ^ LENGTH('a)"
    using that by (simp add: unat_word_ariths)
  then show "unat (sat_add a b) = min (unat a + unat b) (2 ^ LENGTH('a) - 1)"
    by (auto simp: sat_add_def unat_minus_one)
  have "unat (a * b) = unat a * unat b" if "unat a * unat b < 2 ^ LENGTH('a)"
    using that by (simp add: unat_word_ariths)
  then show "unat (sat_mul a b) = min (unat a * unat b) (2 ^ LENGTH('a) - 1)"
    by (auto simp: sat_mul_def unat_minus_one)
qed

section \<open>Weights\<close>

text \<open>A weight is computation time and proof size; its operations saturate in each component.\<close>

type_synonym weight = "u64 \<times> u64"

definition weight_add :: "weight \<Rightarrow> weight \<Rightarrow> weight" where
  "weight_add v w = (sat_add (fst v) (fst w), sat_add (snd v) (snd w))"

definition weight_mul :: "weight \<Rightarrow> u64 \<Rightarrow> weight" where
  "weight_mul v k = (sat_mul (fst v) k, sat_mul (snd v) k)"

end
