(* ===== verification/RelayXcm.thy ===== *)
theory RelayXcm
  imports XcmTypes
begin

text \<open>
  What the relay chain charges for an XCM instruction, \<open>runtime/src/weights/xcm/mod.rs\<close> over the two
  benchmark tables beside it, and the location filters of \<open>runtime/src/xcm_config.rs\<close>. The executor and
  the sum over a program are the XCM crates'.
\<close>

section \<open>Benchmarks\<close>

text \<open>\<open>T::DbWeight::get().reads(n)\<close> and \<open>.writes(n)\<close> come from the SDK.\<close>

record db_weight =
  db_reads :: "u64 \<Rightarrow> weight"
  db_writes :: "u64 \<Rightarrow> weight"

text \<open>\<open>pallet_xcm_benchmarks_fungible.rs\<close>.\<close>

definition fungible_withdraw_asset :: "db_weight \<Rightarrow> weight" where
  "fungible_withdraw_asset db = weight_add (weight_add (34026000, 3593) (db_reads db 1)) (db_writes db 1)"
definition fungible_transfer_asset :: "db_weight \<Rightarrow> weight" where
  "fungible_transfer_asset db = weight_add (weight_add (47174000, 6196) (db_reads db 2)) (db_writes db 2)"
definition fungible_transfer_reserve_asset :: "db_weight \<Rightarrow> weight" where
  "fungible_transfer_reserve_asset db = weight_add (weight_add (128496000, 8799) (db_reads db 8)) (db_writes db 5)"
definition fungible_reserve_asset_deposited :: "db_weight \<Rightarrow> weight" where "fungible_reserve_asset_deposited db = (18446744073709551000, 0)"
definition fungible_initiate_reserve_withdraw :: "db_weight \<Rightarrow> weight" where
  "fungible_initiate_reserve_withdraw db = weight_add (weight_add (90204000, 6196) (db_reads db 7)) (db_writes db 4)"
definition fungible_receive_teleported_asset :: "db_weight \<Rightarrow> weight" where
  "fungible_receive_teleported_asset db = weight_add (weight_add (34221000, 3593) (db_reads db 1)) (db_writes db 1)"
definition fungible_deposit_asset :: "db_weight \<Rightarrow> weight" where
  "fungible_deposit_asset db = weight_add (weight_add (26034000, 3593) (db_reads db 1)) (db_writes db 1)"
definition fungible_deposit_reserve_asset :: "db_weight \<Rightarrow> weight" where
  "fungible_deposit_reserve_asset db = weight_add (weight_add (81856000, 3677) (db_reads db 6)) (db_writes db 3)"
definition fungible_initiate_teleport :: "db_weight \<Rightarrow> weight" where
  "fungible_initiate_teleport db = weight_add (weight_add (82448000, 3677) (db_reads db 6)) (db_writes db 3)"
definition fungible_initiate_transfer :: "db_weight \<Rightarrow> weight" where
  "fungible_initiate_transfer db = weight_add (weight_add (103473000, 6196) (db_reads db 7)) (db_writes db 4)"

text \<open>\<open>pallet_xcm_benchmarks_generic.rs\<close>.\<close>

definition generic_report_holding :: "db_weight \<Rightarrow> weight" where
  "generic_report_holding db = weight_add (weight_add (85820000, 6196) (db_reads db 7)) (db_writes db 4)"
definition generic_buy_execution :: "db_weight \<Rightarrow> weight" where "generic_buy_execution db = (3491000, 0)"
definition generic_pay_fees :: "db_weight \<Rightarrow> weight" where "generic_pay_fees db = (3358000, 0)"
definition generic_asset_claimer :: "db_weight \<Rightarrow> weight" where "generic_asset_claimer db = (843000, 0)"
definition generic_query_response :: "db_weight \<Rightarrow> weight" where "generic_query_response db = weight_add (6334000, 3465) (db_reads db 1)"
definition generic_transact :: "db_weight \<Rightarrow> weight" where "generic_transact db = (8025000, 0)"
definition generic_refund_surplus :: "db_weight \<Rightarrow> weight" where "generic_refund_surplus db = (1418000, 0)"
definition generic_set_error_handler :: "db_weight \<Rightarrow> weight" where "generic_set_error_handler db = (804000, 0)"
definition generic_set_appendix :: "db_weight \<Rightarrow> weight" where "generic_set_appendix db = (800000, 0)"
definition generic_clear_error :: "db_weight \<Rightarrow> weight" where "generic_clear_error db = (790000, 0)"
definition generic_descend_origin :: "db_weight \<Rightarrow> weight" where "generic_descend_origin db = (816000, 0)"
definition generic_execute_with_origin :: "db_weight \<Rightarrow> weight" where "generic_execute_with_origin db = (18446744073709551000, 0)"
definition generic_clear_origin :: "db_weight \<Rightarrow> weight" where "generic_clear_origin db = (835000, 0)"
definition generic_report_error :: "db_weight \<Rightarrow> weight" where
  "generic_report_error db = weight_add (weight_add (82450000, 6196) (db_reads db 7)) (db_writes db 4)"
definition generic_claim_asset :: "db_weight \<Rightarrow> weight" where
  "generic_claim_asset db = weight_add (weight_add (9797000, 3488) (db_reads db 1)) (db_writes db 1)"
definition generic_trap :: "db_weight \<Rightarrow> weight" where "generic_trap db = (3936000, 0)"
definition generic_subscribe_version :: "db_weight \<Rightarrow> weight" where
  "generic_subscribe_version db = weight_add (weight_add (41850000, 3710) (db_reads db 6)) (db_writes db 3)"
definition generic_unsubscribe_version :: "db_weight \<Rightarrow> weight" where "generic_unsubscribe_version db = weight_add (3421000, 0) (db_writes db 1)"
definition generic_burn_asset :: "db_weight \<Rightarrow> weight" where "generic_burn_asset db = (1219000, 0)"
definition generic_expect_asset :: "db_weight \<Rightarrow> weight" where "generic_expect_asset db = (869000, 0)"
definition generic_expect_origin :: "db_weight \<Rightarrow> weight" where "generic_expect_origin db = (3909000, 0)"
definition generic_expect_error :: "db_weight \<Rightarrow> weight" where "generic_expect_error db = (4643000, 0)"
definition generic_expect_transact_status :: "db_weight \<Rightarrow> weight" where "generic_expect_transact_status db = (962000, 0)"
definition generic_query_pallet :: "db_weight \<Rightarrow> weight" where
  "generic_query_pallet db = weight_add (weight_add (95039000, 6196) (db_reads db 7)) (db_writes db 4)"
definition generic_expect_pallet :: "db_weight \<Rightarrow> weight" where "generic_expect_pallet db = (9070000, 0)"
definition generic_report_transact_status :: "db_weight \<Rightarrow> weight" where
  "generic_report_transact_status db = weight_add (weight_add (83776000, 6196) (db_reads db 7)) (db_writes db 4)"
definition generic_clear_transact_status :: "db_weight \<Rightarrow> weight" where "generic_clear_transact_status db = (851000, 0)"
definition generic_set_topic :: "db_weight \<Rightarrow> weight" where "generic_set_topic db = (782000, 0)"
definition generic_clear_topic :: "db_weight \<Rightarrow> weight" where "generic_clear_topic db = (792000, 0)"
definition generic_set_fees_mode :: "db_weight \<Rightarrow> weight" where "generic_set_fees_mode db = (772000, 0)"
definition generic_unpaid_execution :: "db_weight \<Rightarrow> weight" where "generic_unpaid_execution db = (817000, 0)"
definition generic_alias_origin :: "db_weight \<Rightarrow> weight" where "generic_alias_origin db = (832000, 0)"

lemmas bench_defs =
  fungible_withdraw_asset_def fungible_transfer_asset_def fungible_transfer_reserve_asset_def
  fungible_reserve_asset_deposited_def fungible_initiate_reserve_withdraw_def
  fungible_receive_teleported_asset_def fungible_deposit_asset_def
  fungible_deposit_reserve_asset_def fungible_initiate_teleport_def fungible_initiate_transfer_def
  generic_report_holding_def generic_buy_execution_def generic_pay_fees_def
  generic_asset_claimer_def generic_query_response_def generic_transact_def
  generic_refund_surplus_def generic_set_error_handler_def generic_set_appendix_def
  generic_clear_error_def generic_descend_origin_def generic_execute_with_origin_def
  generic_clear_origin_def generic_report_error_def generic_claim_asset_def generic_trap_def
  generic_subscribe_version_def generic_unsubscribe_version_def generic_burn_asset_def
  generic_expect_asset_def generic_expect_origin_def generic_expect_error_def
  generic_expect_transact_status_def generic_query_pallet_def generic_expect_pallet_def
  generic_report_transact_status_def generic_clear_transact_status_def generic_set_topic_def
  generic_clear_topic_def generic_set_fees_mode_def generic_unpaid_execution_def
  generic_alias_origin_def

section \<open>Weighing assets\<close>

datatype asset_types = AssetBalances | AssetUnknown

definition asset_types_from :: "asset \<Rightarrow> asset_types" where
  "asset_types_from a = (if xcm_asset_id a = (0, []) then AssetBalances else AssetUnknown)"

text \<open>A wild filter: all assets, all of one kind, or at most a number of either.\<close>

datatype wild_asset = AllAssets | AllOf location | AllCounted u32 | AllOfCounted location u32

datatype asset_filter = Definite "asset list" | Wild wild_asset

definition MAX_ASSETS :: u64 where "MAX_ASSETS = 1"

definition weight_max :: weight where "weight_max = (- 1, - 1)"

definition type_weight :: "weight \<Rightarrow> asset_types \<Rightarrow> weight" where
  "type_weight balances_weight t = (case t of AssetBalances \<Rightarrow> balances_weight | AssetUnknown \<Rightarrow> weight_max)"

definition weigh_assets :: "asset list \<Rightarrow> weight \<Rightarrow> weight" where
  "weigh_assets assets balances_weight =
     fold (\<lambda>x acc. weight_add acc x) (map (type_weight balances_weight) (map asset_types_from assets)) (0, 0)"

definition weigh_filter :: "asset_filter \<Rightarrow> weight \<Rightarrow> weight" where
  "weigh_filter f balances_weight = (case f of
     Definite assets \<Rightarrow>
       fold (\<lambda>x acc. weight_add acc x) (map (type_weight balances_weight) (map asset_types_from assets)) (0, 0)
   | Wild (AllOf _) \<Rightarrow> balances_weight
   | Wild (AllOfCounted _ _) \<Rightarrow> balances_weight
   | Wild (AllCounted count) \<Rightarrow> weight_mul balances_weight (min MAX_ASSETS (ucast count))
   | Wild AllAssets \<Rightarrow> weight_mul balances_weight MAX_ASSETS)"

section \<open>Weighing instructions\<close>

text \<open>
  The instructions, with the arguments that the weights look at. Of a transfer filter, the inner asset
  filter is read.
\<close>

datatype hint = AssetClaimer location

datatype xcm_instruction =
    WithdrawAsset "asset list" | ReserveAssetDeposited "asset list" | ReceiveTeleportedAsset "asset list"
  | QueryResponse | TransferAsset "asset list" | TransferReserveAsset "asset list" | Transact
  | HrmpNewChannelOpenRequest | HrmpChannelAccepted | HrmpChannelClosing | ClearOrigin | DescendOrigin
  | ReportError | DepositAsset asset_filter | DepositReserveAsset asset_filter | ExchangeAsset
  | InitiateReserveWithdraw asset_filter | InitiateTeleport asset_filter
  | InitiateTransfer "asset_filter option" "asset_filter list" | ReportHolding | BuyExecution | PayFees
  | RefundSurplus | SetErrorHandler | SetAppendix | ClearError | SetHints "hint list" | ClaimAsset | Trap
  | SubscribeVersion | UnsubscribeVersion | BurnAsset "asset list" | ExpectAsset "asset list" | ExpectOrigin
  | ExpectError | ExpectTransactStatus | QueryPallet | ExpectPallet | ReportTransactStatus
  | ClearTransactStatus | UniversalOrigin | ExportMessage | LockAsset | UnlockAsset | NoteUnlockable
  | RequestUnlock | SetFeesMode | SetTopic | ClearTopic | AliasOrigin | UnpaidExecution | ExecuteWithOrigin

definition weigh_transfer :: "db_weight \<Rightarrow> asset_filter option \<Rightarrow> asset_filter list \<Rightarrow> weight" where
  "weigh_transfer db remote_fees assets =
     (let w = (case remote_fees of
                 Some fees \<Rightarrow> weigh_filter fees (fungible_initiate_transfer db)
               | None \<Rightarrow> (0, 0))
      in fold (\<lambda>asset_filter w.
           let extra = weigh_filter asset_filter (fungible_initiate_transfer db) in weight_add w extra) assets w)"

definition weigh_hints :: "db_weight \<Rightarrow> hint list \<Rightarrow> weight" where
  "weigh_hints db hints =
     fold (\<lambda>h w. case h of AssetClaimer _ \<Rightarrow> weight_add w (generic_asset_claimer db)) hints (0, 0)"

definition westend_xcm_weight :: "db_weight \<Rightarrow> xcm_instruction \<Rightarrow> weight" where
  "westend_xcm_weight db i = (case i of
     WithdrawAsset a \<Rightarrow> weigh_assets a (fungible_withdraw_asset db)
   | ReserveAssetDeposited a \<Rightarrow> weigh_assets a (fungible_reserve_asset_deposited db)
   | ReceiveTeleportedAsset a \<Rightarrow> weigh_assets a (fungible_receive_teleported_asset db)
   | QueryResponse \<Rightarrow> generic_query_response db
   | TransferAsset a \<Rightarrow> weigh_assets a (fungible_transfer_asset db)
   | TransferReserveAsset a \<Rightarrow> weigh_assets a (fungible_transfer_reserve_asset db)
   | Transact \<Rightarrow> generic_transact db
   | HrmpNewChannelOpenRequest \<Rightarrow> weight_max
   | HrmpChannelAccepted \<Rightarrow> weight_max
   | HrmpChannelClosing \<Rightarrow> weight_max
   | ClearOrigin \<Rightarrow> generic_clear_origin db
   | DescendOrigin \<Rightarrow> generic_descend_origin db
   | ReportError \<Rightarrow> generic_report_error db
   | DepositAsset f \<Rightarrow> weigh_filter f (fungible_deposit_asset db)
   | DepositReserveAsset f \<Rightarrow> weigh_filter f (fungible_deposit_reserve_asset db)
   | ExchangeAsset \<Rightarrow> weight_max
   | InitiateReserveWithdraw f \<Rightarrow> weigh_filter f (fungible_initiate_reserve_withdraw db)
   | InitiateTeleport f \<Rightarrow> weigh_filter f (fungible_initiate_teleport db)
   | InitiateTransfer r fs \<Rightarrow> weigh_transfer db r fs
   | ReportHolding \<Rightarrow> generic_report_holding db
   | BuyExecution \<Rightarrow> generic_buy_execution db
   | PayFees \<Rightarrow> generic_pay_fees db
   | RefundSurplus \<Rightarrow> generic_refund_surplus db
   | SetErrorHandler \<Rightarrow> generic_set_error_handler db
   | SetAppendix \<Rightarrow> generic_set_appendix db
   | ClearError \<Rightarrow> generic_clear_error db
   | SetHints hs \<Rightarrow> weigh_hints db hs
   | ClaimAsset \<Rightarrow> generic_claim_asset db
   | Trap \<Rightarrow> generic_trap db
   | SubscribeVersion \<Rightarrow> generic_subscribe_version db
   | UnsubscribeVersion \<Rightarrow> generic_unsubscribe_version db
   | BurnAsset a \<Rightarrow> weigh_assets a (generic_burn_asset db)
   | ExpectAsset a \<Rightarrow> weigh_assets a (generic_expect_asset db)
   | ExpectOrigin \<Rightarrow> generic_expect_origin db
   | ExpectError \<Rightarrow> generic_expect_error db
   | ExpectTransactStatus \<Rightarrow> generic_expect_transact_status db
   | QueryPallet \<Rightarrow> generic_query_pallet db
   | ExpectPallet \<Rightarrow> generic_expect_pallet db
   | ReportTransactStatus \<Rightarrow> generic_report_transact_status db
   | ClearTransactStatus \<Rightarrow> generic_clear_transact_status db
   | UniversalOrigin \<Rightarrow> weight_max
   | ExportMessage \<Rightarrow> weight_max
   | LockAsset \<Rightarrow> weight_max
   | UnlockAsset \<Rightarrow> weight_max
   | NoteUnlockable \<Rightarrow> weight_max
   | RequestUnlock \<Rightarrow> weight_max
   | SetFeesMode \<Rightarrow> generic_set_fees_mode db
   | SetTopic \<Rightarrow> generic_set_topic db
   | ClearTopic \<Rightarrow> generic_clear_topic db
   | AliasOrigin \<Rightarrow> generic_alias_origin db
   | UnpaidExecution \<Rightarrow> generic_unpaid_execution db
   | ExecuteWithOrigin \<Rightarrow> generic_execute_with_origin db)"

section \<open>Closed forms\<close>

definition known_assets :: "asset list \<Rightarrow> bool" where
  "known_assets as \<longleftrightarrow> list_all (\<lambda>a. xcm_asset_id a = (0, [])) as"

lemma sat_add_max: "sat_add (- 1) x = - 1" "sat_add x (- 1) = (- 1 :: u64)"
  by (simp_all add: word_unat_eq_iff unat_sat_add unat_minus_one)

lemma weight_add_max: "weight_add weight_max w = weight_max" "weight_add w weight_max = weight_max"
  by (simp_all add: weight_add_def weight_max_def sat_add_max)

lemma weigh_assets_unknown:
  assumes "\<not> known_assets as"
  shows "weigh_assets as w = weight_max"
proof -
  have max: "fold (\<lambda>x acc. weight_add acc x) ws weight_max = weight_max" for ws
    by (induction ws) (simp_all add: weight_add_max)
  have "fold (\<lambda>x acc. weight_add acc x) (map (type_weight w) (map asset_types_from as)) acc = weight_max" for acc
    using assms
    by (induction as arbitrary: acc)
      (auto simp: known_assets_def asset_types_from_def type_weight_def weight_add_max max)
  then show ?thesis by (simp add: weigh_assets_def)
qed

lemma weigh_assets_known:
  assumes "known_assets as"
  shows "unat (fst (weigh_assets as w)) = min (length as * unat (fst w)) (2 ^ 64 - 1)"
proof -
  have "unat (fst (fold (\<lambda>x acc. weight_add acc x) (map (type_weight w) (map asset_types_from as)) acc)) =
    min (unat (fst acc) + length as * unat (fst w)) (2 ^ 64 - 1)" for acc :: weight
    using assms
  proof (induction as arbitrary: acc)
    case Nil
    have "unat (fst acc) < 2 ^ 64" using unsigned_less [of "fst acc"] by simp
    then show ?case by simp
  next
    case (Cons a as)
    then show ?case
      by (simp add: known_assets_def asset_types_from_def type_weight_def weight_add_def unat_sat_add)
  qed
  then show ?thesis by (simp add: weigh_assets_def)
qed

section \<open>Affordable and prohibitive instructions\<close>

text \<open>Database weights of at most \<open>2 ^ 30\<close> picoseconds for each access; the node's are 25 and 100 million.\<close>

definition db_light :: "db_weight \<Rightarrow> bool" where
  "db_light db \<longleftrightarrow> (\<forall>n. unat (fst (db_reads db n)) \<le> unat n * 2 ^ 30 \<and> unat (fst (db_writes db n)) \<le> unat n * 2 ^ 30)"

text \<open>What the decoder bounds: 20 assets in a list, 6 filters of a transfer, one hint.\<close>

fun filter_bounded :: "asset_filter \<Rightarrow> bool" where
  "filter_bounded (Definite as) = (length as \<le> 20)"
| "filter_bounded (Wild w) = True"

definition xcm_bounded :: "xcm_instruction \<Rightarrow> bool" where
  "xcm_bounded i = (case i of
     WithdrawAsset a \<Rightarrow> length a \<le> 20 | ReserveAssetDeposited a \<Rightarrow> length a \<le> 20
   | ReceiveTeleportedAsset a \<Rightarrow> length a \<le> 20 | TransferAsset a \<Rightarrow> length a \<le> 20
   | TransferReserveAsset a \<Rightarrow> length a \<le> 20 | BurnAsset a \<Rightarrow> length a \<le> 20 | ExpectAsset a \<Rightarrow> length a \<le> 20
   | DepositAsset f \<Rightarrow> filter_bounded f | DepositReserveAsset f \<Rightarrow> filter_bounded f
   | InitiateReserveWithdraw f \<Rightarrow> filter_bounded f | InitiateTeleport f \<Rightarrow> filter_bounded f
   | InitiateTransfer r fs \<Rightarrow> (case r of None \<Rightarrow> True | Some f \<Rightarrow> filter_bounded f) \<and>
       length fs \<le> 6 \<and> list_all filter_bounded fs
   | SetHints hs \<Rightarrow> length hs \<le> 1
   | _ \<Rightarrow> True)"

fun filter_known :: "asset_filter \<Rightarrow> bool" where
  "filter_known (Definite as) = known_assets as"
| "filter_known (Wild w) = True"

text \<open>
  The ten instructions of the first three lines are without support. \<open>ExecuteWithOrigin\<close> is
  supported with a prohibitive benchmark, as is \<open>ReserveAssetDeposited\<close> of at least one asset. The
  others are those whose list of assets, or whose definite filter, names an asset other than the relay
  token. \<open>BuyExecution\<close>, \<open>PayFees\<close> and \<open>ClaimAsset\<close> weigh the same for every asset, and a wild filter weighs
  the same for every kind of asset: they are not among them.
\<close>

definition prohibited :: "xcm_instruction \<Rightarrow> bool" where
  "prohibited i = (case i of
     HrmpNewChannelOpenRequest \<Rightarrow> True | HrmpChannelAccepted \<Rightarrow> True | HrmpChannelClosing \<Rightarrow> True
   | ExchangeAsset \<Rightarrow> True | UniversalOrigin \<Rightarrow> True | ExportMessage \<Rightarrow> True | LockAsset \<Rightarrow> True
   | UnlockAsset \<Rightarrow> True | NoteUnlockable \<Rightarrow> True | RequestUnlock \<Rightarrow> True
   | ExecuteWithOrigin \<Rightarrow> True
   | ReserveAssetDeposited a \<Rightarrow> a \<noteq> []
   | WithdrawAsset a \<Rightarrow> \<not> known_assets a | ReceiveTeleportedAsset a \<Rightarrow> \<not> known_assets a
   | TransferAsset a \<Rightarrow> \<not> known_assets a | TransferReserveAsset a \<Rightarrow> \<not> known_assets a
   | BurnAsset a \<Rightarrow> \<not> known_assets a | ExpectAsset a \<Rightarrow> \<not> known_assets a
   | DepositAsset f \<Rightarrow> \<not> filter_known f | DepositReserveAsset f \<Rightarrow> \<not> filter_known f
   | InitiateReserveWithdraw f \<Rightarrow> \<not> filter_known f | InitiateTeleport f \<Rightarrow> \<not> filter_known f
   | InitiateTransfer r fs \<Rightarrow> \<not> ((case r of None \<Rightarrow> True | Some f \<Rightarrow> filter_known f) \<and> list_all filter_known fs)
   | _ \<Rightarrow> False)"

lemma unat_weight_add: "unat (fst (weight_add v w)) = min (unat (fst v) + unat (fst w)) (2 ^ 64 - 1)"
  by (simp add: weight_add_def unat_sat_add)

lemma weight_add_le: "unat (fst (weight_add v w)) \<le> unat (fst v) + unat (fst w)"
  by (simp add: unat_weight_add)

text \<open>A benchmark of at most 13 accesses and \<open>2 ^ 27\<close> picoseconds.\<close>

definition light :: "weight \<Rightarrow> bool" where
  "light w \<longleftrightarrow> unat (fst w) < 2 ^ 34"

lemma light_bench:
  assumes "db_light db" and "unat t < 2 ^ 28" and "unat r + unat w \<le> 13"
  shows "light (weight_add (weight_add (t, p) (db_reads db r)) (db_writes db w))"
proof -
  have "unat (fst (weight_add (weight_add (t, p) (db_reads db r)) (db_writes db w))) \<le>
      unat t + unat (fst (db_reads db r)) + unat (fst (db_writes db w))"
    using weight_add_le [of "weight_add (t, p) (db_reads db r)" "db_writes db w"] weight_add_le [of "(t, p)" "db_reads db r"]
    by simp
  also have "\<dots> \<le> unat t + unat r * 2 ^ 30 + unat w * 2 ^ 30"
    using assms(1) unfolding db_light_def by (metis add_mono add_left_mono add.assoc)
  also have "\<dots> < 2 ^ 34" using assms(2,3) by simp
  finally show ?thesis by (simp add: light_def)
qed

lemma light_bench1:
  assumes "db_light db" and "unat t < 2 ^ 28" and "unat n \<le> 13"
  shows "light (weight_add (t, p) (db_reads db n))" and "light (weight_add (t, p) (db_writes db n))"
proof -
  have "unat (fst (weight_add (t, p) (db_reads db n))) \<le> unat t + unat (fst (db_reads db n))"
    and "unat (fst (weight_add (t, p) (db_writes db n))) \<le> unat t + unat (fst (db_writes db n))"
    using weight_add_le [of "(t, p)"] by simp_all
  moreover have "unat (fst (db_reads db n)) \<le> unat n * 2 ^ 30" "unat (fst (db_writes db n)) \<le> unat n * 2 ^ 30"
    using assms(1) by (simp_all add: db_light_def)
  ultimately show "light (weight_add (t, p) (db_reads db n))" "light (weight_add (t, p) (db_writes db n))"
    using assms(2,3) by (simp_all add: light_def)
qed

lemma light_const: "unat t < 2 ^ 28 \<Longrightarrow> light (t, p)"
  by (simp add: light_def)

lemma bench_light:
  assumes "db_light db"
  shows "light (fungible_withdraw_asset db)"
    "light (fungible_transfer_asset db)"
    "light (fungible_transfer_reserve_asset db)"
    "light (fungible_initiate_reserve_withdraw db)"
    "light (fungible_receive_teleported_asset db)"
    "light (fungible_deposit_asset db)"
    "light (fungible_deposit_reserve_asset db)"
    "light (fungible_initiate_teleport db)"
    "light (fungible_initiate_transfer db)"
    "light (generic_report_holding db)"
    "light (generic_buy_execution db)"
    "light (generic_pay_fees db)"
    "light (generic_asset_claimer db)"
    "light (generic_query_response db)"
    "light (generic_transact db)"
    "light (generic_refund_surplus db)"
    "light (generic_set_error_handler db)"
    "light (generic_set_appendix db)"
    "light (generic_clear_error db)"
    "light (generic_descend_origin db)"
    "light (generic_clear_origin db)"
    "light (generic_report_error db)"
    "light (generic_claim_asset db)"
    "light (generic_trap db)"
    "light (generic_subscribe_version db)"
    "light (generic_unsubscribe_version db)"
    "light (generic_burn_asset db)"
    "light (generic_expect_asset db)"
    "light (generic_expect_origin db)"
    "light (generic_expect_error db)"
    "light (generic_expect_transact_status db)"
    "light (generic_query_pallet db)"
    "light (generic_expect_pallet db)"
    "light (generic_report_transact_status db)"
    "light (generic_clear_transact_status db)"
    "light (generic_set_topic db)"
    "light (generic_clear_topic db)"
    "light (generic_set_fees_mode db)"
    "light (generic_unpaid_execution db)"
    "light (generic_alias_origin db)"
  unfolding bench_defs
  by (rule light_bench [OF assms] light_bench1 [OF assms] light_const; simp)+

text \<open>A share of \<open>2 ^ 39\<close> per list or filter of relay tokens.\<close>

lemma weigh_assets_light:
  assumes "known_assets as" and "length as \<le> 20" and "light w"
  shows "unat (fst (weigh_assets as w)) < 2 ^ 39"
proof -
  have "length as * unat (fst w) \<le> 20 * unat (fst w)" using assms(2) by (rule mult_le_mono1)
  also have "\<dots> < 2 ^ 39" using assms(3) by (simp add: light_def)
  finally show ?thesis using weigh_assets_known [OF assms(1), of w] by simp
qed

lemma weigh_definite: "weigh_filter (Definite as) w = weigh_assets as w"
  by (simp add: weigh_filter_def weigh_assets_def)

lemma weigh_wild: "unat (fst (weigh_filter (Wild x) w)) \<le> unat (fst w)"
proof -
  have "unat (min MAX_ASSETS y) \<le> 1" for y by (simp add: MAX_ASSETS_def min_def word_le_nat_alt)
  then have "unat (fst w) * unat (min MAX_ASSETS y) \<le> unat (fst w) * 1" for y by (intro mult_le_mono2)
  moreover have "unat MAX_ASSETS = 1" by (simp add: MAX_ASSETS_def)
  ultimately show ?thesis
    by (cases x) (auto simp: weigh_filter_def weight_mul_def unat_sat_mul min.coboundedI1)
qed

lemma weigh_filter_light:
  assumes "filter_known f" and "filter_bounded f" and "light w"
  shows "unat (fst (weigh_filter f w)) < 2 ^ 39"
proof (cases f)
  case (Definite as)
  then show ?thesis using weigh_assets_light assms by (simp add: weigh_definite)
next
  case (Wild x)
  then show ?thesis using weigh_wild [of x w] assms(3) by (simp add: light_def)
qed

lemma weigh_filter_unknown: "\<not> filter_known f \<Longrightarrow> weigh_filter f w = weight_max"
  by (cases f) (simp_all add: weigh_definite weigh_assets_unknown)

lemma fold_weight_max:
  assumes "w = weight_max \<or> (\<exists>x \<in> set xs. g x = weight_max)"
  shows "fold (\<lambda>x w. weight_add w (g x)) xs w = weight_max"
  using assms
proof (induction xs arbitrary: w)
  case (Cons x xs)
  have "weight_add w (g x) = weight_max \<or> (\<exists>y \<in> set xs. g y = weight_max)"
    using Cons.prems by (auto simp: weight_add_max)
  then show ?case using Cons.IH by simp
qed simp

lemma weigh_transfer_unknown:
  assumes "\<not> ((case r of None \<Rightarrow> True | Some f \<Rightarrow> filter_known f) \<and> list_all filter_known fs)"
  shows "weigh_transfer db r fs = weight_max"
  unfolding weigh_transfer_def Let_def
  by (rule fold_weight_max)
    (use assms in \<open>auto simp: list_all_iff split: option.splits dest: weigh_filter_unknown [of _ "fungible_initiate_transfer db"]\<close>)

lemma weigh_transfer_light:
  assumes "(case r of None \<Rightarrow> True | Some f \<Rightarrow> filter_known f \<and> filter_bounded f)"
    and "list_all filter_known fs" and "list_all filter_bounded fs" and "length fs \<le> 6" and "db_light db"
  shows "unat (fst (weigh_transfer db r fs)) < 2 ^ 42"
proof -
  let ?step = "\<lambda>f w. let extra = weigh_filter f (fungible_initiate_transfer db) in weight_add w extra"
  have l: "light (fungible_initiate_transfer db)" using bench_light [OF assms(5)] by simp
  have "unat (fst (fold ?step fs w)) \<le> unat (fst w) + length fs * 2 ^ 39" for w
    using assms(2,3)
  proof (induction fs arbitrary: w)
    case (Cons f fs)
    have "unat (fst (fold ?step fs (?step f w))) \<le> unat (fst (?step f w)) + length fs * 2 ^ 39"
      using Cons by simp
    also have "unat (fst (?step f w)) \<le> unat (fst w) + 2 ^ 39"
      using weight_add_le [of w "weigh_filter f (fungible_initiate_transfer db)"] weigh_filter_light [OF _ _ l, of f] Cons.prems
      by simp
    finally show ?case by simp
  qed simp
  moreover have "unat (fst (case r of Some f \<Rightarrow> weigh_filter f (fungible_initiate_transfer db) | None \<Rightarrow> (0, 0))) \<le> 2 ^ 39"
    using assms(1) weigh_filter_light [OF _ _ l] by (auto split: option.splits intro: less_imp_le)
  ultimately have "unat (fst (weigh_transfer db r fs)) \<le> 2 ^ 39 + length fs * 2 ^ 39"
    unfolding weigh_transfer_def Let_def by (meson add_right_mono order_trans)
  then show ?thesis using assms(4) by simp
qed

lemma weigh_hints_light:
  assumes "length hs \<le> 1" and "db_light db"
  shows "unat (fst (weigh_hints db hs)) < 2 ^ 42"
proof (cases hs)
  case (Cons h hs')
  then have "weigh_hints db hs = weight_add (0, 0) (generic_asset_claimer db)"
    using assms(1) by (simp add: weigh_hints_def split: hint.split)
  then show ?thesis
    using weight_add_le [of "(0, 0)" "generic_asset_claimer db"] bench_light [OF assms(2)] by (simp add: light_def)
qed (simp add: weigh_hints_def)

lemma reserve_deposit_prohibitive:
  assumes "a \<noteq> []"
  shows "18446744073709551000 \<le> unat (fst (weigh_assets a (fungible_reserve_asset_deposited db)))"
proof (cases "known_assets a")
  case True
  have "1 * 18446744073709551000 \<le> length a * (18446744073709551000 :: nat)"
    using assms by (intro mult_le_mono1) (simp add: Suc_leI)
  then show ?thesis
    using weigh_assets_known [OF True, of "fungible_reserve_asset_deposited db"]
    by (simp add: fungible_reserve_asset_deposited_def)
qed (simp add: weigh_assets_unknown weight_max_def unat_minus_one)

text \<open>
  C37. The price of an XCM instruction has a gap. Let one database access weigh at most \<open>2 ^ 30\<close>
  picoseconds (\<open>db_light\<close>), and let the lists of the instruction be within the decoder's bounds: at most
  20 assets in a list or definite filter, 6 filters of a transfer, one hint. Then an instruction that is
  \<open>prohibited\<close> weighs at least 18446744073709551000 picoseconds, more than 213 days: the ten
  instructions without support, \<open>ExecuteWithOrigin\<close>, \<open>ReserveAssetDeposited\<close> of at least one asset, and
  \<open>WithdrawAsset\<close>, \<open>ReceiveTeleportedAsset\<close>, \<open>TransferAsset\<close>, \<open>TransferReserveAsset\<close>, \<open>BurnAsset\<close>, \<open>ExpectAsset\<close>
  and the five instructions that take asset filters (\<open>DepositAsset\<close>, \<open>DepositReserveAsset\<close>,
  \<open>InitiateReserveWithdraw\<close>, \<open>InitiateTeleport\<close>, \<open>InitiateTransfer\<close>) when their list, or a definite
  filter of theirs, names an asset beside the relay token. Every other instruction weighs less than
  \<open>2 ^ 42\<close> picoseconds, under five seconds; these include \<open>BuyExecution\<close>, \<open>PayFees\<close>, \<open>ClaimAsset\<close> and wild
  filters whatever asset they name.
\<close>

theorem xcm_weight_gap:
  assumes "db_light db" and "xcm_bounded i"
  shows "if prohibited i then 18446744073709551000 \<le> unat (fst (westend_xcm_weight db i))
    else unat (fst (westend_xcm_weight db i)) < 2 ^ 42"
proof (cases "prohibited i")
  case True
  then show ?thesis
    by (cases i)
      (simp_all add: prohibited_def westend_xcm_weight_def weigh_assets_unknown weigh_filter_unknown
        weigh_transfer_unknown weight_max_def unat_minus_one generic_execute_with_origin_def
        reserve_deposit_prohibitive)
next
  case False
  have l: "light w \<Longrightarrow> unat (fst w) < 2 ^ 42" for w by (simp add: light_def)
  have a: "known_assets as \<Longrightarrow> length as \<le> 20 \<Longrightarrow> light w \<Longrightarrow> unat (fst (weigh_assets as w)) < 2 ^ 42" for as w
    using weigh_assets_light [of as w] by simp
  have f: "filter_known f \<Longrightarrow> filter_bounded f \<Longrightarrow> light w \<Longrightarrow> unat (fst (weigh_filter f w)) < 2 ^ 42" for f w
    using weigh_filter_light [of f w] by simp
  have t: "unat (fst (weigh_transfer db r fs)) < 2 ^ 42" if "i = InitiateTransfer r fs" for r fs
    using False assms weigh_transfer_light [of r fs db] that
    by (auto simp: prohibited_def xcm_bounded_def split: option.splits)
  have "unat (fst (westend_xcm_weight db i)) < 2 ^ 42"
  proof (cases i)
    case (InitiateTransfer r fs)
    then show ?thesis using t by (simp add: westend_xcm_weight_def)
  next
    case (ReserveAssetDeposited as)
    then show ?thesis using False by (simp add: prohibited_def westend_xcm_weight_def weigh_assets_def)
  qed (use False assms(2) bench_light [OF assms(1), THEN l] bench_light [OF assms(1)]
        weigh_hints_light [OF _ assms(1)] in \<open>auto simp only: prohibited_def xcm_bounded_def
        westend_xcm_weight_def xcm_instruction.case not_True_eq_False intro!: a f\<close>)
  then show ?thesis using False by simp
qed

text \<open>The test of the source: a count of \<open>u32::MAX\<close> weighs one asset. Any count but 0 does.\<close>

lemma all_counted_one:
  assumes "count \<noteq> 0"
  shows "weigh_filter (Wild (AllCounted count)) w = weight_mul w MAX_ASSETS"
proof -
  have "(ucast count :: u64) \<noteq> 0"
  proof
    assume "(ucast count :: u64) = 0"
    then have "ucast (ucast count :: u64) = (0 :: u32)" by simp
    then show False using assms by simp
  qed
  then have "MAX_ASSETS \<le> ucast count" by (simp add: MAX_ASSETS_def word_le_nat_alt unat_gt_0 Suc_leI)
  then show ?thesis by (simp add: weigh_filter_def min_def)
qed

definition westend_db :: db_weight where
  "westend_db = \<lparr>db_reads = (\<lambda>n. (sat_mul 25000000 n, 0)), db_writes = (\<lambda>n. (sat_mul 100000000 n, 0))\<rparr>"

lemma westend_db_light: "db_light westend_db"
proof -
  have "unat (sat_mul 25000000 n) \<le> unat n * 2 ^ 30" "unat (sat_mul 100000000 n) \<le> unat n * 2 ^ 30" for n :: u64
    by (simp_all add: unat_sat_mul min.coboundedI1)
  then show ?thesis by (simp add: db_light_def westend_db_def)
qed

lemma xcm_weight_gap_witness:
  "18446744073709551000 \<le> unat (fst (westend_xcm_weight westend_db
      (WithdrawAsset [\<lparr>xcm_asset_id = (1, []), fungible = 5\<rparr>]))) \<and>
    unat (fst (westend_xcm_weight westend_db (InitiateTransfer (Some (Wild (AllCounted 7)))
      [Definite [\<lparr>xcm_asset_id = (0, []), fungible = 5\<rparr>]]))) < 2 ^ 42"
  using xcm_weight_gap [OF westend_db_light, of "WithdrawAsset [\<lparr>xcm_asset_id = (1, []), fungible = 5\<rparr>]"]
    xcm_weight_gap [OF westend_db_light, of "InitiateTransfer (Some (Wild (AllCounted 7)))
      [Definite [\<lparr>xcm_asset_id = (0, []), fungible = 5\<rparr>]]"]
  by (simp add: xcm_bounded_def prohibited_def known_assets_def)

section \<open>Location filters\<close>

definition OnlyParachains :: "location \<Rightarrow> bool" where
  "OnlyParachains l = (case l of (0, [Parachain _]) \<Rightarrow> True | _ \<Rightarrow> False)"

text \<open>The id of the Collectives chain is a constant of another crate.\<close>

definition Fellows_filter :: "u32 \<Rightarrow> location \<Rightarrow> bool" where
  "Fellows_filter COLLECTIVES_ID l = (case l of
     (0, [Parachain para, Plurality BodyTechnical]) \<Rightarrow> para = COLLECTIVES_ID | _ \<Rightarrow> False)"

definition LocalPlurality :: "location \<Rightarrow> bool" where
  "LocalPlurality l = (case l of (0, [Plurality _]) \<Rightarrow> True | _ \<Rightarrow> False)"

text \<open>No location passes two of the filters.\<close>

lemma location_filters_disjoint:
  "\<not> (OnlyParachains l \<and> Fellows_filter c l)" "\<not> (OnlyParachains l \<and> LocalPlurality l)"
  "\<not> (Fellows_filter c l \<and> LocalPlurality l)"
  by (auto simp: OnlyParachains_def Fellows_filter_def LocalPlurality_def
      split: prod.splits nat.splits list.splits junction.splits body_id.splits)

end
