(* ===== verification/Frame.thy ===== *)
theory Frame
  imports Prelude
begin

text \<open>
  The frame around a pallet: origins, dispatch errors, transaction validity, and the execution
  of a sequence of extrinsics.

  An extrinsic is a function from the storage to \<open>error + storage\<close>. FRAME runs every dispatchable
  in a storage layer of its own, so an extrinsic that returns an error leaves the storage as it
  was: \<open>run\<close> keeps the old state on \<open>Inl\<close>. The locale \<open>one_shot\<close> is the interface a pallet
  offers for a guard (nullifiers, spend tags, serials, keys) that is consumed once; its client
  lemmas speak about whole runs.
\<close>

section \<open>Origins, errors, validity\<close>

datatype 'acct origin = Root | Signed 'acct | Unsigned

text \<open>
  \<open>External\<close> stands for an error a pallet outside the repository returns (the balances pallet);
  \<open>InvalidTx\<close> for a transaction the pool or the block builder refuses before dispatch; \<open>Panic\<close> for a
  trap of the runtime (an out-of-range slice), which also undoes the extrinsic.
\<close>

datatype invalid_transaction = Call | Stale | BadProof | BadMandatory | ExhaustsResources

datatype 'e dispatch_error =
    BadOrigin | Module 'e | External nat | InvalidTx invalid_transaction | Panic

definition ensure_signed :: "'acct origin \<Rightarrow> 'acct option" where
  "ensure_signed orig = (case orig of Signed who \<Rightarrow> Some who | _ \<Rightarrow> None)"

definition ensure_none :: "'acct origin \<Rightarrow> bool" where
  "ensure_none orig = (case orig of Unsigned \<Rightarrow> True | _ \<Rightarrow> False)"

definition ensure_root :: "'acct origin \<Rightarrow> bool" where
  "ensure_root orig = (case orig of Root \<Rightarrow> True | _ \<Rightarrow> False)"

lemma ensure_none_iff [simp]: "ensure_none orig \<longleftrightarrow> orig = Unsigned"
  by (cases orig) (simp_all add: ensure_none_def)

lemma ensure_root_iff [simp]: "ensure_root orig \<longleftrightarrow> orig = Root"
  by (cases orig) (simp_all add: ensure_root_def)

lemma ensure_signed_simps [simp]:
  "ensure_signed (Signed a) = Some a" "ensure_signed Root = None" "ensure_signed Unsigned = None"
  by (simp_all add: ensure_signed_def)

lemma ensure_signed_Some [simp]: "ensure_signed orig = Some a \<longleftrightarrow> orig = Signed a"
  by (cases orig) (simp_all add: ensure_signed_def)

text \<open>The tags a valid unsigned transaction provides, as the values the builder is given.\<close>

datatype tag = Tag128 h128 | Tag256 h256 | TagList "h256 list"

record valid_transaction =
  tag_prefix :: string
  provides :: "tag list"
  priority :: nat
  longevity :: nat
  propagate :: bool

type_synonym validity = "invalid_transaction + valid_transaction"

definition ValidTransaction :: "string \<Rightarrow> tag list \<Rightarrow> nat \<Rightarrow> validity" where
  "ValidTransaction pre ts lon =
     Inr \<lparr>tag_prefix = pre, provides = ts, priority = 100, longevity = lon, propagate = True\<rparr>"

datatype existence_requirement = KeepAlive | AllowDeath

section \<open>Early returns\<close>

text \<open>
  \<open>ensure c e k\<close> is \<open>ensure!(c, e)\<close> followed by \<open>k\<close>; \<open>ok_or x e k\<close> is \<open>x.ok_or(e)?\<close> bound in \<open>k\<close>;
  \<open>bind_res m k\<close> is \<open>m?\<close> bound in \<open>k\<close>. The inversion rules are simp rules, so a proof about an
  accepted call starts with all its guards as facts.
\<close>

definition ensure :: "bool \<Rightarrow> 'e \<Rightarrow> 'e + 'a \<Rightarrow> 'e + 'a" where
  "ensure c e k = (if c then k else Inl e)"

definition ok_or :: "'b option \<Rightarrow> 'e \<Rightarrow> ('b \<Rightarrow> 'e + 'a) \<Rightarrow> 'e + 'a" where
  "ok_or x e k = (case x of None \<Rightarrow> Inl e | Some v \<Rightarrow> k v)"

definition bind_res :: "'e + 'b \<Rightarrow> ('b \<Rightarrow> 'e + 'a) \<Rightarrow> 'e + 'a" where
  "bind_res m k = (case m of Inl e \<Rightarrow> Inl e | Inr v \<Rightarrow> k v)"

lemma ensure_Inr [simp]: "ensure c e k = Inr s \<longleftrightarrow> c \<and> k = Inr s"
  by (simp add: ensure_def)

lemma ok_or_Inr [simp]: "ok_or x e k = Inr s \<longleftrightarrow> (\<exists>v. x = Some v \<and> k v = Inr s)"
  by (simp add: ok_or_def split: option.splits)

lemma bind_res_Inr [simp]: "bind_res m k = Inr s \<longleftrightarrow> (\<exists>v. m = Inr v \<and> k v = Inr s)"
  by (simp add: bind_res_def split: sum.splits)

lemma ensure_simps [simp]: "ensure True e k = k" "ensure False e k = Inl e"
  by (simp_all add: ensure_def)

lemma ok_or_simps [simp]: "ok_or (Some v) e k = k v" "ok_or None e k = Inl e"
  by (simp_all add: ok_or_def)

lemma bind_res_simps [simp]: "bind_res (Inr v) k = k v" "bind_res (Inl e) k = Inl e"
  by (simp_all add: bind_res_def)

section \<open>Bounded vectors\<close>

text \<open>\<open>try_push\<close> of a \<open>BoundedVec\<close> whose result is discarded; the recent-roots window of the pallets.\<close>

definition bounded_push :: "nat \<Rightarrow> 'a list \<Rightarrow> 'a \<Rightarrow> 'a list" where
  "bounded_push n xs x = (if length xs < n then xs @ [x] else xs)"

definition push_window :: "'a list \<Rightarrow> 'a \<Rightarrow> 'a list" where
  "push_window window prev =
     (let window = (if length window \<ge> 64 then fold (\<lambda>x xs. bounded_push 64 xs x) (drop 1 window) [] else window)
      in bounded_push 64 window prev)"

lemma fold_bounded_push:
  "length ys + length xs \<le> n \<Longrightarrow> fold (\<lambda>x xs. bounded_push n xs x) xs ys = ys @ xs"
  by (induction xs arbitrary: ys) (simp_all add: bounded_push_def)

lemma push_window_eq:
  "length w \<le> 64 \<Longrightarrow> push_window w x = (if length w = 64 then drop 1 w else w) @ [x]"
  by (auto simp: push_window_def Let_def fold_bounded_push) (auto simp: bounded_push_def)

lemma length_push_window: "length w \<le> 64 \<Longrightarrow> length (push_window w x) \<le> 64"
  by (simp add: push_window_eq)

lemma set_push_window: "length w \<le> 64 \<Longrightarrow> set (push_window w x) \<subseteq> insert x (set w)"
  by (auto simp: push_window_eq dest: in_set_dropD)

lemma in_push_window: "length w \<le> 64 \<Longrightarrow> x \<in> set (push_window w x)"
  by (simp add: push_window_eq)

section \<open>Runs\<close>

fun run :: "('c \<Rightarrow> 's \<Rightarrow> 'e + 's) \<Rightarrow> 'c list \<Rightarrow> 's \<Rightarrow> 's" where
  "run ex [] s = s"
| "run ex (c # cs) s = run ex cs (case ex c s of Inl _ \<Rightarrow> s | Inr s' \<Rightarrow> s')"

fun accepted :: "('c \<Rightarrow> 's \<Rightarrow> 'e + 's) \<Rightarrow> 'c list \<Rightarrow> 's \<Rightarrow> 'c list" where
  "accepted ex [] s = []"
| "accepted ex (c # cs) s =
     (case ex c s of Inl _ \<Rightarrow> accepted ex cs s | Inr s' \<Rightarrow> c # accepted ex cs s')"

lemma run_append: "run ex (cs @ ds) s = run ex ds (run ex cs s)"
  by (induction cs arbitrary: s) auto

lemma run_invariant:
  assumes step: "\<And>c s s'. P s \<Longrightarrow> ex c s = Inr s' \<Longrightarrow> P s'" and "P s"
  shows "P (run ex cs s)"
  using \<open>P s\<close> by (induction cs arbitrary: s) (auto split: sum.split intro: step)

lemma run_frame:
  assumes "\<And>c s s'. ex c s = Inr s' \<Longrightarrow> f s' = f s"
  shows "f (run ex cs s) = f s"
  using assms by (induction cs arbitrary: s) (auto split: sum.split)

text \<open>What holds after a run and not before it was made true by an accepted call of the run.\<close>

lemma accepted_provenance:
  assumes step: "\<And>c s s'. ex c s = Inr s' \<Longrightarrow> Q s' \<Longrightarrow> Q s \<or> P c"
    and "Q (run ex cs s)" and "\<not> Q s"
  shows "\<exists>c \<in> set (accepted ex cs s). P c"
  using assms(2,3)
proof (induction cs arbitrary: s)
  case Nil
  then show ?case by simp
next
  case (Cons c cs)
  show ?case
  proof (cases "ex c s")
    case (Inl e)
    then show ?thesis using Cons by simp
  next
    case (Inr s')
    show ?thesis
    proof (cases "Q s'")
      case True
      then show ?thesis using step [OF Inr] Cons.prems Inr by auto
    next
      case False
      then show ?thesis using Cons.IH [of s'] Cons.prems Inr by auto
    qed
  qed
qed

lemma set_accepted: "set (accepted ex cs s) \<subseteq> set cs"
  by (induction cs arbitrary: s) (auto split: sum.split)

section \<open>Guards that are consumed once\<close>

text \<open>
  \<open>consumes c\<close> is the set of guard keys a call \<open>c\<close> must find unused and marks used, \<open>used\<close> the
  pallet's storage of used keys. The two laws: an accepted call finds its keys unused and leaves
  them used, and no accepted call makes a used key unused again.
\<close>

locale one_shot =
  fixes ex :: "'c \<Rightarrow> 's \<Rightarrow> 'e + 's"
    and used :: "'s \<Rightarrow> 'k \<Rightarrow> bool"
    and consumes :: "'c \<Rightarrow> 'k set"
  assumes consume: "ex c s = Inr s' \<Longrightarrow> k \<in> consumes c \<Longrightarrow> \<not> used s k \<and> used s' k"
    and keep_used: "ex c s = Inr s' \<Longrightarrow> used s k \<Longrightarrow> used s' k"
begin

lemma run_keeps_used: "used s k \<Longrightarrow> used (run ex cs s) k"
  by (rule run_invariant [where P = "\<lambda>s. used s k"]) (auto intro: keep_used)

lemma used_never_accepted:
  "used s k \<Longrightarrow> c \<in> set (accepted ex cs s) \<Longrightarrow> k \<notin> consumes c"
proof (induction cs arbitrary: s)
  case Nil
  then show ?case by simp
next
  case (Cons d cs)
  then show ?case
    by (auto split: sum.splits dest: consume intro: keep_used)
qed

lemma at_most_once: "length (filter (\<lambda>c. k \<in> consumes c) (accepted ex cs s)) \<le> 1"
proof (induction cs arbitrary: s)
  case Nil
  then show ?case by simp
next
  case (Cons d cs)
  show ?case
  proof (cases "ex d s")
    case (Inl e)
    then show ?thesis using Cons.IH by simp
  next
    case (Inr s')
    show ?thesis
    proof (cases "k \<in> consumes d")
      case True
      then have "used s' k" using Inr consume by blast
      then have "filter (\<lambda>c. k \<in> consumes c) (accepted ex cs s') = []"
        by (auto simp: filter_empty_conv dest: used_never_accepted)
      then show ?thesis using Inr by simp
    next
      case False
      then show ?thesis using Inr Cons.IH by simp
    qed
  qed
qed

lemma replay_refused:
  assumes "ex c s = Inr s'" and "k \<in> consumes c" and "k \<in> consumes d"
  shows "\<exists>e. ex d (run ex cs s') = Inl e"
proof (cases "ex d (run ex cs s')")
  case (Inl e)
  then show ?thesis by blast
next
  case (Inr t)
  have "used (run ex cs s') k"
    using assms consume run_keeps_used by blast
  with Inr assms(3) consume show ?thesis by blast
qed

end

end
