(* ===== verification/Relay.thy ===== *)
theory Relay
  imports Frame
begin

text \<open>
  The relay chain's own decisions, \<open>runtime/src/lib.rs\<close> and \<open>runtime/src/governance\<close>: what a proxy of
  each kind may call, which referendum track an origin is decided on and what it may spend, and the
  payout of an era. The pallets are those of the Polkadot SDK; of their calls, the model names the ones
  the runtime tells apart.
\<close>

section \<open>Proxies\<close>

datatype indices_call = indices_claim bytes | indices_free bytes | indices_freeze bytes | indices_other bytes
datatype recovery_call =
    as_recovered bytes | vouch_recovery bytes | claim_recovery bytes | close_recovery bytes
  | remove_recovery bytes | cancel_recovered bytes | recovery_other bytes
datatype vesting_call = vest bytes | vest_other bytes | vesting_other bytes
datatype registrar_call = register bytes | deregister bytes | reserve bytes | registrar_other bytes
datatype identity_call = provide_judgement bytes | identity_other bytes
datatype utility_call = batch bytes | batch_all bytes | force_batch bytes | utility_other bytes
datatype proxy_call = reject_announcement bytes | remove_proxy bytes | proxy_other bytes

text \<open>The outer call, by pallet; \<open>OtherPallet\<close> is a call of a pallet that no filter names.\<close>

datatype runtime_call =
    System bytes | Babe bytes | Timestamp bytes | Indices indices_call | Balances bytes | Staking bytes
  | Session bytes | Grandpa bytes | Utility utility_call | Identity identity_call
  | Recovery recovery_call | Vesting vesting_call | Scheduler bytes | Sudo sudo_call
  | Proxy proxy_call | Multisig bytes | VoterList bytes | NominationPools bytes | FastUnstake bytes
  | ConvictionVoting bytes | Referenda bytes | Whitelist bytes | Registrar registrar_call
  | Slots bytes | Auctions bytes | Crowdloan bytes | OtherPallet "8 word" bytes
and sudo_call = sudo runtime_call | sudo_other bytes

datatype proxy_type =
    Any | NonTransfer | Governance | StakingProxy | SudoBalances | IdentityJudgement | CancelProxy
  | Auction | NominationPoolsProxy | ParaRegistration

definition non_transfer :: "runtime_call \<Rightarrow> bool" where
  "non_transfer c = (case c of
     System _ \<Rightarrow> True | Babe _ \<Rightarrow> True | Timestamp _ \<Rightarrow> True
   | Indices (indices_claim _) \<Rightarrow> True | Indices (indices_free _) \<Rightarrow> True | Indices (indices_freeze _) \<Rightarrow> True
   | Staking _ \<Rightarrow> True | Session _ \<Rightarrow> True | Grandpa _ \<Rightarrow> True | Utility _ \<Rightarrow> True | Identity _ \<Rightarrow> True
   | ConvictionVoting _ \<Rightarrow> True | Referenda _ \<Rightarrow> True | Whitelist _ \<Rightarrow> True
   | Recovery (as_recovered _) \<Rightarrow> True | Recovery (vouch_recovery _) \<Rightarrow> True
   | Recovery (claim_recovery _) \<Rightarrow> True | Recovery (close_recovery _) \<Rightarrow> True
   | Recovery (remove_recovery _) \<Rightarrow> True | Recovery (cancel_recovered _) \<Rightarrow> True
   | Vesting (vest _) \<Rightarrow> True | Vesting (vest_other _) \<Rightarrow> True
   | Scheduler _ \<Rightarrow> True | Proxy _ \<Rightarrow> True | Multisig _ \<Rightarrow> True
   | Registrar (register _) \<Rightarrow> True | Registrar (deregister _) \<Rightarrow> True | Registrar (reserve _) \<Rightarrow> True
   | Crowdloan _ \<Rightarrow> True | Slots _ \<Rightarrow> True | Auctions _ \<Rightarrow> True | VoterList _ \<Rightarrow> True
   | NominationPools _ \<Rightarrow> True | FastUnstake _ \<Rightarrow> True
   | _ \<Rightarrow> False)"

definition proxy_filter :: "proxy_type \<Rightarrow> runtime_call \<Rightarrow> bool" where
  "proxy_filter p c = (case p of
     Any \<Rightarrow> True
   | NonTransfer \<Rightarrow> non_transfer c
   | StakingProxy \<Rightarrow> (case c of Staking _ \<Rightarrow> True | Session _ \<Rightarrow> True | Utility _ \<Rightarrow> True | FastUnstake _ \<Rightarrow> True
       | VoterList _ \<Rightarrow> True | NominationPools _ \<Rightarrow> True | _ \<Rightarrow> False)
   | NominationPoolsProxy \<Rightarrow> (case c of NominationPools _ \<Rightarrow> True | Utility _ \<Rightarrow> True | _ \<Rightarrow> False)
   | SudoBalances \<Rightarrow> (case c of
         Sudo (sudo x) \<Rightarrow> (case x of Balances _ \<Rightarrow> True | _ \<Rightarrow> False)
       | Utility _ \<Rightarrow> True
       | _ \<Rightarrow> False)
   | Governance \<Rightarrow> (case c of ConvictionVoting _ \<Rightarrow> True | Referenda _ \<Rightarrow> True | Whitelist _ \<Rightarrow> True | _ \<Rightarrow> False)
   | IdentityJudgement \<Rightarrow> (case c of Identity (provide_judgement _) \<Rightarrow> True | Utility _ \<Rightarrow> True | _ \<Rightarrow> False)
   | CancelProxy \<Rightarrow> (case c of Proxy (reject_announcement _) \<Rightarrow> True | _ \<Rightarrow> False)
   | Auction \<Rightarrow> (case c of Auctions _ \<Rightarrow> True | Crowdloan _ \<Rightarrow> True | Registrar _ \<Rightarrow> True | Slots _ \<Rightarrow> True | _ \<Rightarrow> False)
   | ParaRegistration \<Rightarrow> (case c of Registrar (reserve _) \<Rightarrow> True | Registrar (register _) \<Rightarrow> True
       | Utility (batch _) \<Rightarrow> True | Utility (batch_all _) \<Rightarrow> True | Utility (force_batch _) \<Rightarrow> True
       | Proxy (remove_proxy _) \<Rightarrow> True | _ \<Rightarrow> False))"

definition is_superset :: "proxy_type \<Rightarrow> proxy_type \<Rightarrow> bool" where
  "is_superset p q = (if p = q then True
     else case (p, q) of (Any, _) \<Rightarrow> True | (_, Any) \<Rightarrow> False | (NonTransfer, _) \<Rightarrow> True | _ \<Rightarrow> False)"

text \<open>
  C39. Where \<open>is_superset\<close> is not inclusion. The proxy pallet lets a proxy create another of any type that
  its own is a superset of, so a type should allow whatever a type below it allows. Exactly two pairs
  break this: a \<open>NonTransfer\<close> proxy counts as a superset of \<open>SudoBalances\<close>, which may make
  root-level balance calls, and of \<open>Auction\<close>, which may make the registrar calls that
  \<open>NonTransfer\<close> leaves out, \<open>swap\<close> among them.
\<close>
theorem proxy_superset_not_inclusion:
  "(is_superset p q \<and> proxy_filter q c \<and> \<not> proxy_filter p c) =
    (p = NonTransfer \<and> ((q = SudoBalances \<and> (\<exists>x. c = Sudo (sudo (Balances x)))) \<or>
                       (q = Auction \<and> (\<exists>x. c = Registrar (registrar_other x)))))"
  by (cases p; cases q)
    (auto simp: is_superset_def proxy_filter_def non_transfer_def
      split: runtime_call.splits sudo_call.splits registrar_call.splits)

section \<open>Governance\<close>

text \<open>Approval curves, with their parameters in percent.\<close>

datatype curve = make_linear nat nat int int | make_reciprocal nat nat int int int

record track =
  tr_id :: "16 word"
  tr_name :: string
  max_deciding :: u32
  decision_deposit :: u128
  prepare_period :: u32
  decision_period :: u32
  confirm_period :: u32
  min_enactment_period :: u32
  min_approval :: curve
  min_support :: curve

definition APP_ROOT :: curve where "APP_ROOT = make_reciprocal 4 28 80 50 100"
definition SUP_ROOT :: curve where "SUP_ROOT = make_linear 28 28 0 50"
definition APP_STAKING_ADMIN :: curve where "APP_STAKING_ADMIN = make_linear 17 28 50 100"
definition SUP_STAKING_ADMIN :: curve where "SUP_STAKING_ADMIN = make_reciprocal 12 28 1 0 50"
definition APP_TREASURER :: curve where "APP_TREASURER = make_reciprocal 4 28 80 50 100"
definition SUP_TREASURER :: curve where "SUP_TREASURER = make_linear 28 28 0 50"
definition APP_FELLOWSHIP_ADMIN :: curve where "APP_FELLOWSHIP_ADMIN = make_linear 17 28 50 100"
definition SUP_FELLOWSHIP_ADMIN :: curve where "SUP_FELLOWSHIP_ADMIN = make_reciprocal 12 28 1 0 50"
definition APP_GENERAL_ADMIN :: curve where "APP_GENERAL_ADMIN = make_reciprocal 4 28 80 50 100"
definition SUP_GENERAL_ADMIN :: curve where "SUP_GENERAL_ADMIN = make_reciprocal 7 28 10 0 50"
definition APP_AUCTION_ADMIN :: curve where "APP_AUCTION_ADMIN = make_reciprocal 4 28 80 50 100"
definition SUP_AUCTION_ADMIN :: curve where "SUP_AUCTION_ADMIN = make_reciprocal 7 28 10 0 50"
definition APP_LEASE_ADMIN :: curve where "APP_LEASE_ADMIN = make_linear 17 28 50 100"
definition SUP_LEASE_ADMIN :: curve where "SUP_LEASE_ADMIN = make_reciprocal 12 28 1 0 50"
definition APP_REFERENDUM_CANCELLER :: curve where "APP_REFERENDUM_CANCELLER = make_linear 17 28 50 100"
definition SUP_REFERENDUM_CANCELLER :: curve where "SUP_REFERENDUM_CANCELLER = make_reciprocal 12 28 1 0 50"
definition APP_REFERENDUM_KILLER :: curve where "APP_REFERENDUM_KILLER = make_linear 17 28 50 100"
definition SUP_REFERENDUM_KILLER :: curve where "SUP_REFERENDUM_KILLER = make_reciprocal 12 28 1 0 50"
definition APP_SMALL_TIPPER :: curve where "APP_SMALL_TIPPER = make_linear 10 28 50 100"
definition SUP_SMALL_TIPPER :: curve where "SUP_SMALL_TIPPER = make_reciprocal 1 28 4 0 50"
definition APP_BIG_TIPPER :: curve where "APP_BIG_TIPPER = make_linear 10 28 50 100"
definition SUP_BIG_TIPPER :: curve where "SUP_BIG_TIPPER = make_reciprocal 8 28 1 0 50"
definition APP_SMALL_SPENDER :: curve where "APP_SMALL_SPENDER = make_linear 17 28 50 100"
definition SUP_SMALL_SPENDER :: curve where "SUP_SMALL_SPENDER = make_reciprocal 12 28 1 0 50"
definition APP_MEDIUM_SPENDER :: curve where "APP_MEDIUM_SPENDER = make_linear 23 28 50 100"
definition SUP_MEDIUM_SPENDER :: curve where "SUP_MEDIUM_SPENDER = make_reciprocal 16 28 1 0 50"
definition APP_BIG_SPENDER :: curve where "APP_BIG_SPENDER = make_linear 28 28 50 100"
definition SUP_BIG_SPENDER :: curve where "SUP_BIG_SPENDER = make_reciprocal 20 28 1 0 50"
definition APP_WHITELISTED_CALLER :: curve where "APP_WHITELISTED_CALLER = make_reciprocal 16 (28 * 24) 96 50 100"
definition SUP_WHITELISTED_CALLER :: curve where "SUP_WHITELISTED_CALLER = make_reciprocal 1 28 20 5 50"

text \<open>The tracks, in two parts; \<open>grand\<close>, \<open>cents\<close> and \<open>minutes\<close> are the currency and time units of the runtime constants.\<close>

definition tracks_admin :: "u128 \<Rightarrow> u32 \<Rightarrow> track list" where
  "tracks_admin grand minutes = [
     \<lparr>tr_id = 0, tr_name = ''root'', max_deciding = 1, decision_deposit = 100 * grand,
      prepare_period = 8 * minutes, decision_period = 20 * minutes, confirm_period = 12 * minutes,
      min_enactment_period = 5 * minutes, min_approval = APP_ROOT, min_support = SUP_ROOT\<rparr>,
     \<lparr>tr_id = 1, tr_name = ''whitelisted_caller'', max_deciding = 100, decision_deposit = 10 * grand,
      prepare_period = 6 * minutes, decision_period = 20 * minutes, confirm_period = 4 * minutes,
      min_enactment_period = 3 * minutes, min_approval = APP_WHITELISTED_CALLER, min_support = SUP_WHITELISTED_CALLER\<rparr>,
     \<lparr>tr_id = 10, tr_name = ''staking_admin'', max_deciding = 10, decision_deposit = 5 * grand,
      prepare_period = 8 * minutes, decision_period = 20 * minutes, confirm_period = 8 * minutes,
      min_enactment_period = 3 * minutes, min_approval = APP_STAKING_ADMIN, min_support = SUP_STAKING_ADMIN\<rparr>,
     \<lparr>tr_id = 11, tr_name = ''treasurer'', max_deciding = 10, decision_deposit = 1 * grand,
      prepare_period = 8 * minutes, decision_period = 20 * minutes, confirm_period = 8 * minutes,
      min_enactment_period = 5 * minutes, min_approval = APP_TREASURER, min_support = SUP_TREASURER\<rparr>,
     \<lparr>tr_id = 12, tr_name = ''lease_admin'', max_deciding = 10, decision_deposit = 5 * grand,
      prepare_period = 8 * minutes, decision_period = 20 * minutes, confirm_period = 8 * minutes,
      min_enactment_period = 3 * minutes, min_approval = APP_LEASE_ADMIN, min_support = SUP_LEASE_ADMIN\<rparr>,
     \<lparr>tr_id = 13, tr_name = ''fellowship_admin'', max_deciding = 10, decision_deposit = 5 * grand,
      prepare_period = 8 * minutes, decision_period = 20 * minutes, confirm_period = 8 * minutes,
      min_enactment_period = 3 * minutes, min_approval = APP_FELLOWSHIP_ADMIN, min_support = SUP_FELLOWSHIP_ADMIN\<rparr>,
     \<lparr>tr_id = 14, tr_name = ''general_admin'', max_deciding = 10, decision_deposit = 5 * grand,
      prepare_period = 8 * minutes, decision_period = 20 * minutes, confirm_period = 8 * minutes,
      min_enactment_period = 3 * minutes, min_approval = APP_GENERAL_ADMIN, min_support = SUP_GENERAL_ADMIN\<rparr>]"

definition tracks_rest :: "u128 \<Rightarrow> u128 \<Rightarrow> u32 \<Rightarrow> track list" where
  "tracks_rest grand cents minutes = [
     \<lparr>tr_id = 15, tr_name = ''auction_admin'', max_deciding = 10, decision_deposit = 5 * grand,
      prepare_period = 8 * minutes, decision_period = 20 * minutes, confirm_period = 8 * minutes,
      min_enactment_period = 3 * minutes, min_approval = APP_AUCTION_ADMIN, min_support = SUP_AUCTION_ADMIN\<rparr>,
     \<lparr>tr_id = 20, tr_name = ''referendum_canceller'', max_deciding = 1000, decision_deposit = 10 * grand,
      prepare_period = 8 * minutes, decision_period = 14 * minutes, confirm_period = 8 * minutes,
      min_enactment_period = 3 * minutes, min_approval = APP_REFERENDUM_CANCELLER, min_support = SUP_REFERENDUM_CANCELLER\<rparr>,
     \<lparr>tr_id = 21, tr_name = ''referendum_killer'', max_deciding = 1000, decision_deposit = 50 * grand,
      prepare_period = 8 * minutes, decision_period = 20 * minutes, confirm_period = 8 * minutes,
      min_enactment_period = 3 * minutes, min_approval = APP_REFERENDUM_KILLER, min_support = SUP_REFERENDUM_KILLER\<rparr>,
     \<lparr>tr_id = 30, tr_name = ''small_tipper'', max_deciding = 200, decision_deposit = 1 * 3 * cents,
      prepare_period = 1 * minutes, decision_period = 14 * minutes, confirm_period = 4 * minutes,
      min_enactment_period = 1 * minutes, min_approval = APP_SMALL_TIPPER, min_support = SUP_SMALL_TIPPER\<rparr>,
     \<lparr>tr_id = 31, tr_name = ''big_tipper'', max_deciding = 100, decision_deposit = 10 * 3 * cents,
      prepare_period = 4 * minutes, decision_period = 14 * minutes, confirm_period = 12 * minutes,
      min_enactment_period = 3 * minutes, min_approval = APP_BIG_TIPPER, min_support = SUP_BIG_TIPPER\<rparr>,
     \<lparr>tr_id = 32, tr_name = ''small_spender'', max_deciding = 50, decision_deposit = 100 * 3 * cents,
      prepare_period = 10 * minutes, decision_period = 20 * minutes, confirm_period = 10 * minutes,
      min_enactment_period = 5 * minutes, min_approval = APP_SMALL_SPENDER, min_support = SUP_SMALL_SPENDER\<rparr>,
     \<lparr>tr_id = 33, tr_name = ''medium_spender'', max_deciding = 50, decision_deposit = 200 * 3 * cents,
      prepare_period = 10 * minutes, decision_period = 20 * minutes, confirm_period = 12 * minutes,
      min_enactment_period = 5 * minutes, min_approval = APP_MEDIUM_SPENDER, min_support = SUP_MEDIUM_SPENDER\<rparr>,
     \<lparr>tr_id = 34, tr_name = ''big_spender'', max_deciding = 50, decision_deposit = 400 * 3 * cents,
      prepare_period = 10 * minutes, decision_period = 20 * minutes, confirm_period = 14 * minutes,
      min_enactment_period = 5 * minutes, min_approval = APP_BIG_SPENDER, min_support = SUP_BIG_SPENDER\<rparr>]"

definition TRACKS_DATA :: "u128 \<Rightarrow> u128 \<Rightarrow> u32 \<Rightarrow> track list" where
  "TRACKS_DATA grand cents minutes = tracks_admin grand minutes @ tracks_rest grand cents minutes"

datatype custom_origin =
    StakingAdmin | Treasurer | FellowshipAdmin | GeneralAdmin | AuctionAdmin | LeaseAdmin
  | ReferendumCanceller | ReferendumKiller | SmallTipper | BigTipper | SmallSpender | MediumSpender
  | BigSpender | WhitelistedCaller | FellowshipInitiates | Fellows | FellowshipExperts
  | FellowshipMasters | Fellowship1Dan | Fellowship2Dan | Fellowship3Dan | Fellowship4Dan
  | Fellowship5Dan | Fellowship6Dan | Fellowship7Dan | Fellowship8Dan | Fellowship9Dan

text \<open>The origins of the runtime's pallets; \<open>OtherOrigin\<close> is one of a pallet without tracks.\<close>

datatype 'acct pallets_origin =
    SystemOrigin "'acct origin" | CustomOrigin custom_origin | OtherOrigin bytes

definition track_for :: "'acct pallets_origin \<Rightarrow> 16 word option" where
  "track_for o' = (case o' of
     SystemOrigin Root \<Rightarrow> Some 0
   | SystemOrigin _ \<Rightarrow> None
   | CustomOrigin c \<Rightarrow> (case c of
       WhitelistedCaller \<Rightarrow> Some 1
     | StakingAdmin \<Rightarrow> Some 10 | Treasurer \<Rightarrow> Some 11 | LeaseAdmin \<Rightarrow> Some 12 | FellowshipAdmin \<Rightarrow> Some 13
     | GeneralAdmin \<Rightarrow> Some 14 | AuctionAdmin \<Rightarrow> Some 15
     | ReferendumCanceller \<Rightarrow> Some 20 | ReferendumKiller \<Rightarrow> Some 21
     | SmallTipper \<Rightarrow> Some 30 | BigTipper \<Rightarrow> Some 31 | SmallSpender \<Rightarrow> Some 32 | MediumSpender \<Rightarrow> Some 33
     | BigSpender \<Rightarrow> Some 34
     | _ \<Rightarrow> None)
   | OtherOrigin _ \<Rightarrow> None)"

text \<open>What an origin may spend from the treasury: \<open>Spender\<close>, and \<open>TreasurySpender\<close> with root first.\<close>

definition Spender :: "u128 \<Rightarrow> u128 \<Rightarrow> 'acct pallets_origin \<Rightarrow> u128 option" where
  "Spender grand cents o' = (case o' of
     CustomOrigin SmallTipper \<Rightarrow> Some (250 * 3 * cents)
   | CustomOrigin BigTipper \<Rightarrow> Some (1 * grand)
   | CustomOrigin SmallSpender \<Rightarrow> Some (10 * grand)
   | CustomOrigin MediumSpender \<Rightarrow> Some (100 * grand)
   | CustomOrigin BigSpender \<Rightarrow> Some (1000 * grand)
   | CustomOrigin Treasurer \<Rightarrow> Some (10000 * grand)
   | _ \<Rightarrow> None)"

definition TreasurySpender :: "u128 \<Rightarrow> u128 \<Rightarrow> 'acct pallets_origin \<Rightarrow> u128 option" where
  "TreasurySpender grand cents o' =
     (if o' = SystemOrigin Root then Some (- 1) else Spender grand cents o')"

text \<open>A curve with its length within the period and its levels in order.\<close>

fun curve_ok :: "curve \<Rightarrow> bool" where
  "curve_ok (make_linear len period lo hi) = (0 < len \<and> len \<le> period \<and> lo < hi \<and> hi \<le> 100)"
| "curve_ok (make_reciprocal delay period level lo hi) =
     (0 < delay \<and> delay < period \<and> lo < level \<and> level < hi \<and> hi \<le> 100)"

lemmas curve_defs = APP_ROOT_def SUP_ROOT_def APP_STAKING_ADMIN_def SUP_STAKING_ADMIN_def APP_TREASURER_def
  SUP_TREASURER_def APP_FELLOWSHIP_ADMIN_def SUP_FELLOWSHIP_ADMIN_def APP_GENERAL_ADMIN_def
  SUP_GENERAL_ADMIN_def APP_AUCTION_ADMIN_def SUP_AUCTION_ADMIN_def APP_LEASE_ADMIN_def SUP_LEASE_ADMIN_def
  APP_REFERENDUM_CANCELLER_def SUP_REFERENDUM_CANCELLER_def APP_REFERENDUM_KILLER_def
  SUP_REFERENDUM_KILLER_def APP_SMALL_TIPPER_def SUP_SMALL_TIPPER_def APP_BIG_TIPPER_def SUP_BIG_TIPPER_def
  APP_SMALL_SPENDER_def SUP_SMALL_SPENDER_def APP_MEDIUM_SPENDER_def SUP_MEDIUM_SPENDER_def
  APP_BIG_SPENDER_def SUP_BIG_SPENDER_def APP_WHITELISTED_CALLER_def SUP_WHITELISTED_CALLER_def

lemma track_ids:
  "map tr_id (TRACKS_DATA grand cents minutes) = [0, 1, 10, 11, 12, 13, 14, 15, 20, 21, 30, 31, 32, 33, 34]"
  by (simp add: TRACKS_DATA_def tracks_admin_def tracks_rest_def)

definition track_table :: "('acct pallets_origin \<times> 16 word) list" where
  "track_table = [(SystemOrigin Root, 0), (CustomOrigin WhitelistedCaller, 1),
     (CustomOrigin StakingAdmin, 10), (CustomOrigin Treasurer, 11), (CustomOrigin LeaseAdmin, 12),
     (CustomOrigin FellowshipAdmin, 13), (CustomOrigin GeneralAdmin, 14), (CustomOrigin AuctionAdmin, 15),
     (CustomOrigin ReferendumCanceller, 20), (CustomOrigin ReferendumKiller, 21),
     (CustomOrigin SmallTipper, 30), (CustomOrigin BigTipper, 31), (CustomOrigin SmallSpender, 32),
     (CustomOrigin MediumSpender, 33), (CustomOrigin BigSpender, 34)]"

lemma track_for_table: "track_for o' = Some t \<longleftrightarrow> (o', t) \<in> set track_table"
  by (auto simp: track_for_def track_table_def split: pallets_origin.splits origin.splits custom_origin.splits)

lemma track_table_ids:
  "map snd (track_table :: ('acct pallets_origin \<times> _) list) = map tr_id (TRACKS_DATA grand cents minutes)"
  by (simp add: track_ids track_table_def)

lemma track_table_inj:
  assumes "(x, t) \<in> set track_table" and "(y, t) \<in> set (track_table :: ('a pallets_origin \<times> _) list)"
  shows "x = y"
proof -
  have "distinct (map snd (track_table :: ('a pallets_origin \<times> _) list))"
    by (simp add: track_table_def)
  then have "inj_on snd (set (track_table :: ('a pallets_origin \<times> _) list))"
    by (simp add: distinct_map)
  then show ?thesis using assms inj_onD [of snd "set track_table" "(x, t)" "(y, t)"] by simp
qed

text \<open>
  C40. The tracks are well formed. Their ids ascend strictly, as the referenda pallet's lookup by bisection
  needs; their curves have a length within the period and levels in order; the origins that may open a referendum
  correspond one to one to the tracks; and every origin that may spend from the treasury has one.
\<close>
theorem governance_tracks_well_formed:
  "sorted_wrt (<) (map tr_id (TRACKS_DATA grand cents minutes)) \<and>
   list_all (\<lambda>t. curve_ok (min_approval t) \<and> curve_ok (min_support t)) (TRACKS_DATA grand cents minutes) \<and>
   bij_betw (\<lambda>o'. the (track_for o')) {o' :: 'acct pallets_origin. track_for o' \<noteq> None}
     (set (map tr_id (TRACKS_DATA grand cents minutes))) \<and>
   {o' :: 'acct pallets_origin. TreasurySpender grand cents o' \<noteq> None} \<subseteq> {o'. track_for o' \<noteq> None}"
proof (intro conjI)
  show "sorted_wrt (<) (map tr_id (TRACKS_DATA grand cents minutes))"
    by (simp add: track_ids)
  show "list_all (\<lambda>t. curve_ok (min_approval t) \<and> curve_ok (min_support t)) (TRACKS_DATA grand cents minutes)"
    by (simp add: TRACKS_DATA_def tracks_admin_def tracks_rest_def curve_defs)
  show "bij_betw (\<lambda>o'. the (track_for o')) {o' :: 'acct pallets_origin. track_for o' \<noteq> None}
     (set (map tr_id (TRACKS_DATA grand cents minutes)))"
  proof (unfold bij_betw_def, intro conjI)
    show "inj_on (\<lambda>o'. the (track_for o')) {o' :: 'acct pallets_origin. track_for o' \<noteq> None}"
    proof (rule inj_onI)
      fix x y :: "'acct pallets_origin"
      assume "x \<in> {o'. track_for o' \<noteq> None}" "y \<in> {o'. track_for o' \<noteq> None}"
        and "the (track_for x) = the (track_for y)"
      then obtain t where "track_for x = Some t" "track_for y = Some t" by auto
      then show "x = y" unfolding track_for_table by (rule track_table_inj)
    qed
    have "(\<lambda>o'. the (track_for o')) ` {o' :: 'acct pallets_origin. track_for o' \<noteq> None} =
        {t. \<exists>o' :: 'acct pallets_origin. track_for o' = Some t}"
      by force
    also have "\<dots> = set (map snd (track_table :: ('acct pallets_origin \<times> _) list))"
      unfolding track_for_table by (auto simp del: split_paired_Ex intro: rev_image_eqI)
    finally show "(\<lambda>o'. the (track_for o')) ` {o' :: 'acct pallets_origin. track_for o' \<noteq> None} =
        set (map tr_id (TRACKS_DATA grand cents minutes))"
      unfolding track_table_ids [where 'acct = 'acct, of grand cents minutes, symmetric] .
  qed
  show "{o' :: 'acct pallets_origin. TreasurySpender grand cents o' \<noteq> None} \<subseteq> {o'. track_for o' \<noteq> None}"
  proof (rule subsetI, unfold mem_Collect_eq)
    fix o' :: "'acct pallets_origin"
    assume o': "TreasurySpender grand cents o' \<noteq> None"
    show "track_for o' \<noteq> None"
    proof (cases o')
      case (SystemOrigin r)
      then show ?thesis using o' by (cases r) (simp_all add: TreasurySpender_def Spender_def track_for_def)
    next
      case (CustomOrigin c)
      then show ?thesis using o' by (cases c) (simp_all add: TreasurySpender_def Spender_def track_for_def)
    next
      case (OtherOrigin b)
      then show ?thesis using o' by (simp add: TreasurySpender_def Spender_def)
    qed
  qed
qed

section \<open>The payout of an era\<close>

text \<open>
  \<open>FixedU128\<close> belongs to the arithmetic crate: \<open>from_rational\<close> rounds down to a multiple of
  \<open>10 ^ -18\<close>, \<open>saturating_mul_int\<close> of a non-negative integer rounds down.
\<close>

record 'x fixed_u128 =
  from_rational :: "u128 \<Rightarrow> u128 \<Rightarrow> 'x"
  saturating_mul_int :: "'x \<Rightarrow> int \<Rightarrow> int"

definition fixed_laws :: "'x fixed_u128 \<Rightarrow> bool" where
  "fixed_laws F \<longleftrightarrow> (\<forall>n d k. 0 < uint d \<longrightarrow> 0 \<le> k \<longrightarrow> uint n * 10 ^ 18 div uint d < 2 ^ 128 \<longrightarrow>
     uint n * 10 ^ 18 div uint d * k div 10 ^ 18 < 2 ^ 127 \<longrightarrow>
     saturating_mul_int F (from_rational F n d) k = uint n * 10 ^ 18 div uint d * k div 10 ^ 18)"

definition saturated_u128 :: "int \<Rightarrow> u128" where
  "saturated_u128 k = (if k < 0 then 0 else if k \<ge> 2 ^ 128 then - 1 else of_int k)"

definition saturating_sub_i128 :: "int \<Rightarrow> int \<Rightarrow> int" where
  "saturating_sub_i128 a b = max (- (2 ^ 127)) (min (2 ^ 127 - 1) (a - b))"

definition era_payout :: "'x fixed_u128 \<Rightarrow> u128 \<Rightarrow> u128 \<Rightarrow> u64 \<Rightarrow> u128 \<times> u128" where
  "era_payout F total_staked total_issuance era_duration_millis =
     (let milliseconds_per_year = (1000 * 3600 * 24 * 36525) div 100 :: u64;
          relative_era_len = from_rational F (ucast era_duration_millis) (ucast milliseconds_per_year);
          fixed_total_issuance = 5216342402773185773;
          fixed_inflation_rate = from_rational F 8 100;
          yearly_emission = saturating_mul_int F fixed_inflation_rate fixed_total_issuance;
          era_emission = saturating_mul_int F relative_era_len yearly_emission;
          to_treasury = saturating_mul_int F (from_rational F 20 100) era_emission;
          to_stakers = saturating_sub_i128 era_emission to_treasury
      in (saturated_u128 to_stakers, saturated_u128 to_treasury))"

text \<open>What an era of the given length emits.\<close>

definition era_emission :: "u64 \<Rightarrow> int" where
  "era_emission dur = uint dur * 10 ^ 18 div 31557600000 * 417307392221854861 div 10 ^ 18"

lemma era_emission_bounds: "0 \<le> era_emission dur" "era_emission dur < 2 ^ 100"
  "era_emission dur * 31557600000 \<le> 417307392221854861 * uint dur"
proof -
  have d: "uint dur < 2 ^ 64" "0 \<le> uint dur" using uint_bounded [of dur] by simp_all
  define r where "r = uint dur * 10 ^ 18 div 31557600000"
  have r: "0 \<le> r" "31557600000 * r \<le> uint dur * 10 ^ 18"
    using d by (simp_all add: r_def pos_imp_zdiv_nonneg_iff)
  have e: "10 ^ 18 * era_emission dur \<le> r * 417307392221854861" "0 \<le> era_emission dur"
    unfolding era_emission_def r_def [symmetric]
    using r(1) div_mult_mod_eq [of "r * 417307392221854861" "10 ^ 18"]
      pos_mod_sign [of "10 ^ 18" "r * 417307392221854861"]
    by (simp_all add: pos_imp_zdiv_nonneg_iff)
  then show "0 \<le> era_emission dur" by blast
  show "era_emission dur * 31557600000 \<le> 417307392221854861 * uint dur" using r(2) e(1) by simp
  then show "era_emission dur < 2 ^ 100" using d(1) by simp
qed

text \<open>
  An era pays its share of eight percent a year of the fixed issuance, a fifth of it, rounded down, to
  the treasury and the rest to the stakers: nothing is lost, and a year's eras never pay more than
  the yearly emission. The actual issuance and stake play no part.
\<close>
theorem era_payout_split:
  assumes "fixed_laws F"
  shows "uint (fst (era_payout F staked issuance dur)) + uint (snd (era_payout F staked issuance dur)) =
      era_emission dur \<and>
    uint (snd (era_payout F staked issuance dur)) = era_emission dur div 5 \<and>
    era_emission dur * 31557600000 \<le> 417307392221854861 * uint dur"
proof -
  let ?e = "era_emission dur"
  have law: "saturating_mul_int F (from_rational F n d) k = uint n * 10 ^ 18 div uint d * k div 10 ^ 18"
    if "0 < uint d" "0 \<le> k" "uint n * 10 ^ 18 div uint d < 2 ^ 128"
      "uint n * 10 ^ 18 div uint d * k div 10 ^ 18 < 2 ^ 127" for n d k
    using assms that by (simp add: fixed_laws_def)
  note b = era_emission_bounds [of dur]
  have y: "saturating_mul_int F (from_rational F 8 100) 5216342402773185773 = 417307392221854861"
    by (subst law) simp_all
  have u: "uint (ucast dur :: u128) = uint dur" by (simp add: uint_up_ucast is_up)
  have dur: "uint dur < 2 ^ 64" using uint_bounded [of dur] by simp
  then have "uint dur * 10 ^ 18 div 31557600000 < 2 ^ 128" by simp
  then have e: "saturating_mul_int F (from_rational F (ucast dur) 31557600000) 417307392221854861 = ?e"
    using b(1,2) by (subst law) (simp_all add: u era_emission_def)
  have t: "saturating_mul_int F (from_rational F 20 100) ?e = ?e div 5"
    using b(1,2) by (subst law) simp_all
  have s: "uint (saturated_u128 k) = k" if "0 \<le> k" "k < 2 ^ 128" for k
    using that by (simp add: saturated_u128_def uint_word_of_int)
  show ?thesis
    using b s [of "?e div 5"] s [of "?e - ?e div 5"]
    by (simp add: era_payout_def y e t Let_def saturating_sub_i128_def)
qed

end
