(* ===== verification/RelayOrigins.thy ===== *)
theory RelayOrigins
  imports Relay
begin

text \<open>
  More of the relay chain's own decisions: which origins the declared \<open>EnsureOrigin\<close> types accept, the
  phases of an election, and the thresholds of the voter bags, from \<open>runtime/src/governance/origins.rs\<close>,
  \<open>runtime/src/lib.rs\<close> and \<open>runtime/src/bag_thresholds.rs\<close>.
\<close>

section \<open>Origins\<close>

text \<open>
  \<open>decl_unit_ensures!\<close> declares one type for each of the first nine names, with no success value, and one
  for each of the last four, which succeeds with a rank of the fellowship.
\<close>

definition unit_ensures :: "custom_origin list" where
  "unit_ensures = [StakingAdmin, Treasurer, FellowshipAdmin, GeneralAdmin, AuctionAdmin, LeaseAdmin,
     ReferendumCanceller, ReferendumKiller, WhitelistedCaller]"

definition rank_ensures :: "(custom_origin \<times> 16 word) list" where
  "rank_ensures = [(FellowshipInitiates, 0), (Fellows, 3), (FellowshipExperts, 5), (FellowshipMasters, 7)]"

definition try_unit_origin :: "custom_origin \<Rightarrow> 'acct pallets_origin \<Rightarrow> unit option" where
  "try_unit_origin name o' = (case o' of
     CustomOrigin c \<Rightarrow> if name \<in> set unit_ensures \<and> c = name then Some () else None
   | _ \<Rightarrow> None)"

definition try_rank_origin :: "custom_origin \<Rightarrow> 'acct pallets_origin \<Rightarrow> 16 word option" where
  "try_rank_origin name o' = (case o' of
     CustomOrigin c \<Rightarrow> if c = name then map_of rank_ensures name else None
   | _ \<Rightarrow> None)"

definition EnsureFellowship :: "'acct pallets_origin \<Rightarrow> 16 word option" where
  "EnsureFellowship o' = (case o' of
     CustomOrigin Fellowship1Dan \<Rightarrow> Some 1
   | CustomOrigin Fellowship2Dan \<Rightarrow> Some 2
   | CustomOrigin Fellowship3Dan \<Rightarrow> Some 3
   | CustomOrigin Fellowship4Dan \<Rightarrow> Some 4
   | CustomOrigin Fellowship5Dan \<Rightarrow> Some 5
   | CustomOrigin Fellowship6Dan \<Rightarrow> Some 6
   | CustomOrigin Fellowship7Dan \<Rightarrow> Some 7
   | CustomOrigin Fellowship8Dan \<Rightarrow> Some 8
   | CustomOrigin Fellowship9Dan \<Rightarrow> Some 9
   | _ \<Rightarrow> None)"

text \<open>Of the dynamic parameters there is one group, and root alone changes it.\<close>

datatype runtime_parameters_key = Inflation bytes

definition dynamic_parameter_origin :: "'acct origin \<Rightarrow> runtime_parameters_key \<Rightarrow> unit option" where
  "dynamic_parameter_origin orig key = (case key of Inflation _ \<Rightarrow> if ensure_root orig then Some () else None)"

definition IsIdentityCall :: "runtime_call \<Rightarrow> bool" where
  "IsIdentityCall c = (case c of Identity _ \<Rightarrow> True | _ \<Rightarrow> False)"

text \<open>
  An origin of the governance pallet is accepted by at most one of the three families, and the rank of
  \<open>EnsureFellowship\<close> identifies the origin.
\<close>

lemma fellowship_rank_inj:
  "EnsureFellowship x = Some r \<Longrightarrow> EnsureFellowship y = Some r \<Longrightarrow> x = y"
  by (auto simp: EnsureFellowship_def split: pallets_origin.splits custom_origin.splits)

lemma fellowship_rank_range: "EnsureFellowship x = Some r \<Longrightarrow> 1 \<le> r \<and> r \<le> 9"
  by (auto simp: EnsureFellowship_def word_le_nat_alt split: pallets_origin.splits custom_origin.splits)

lemma origin_families_disjoint:
  assumes "EnsureFellowship o' \<noteq> None"
  shows "try_unit_origin n o' = None \<and> try_rank_origin m o' = None \<and> track_for o' = None"
proof (cases o')
  case (CustomOrigin c)
  have "c \<notin> set unit_ensures \<and> c \<notin> fst ` set rank_ensures \<and> track_for o' = None"
    using assms CustomOrigin
    by (cases c) (simp_all add: EnsureFellowship_def unit_ensures_def rank_ensures_def track_for_def)
  then show ?thesis
    using CustomOrigin by (auto simp: try_unit_origin_def try_rank_origin_def map_of_eq_None_iff)
qed (use assms in \<open>simp_all add: EnsureFellowship_def\<close>)

section \<open>The signed phase of an election\<close>

definition MaybeSignedPhase :: "u32 \<Rightarrow> u32 option \<Rightarrow> u32" where
  "MaybeSignedPhase signed_phase current_era =
     (if (case current_era of Some e \<Rightarrow> e | None \<Rightarrow> 1) mod 28 = 0 then 0 else signed_phase)"

text \<open>Once in 28 eras, a week of four eras a day, there is no signed phase.\<close>

lemma signed_phase_weekly:
  assumes "signed_phase \<noteq> 0"
  shows "MaybeSignedPhase signed_phase (Some e) = 0 \<longleftrightarrow> 28 dvd unat e"
proof -
  have "e mod 28 = 0 \<longleftrightarrow> unat (e mod 28) = 0" by (metis unat_0 unat_eq_zero)
  also have "\<dots> \<longleftrightarrow> 28 dvd unat e" by (simp add: unat_mod dvd_eq_mod_eq_0)
  finally show ?thesis using assms by (simp add: MaybeSignedPhase_def)
qed

section \<open>Voter bags\<close>

text \<open>The 200 upper thresholds, in two halves.\<close>

definition THRESHOLDS_LOW :: "u64 list" where
  "THRESHOLDS_LOW =
     [10000000000, 11131723507, 12391526824, 13793905044, 15354993703, 17092754435, 19027181634, 21180532507,
     23577583160, 26245913670, 29216225417, 32522694326, 36203364094, 40300583912, 44861495728, 49938576656,
     55590242767, 61881521217, 68884798439, 76680653006, 85358782760, 95019036859, 105772564622,
     117743094401, 131068357174, 145901671259, 162413706368, 180794447305, 201255379901, 224031924337,
     249386143848, 277609759981, 309027509097, 344000878735, 382932266827, 426269611626, 474511545609,
     528213132664, 587992254562, 654536720209, 728612179460, 811070932564, 902861736593, 1005040721687,
     1118783542717, 1245398906179, 1386343627960, 1543239395225, 1717891425287, 1912309236147,
     2128729767682, 2369643119512, 2637821201686, 2936349627828, 3268663217709, 3638585517729,
     4050372794022, 4508763004364, 5019030312352, 5587045771074, 6219344874498, 6923202753807,
     7706717883882, 8578905263043, 9549800138161, 10630573468586, 11833660457397, 13172903628838,
     14663712098160, 16323238866411, 18170578180087, 20226985226447, 22516120692255, 25064322999817,
     27900911352605, 31058523077268, 34573489143434, 38486252181966, 42841831811331, 47690342626046,
     53087570807094, 59095615988698, 65783605766662, 73228491069308, 81515931542404, 90741281135191,
     101010685227495, 112442301921293, 125167661548718, 139333180038781, 155101843555358, 172655083789626,
     192194865483744, 213946010204502, 238158783103893, 265111772429462, 295115094915607, 328513963936552,
     365692661475578, 407078959611349]"

definition THRESHOLDS_HIGH :: "u64 list" where
  "THRESHOLDS_HIGH =
     [453149042394237, 504432984742966, 561520851400862, 625069486125324, 695810069225823, 774556530406243,
     862214913708369, 959793802308039, 1068415923109985, 1189331064661951, 1323930457019515,
     1473762779014021, 1640551977100649, 1826217100807404, 2032894383008501, 2262961819074188,
     2519066527700738, 2804155208229882, 3121508044894685, 3474776448088622, 3868025066902796,
     4305778556320752, 4793073637166665, 5335517047800242, 5939350054341159, 6611520261667250,
     7359761551432161, 8192683066856378, 9119868268136230, 10151985198186376, 11300909227415580,
     12579859689817292, 14003551982487792, 15588366878604342, 17352539001951086, 19316366631550092,
     21502445250375680, 23935927525325748, 26644812709737600, 29660268798266784, 33016991140790860,
     36753601641491664, 40913093136236104, 45543324061189736, 50697569104240168, 56435132174936472,
     62822028745677552, 69931745415056768, 77846085432775824, 86656109914600688, 96463185576826656,
     107380151045315664, 119532615158469088, 133060402202199856, 148119160705543712, 164882154307451552,
     183542255300186560, 204314163786713728, 227436877985347776, 253176444104585088, 281829017427734464,
     313724269827691328, 349229182918168832, 388752270484770624, 432748278778513664, 481723418752617984,
     536241190443833600, 596928866512693376, 664484709541257600, 739686006129409280, 823398010228713984,
     916583898614395264, 1020315853041475584, 1135787396594579584, 1264327126171442688, 1407413999103859968,
     1566694349801462272, 1744000832209069824, 1941373506026471680, 2161083309305266176,
     2405658187494662656, 2677912179572818944, 2980977795924034048, 3318342060496414208,
     3693886631935247360, 4111932465319354368, 4577289528371127808, 5095312144166932480,
     5671960597112134656, 6313869711009142784, 7028425188266614784, 7823848588596424704,
     8709291924949524480, 9694942965096232960, 10792142450433898496, 12013514580722579456,
     13373112266084982784, 14886578817516689408, 16571327936291497984, 18446744073709551615]"

definition THRESHOLDS :: "u64 list" where
  "THRESHOLDS = THRESHOLDS_LOW @ THRESHOLDS_HIGH"

definition EXISTENTIAL_WEIGHT :: u64 where "EXISTENTIAL_WEIGHT = 10000000000"

text \<open>Neighbours in a list.\<close>

fun chain :: "('a \<Rightarrow> 'a \<Rightarrow> bool) \<Rightarrow> 'a list \<Rightarrow> bool" where
  "chain R (x # y # zs) = (R x y \<and> chain R (y # zs))"
| "chain R _ = True"

text \<open>
  The bags cover every weight from the existential one: the thresholds start there, end at the greatest
  weight, ascend, and grow by the ratio 1.1131723507077667 that the source names, up to a relative
  error of 3.5e-11 from rounding.
\<close>

definition grows :: "int \<Rightarrow> int \<Rightarrow> bool" where
  "grows a b \<longleftrightarrow> a < b \<and> \<bar>b * 10 ^ 16 - a * 11131723507077667\<bar> \<le> b * 350000"

lemma thresholds_grow: "chain grows (map uint THRESHOLDS)"
  by (simp add: THRESHOLDS_def THRESHOLDS_LOW_def THRESHOLDS_HIGH_def grows_def)

lemma thresholds_ends: "length THRESHOLDS = 200 \<and> hd THRESHOLDS = EXISTENTIAL_WEIGHT \<and> last THRESHOLDS = - 1"
  by (simp add: THRESHOLDS_def THRESHOLDS_LOW_def THRESHOLDS_HIGH_def EXISTENTIAL_WEIGHT_def)

end
