(* ===== verification/Codec.thy ===== *)
theory Codec
  imports Frame
begin

text \<open>
  SCALE formats. The codec crate is not part of the repository, so the formats of its basic
  types are a parameter (\<open>codec\<close>) of every definition that encodes or decodes, and what the
  code relies on is stated by \<open>codec_laws\<close>: a decoder inverts its encoder and hands back the
  rest of the input, integers and byte arrays have their fixed width. The derived codecs of
  the structs (fields in declaration order) are built from these in the components' theories.
  \<open>le_codec\<close> is a concrete codec for which the laws hold.
\<close>

section \<open>Formats and their laws\<close>

record 'a format =
  enc :: "'a \<Rightarrow> bytes"
  dec :: "bytes \<Rightarrow> ('a \<times> bytes) option"

definition format_ok :: "'a format \<Rightarrow> bool" where
  "format_ok f \<longleftrightarrow> (\<forall>x r. dec f (enc f x @ r) = Some (x, r))"

definition fixed_width :: "nat \<Rightarrow> 'a format \<Rightarrow> bool" where
  "fixed_width n f \<longleftrightarrow>
     (\<forall>x. length (enc f x) = n) \<and>
     (\<forall>bs. length bs < n \<longrightarrow> dec f bs = None) \<and>
     (\<forall>bs x r. dec f bs = Some (x, r) \<longrightarrow> bs = enc f x @ r)"

record codec =
  f_u32 :: "u32 format"
  f_u64 :: "u64 format"
  f_h128 :: "h128 format"
  f_h256 :: "h256 format"
  f_bytes :: "bytes format"
  f_opt_h256 :: "h256 option format"
  f_u32s :: "u32 list format"
  f_h256s :: "h256 list format"
  f_h256ss :: "h256 list list format"

definition codec_laws :: "codec \<Rightarrow> bool" where
  "codec_laws C \<longleftrightarrow>
     format_ok (f_u32 C) \<and> fixed_width 4 (f_u32 C) \<and>
     format_ok (f_u64 C) \<and> fixed_width 8 (f_u64 C) \<and>
     format_ok (f_h128 C) \<and> fixed_width 16 (f_h128 C) \<and>
     format_ok (f_h256 C) \<and> fixed_width 32 (f_h256 C) \<and>
     format_ok (f_bytes C) \<and> format_ok (f_opt_h256 C) \<and>
     format_ok (f_u32s C) \<and> format_ok (f_h256s C) \<and> format_ok (f_h256ss C)"

lemma codec_laws_dec [simp]:
  assumes "codec_laws C"
  shows "dec (f_u32 C) (enc (f_u32 C) a @ r) = Some (a, r)"
    "dec (f_u64 C) (enc (f_u64 C) b @ r) = Some (b, r)"
    "dec (f_h128 C) (enc (f_h128 C) c @ r) = Some (c, r)"
    "dec (f_h256 C) (enc (f_h256 C) d @ r) = Some (d, r)"
    "dec (f_bytes C) (enc (f_bytes C) e @ r) = Some (e, r)"
    "dec (f_opt_h256 C) (enc (f_opt_h256 C) g @ r) = Some (g, r)"
    "dec (f_u32s C) (enc (f_u32s C) h @ r) = Some (h, r)"
    "dec (f_h256s C) (enc (f_h256s C) i @ r) = Some (i, r)"
    "dec (f_h256ss C) (enc (f_h256ss C) j @ r) = Some (j, r)"
  using assms by (simp_all add: codec_laws_def format_ok_def)

lemma codec_laws_length [simp]:
  assumes "codec_laws C"
  shows "length (enc (f_u32 C) a) = 4" "length (enc (f_u64 C) b) = 8"
    "length (enc (f_h128 C) c) = 16" "length (enc (f_h256 C) d) = 32"
  using assms by (simp_all add: codec_laws_def fixed_width_def)

lemma fixed_width_SomeD: "fixed_width n f \<Longrightarrow> dec f bs = Some (x, r) \<Longrightarrow> bs = enc f x @ r"
  by (auto simp: fixed_width_def)

lemma codec_laws_fixed:
  assumes "codec_laws C"
  shows "fixed_width 4 (f_u32 C)" "fixed_width 8 (f_u64 C)"
    "fixed_width 16 (f_h128 C)" "fixed_width 32 (f_h256 C)"
  using assms by (simp_all add: codec_laws_def)

text \<open>\<open>dec_then\<close> decodes one field and hands its value and the rest of the input on.\<close>

definition dec_then :: "'a format \<Rightarrow> bytes \<Rightarrow> ('a \<Rightarrow> bytes \<Rightarrow> 'b option) \<Rightarrow> 'b option" where
  "dec_then f bs k = (case dec f bs of None \<Rightarrow> None | Some (x, r) \<Rightarrow> k x r)"

lemma dec_then_Some:
  "dec_then f bs k = Some y \<longleftrightarrow> (\<exists>x r. dec f bs = Some (x, r) \<and> k x r = Some y)"
  by (auto simp: dec_then_def split: option.splits)

lemma dec_then_enc [simp]: "dec f (enc f x @ r) = Some (x, r) \<Longrightarrow> dec_then f (enc f x @ r) k = k x r"
  by (simp add: dec_then_def)

lemma dec_then_short:
  "fixed_width n f \<Longrightarrow> length bs < n \<Longrightarrow> dec_then f bs k = None"
  by (simp add: dec_then_def fixed_width_def)

section \<open>A concrete codec\<close>

definition word_format :: "nat \<Rightarrow> 'a::len word format" where
  "word_format n = \<lparr>enc = le_bytes n,
     dec = (\<lambda>bs. if length bs < n then None else Some (of_le_bytes (take n bs), drop n bs))\<rparr>"

fun dec_n :: "'a format \<Rightarrow> nat \<Rightarrow> bytes \<Rightarrow> ('a list \<times> bytes) option" where
  "dec_n f 0 bs = Some ([], bs)"
| "dec_n f (Suc n) bs = dec_then f bs (\<lambda>x r. dec_then \<lparr>enc = (\<lambda>_. []), dec = dec_n f n\<rparr> r
     (\<lambda>xs r'. Some (x # xs, r')))"

text \<open>Lists of bounded length in a one-byte-per-element prefix: a unary length, ended by 0.\<close>

fun unary :: "nat \<Rightarrow> bytes" where
  "unary 0 = [0]"
| "unary (Suc n) = 1 # unary n"

fun un_unary :: "bytes \<Rightarrow> (nat \<times> bytes) option" where
  "un_unary [] = None"
| "un_unary (b # bs) = (if b = 0 then Some (0, bs) else map_option (map_prod Suc id) (un_unary bs))"

definition list_format :: "'a format \<Rightarrow> 'a list format" where
  "list_format f = \<lparr>enc = (\<lambda>xs. unary (length xs) @ concat (map (enc f) xs)),
     dec = (\<lambda>bs. case un_unary bs of None \<Rightarrow> None | Some (n, r) \<Rightarrow> dec_n f n r)\<rparr>"

definition option_format :: "'a format \<Rightarrow> 'a option format" where
  "option_format f = \<lparr>enc = (\<lambda>x. case x of None \<Rightarrow> [0] | Some y \<Rightarrow> 1 # enc f y),
     dec = (\<lambda>bs. case bs of [] \<Rightarrow> None | b # r \<Rightarrow>
       if b = 0 then Some (None, r) else map_option (map_prod Some id) (dec f r))\<rparr>"

definition le_codec :: codec where
  "le_codec = \<lparr>f_u32 = word_format 4, f_u64 = word_format 8, f_h128 = word_format 16,
     f_h256 = word_format 32, f_bytes = list_format (word_format 1),
     f_opt_h256 = option_format (word_format 32), f_u32s = list_format (word_format 4),
     f_h256s = list_format (word_format 32), f_h256ss = list_format (list_format (word_format 32))\<rparr>"

lemma le_bytes_of_le_bytes:
  assumes "length bs = n" and "8 * n \<le> LENGTH('a::len)"
  shows "le_bytes n (of_le_bytes bs :: 'a word) = bs"
proof (rule nth_equalityI)
  fix i assume "i < length (le_bytes n (of_le_bytes bs :: 'a word))"
  then have i: "i < n" by simp
  show "le_bytes n (of_le_bytes bs :: 'a word) ! i = bs ! i"
  proof (rule bit_word_eqI)
    fix k assume k: "k < LENGTH(8)"
    with i assms(2) have "8 * i + k < LENGTH('a)" by simp
    with i k assms(1) show "bit (le_bytes n (of_le_bytes bs :: 'a word) ! i) k = bit (bs ! i) k"
      by (simp add: nth_le_bytes bit_simps bit_of_le_bytes)
  qed
qed (simp add: assms)

lemma word_format_laws:
  assumes "LENGTH('a::len) = 8 * n"
  shows "format_ok (word_format n :: 'a word format)" "fixed_width n (word_format n :: 'a word format)"
  using assms
  by (auto simp: format_ok_def fixed_width_def word_format_def of_le_bytes_le_bytes
      le_bytes_of_le_bytes split: if_splits)

lemma un_unary_unary [simp]: "un_unary (unary n @ r) = Some (n, r)"
  by (induction n) auto

lemma dec_n_enc:
  assumes "format_ok f"
  shows "dec_n f (length xs) (concat (map (enc f) xs) @ r) = Some (xs, r)"
  using assms by (induction xs) (auto simp: format_ok_def dec_then_def)

lemma list_format_ok: "format_ok f \<Longrightarrow> format_ok (list_format f)"
  unfolding format_ok_def [of "list_format f"] by (auto simp: list_format_def dec_n_enc)

lemma option_format_ok: "format_ok f \<Longrightarrow> format_ok (option_format f)"
  by (auto simp: format_ok_def option_format_def split: option.splits)

lemma le_codec_laws: "codec_laws le_codec"
  by (simp add: codec_laws_def le_codec_def word_format_laws list_format_ok option_format_ok)

end
