(* ===== verification/Poseidon.thy ===== *)
theory Poseidon
  imports Codec
begin

text \<open>
  The Poseidon permutation of \<open>proofhub/verifier/src/lib.rs\<close> and the v2 hashes built on it
  (module \<open>v2\<close>: notes, nullifiers, Merkle nodes). The 128-bit prime field is a dependency of the
  crate (\<open>winter_verifier::math::fields::f128\<close>), as is BLAKE3: a field is any commutative ring
  \<open>'f\<close> with the conversions \<open>fe_new\<close> and \<open>fe_int\<close> (\<open>BaseElement::new\<close> and \<open>as_int\<close>), all in
  \<open>field_env\<close>. The permutation state is the quadruple of the array \<open>[BaseElement; 4]\<close>.
\<close>

section \<open>The field and the hash it comes with\<close>

record 'f field_env =
  fe_new :: "u128 \<Rightarrow> 'f"
  fe_int :: "'f \<Rightarrow> u128"
  fe_blake3 :: "bytes \<Rightarrow> h256"

text \<open>\<open>as_int\<close> gives the canonical representative, which \<open>new\<close> maps back.\<close>

definition field_laws :: "'f field_env \<Rightarrow> bool" where
  "field_laws E \<longleftrightarrow> (\<forall>x. fe_new E (fe_int E x) = x)"

type_synonym 'f quad = "'f \<times> 'f \<times> 'f \<times> 'f"

section \<open>The permutation\<close>

definition POSEIDON_RF :: nat where "POSEIDON_RF = 8"
definition POSEIDON_RP :: nat where "POSEIDON_RP = 56"
definition POSEIDON_ROUNDS :: nat where "POSEIDON_ROUNDS = POSEIDON_RF + POSEIDON_RP"

definition poseidon_rc :: "'f field_env \<Rightarrow> nat \<Rightarrow> nat \<Rightarrow> 'f" where
  "poseidon_rc E r col =
     fe_new E (ucast (fe_blake3 E (ascii ''poseidon_f128_rc_v1'' @ [1, of_nat r, of_nat col])))"

definition poseidon_iv :: "'f field_env \<Rightarrow> 'f" where
  "poseidon_iv E = fe_new E (ucast (fe_blake3 E (ascii ''poseidon_f128_iv_v1'')))"

definition is_full_round :: "nat \<Rightarrow> bool" where
  "is_full_round r \<longleftrightarrow> r < POSEIDON_RF div 2 \<or> r \<ge> POSEIDON_RF div 2 + POSEIDON_RP"

definition poseidon_periodic :: "'f::comm_ring_1 field_env \<Rightarrow> 'f list list" where
  "poseidon_periodic E =
     [map (\<lambda>r. poseidon_rc E r 0) [0..<POSEIDON_ROUNDS],
      map (\<lambda>r. poseidon_rc E r 1) [0..<POSEIDON_ROUNDS],
      map (\<lambda>r. poseidon_rc E r 2) [0..<POSEIDON_ROUNDS],
      map (\<lambda>r. poseidon_rc E r 3) [0..<POSEIDON_ROUNDS],
      map (\<lambda>r. if is_full_round r then 1 else 0) [0..<POSEIDON_ROUNDS]]"

definition poseidon_eval_round_base :: "'f::comm_ring_1 field_env \<Rightarrow> nat \<Rightarrow> 'f quad \<Rightarrow> 'f quad" where
  "poseidon_eval_round_base E r s = (case s of (s0, s1, s2, s3) \<Rightarrow>
     let is_full = (if is_full_round r then 1 else 0);
         a0 = s0 + poseidon_rc E r 0; a1 = s1 + poseidon_rc E r 1;
         a2 = s2 + poseidon_rc E r 2; a3 = s3 + poseidon_rc E r 3;
         b0 = a0\<^sup>2 * a0;
         b1 = is_full * (a1\<^sup>2 * a1) + (1 - is_full) * a1;
         b2 = is_full * (a2\<^sup>2 * a2) + (1 - is_full) * a2;
         b3 = is_full * (a3\<^sup>2 * a3) + (1 - is_full) * a3;
         bsum = b0 + b1 + b2 + b3
     in (b0 + bsum, b1 + bsum, b2 + bsum, b3 + bsum))"

definition poseidon_perm :: "'f::comm_ring_1 field_env \<Rightarrow> 'f quad \<Rightarrow> 'f quad" where
  "poseidon_perm E s = fold (poseidon_eval_round_base E) [0..<POSEIDON_ROUNDS] s"

section \<open>Packing of 32 bytes into two field elements\<close>

definition lo128 :: "h256 \<Rightarrow> u128" where "lo128 w = ucast w"
definition hi128 :: "h256 \<Rightarrow> u128" where "hi128 w = ucast (drop_bit 128 w)"
definition join128 :: "u128 \<Rightarrow> u128 \<Rightarrow> h256" where "join128 lo hi = ucast lo OR push_bit 128 (ucast hi)"

lemma lo_join [simp]: "lo128 (join128 lo hi) = lo"
  by (rule bit_word_eqI) (auto simp: lo128_def join128_def bit_simps)

lemma hi_join [simp]: "hi128 (join128 lo hi) = hi"
  by (rule bit_word_eqI) (auto simp: hi128_def join128_def bit_simps dest: bit_imp_le_length)

lemma join_lo_hi [simp]: "join128 (lo128 w) (hi128 w) = w"
  by (rule bit_word_eqI) (auto simp: hi128_def lo128_def join128_def bit_simps)

lemma h256_eqI: "lo128 v = lo128 w \<Longrightarrow> hi128 v = hi128 w \<Longrightarrow> v = w"
  by (metis join_lo_hi)

definition unpack :: "'f field_env \<Rightarrow> h256 \<Rightarrow> 'f \<times> 'f" where
  "unpack E w = (fe_new E (lo128 w), fe_new E (hi128 w))"

definition pack :: "'f field_env \<Rightarrow> 'f \<Rightarrow> 'f \<Rightarrow> h256" where
  "pack E lo hi = join128 (fe_int E lo) (fe_int E hi)"

lemma unpack_pack [simp]: "field_laws E \<Longrightarrow> unpack E (pack E lo hi) = (lo, hi)"
  by (simp add: unpack_def pack_def field_laws_def)

lemma pack_inj: "field_laws E \<Longrightarrow> pack E a b = pack E c d \<Longrightarrow> a = c \<and> b = d"
  by (metis unpack_pack prod.inject)

definition poseidon_hash :: "'f::comm_ring_1 field_env \<Rightarrow> u64 \<Rightarrow> h256 \<Rightarrow> h256" where
  "poseidon_hash E v blinding =
     (case poseidon_perm E (poseidon_iv E, fe_new E (ucast v), fe_new E (lo128 blinding),
        fe_new E (hi128 blinding)) of (s0, s1, s2, s3) \<Rightarrow> pack E s1 s2)"

section \<open>The v2 hashes\<close>

definition iv_from_domain :: "'f field_env \<Rightarrow> string \<Rightarrow> 'f" where
  "iv_from_domain E d = fe_new E (ucast (fe_blake3 E (ascii d)))"

definition note_iv :: "'f field_env \<Rightarrow> 'f" where "note_iv E = iv_from_domain E ''nulla_note_iv_v2''"
definition nullifier_iv :: "'f field_env \<Rightarrow> 'f" where
  "nullifier_iv E = iv_from_domain E ''nulla_nullifier_iv_v2''"
definition merkle_iv :: "'f field_env \<Rightarrow> 'f" where
  "merkle_iv E = iv_from_domain E ''nulla_merkle_iv_v2''"

definition pk_digest :: "'f field_env \<Rightarrow> bytes \<Rightarrow> h256" where
  "pk_digest E pk = fe_blake3 E (ascii ''nulla_pk_digest_v2'' @ pk)"

definition note_hash :: "'f::comm_ring_1 field_env \<Rightarrow> u64 \<Rightarrow> h256 \<Rightarrow> h256 \<Rightarrow> h256" where
  "note_hash E v b pkd =
     (let (b_lo, b_hi) = unpack E b; (pkd_lo, pkd_hi) = unpack E pkd;
          (s0, s1, s2, s3) = poseidon_perm E (note_iv E, fe_new E (ucast v), b_lo, b_hi);
          (t0, t1, t2, t3) = poseidon_perm E (s0, s1 + pkd_lo, s2 + pkd_hi, s3)
      in pack E t1 t2)"

definition nullifier_hash :: "'f::comm_ring_1 field_env \<Rightarrow> h256 \<Rightarrow> h256" where
  "nullifier_hash E b =
     (let (b_lo, b_hi) = unpack E b;
          (s0, s1, s2, s3) = poseidon_perm E (nullifier_iv E, b_lo, b_hi, 0)
      in pack E s1 s2)"

definition merkle_hash2 :: "'f::comm_ring_1 field_env \<Rightarrow> h256 \<Rightarrow> h256 \<Rightarrow> h256" where
  "merkle_hash2 E left right =
     (let (l_lo, l_hi) = unpack E left; (r_lo, r_hi) = unpack E right;
          (s0, s1, s2, s3) = poseidon_perm E (merkle_iv E, l_lo, l_hi, r_lo);
          (t0, t1, t2, t3) = poseidon_perm E (s0, s1 + r_hi, s2, s3)
      in pack E t1 t2)"

end
