(* ===== verification/MerkleV2.thy ===== *)
theory MerkleV2
  imports Poseidon
begin

text \<open>
  The incremental depth-20 Merkle tree of \<open>proofhub/verifier/src/lib.rs\<close> (module \<open>v2\<close>):
  \<open>zero_subtrees\<close>, \<open>Frontier::insert\<close>, \<open>Frontier::root\<close>, the non-incremental \<open>reference_root\<close>
  and \<open>verify_merkle_path\<close>. The node hash is the argument \<open>h2\<close>; the code's is
  \<open>merkle_hash2\<close> of theory Poseidon. The specification is the padded tree \<open>subtree\<close>; the frontier
  and the reference both compute it.
\<close>

section \<open>Definitions\<close>

definition MERKLE_DEPTH :: nat where "MERKLE_DEPTH = 20"

fun zeros_from :: "(h256 \<Rightarrow> h256 \<Rightarrow> h256) \<Rightarrow> nat \<Rightarrow> h256 \<Rightarrow> h256 list" where
  "zeros_from h2 0 z = [z]"
| "zeros_from h2 (Suc n) z = z # zeros_from h2 n (h2 z z)"

definition zero_subtrees :: "(h256 \<Rightarrow> h256 \<Rightarrow> h256) \<Rightarrow> h256 list" where
  "zero_subtrees h2 = zeros_from h2 MERKLE_DEPTH 0"

record frontier =
  nodes :: "h256 list"
  leaf_count :: u32

definition frontier_default :: frontier where
  "frontier_default = \<lparr>nodes = replicate MERKLE_DEPTH 0, leaf_count = 0\<rparr>"

fun insert_levels :: "(h256 \<Rightarrow> h256 \<Rightarrow> h256) \<Rightarrow> nat list \<Rightarrow> h256 list \<Rightarrow> h256 \<Rightarrow> u32 \<Rightarrow> h256 list" where
  "insert_levels h2 [] ns node idx = ns"
| "insert_levels h2 (d # ds) ns node idx =
     (if idx AND 1 = 0 then ns[d := node]
      else insert_levels h2 ds ns (h2 (ns ! d) node) (drop_bit 1 idx))"

definition frontier_insert :: "(h256 \<Rightarrow> h256 \<Rightarrow> h256) \<Rightarrow> h256 \<Rightarrow> frontier \<Rightarrow> frontier option" where
  "frontier_insert h2 leaf f =
     (if (ucast (leaf_count f) :: u64) \<ge> push_bit MERKLE_DEPTH 1 then None
      else Some \<lparr>nodes = insert_levels h2 [0..<MERKLE_DEPTH] (nodes f) leaf (leaf_count f),
                 leaf_count = leaf_count f + 1\<rparr>)"

fun root_levels :: "(h256 \<Rightarrow> h256 \<Rightarrow> h256) \<Rightarrow> h256 list \<Rightarrow> nat list \<Rightarrow> h256 list \<Rightarrow> h256 \<Rightarrow> u32 \<Rightarrow> h256" where
  "root_levels h2 z [] ns node idx = node"
| "root_levels h2 z (d # ds) ns node idx =
     root_levels h2 z ds ns
       (if idx AND 1 = 1 then h2 (ns ! d) node else h2 node (z ! d)) (drop_bit 1 idx)"

definition frontier_root :: "(h256 \<Rightarrow> h256 \<Rightarrow> h256) \<Rightarrow> frontier \<Rightarrow> h256" where
  "frontier_root h2 f =
     (let z = zero_subtrees h2
      in root_levels h2 z [0..<MERKLE_DEPTH] (nodes f) (z ! 0) (leaf_count f))"

fun pair_level :: "(h256 \<Rightarrow> h256 \<Rightarrow> h256) \<Rightarrow> h256 \<Rightarrow> h256 list \<Rightarrow> h256 list" where
  "pair_level h2 pad [] = []"
| "pair_level h2 pad [l] = [h2 l pad]"
| "pair_level h2 pad (l # r # ls) = h2 l r # pair_level h2 pad ls"

definition next_level :: "(h256 \<Rightarrow> h256 \<Rightarrow> h256) \<Rightarrow> h256 list \<Rightarrow> nat \<Rightarrow> h256 list \<Rightarrow> h256 list" where
  "next_level h2 z d level =
     (let nxt = pair_level h2 (z ! d) level in if nxt = [] then [z ! (d + 1)] else nxt)"

definition reference_root :: "(h256 \<Rightarrow> h256 \<Rightarrow> h256) \<Rightarrow> h256 list \<Rightarrow> h256" where
  "reference_root h2 leaves =
     (let z = zero_subtrees h2 in fold (next_level h2 z) [0..<MERKLE_DEPTH] leaves ! 0)"

fun fold_path :: "(h256 \<Rightarrow> h256 \<Rightarrow> h256) \<Rightarrow> nat list \<Rightarrow> h256 list \<Rightarrow> h256 \<Rightarrow> u32 \<Rightarrow> h256" where
  "fold_path h2 [] sibs node idx = node"
| "fold_path h2 (d # ds) sibs node idx =
     fold_path h2 ds sibs
       (if idx AND 1 = 0 then h2 node (sibs ! d) else h2 (sibs ! d) node) (drop_bit 1 idx)"

definition verify_merkle_path ::
  "(h256 \<Rightarrow> h256 \<Rightarrow> h256) \<Rightarrow> h256 \<Rightarrow> u32 \<Rightarrow> h256 list \<Rightarrow> h256 \<Rightarrow> bool" where
  "verify_merkle_path h2 leaf idx sibs rt \<longleftrightarrow>
     fold_path h2 [0..<MERKLE_DEPTH] sibs leaf idx = rt"

section \<open>Specification: the padded tree\<close>

text \<open>\<open>subtree h2 ls d i\<close> is the root of the \<open>i\<close>-th subtree of height \<open>d\<close> over the leaves \<open>ls\<close> padded
  with the zero leaf.\<close>

fun subtree :: "(h256 \<Rightarrow> h256 \<Rightarrow> h256) \<Rightarrow> h256 list \<Rightarrow> nat \<Rightarrow> nat \<Rightarrow> h256" where
  "subtree h2 ls 0 i = (if i < length ls then ls ! i else 0)"
| "subtree h2 ls (Suc d) i = h2 (subtree h2 ls d (2 * i)) (subtree h2 ls d (2 * i + 1))"

fun zero_at :: "(h256 \<Rightarrow> h256 \<Rightarrow> h256) \<Rightarrow> nat \<Rightarrow> h256" where
  "zero_at h2 0 = 0"
| "zero_at h2 (Suc d) = h2 (zero_at h2 d) (zero_at h2 d)"

text \<open>The frontier represents the leaf list \<open>ls\<close>.\<close>

definition frontier_rep :: "(h256 \<Rightarrow> h256 \<Rightarrow> h256) \<Rightarrow> h256 list \<Rightarrow> frontier \<Rightarrow> bool" where
  "frontier_rep h2 ls f \<longleftrightarrow>
     length (nodes f) = MERKLE_DEPTH \<and> length ls \<le> 2 ^ MERKLE_DEPTH \<and>
     unat (leaf_count f) = length ls \<and>
     (\<forall>d < MERKLE_DEPTH. odd (length ls div 2 ^ d) \<longrightarrow>
        nodes f ! d = subtree h2 ls d (length ls div 2 ^ d - 1))"

section \<open>Subtrees\<close>

lemma nth_zeros_from: "i \<le> n \<Longrightarrow> zeros_from h2 n (zero_at h2 k) ! i = zero_at h2 (k + i)"
proof (induction n arbitrary: i k)
  case 0
  then show ?case by simp
next
  case (Suc n)
  show ?case
  proof (cases i)
    case 0
    then show ?thesis by simp
  next
    case (Suc j)
    then show ?thesis using Suc.IH [of j "Suc k"] Suc.prems by simp
  qed
qed

lemma nth_zero_subtrees: "d \<le> MERKLE_DEPTH \<Longrightarrow> zero_subtrees h2 ! d = zero_at h2 d"
  using nth_zeros_from [of d MERKLE_DEPTH h2 0] by (simp add: zero_subtrees_def)

lemma subtree_beyond: "length ls \<le> i * 2 ^ d \<Longrightarrow> subtree h2 ls d i = zero_at h2 d"
proof (induction d arbitrary: i)
  case 0
  then show ?case by simp
next
  case (Suc d)
  then have "length ls \<le> (2 * i) * 2 ^ d" "length ls \<le> (2 * i + 1) * 2 ^ d"
    by (simp_all add: algebra_simps)
  then show ?case using Suc.IH by simp
qed

lemma subtree_append: "(i + 1) * 2 ^ d \<le> length ls \<Longrightarrow> subtree h2 (ls @ xs) d i = subtree h2 ls d i"
proof (induction d arbitrary: i)
  case 0
  then show ?case by (simp add: nth_append)
next
  case (Suc d)
  then have "(2 * i + 1) * 2 ^ d \<le> length ls" "(2 * i + 1 + 1) * 2 ^ d \<le> length ls"
    by (simp_all add: algebra_simps)
  then show ?case using Suc.IH by simp
qed

section \<open>Bits of the cursor\<close>

lemma even_unat: "even (unat (w :: 'a::len word)) \<longleftrightarrow> even w"
proof -
  have "bit (unat w) 0 \<longleftrightarrow> bit w 0" by (simp add: bit_unsigned_iff del: bit_0)
  then show ?thesis by (simp add: bit_0)
qed

lemma and_1_word:
  "(idx AND 1 = (0 :: u32)) \<longleftrightarrow> even (unat idx)" "(idx AND 1 = (1 :: u32)) \<longleftrightarrow> odd (unat idx)"
  by (simp_all add: and_one_eq mod_2_eq_odd even_unat)

lemma unat_shift: "unat (drop_bit 1 (idx :: u32)) = unat idx div 2"
  by (subst unat_drop_bit_eq) (simp only: drop_bit_eq_div power_one_right)

lemma cursor_up: "unat (idx :: u32) = n div 2 ^ d \<Longrightarrow> unat (drop_bit 1 idx) = n div 2 ^ Suc d"
  by (simp only: unat_shift div_mult2_eq power_Suc2)

section \<open>Roots\<close>

lemma root_levels_subtree:
  assumes "d \<le> MERKLE_DEPTH" and "unat idx = length ls div 2 ^ d"
    and "\<forall>k < MERKLE_DEPTH. odd (length ls div 2 ^ k) \<longrightarrow>
       ns ! k = subtree h2 ls k (length ls div 2 ^ k - 1)"
  shows "root_levels h2 (zero_subtrees h2) [d..<MERKLE_DEPTH] ns
       (subtree h2 ls d (length ls div 2 ^ d)) idx =
     subtree h2 ls MERKLE_DEPTH (length ls div 2 ^ MERKLE_DEPTH)"
  using assms
proof (induction "MERKLE_DEPTH - d" arbitrary: d idx)
  case 0
  then show ?case by simp
next
  case (Suc x)
  let ?m = "length ls div 2 ^ d"
  have d: "d < MERKLE_DEPTH" using Suc.hyps by simp
  have up: "length ls div 2 ^ Suc d = ?m div 2" by (simp only: div_mult2_eq power_Suc2)
  have node: "(if idx AND 1 = 1 then h2 (ns ! d) (subtree h2 ls d ?m)
       else h2 (subtree h2 ls d ?m) (zero_subtrees h2 ! d)) = subtree h2 ls (Suc d) (?m div 2)"
  proof (cases "odd ?m")
    case True
    then have "2 * (?m div 2) = ?m - 1" "2 * (?m div 2) + 1 = ?m"
      by (simp_all add: odd_two_times_div_two_nat)
    then show ?thesis using True Suc.prems d by (simp add: and_1_word)
  next
    case False
    then have e: "2 * (?m div 2) = ?m" by (simp add: even_two_times_div_two)
    have "length ls \<le> (?m + 1) * 2 ^ d"
      using dividend_less_div_times [of "2 ^ d" "length ls"] by simp
    then have "subtree h2 ls d (?m + 1) = zero_at h2 d" by (rule subtree_beyond)
    then show ?thesis using False Suc.prems d e by (simp add: and_1_word nth_zero_subtrees)
  qed
  have "root_levels h2 (zero_subtrees h2) [Suc d..<MERKLE_DEPTH] ns
       (subtree h2 ls (Suc d) (length ls div 2 ^ Suc d)) (drop_bit 1 idx) =
     subtree h2 ls MERKLE_DEPTH (length ls div 2 ^ MERKLE_DEPTH)"
    using Suc.hyps Suc.prems d cursor_up by (intro Suc.hyps(1)) auto
  then show ?case
    using node up d by (simp add: upt_conv_Cons del: upt_Suc subtree.simps(2))
qed

lemma frontier_root_subtree:
  assumes "frontier_rep h2 ls f"
  shows "frontier_root h2 f = subtree h2 ls MERKLE_DEPTH (length ls div 2 ^ MERKLE_DEPTH)"
proof -
  have "zero_subtrees h2 ! 0 = subtree h2 ls 0 (length ls div 2 ^ 0)"
    by (simp add: nth_zero_subtrees)
  then show ?thesis
    using root_levels_subtree [of 0 "leaf_count f" ls "nodes f" h2] assms
    by (simp add: frontier_root_def frontier_rep_def)
qed

text \<open>A level of the reference computation holds the subtrees of its height, the rest is padding.\<close>

definition level_rep :: "(h256 \<Rightarrow> h256 \<Rightarrow> h256) \<Rightarrow> h256 list \<Rightarrow> nat \<Rightarrow> h256 list \<Rightarrow> bool" where
  "level_rep h2 ls d level \<longleftrightarrow>
     (\<forall>i < length level. level ! i = subtree h2 ls d i) \<and>
     (\<forall>i \<ge> length level. subtree h2 ls d i = zero_at h2 d) \<and> (0 < d \<longrightarrow> level \<noteq> [])"

lemma length_pair_level: "length (pair_level h2 p xs) = (length xs + 1) div 2"
  by (induction h2 p xs rule: pair_level.induct) auto

lemma nth_pair_level:
  "i < (length xs + 1) div 2 \<Longrightarrow>
     pair_level h2 p xs ! i = h2 (xs ! (2 * i)) (if 2 * i + 1 < length xs then xs ! (2 * i + 1) else p)"
proof (induction h2 p xs arbitrary: i rule: pair_level.induct)
  case (3 h2 p l r ls)
  then show ?case by (cases i) auto
qed auto

lemma next_level_rep:
  assumes "level_rep h2 ls d level" and "d < MERKLE_DEPTH"
  shows "level_rep h2 ls (Suc d) (next_level h2 (zero_subtrees h2) d level)"
proof (cases "level = []")
  case True
  then show ?thesis
    using assms by (auto simp: level_rep_def next_level_def nth_zero_subtrees simp del: subtree.simps(1))
next
  case False
  then have ne: "pair_level h2 (zero_subtrees h2 ! d) level \<noteq> []"
    using length_pair_level [of h2 "zero_subtrees h2 ! d" level] by (cases level) auto
  then show ?thesis
    using assms False
    by (auto simp: level_rep_def next_level_def Let_def nth_zero_subtrees length_pair_level
        nth_pair_level simp del: subtree.simps(1))
qed

lemma levels_rep:
  "d \<le> MERKLE_DEPTH \<Longrightarrow> level_rep h2 ls d (fold (next_level h2 (zero_subtrees h2)) [0..<d] ls)"
proof (induction d)
  case 0
  then show ?case by (simp add: level_rep_def)
next
  case (Suc d)
  then show ?case using next_level_rep by simp
qed

lemma reference_root_subtree: "reference_root h2 ls = subtree h2 ls MERKLE_DEPTH 0"
  using levels_rep [of MERKLE_DEPTH h2 ls]
  by (simp add: reference_root_def level_rep_def MERKLE_DEPTH_def del: subtree.simps upt_Suc)

section \<open>Insertion\<close>

text \<open>
  While the loop is at level \<open>d\<close>, the low \<open>d\<close> bits of the number \<open>n\<close> of leaves are all set, so
  those of \<open>n + 1\<close> are all clear; the node carried up is the subtree that ends with the new leaf.
\<close>

lemma succ_div_low:
  assumes "(n + 1) mod 2 ^ d = (0::nat)"
  shows "even (n div 2 ^ d) \<Longrightarrow> (n + 1) div 2 ^ d = n div 2 ^ d + 1"
    and "odd (n div 2 ^ d) \<Longrightarrow> (n + 1) mod 2 ^ Suc d = 0"
    and "even (n div 2 ^ d) \<Longrightarrow> d < k \<Longrightarrow> (n + 1) div 2 ^ k = n div 2 ^ k"
proof -
  obtain q where q: "n + 1 = q * 2 ^ d" using assms by (metis dvd_eq_mod_eq_0 dvd_div_mult_self)
  then have q0: "q \<noteq> 0" by (cases q) auto
  have n: "n = (q - 1) * 2 ^ d + (2 ^ d - 1)"
    using q q0 by (cases q) (auto simp: algebra_simps)
  moreover have "((q - 1) * 2 ^ d + (2 ^ d - 1)) div 2 ^ d = q - 1"
    by (cases "2 ^ d :: nat") (auto intro: div_nat_eqI)
  ultimately have m: "n div 2 ^ d = q - 1" by metis
  show up: "(n + 1) div 2 ^ d = n div 2 ^ d + 1" if "even (n div 2 ^ d)"
    using q q0 m by simp
  show "(n + 1) mod 2 ^ Suc d = 0" if "odd (n div 2 ^ d)"
  proof -
    have "even q" using that m q0 by (cases q) auto
    then show ?thesis using q by (auto elim!: evenE)
  qed
  show "(n + 1) div 2 ^ k = n div 2 ^ k" if e: "even (n div 2 ^ d)" and "d < k"
  proof -
    obtain j where k: "k = d + Suc j" using \<open>d < k\<close> less_imp_Suc_add by auto
    have "(n + 1) div 2 ^ d div 2 = n div 2 ^ d div 2" using up [OF e] e by simp
    moreover have "(2::nat) ^ k = 2 ^ d * (2 * 2 ^ j)" by (simp add: k power_add)
    ultimately show ?thesis by (metis div_mult2_eq)
  qed
qed

lemma low_bits_even:
  assumes "m mod 2 ^ d = (0::nat)" and "k < d"
  shows "even (m div 2 ^ k)"
proof -
  have "Suc k \<le> d" using assms(2) by simp
  then have "(2::nat) ^ Suc k dvd m"
    using assms(1) by (metis dvd_eq_mod_eq_0 dvd_trans le_imp_power_dvd)
  then show ?thesis by (auto elim!: dvdE)
qed

lemma odd_block: "odd (n div b) \<Longrightarrow> (n div b - 1 + 1) * b \<le> (n::nat)"
  using div_times_less_eq_dividend [of n b] by (cases "n div b") auto

lemma insert_levels_rep:
  assumes "d \<le> MERKLE_DEPTH" and "unat idx = length ls div 2 ^ d"
    and "(length ls + 1) mod 2 ^ d = 0" and "length ns = MERKLE_DEPTH"
    and "\<forall>k < MERKLE_DEPTH. odd (length ls div 2 ^ k) \<longrightarrow>
       ns ! k = subtree h2 ls k (length ls div 2 ^ k - 1)"
    and "k < MERKLE_DEPTH" and "odd ((length ls + 1) div 2 ^ k)"
  shows "insert_levels h2 [d..<MERKLE_DEPTH] ns (subtree h2 (ls @ [x]) d (length ls div 2 ^ d)) idx ! k
     = subtree h2 (ls @ [x]) k ((length ls + 1) div 2 ^ k - 1)"
  using assms
proof (induction "MERKLE_DEPTH - d" arbitrary: d idx)
  case 0
  then have "d = MERKLE_DEPTH" by simp
  then have "even ((length ls + 1) div 2 ^ k)" using 0 low_bits_even by simp
  then show ?case using 0 by simp
next
  case (Suc m)
  let ?n = "length ls" and ?T = "subtree h2 (ls @ [x])"
  have d: "d < MERKLE_DEPTH" using Suc.hyps by simp
  show ?case
  proof (cases "even (?n div 2 ^ d)")
    case True
    have "ns[d := ?T d (?n div 2 ^ d)] ! k = ?T k ((?n + 1) div 2 ^ k - 1)"
    proof (cases k d rule: linorder_cases)
      case less
      have "even ((?n + 1) div 2 ^ k)" by (rule low_bits_even [OF Suc.prems(3) less])
      then show ?thesis using Suc.prems by simp
    next
      case equal
      then show ?thesis using Suc.prems d succ_div_low(1) [OF Suc.prems(3) True] by simp
    next
      case greater
      then have same: "(?n + 1) div 2 ^ k = ?n div 2 ^ k"
        using succ_div_low(3) [OF Suc.prems(3) True] by simp
      then have o: "odd (?n div 2 ^ k)" using Suc.prems by simp
      then have "(?n div 2 ^ k - 1 + 1) * 2 ^ k \<le> ?n" by (rule odd_block)
      then show ?thesis
        using greater same o Suc.prems subtree_append [of "?n div 2 ^ k - 1" k ls h2 "[x]"] by simp
    qed
    then show ?thesis
      using True Suc.prems d by (simp add: upt_conv_Cons and_1_word del: upt_Suc)
  next
    case False
    then have h: "2 * (?n div 2 ^ d div 2) = ?n div 2 ^ d - 1"
      "2 * (?n div 2 ^ d div 2) + 1 = ?n div 2 ^ d"
      by (simp_all add: odd_two_times_div_two_nat)
    have "(?n div 2 ^ d - 1 + 1) * 2 ^ d \<le> ?n" using False by (rule odd_block)
    then have "ns ! d = ?T d (?n div 2 ^ d - 1)"
      using False Suc.prems d subtree_append [of "?n div 2 ^ d - 1" d ls h2 "[x]"] by simp
    then have node: "h2 (ns ! d) (?T d (?n div 2 ^ d)) = ?T (Suc d) (?n div 2 ^ Suc d)"
      using h by (simp add: div_mult2_eq power_Suc2 del: power_Suc)
    have "insert_levels h2 [Suc d..<MERKLE_DEPTH] ns (?T (Suc d) (?n div 2 ^ Suc d)) (drop_bit 1 idx) ! k
       = ?T k ((?n + 1) div 2 ^ k - 1)"
      using Suc.hyps Suc.prems d cursor_up succ_div_low(2) [OF Suc.prems(3) False]
      by (intro Suc.hyps(1)) auto
    then show ?thesis
      using False node Suc.prems d
      by (simp add: upt_conv_Cons and_1_word del: upt_Suc subtree.simps(2))
  qed
qed

lemma length_insert_levels [simp]: "length (insert_levels h2 ds ns node idx) = length ns"
  by (induction h2 ds ns node idx rule: insert_levels.induct) auto

lemma full_iff: "(ucast (c :: u32) :: u64) \<ge> push_bit MERKLE_DEPTH 1 \<longleftrightarrow> unat c \<ge> 2 ^ MERKLE_DEPTH"
proof -
  have "unat (push_bit MERKLE_DEPTH 1 :: u64) = 2 ^ MERKLE_DEPTH"
    by (simp add: MERKLE_DEPTH_def push_bit_eq_mult)
  then show ?thesis by (simp only: word_le_nat_alt unat_ucast_up len_of_numeral_defs)
qed

lemma frontier_insert_rep:
  assumes rep: "frontier_rep h2 ls f" and room: "length ls < 2 ^ MERKLE_DEPTH"
  obtains f' where "frontier_insert h2 x f = Some f'" and "frontier_rep h2 (ls @ [x]) f'"
proof
  let ?f' = "\<lparr>nodes = insert_levels h2 [0..<MERKLE_DEPTH] (nodes f) x (leaf_count f),
    leaf_count = leaf_count f + 1\<rparr>"
  have c: "unat (leaf_count f) = length ls" using rep by (simp add: frontier_rep_def)
  show "frontier_insert h2 x f = Some ?f'"
    using room by (simp only: frontier_insert_def full_iff c) simp
  have "unat (leaf_count f + 1) = length ls + 1"
    using c room by (simp add: unat_word_ariths MERKLE_DEPTH_def)
  moreover have "subtree h2 (ls @ [x]) 0 (length ls div 2 ^ 0) = x" by simp
  ultimately show "frontier_rep h2 (ls @ [x]) ?f'"
    using rep room insert_levels_rep [of 0 "leaf_count f" ls "nodes f" h2 _ x]
    by (simp add: frontier_rep_def)
qed

lemma frontier_insert_full:
  assumes "frontier_rep h2 ls f" and "length ls = 2 ^ MERKLE_DEPTH"
  shows "frontier_insert h2 x f = None"
  using assms unfolding frontier_insert_def full_iff by (simp add: frontier_rep_def)

lemma frontier_default_rep: "frontier_rep h2 [] frontier_default"
  by (simp add: frontier_rep_def frontier_default_def)

section \<open>The tree after a sequence of insertions\<close>

fun inserts :: "(h256 \<Rightarrow> h256 \<Rightarrow> h256) \<Rightarrow> h256 list \<Rightarrow> frontier \<Rightarrow> frontier option" where
  "inserts h2 [] f = Some f"
| "inserts h2 (x # xs) f = (case frontier_insert h2 x f of None \<Rightarrow> None | Some f' \<Rightarrow> inserts h2 xs f')"

text \<open>The root the incremental tree shows for \<open>ls\<close>: the full tree shows the root of the empty one.\<close>

definition shown_root :: "(h256 \<Rightarrow> h256 \<Rightarrow> h256) \<Rightarrow> h256 list \<Rightarrow> h256" where
  "shown_root h2 ls = reference_root h2 (if length ls < 2 ^ MERKLE_DEPTH then ls else [])"

lemma frontier_root_shown:
  assumes "frontier_rep h2 ls f"
  shows "frontier_root h2 f = shown_root h2 ls"
proof (cases "length ls < 2 ^ MERKLE_DEPTH")
  case True
  then show ?thesis
    using frontier_root_subtree [OF assms] by (simp add: shown_root_def reference_root_subtree)
next
  case False
  then have "length ls = 2 ^ MERKLE_DEPTH" using assms by (simp add: frontier_rep_def)
  then show ?thesis
    using frontier_root_subtree [OF assms] False
    by (simp add: shown_root_def reference_root_subtree subtree_beyond)
qed

lemma inserts_rep:
  assumes "frontier_rep h2 ks f" and "length (ks @ ls) \<le> 2 ^ MERKLE_DEPTH"
  shows "\<exists>f'. inserts h2 ls f = Some f' \<and> frontier_rep h2 (ks @ ls) f'"
  using assms
proof (induction ls arbitrary: ks f)
  case Nil
  then show ?case by simp
next
  case (Cons x ls)
  then obtain f' where "frontier_insert h2 x f = Some f'" and "frontier_rep h2 (ks @ [x]) f'"
    by (auto elim: frontier_insert_rep [of h2 ks f x])
  then show ?case using Cons.IH [of "ks @ [x]" f'] Cons.prems by simp
qed

text \<open>
  C6. Incremental and reference computation agree: after inserting any fewer than \<open>2 ^ 20\<close> leaves
  into the empty frontier, every insertion succeeds and \<open>Frontier::root\<close> is \<open>reference_root\<close> of
  the leaves, whatever the node hash.
\<close>

theorem frontier_root_correct:
  assumes "length ls < 2 ^ MERKLE_DEPTH"
  shows "\<exists>f. inserts h2 ls frontier_default = Some f \<and> unat (leaf_count f) = length ls \<and>
    frontier_root h2 f = reference_root h2 ls"
proof -
  obtain f where f: "inserts h2 ls frontier_default = Some f" "frontier_rep h2 ls f"
    using inserts_rep [OF frontier_default_rep, of ls h2] assms by auto
  then have "unat (leaf_count f) = length ls" by (simp add: frontier_rep_def)
  then show ?thesis using f assms by (simp add: frontier_root_shown shown_root_def)
qed

lemma frontier_root_correct_witness:
  "\<exists>f. inserts (\<lambda>a b. 2 * a + 3 * b + 1) [4, 5, 6] frontier_default = Some f \<and>
    unat (leaf_count f) = length [4, 5, 6 :: h256] \<and>
    frontier_root (\<lambda>a b. 2 * a + 3 * b + 1) f = reference_root (\<lambda>a b. 2 * a + 3 * b + 1) [4, 5, 6]"
  by (rule frontier_root_correct) (simp add: MERKLE_DEPTH_def)

text \<open>
  C35. The full tree loses its root: the tree accepts \<open>2 ^ 20\<close> leaves, whatever they are; after the last
  one \<open>Frontier::root\<close> is the root of the empty tree, and every further insertion fails.
\<close>

theorem frontier_full_shows_empty_root:
  assumes "length ls = 2 ^ MERKLE_DEPTH"
  shows "\<exists>f. inserts h2 ls frontier_default = Some f \<and>
    frontier_root h2 f = reference_root h2 [] \<and> (\<forall>x. frontier_insert h2 x f = None)"
proof -
  obtain f where "inserts h2 ls frontier_default = Some f" and "frontier_rep h2 ls f"
    using inserts_rep [OF frontier_default_rep, of ls h2] assms by auto
  then show ?thesis
    using frontier_insert_full [of h2 ls f] assms by (auto simp: frontier_root_shown shown_root_def)
qed

lemma frontier_full_shows_empty_root_witness:
  "\<exists>f. inserts (\<lambda>a b. 2 * a + b) (replicate (2 ^ MERKLE_DEPTH) 7) frontier_default = Some f \<and>
    frontier_root (\<lambda>a b. 2 * a + b) f = reference_root (\<lambda>a b. 2 * a + b) [] \<and>
    (\<forall>x. frontier_insert (\<lambda>a b. 2 * a + b) x f = None)"
  by (rule frontier_full_shows_empty_root) simp

section \<open>Membership paths\<close>

text \<open>The pairs that \<open>verify_merkle_path\<close> hashes on its way up.\<close>

fun path_pairs :: "(h256 \<Rightarrow> h256 \<Rightarrow> h256) \<Rightarrow> nat list \<Rightarrow> h256 list \<Rightarrow> h256 \<Rightarrow> u32 \<Rightarrow> (h256 \<times> h256) list" where
  "path_pairs h2 [] sibs node idx = []"
| "path_pairs h2 (d # ds) sibs node idx =
     (let p = (if idx AND 1 = 0 then (node, sibs ! d) else (sibs ! d, node))
      in p # path_pairs h2 ds sibs (h2 (fst p) (snd p)) (drop_bit 1 idx))"

definition sibling_path :: "(h256 \<Rightarrow> h256 \<Rightarrow> h256) \<Rightarrow> h256 list \<Rightarrow> nat \<Rightarrow> h256 list" where
  "sibling_path h2 ls i = map (\<lambda>d. subtree h2 ls d
     (if even (i div 2 ^ d) then i div 2 ^ d + 1 else i div 2 ^ d - 1)) [0..<MERKLE_DEPTH]"

lemma fold_path_subtree:
  assumes "d \<le> MERKLE_DEPTH" and "unat idx = i div 2 ^ d"
  shows "fold_path h2 [d..<MERKLE_DEPTH] (sibling_path h2 ls i) (subtree h2 ls d (i div 2 ^ d)) idx =
    subtree h2 ls MERKLE_DEPTH (i div 2 ^ MERKLE_DEPTH)"
  using assms
proof (induction "MERKLE_DEPTH - d" arbitrary: d idx)
  case 0
  then show ?case by simp
next
  case (Suc m)
  let ?j = "i div 2 ^ d" and ?s = "sibling_path h2 ls i"
  have d: "d < MERKLE_DEPTH" using Suc.hyps by simp
  have node: "(if idx AND 1 = 0 then h2 (subtree h2 ls d ?j) (?s ! d)
       else h2 (?s ! d) (subtree h2 ls d ?j)) = subtree h2 ls (Suc d) (i div 2 ^ Suc d)"
  proof (cases "even ?j")
    case True
    then have "2 * (?j div 2) = ?j" by (simp add: even_two_times_div_two)
    then show ?thesis using True Suc.prems d
      by (simp add: and_1_word sibling_path_def div_mult2_eq power_Suc2 del: power_Suc)
  next
    case False
    then have "2 * (?j div 2) = ?j - 1" "2 * (?j div 2) + 1 = ?j"
      by (simp_all add: odd_two_times_div_two_nat)
    then show ?thesis using False Suc.prems d
      by (simp add: and_1_word sibling_path_def div_mult2_eq power_Suc2 del: power_Suc)
  qed
  have "fold_path h2 [Suc d..<MERKLE_DEPTH] ?s (subtree h2 ls (Suc d) (i div 2 ^ Suc d)) (drop_bit 1 idx)
      = subtree h2 ls MERKLE_DEPTH (i div 2 ^ MERKLE_DEPTH)"
    using Suc.hyps Suc.prems d cursor_up by (intro Suc.hyps(1)) auto
  then show ?case
    using node d by (simp add: upt_conv_Cons del: upt_Suc subtree.simps(2))
qed

text \<open>
  C21. Membership paths are complete: for every leaf of a tree of fewer than \<open>2 ^ 20\<close> leaves, the
  path of its sibling subtrees verifies against the root the frontier shows after the insertions.
\<close>

theorem merkle_path_complete:
  assumes "length ls < 2 ^ MERKLE_DEPTH" and "i < length ls"
  shows "\<exists>f. inserts h2 ls frontier_default = Some f \<and>
    verify_merkle_path h2 (ls ! i) (of_nat i) (sibling_path h2 ls i) (frontier_root h2 f)"
proof -
  obtain f where f: "inserts h2 ls frontier_default = Some f" "frontier_rep h2 ls f"
    using inserts_rep [OF frontier_default_rep, of ls h2] assms by auto
  have "i < 2 ^ MERKLE_DEPTH" using assms by simp
  then have u: "unat (of_nat i :: u32) = i div 2 ^ 0"
    by (simp add: unat_of_nat MERKLE_DEPTH_def)
  have "verify_merkle_path h2 (ls ! i) (of_nat i) (sibling_path h2 ls i) (frontier_root h2 f)"
    using fold_path_subtree [of 0 "of_nat i" i h2 ls] u f assms
    by (simp add: verify_merkle_path_def frontier_root_shown shown_root_def reference_root_subtree)
  with f show ?thesis by blast
qed

lemma merkle_path_complete_witness:
  "\<exists>f. inserts (\<lambda>a b. 2 * a + 3 * b + 1) [4, 5, 6] frontier_default = Some f \<and>
    verify_merkle_path (\<lambda>a b. 2 * a + 3 * b + 1) ([4, 5, 6] ! 2) (of_nat 2)
      (sibling_path (\<lambda>a b. 2 * a + 3 * b + 1) [4, 5, 6] 2) (frontier_root (\<lambda>a b. 2 * a + 3 * b + 1) f)"
  by (rule merkle_path_complete) (simp_all add: MERKLE_DEPTH_def)

lemma fold_path_binding:
  assumes "node \<noteq> node'" and "fold_path h2 ds sibs node idx = fold_path h2 ds sibs' node' idx"
  shows "\<exists>k < length ds. path_pairs h2 ds sibs node idx ! k \<noteq> path_pairs h2 ds sibs' node' idx ! k \<and>
    case_prod h2 (path_pairs h2 ds sibs node idx ! k) = case_prod h2 (path_pairs h2 ds sibs' node' idx ! k)"
  using assms
proof (induction ds arbitrary: node node' idx)
  case Nil
  then show ?case by simp
next
  case (Cons d ds)
  let ?p = "if idx AND 1 = 0 then (node, sibs ! d) else (sibs ! d, node)"
  let ?p' = "if idx AND 1 = 0 then (node', sibs' ! d) else (sibs' ! d, node')"
  have ne: "?p \<noteq> ?p'" using Cons.prems by simp
  show ?case
  proof (cases "case_prod h2 ?p = case_prod h2 ?p'")
    case True
    with ne show ?thesis by (intro exI [of _ 0]) (simp add: Let_def split: prod.splits)
  next
    case False
    then have "\<exists>k < length ds.
        path_pairs h2 ds sibs (case_prod h2 ?p) (drop_bit 1 idx) ! k \<noteq>
        path_pairs h2 ds sibs' (case_prod h2 ?p') (drop_bit 1 idx) ! k \<and>
        case_prod h2 (path_pairs h2 ds sibs (case_prod h2 ?p) (drop_bit 1 idx) ! k) =
        case_prod h2 (path_pairs h2 ds sibs' (case_prod h2 ?p') (drop_bit 1 idx) ! k)"
      using Cons.prems by (intro Cons.IH) (auto split: if_splits)
    then obtain k where "k < length ds"
      "path_pairs h2 ds sibs (case_prod h2 ?p) (drop_bit 1 idx) ! k \<noteq>
       path_pairs h2 ds sibs' (case_prod h2 ?p') (drop_bit 1 idx) ! k"
      "case_prod h2 (path_pairs h2 ds sibs (case_prod h2 ?p) (drop_bit 1 idx) ! k) =
       case_prod h2 (path_pairs h2 ds sibs' (case_prod h2 ?p') (drop_bit 1 idx) ! k)"
      by blast
    then show ?thesis
      by (intro exI [of _ "Suc k"]) (simp add: Let_def case_prod_beta split: if_splits)
  qed
qed

text \<open>
  C20. Paths are binding: two different leaves that verify at the same index against the same root
  give, at an explicit level of the two paths, two different pairs with the same node hash.
\<close>

theorem merkle_path_binding:
  assumes "verify_merkle_path h2 leaf idx sibs rt" and "verify_merkle_path h2 leaf' idx sibs' rt"
    and "leaf \<noteq> leaf'"
  shows "\<exists>k < MERKLE_DEPTH.
    path_pairs h2 [0..<MERKLE_DEPTH] sibs leaf idx ! k \<noteq>
      path_pairs h2 [0..<MERKLE_DEPTH] sibs' leaf' idx ! k \<and>
    case_prod h2 (path_pairs h2 [0..<MERKLE_DEPTH] sibs leaf idx ! k) =
      case_prod h2 (path_pairs h2 [0..<MERKLE_DEPTH] sibs' leaf' idx ! k)"
  using fold_path_binding [of leaf leaf' h2 "[0..<MERKLE_DEPTH]" sibs idx sibs'] assms
  by (simp add: verify_merkle_path_def)

lemma merkle_path_binding_witness:
  "verify_merkle_path (\<lambda>a b. 0) 1 0 (replicate 20 0) 0 \<and> verify_merkle_path (\<lambda>a b. 0) 2 0 (replicate 20 0) 0 \<and>
   (\<exists>k < MERKLE_DEPTH.
    path_pairs (\<lambda>a b. 0) [0..<MERKLE_DEPTH] (replicate 20 0) 1 0 ! k \<noteq>
      path_pairs (\<lambda>a b. 0) [0..<MERKLE_DEPTH] (replicate 20 0) 2 0 ! k \<and>
    case_prod (\<lambda>a b. 0 :: h256) (path_pairs (\<lambda>a b. 0) [0..<MERKLE_DEPTH] (replicate 20 0) 1 0 ! k) =
      case_prod (\<lambda>a b. 0) (path_pairs (\<lambda>a b. 0) [0..<MERKLE_DEPTH] (replicate 20 0) 2 0 ! k))"
proof -
  have v: "verify_merkle_path (\<lambda>a b. 0) l 0 (replicate 20 0) 0" for l
    by (simp add: verify_merkle_path_def MERKLE_DEPTH_def upt_rec)
  show ?thesis using v [of 1] v [of 2] merkle_path_binding [OF v [of 1] v [of 2]] by simp
qed

section \<open>The interface to the pallet\<close>

text \<open>
  \<open>v2_insert_leaf\<close> as the ProofHub runtime provides it to the pallet: rebuild the frontier from its
  parts, insert, return the parts and the new root.
\<close>

definition v2_insert_leaf ::
  "(h256 \<Rightarrow> h256 \<Rightarrow> h256) \<Rightarrow> h256 list \<Rightarrow> u32 \<Rightarrow> h256 \<Rightarrow> (h256 list \<times> u32 \<times> h256) option" where
  "v2_insert_leaf h2 ns c leaf =
     (case frontier_insert h2 leaf \<lparr>nodes = ns, leaf_count = c\<rparr> of
        None \<Rightarrow> None
      | Some f \<Rightarrow> Some (nodes f, leaf_count f, frontier_root h2 f))"

text \<open>
  An append-only tree over stored parts: \<open>rep ls ns c\<close> says that the nodes \<open>ns\<close> and the count \<open>c\<close>
  represent the leaves \<open>ls\<close>; an insertion appends a leaf and shows the root of the longer list, up
  to \<open>capacity\<close> leaves.
\<close>

locale append_tree =
  fixes ins :: "h256 list \<Rightarrow> u32 \<Rightarrow> h256 \<Rightarrow> (h256 list \<times> u32 \<times> h256) option"
    and rep :: "h256 list \<Rightarrow> h256 list \<Rightarrow> u32 \<Rightarrow> bool"
    and tree_root :: "h256 list \<Rightarrow> h256"
    and capacity :: nat
  assumes rep_empty: "rep [] (replicate MERKLE_DEPTH 0) 0"
    and rep_count: "rep ls ns c \<Longrightarrow> unat c = length ls"
    and rep_capacity: "rep ls ns c \<Longrightarrow> length ls \<le> capacity"
    and ins_room: "rep ls ns c \<Longrightarrow> length ls < capacity \<Longrightarrow>
      \<exists>ns' c'. ins ns c x = Some (ns', c', tree_root (ls @ [x])) \<and> rep (ls @ [x]) ns' c'"
    and ins_full: "rep ls ns c \<Longrightarrow> length ls = capacity \<Longrightarrow> ins ns c x = None"
begin

lemma ins_SomeD:
  assumes "rep ls ns c" and "ins ns c x = Some (ns', c', rt)"
  shows "length ls < capacity \<and> rt = tree_root (ls @ [x]) \<and> rep (ls @ [x]) ns' c'"
proof (cases "length ls < capacity")
  case True
  then show ?thesis using assms ins_room [OF assms(1) True, of x] by auto
next
  case False
  then show ?thesis using assms ins_full [of ls ns c x] rep_capacity [OF assms(1)] by simp
qed

lemma ins_Some_iff: "rep ls ns c \<Longrightarrow> ins ns c x \<noteq> None \<longleftrightarrow> length ls < capacity"
  using ins_SomeD ins_room by fastforce

lemma ins_count:
  assumes "rep ls ns c" and "ins ns c x = Some (ns', c', rt)"
  shows "unat c' = unat c + 1"
  using ins_SomeD [OF assms] rep_count assms(1) by fastforce

end

definition stored_rep :: "(h256 \<Rightarrow> h256 \<Rightarrow> h256) \<Rightarrow> h256 list \<Rightarrow> h256 list \<Rightarrow> u32 \<Rightarrow> bool" where
  "stored_rep h2 ls ns c \<longleftrightarrow> frontier_rep h2 ls \<lparr>nodes = ns, leaf_count = c\<rparr>"

interpretation v2: append_tree "v2_insert_leaf h2" "stored_rep h2" "shown_root h2" "2 ^ MERKLE_DEPTH"
proof
  show "stored_rep h2 [] (replicate MERKLE_DEPTH 0) 0"
    using frontier_default_rep [of h2] by (simp add: stored_rep_def frontier_default_def)
next
  fix ls ns c x assume r: "stored_rep h2 ls ns c" and "length ls < 2 ^ MERKLE_DEPTH"
  then obtain f where f: "frontier_insert h2 x \<lparr>nodes = ns, leaf_count = c\<rparr> = Some f"
    "frontier_rep h2 (ls @ [x]) f"
    unfolding stored_rep_def by (auto elim: frontier_insert_rep)
  then show "\<exists>ns' c'. v2_insert_leaf h2 ns c x = Some (ns', c', shown_root h2 (ls @ [x])) \<and>
      stored_rep h2 (ls @ [x]) ns' c'"
    by (simp add: v2_insert_leaf_def stored_rep_def frontier_root_shown frontier_rep_def)
next
  fix ls ns c x assume "stored_rep h2 ls ns c" and "length ls = 2 ^ MERKLE_DEPTH"
  then show "v2_insert_leaf h2 ns c x = None"
    by (simp add: stored_rep_def v2_insert_leaf_def frontier_insert_full)
qed (simp_all add: stored_rep_def frontier_rep_def)

end
