(* ===== verification/MerkleV1.thy ===== *)
theory MerkleV1
  imports MerkleV2 "HOL-Library.Log_Nat"
begin

text \<open>
  The non-incremental Merkle root both pallets recompute from all their leaves
  (\<open>compute_merkle_root\<close> in \<open>proofhub/pallets/proofs/src/lib.rs\<close> and in
  \<open>scanproof/pallets/proofs/src/lib.rs\<close>): pad with zero leaves to a power of two, then halve level
  by level. The theory proves that the padding loop stops at the next power of two and that the
  result is the root of the padded tree of theory MerkleV2.
\<close>

section \<open>Powers of two\<close>

lemma pow2_and_pred: "(2::nat) ^ k AND (2 ^ k - 1) = 0"
proof -
  have "(2::nat) ^ k AND mask k = take_bit k (2 ^ k)" by (simp only: take_bit_eq_mask)
  also have "\<dots> = 0" by (simp add: take_bit_eq_mod)
  finally show ?thesis by (simp add: mask_eq_exp_minus_1)
qed

lemma ceillog2_step:
  assumes "n AND (n - 1) \<noteq> (0::nat)"
  shows "n < 2 ^ ceillog2 n" and "ceillog2 (Suc n) = ceillog2 n"
proof -
  have n0: "n \<noteq> 0" using assms by (cases n) auto
  have "n \<noteq> 2 ^ ceillog2 n" using assms pow2_and_pred by metis
  then show lt: "n < 2 ^ ceillog2 n" using le_two_power_ceillog2 [of n] by simp
  show "ceillog2 (Suc n) = ceillog2 n"
    using lt two_power_ceillog2_gt [of n] n0 by (intro ceillog2_eqI) auto
qed

lemma and_pred_0D:
  assumes "n AND (n - 1) = (0::nat)" and "0 < n"
  shows "n = 2 ^ ceillog2 n"
proof (rule ccontr)
  define k where "k = ceillog2 n"
  assume ne: "n \<noteq> 2 ^ ceillog2 n"
  then have lt: "n < 2 ^ k" using le_two_power_ceillog2 [of n] by (simp add: k_def)
  then obtain j where k: "k = Suc j" using assms(2) by (cases k) auto
  have "2 ^ j < n" using two_power_ceillog2_gt [of n] assms(2) k by (simp add: k_def [symmetric])
  then have "n div 2 ^ j = 1" "(n - 1) div 2 ^ j = 1"
    using lt k by (auto intro!: div_nat_eqI)
  then have "bit n j" "bit (n - 1) j" by (simp_all add: bit_iff_odd)
  then have "bit (n AND (n - 1)) j" by (simp add: bit_and_iff)
  then show False using assms(1) by simp
qed

section \<open>Definitions\<close>

function pad_pow2 :: "h256 list \<Rightarrow> h256 list" where
  "pad_pow2 level =
     (if length level AND (length level - 1) \<noteq> 0 then pad_pow2 (level @ [0]) else level)"
  by pat_completeness auto
termination
proof (relation "measure (\<lambda>level. 2 ^ ceillog2 (length level) - length level)")
  fix level :: "h256 list"
  assume "length level AND (length level - 1) \<noteq> 0"
  then show "(level @ [0], level) \<in> measure (\<lambda>level. 2 ^ ceillog2 (length level) - length level)"
    using ceillog2_step [of "length level"] by simp
qed simp

declare pad_pow2.simps [simp del]

function merkle_up :: "(h256 \<Rightarrow> h256 \<Rightarrow> h256) \<Rightarrow> h256 list \<Rightarrow> h256" where
  "merkle_up h2 cur = (if 1 < length cur then merkle_up h2 (pair_level h2 0 cur) else cur ! 0)"
  by pat_completeness auto
termination
  by (relation "measure (\<lambda>(h2, cur). length cur)") (simp_all add: length_pair_level)

declare merkle_up.simps [simp del]

definition compute_merkle_root :: "(h256 \<Rightarrow> h256 \<Rightarrow> h256) \<Rightarrow> h256 list \<Rightarrow> h256" where
  "compute_merkle_root h2 leaves = (if leaves = [] then 0 else merkle_up h2 (pad_pow2 leaves))"

section \<open>The padded level\<close>

lemma pad_pow2_eq:
  "ls \<noteq> [] \<Longrightarrow> pad_pow2 ls = ls @ replicate (2 ^ ceillog2 (length ls) - length ls) 0"
proof (induction ls rule: pad_pow2.induct)
  case (1 ls)
  show ?case
  proof (cases "length ls AND (length ls - 1) = 0")
    case True
    then have "length ls = 2 ^ ceillog2 (length ls)" using 1 by (intro and_pred_0D) auto
    then show ?thesis using True by (subst pad_pow2.simps) simp
  next
    case False
    note st = ceillog2_step [OF False]
    have "pad_pow2 ls = pad_pow2 (ls @ [0])" using False by (subst pad_pow2.simps) simp
    also have "\<dots> = (ls @ [0]) @ replicate (2 ^ ceillog2 (length ls) - Suc (length ls)) 0"
      using 1 False st by simp
    also have "\<dots> = ls @ replicate (2 ^ ceillog2 (length ls) - length ls) 0"
      using st(1) by (metis Suc_diff_Suc append_Cons append_Nil append_assoc replicate_Suc)
    finally show ?thesis .
  qed
qed

lemma merkle_up_subtree:
  assumes "length cur = 2 ^ k" and "\<forall>i < 2 ^ k. cur ! i = subtree h2 ls d i"
  shows "merkle_up h2 cur = subtree h2 ls (d + k) 0"
  using assms
proof (induction k arbitrary: cur d)
  case 0
  then show ?case by (subst merkle_up.simps) simp
next
  case (Suc k)
  have "1 < length cur" using Suc.prems one_less_power [of "2::nat" "Suc k"] by simp
  then have "merkle_up h2 cur = merkle_up h2 (pair_level h2 0 cur)"
    by (subst merkle_up.simps) simp
  also have "\<dots> = subtree h2 ls (Suc d + k) 0"
    using Suc.prems by (intro Suc.IH) (auto simp: length_pair_level nth_pair_level)
  finally show ?case by (simp only: add_Suc add_Suc_right)
qed

text \<open>
  The batch root is the padded tree: on a non-empty leaf list the padding loop stops at the next
  power of two and the root is that of the tree of height \<open>ceillog2 (length ls)\<close> over the leaves
  padded with zeros.
\<close>

lemma compute_merkle_root_subtree:
  assumes "ls \<noteq> []"
  shows "length (pad_pow2 ls) = 2 ^ ceillog2 (length ls) \<and>
    compute_merkle_root h2 ls = subtree h2 ls (ceillog2 (length ls)) 0"
proof -
  have p: "pad_pow2 ls = ls @ replicate (2 ^ ceillog2 (length ls) - length ls) 0"
    using assms by (rule pad_pow2_eq)
  then have len: "length (pad_pow2 ls) = 2 ^ ceillog2 (length ls)"
    using le_two_power_ceillog2 [of "length ls"] by simp
  have "\<forall>i < 2 ^ ceillog2 (length ls). pad_pow2 ls ! i = subtree h2 ls 0 i"
    by (simp add: p nth_append)
  then show ?thesis
    using len assms merkle_up_subtree [of "pad_pow2 ls" _ h2 ls 0]
    by (simp add: compute_merkle_root_def)
qed

lemma compute_merkle_root_subtree_witness:
  "length (pad_pow2 [7, 8, 9]) = 2 ^ ceillog2 (length [7, 8, 9 :: h256]) \<and>
    compute_merkle_root (\<lambda>a b. 2 * a + b) [7, 8, 9] =
      subtree (\<lambda>a b. 2 * a + b) [7, 8, 9] (ceillog2 (length [7, 8, 9 :: h256])) 0"
  by (rule compute_merkle_root_subtree) simp

end
