(* ===== verification/ProofHub.thy ===== *)
theory ProofHub
  imports MerkleV1
begin

text \<open>
  The proofs pallet of the ProofHub parachain, \<open>proofhub/pallets/proofs/src/lib.rs\<close>: its public
  input structs, storage, events and errors, the unsigned validation, the helpers, and one
  definition per dispatchable. The runtime's side of the pallet's \<open>Config\<close> is \<open>ph_config\<close>;
  \<open>ph_apply\<close> is the entry point of an extrinsic.
\<close>

section \<open>Public inputs\<close>

record rwa_purchase_inputs =
  pi_spend_tag :: h256
  pi_nullifier :: h256
  pi_rwa_id :: h256
  pi_destination :: bytes
  pi_tx_id :: h128
  pi_ownership_commitment :: h256
  pi_change_commitment :: "h256 option"
  pi_change_spend_tag :: "h256 option"
  pi_purchase_proof :: bytes

record withdraw_inputs =
  wi_spend_tag :: h256
  wi_destination :: bytes
  wi_tx_id :: h128
  wi_note_value :: u64
  wi_note_blinding :: h256

record relist_inputs =
  ri_old_tx_id :: h128
  ri_rwa_id :: h256
  ri_ownership_blinding :: h256
  ri_new_buyer_spend_tag :: h256
  ri_price :: u64
  ri_payment_commitment :: h256
  ri_payment_spend_tag :: h256
  ri_change_commitment :: "h256 option"
  ri_change_spend_tag :: "h256 option"
  ri_new_ownership_commitment :: h256
  ri_new_tx_id :: h128
  ri_buyer_value :: u64
  ri_buyer_blinding :: h256
  ri_payment_blinding :: h256
  ri_change_value :: "u64 option"
  ri_change_blinding :: "h256 option"

record spend_public_v2 =
  sp_merkle_root :: h256
  sp_nullifier :: h256
  sp_rwa_id :: h256
  sp_tx_id :: h128
  sp_ownership_commitment :: h256
  sp_change_leaf :: h256
  sp_change_pkd :: h256

record withdraw_public_v2 =
  wp_merkle_root :: h256
  wp_nullifier :: h256
  wp_amount :: u64
  wp_destination :: h256
  wp_tx_id :: h128

text \<open>The derived SCALE codecs: the fields in declaration order; the decoder ignores trailing bytes.\<close>

definition encode_rwa_purchase_inputs :: "codec \<Rightarrow> rwa_purchase_inputs \<Rightarrow> bytes" where
  "encode_rwa_purchase_inputs C i =
     enc (f_h256 C) (pi_spend_tag i) @ enc (f_h256 C) (pi_nullifier i) @ enc (f_h256 C) (pi_rwa_id i) @
     enc (f_bytes C) (pi_destination i) @ enc (f_h128 C) (pi_tx_id i) @
     enc (f_h256 C) (pi_ownership_commitment i) @ enc (f_opt_h256 C) (pi_change_commitment i) @
     enc (f_opt_h256 C) (pi_change_spend_tag i) @ enc (f_bytes C) (pi_purchase_proof i)"

definition decode_rwa_purchase_inputs :: "codec \<Rightarrow> bytes \<Rightarrow> rwa_purchase_inputs option" where
  "decode_rwa_purchase_inputs C bs =
     dec_then (f_h256 C) bs (\<lambda>spend_tag bs. dec_then (f_h256 C) bs (\<lambda>nullifier bs.
     dec_then (f_h256 C) bs (\<lambda>rwa_id bs. dec_then (f_bytes C) bs (\<lambda>destination bs.
     dec_then (f_h128 C) bs (\<lambda>tx_id bs. dec_then (f_h256 C) bs (\<lambda>ownership_commitment bs.
     dec_then (f_opt_h256 C) bs (\<lambda>change_commitment bs.
     dec_then (f_opt_h256 C) bs (\<lambda>change_spend_tag bs.
     dec_then (f_bytes C) bs (\<lambda>purchase_proof bs.
       Some \<lparr>pi_spend_tag = spend_tag, pi_nullifier = nullifier, pi_rwa_id = rwa_id,
         pi_destination = destination, pi_tx_id = tx_id,
         pi_ownership_commitment = ownership_commitment, pi_change_commitment = change_commitment,
         pi_change_spend_tag = change_spend_tag, pi_purchase_proof = purchase_proof\<rparr>)))))))))"

definition decode_withdraw_inputs :: "codec \<Rightarrow> bytes \<Rightarrow> withdraw_inputs option" where
  "decode_withdraw_inputs C bs =
     dec_then (f_h256 C) bs (\<lambda>spend_tag bs. dec_then (f_bytes C) bs (\<lambda>destination bs.
     dec_then (f_h128 C) bs (\<lambda>tx_id bs. dec_then (f_u64 C) bs (\<lambda>note_value bs.
     dec_then (f_h256 C) bs (\<lambda>note_blinding bs.
       Some \<lparr>wi_spend_tag = spend_tag, wi_destination = destination, wi_tx_id = tx_id,
         wi_note_value = note_value, wi_note_blinding = note_blinding\<rparr>)))))"

definition encode_spend_public_v2 :: "codec \<Rightarrow> spend_public_v2 \<Rightarrow> bytes" where
  "encode_spend_public_v2 C i =
     enc (f_h256 C) (sp_merkle_root i) @ enc (f_h256 C) (sp_nullifier i) @ enc (f_h256 C) (sp_rwa_id i) @
     enc (f_h128 C) (sp_tx_id i) @ enc (f_h256 C) (sp_ownership_commitment i) @
     enc (f_h256 C) (sp_change_leaf i) @ enc (f_h256 C) (sp_change_pkd i)"

definition decode_spend_public_v2 :: "codec \<Rightarrow> bytes \<Rightarrow> spend_public_v2 option" where
  "decode_spend_public_v2 C bs =
     dec_then (f_h256 C) bs (\<lambda>merkle_root bs. dec_then (f_h256 C) bs (\<lambda>nullifier bs.
     dec_then (f_h256 C) bs (\<lambda>rwa_id bs. dec_then (f_h128 C) bs (\<lambda>tx_id bs.
     dec_then (f_h256 C) bs (\<lambda>ownership_commitment bs. dec_then (f_h256 C) bs (\<lambda>change_leaf bs.
     dec_then (f_h256 C) bs (\<lambda>change_pkd bs.
       Some \<lparr>sp_merkle_root = merkle_root, sp_nullifier = nullifier, sp_rwa_id = rwa_id,
         sp_tx_id = tx_id, sp_ownership_commitment = ownership_commitment,
         sp_change_leaf = change_leaf, sp_change_pkd = change_pkd\<rparr>)))))))"

definition encode_withdraw_public_v2 :: "codec \<Rightarrow> withdraw_public_v2 \<Rightarrow> bytes" where
  "encode_withdraw_public_v2 C i =
     enc (f_h256 C) (wp_merkle_root i) @ enc (f_h256 C) (wp_nullifier i) @ enc (f_u64 C) (wp_amount i) @
     enc (f_h256 C) (wp_destination i) @ enc (f_h128 C) (wp_tx_id i)"

definition decode_withdraw_public_v2 :: "codec \<Rightarrow> bytes \<Rightarrow> withdraw_public_v2 option" where
  "decode_withdraw_public_v2 C bs =
     dec_then (f_h256 C) bs (\<lambda>merkle_root bs. dec_then (f_h256 C) bs (\<lambda>nullifier bs.
     dec_then (f_u64 C) bs (\<lambda>amount bs. dec_then (f_h256 C) bs (\<lambda>destination bs.
     dec_then (f_h128 C) bs (\<lambda>tx_id bs.
       Some \<lparr>wp_merkle_root = merkle_root, wp_nullifier = nullifier, wp_amount = amount,
         wp_destination = destination, wp_tx_id = tx_id\<rparr>)))))"

section \<open>Configuration\<close>

text \<open>The trait \<open>ProofVerify\<close>.\<close>

record proof_verify =
  pv_verify_commitment :: "u64 \<Rightarrow> h256 \<Rightarrow> h256 \<Rightarrow> bool"
  pv_verify_purchase :: "bytes \<Rightarrow> bytes \<Rightarrow> bool"
  pv_verify_withdrawal :: "bytes \<Rightarrow> bytes \<Rightarrow> bool"
  pv_verify_range_proof :: "bytes \<Rightarrow> h256 \<Rightarrow> bool"
  pv_verify_purchase_proof :: "bytes \<Rightarrow> h256 \<Rightarrow> h256 \<Rightarrow> u64 \<Rightarrow> bool"
  pv_verify_deposit_v2 :: "bytes \<Rightarrow> u64 \<Rightarrow> h256 \<Rightarrow> bool"
  pv_verify_spend_v2 :: "bytes \<Rightarrow> h256 \<Rightarrow> h256 \<Rightarrow> h256 \<Rightarrow> u64 \<Rightarrow> h256 \<Rightarrow> h256 \<Rightarrow> bool \<Rightarrow> bool"
  pv_verify_spend_auth_v2 :: "bytes \<Rightarrow> bytes \<Rightarrow> bool \<Rightarrow> bool"
  pv_v2_insert_leaf :: "h256 list \<Rightarrow> u32 \<Rightarrow> h256 \<Rightarrow> (h256 list \<times> u32 \<times> h256) option"
  pv_v2_zero_change_leaf :: h256

text \<open>The arguments of the dispatch traits \<open>RwaPurchaseDispatch\<close> and \<open>AccessKeyDispatch\<close>.\<close>

datatype dispatch_msg =
    RwaSend h256 h256 h256 u64 h128 h256
  | RwaSendTransfer h128 h256 h128
  | AccessSend h256 h256 h128 h256

record app_config =
  ac_price :: u64
  ac_payment_account :: h256

text \<open>
  \<open>transfer\<close> is \<open>Currency::transfer\<close> on the abstract balances \<open>'ccy\<close>; its error is a number.
  \<open>decode_account\<close> is the SCALE decoder of \<open>AccountId\<close>.
\<close>

record ('acct, 'ccy) ph_config =
  ph_codec :: codec
  ProofVerifier :: proof_verify
  transfer :: "'acct \<Rightarrow> 'acct \<Rightarrow> u128 \<Rightarrow> existence_requirement \<Rightarrow> 'ccy \<Rightarrow> nat + 'ccy"
  PoolAccount :: 'acct
  decode_account :: "bytes \<Rightarrow> 'acct option"
  blake2_256 :: "bytes \<Rightarrow> h256"
  blake3 :: "bytes \<Rightarrow> h256"

section \<open>Storage, events, errors\<close>

datatype ph_event =
    DepositAccepted h256 h256 bytes
  | RwaPurchaseAuthorized h256 h128
  | ChangeNoteCreated h256 h256 h256
  | WithdrawCompleted h256 h128
  | RelistInitiated h128 h128 h256
  | PaymentNoteCreated h256 h256 h256
  | RwaPriceSet h256 u64
  | AccessPurchaseAuthorized h256 h128
  | AccessPurchaseV2Authorized h256 h128
  | AccessConfigSet h256 u64
  | DepositV2Accepted h256 u32 h256 bytes
  | PurchaseV2Authorized h256 h128 h256 u32 h256
  | WithdrawV2Completed h128

datatype ph_error =
    ProofVerificationFailed | NullifierAlreadyUsed | MlDsaFailed | SpendTagNotFound
  | SpendTagAlreadyUsed | RwaPriceNotSet | InsufficientFunds | MissingChangeOutput
  | InvalidOwnershipProof | OwnershipAlreadyUsed | OwnershipNotFound | BuyerInsufficientFunds
  | LegacyDisabled | TreeFullV2 | RootNotRecent | DuplicateLeaf | AccessAppNotConfigured

record 'ccy ph_state =
  NullifierUsed :: "h256 \<Rightarrow> bool"
  MerkleRoot :: h256
  CurrentRoot :: h256
  RecentRoots :: "h256 list"
  OwnershipCommitments :: "h128 \<rightharpoonup> h256"
  OwnershipUsed :: "h128 \<Rightarrow> bool"
  SpendTagCommitments :: "h256 \<rightharpoonup> h256"
  SpendTagRpCommitments :: "h256 \<rightharpoonup> h256"
  SpendTagChangeRpCommitments :: "h256 \<rightharpoonup> h256"
  SpendTagUsed :: "h256 \<Rightarrow> bool"
  RwaPrices :: "h256 \<Rightarrow> u64"
  AccessKeyConfigs :: "h256 \<rightharpoonup> app_config"
  GenesisInitialized :: bool
  Leaves :: "h256 list"
  RootLeafCount :: "h256 \<Rightarrow> u32"
  CommitmentIndex :: "h256 \<rightharpoonup> u32"
  FrontierNodesV2 :: "h256 list"
  LeafCountV2 :: u32
  CurrentRootV2 :: h256
  RecentRootsV2 :: "h256 list"
  LeafIndexV2 :: "h256 \<rightharpoonup> u32"
  ccy :: 'ccy
  events :: "ph_event list"
  sent :: "dispatch_msg list"

text \<open>The state after the genesis build, with the balances the chain specification gives.\<close>

definition ph_genesis :: "'ccy \<Rightarrow> 'ccy ph_state" where
  "ph_genesis b = \<lparr>NullifierUsed = (\<lambda>_. False), MerkleRoot = 0, CurrentRoot = 0, RecentRoots = [],
     OwnershipCommitments = Map.empty, OwnershipUsed = (\<lambda>_. False),
     SpendTagCommitments = Map.empty, SpendTagRpCommitments = Map.empty,
     SpendTagChangeRpCommitments = Map.empty, SpendTagUsed = (\<lambda>_. False),
     RwaPrices = (\<lambda>_. 0), AccessKeyConfigs = Map.empty, GenesisInitialized = True,
     Leaves = [], RootLeafCount = (\<lambda>_. 0)(0 := 0), CommitmentIndex = Map.empty,
     FrontierNodesV2 = replicate 20 0, LeafCountV2 = 0, CurrentRootV2 = 0, RecentRootsV2 = [],
     LeafIndexV2 = Map.empty, ccy = b, events = [], sent = []\<rparr>"

definition ph_on_initialize :: "'ccy ph_state \<Rightarrow> 'ccy ph_state" where
  "ph_on_initialize s =
     (if \<not> GenesisInitialized s then s\<lparr>GenesisInitialized := True\<rparr> else s)"

definition deposit_event :: "ph_event \<Rightarrow> 'ccy ph_state \<Rightarrow> 'ccy ph_state" where
  "deposit_event e s = s\<lparr>events := events s @ [e]\<rparr>"

definition dispatch_send :: "dispatch_msg \<Rightarrow> 'ccy ph_state \<Rightarrow> 'ccy ph_state" where
  "dispatch_send m s = s\<lparr>sent := sent s @ [m]\<rparr>"

section \<open>Helpers\<close>

definition hash2 :: "('acct, 'ccy) ph_config \<Rightarrow> h256 \<Rightarrow> h256 \<Rightarrow> h256" where
  "hash2 cfg left right = blake2_256 cfg (le_bytes 32 left @ le_bytes 32 right)"

definition leaf_hash :: "('acct, 'ccy) ph_config \<Rightarrow> h256 \<Rightarrow> h256" where
  "leaf_hash cfg commitment = blake2_256 cfg (le_bytes 32 commitment @ replicate 32 0)"

definition do_insert_note ::
  "('acct, 'ccy) ph_config \<Rightarrow> h256 \<Rightarrow> h256 \<Rightarrow> h256 list \<Rightarrow> 'ccy ph_state \<Rightarrow>
     (h256 list \<times> h256 \<times> 'ccy ph_state) option" where
  "do_insert_note cfg commitment spend_tag leaves s =
     (if CommitmentIndex s commitment \<noteq> None then None
      else
        let leaf = leaf_hash cfg commitment;
            idx = of_nat (length leaves);
            leaves = leaves @ [leaf];
            s = s\<lparr>CommitmentIndex := (CommitmentIndex s)(commitment \<mapsto> idx)\<rparr>;
            s = s\<lparr>SpendTagCommitments := (SpendTagCommitments s)(spend_tag \<mapsto> commitment)\<rparr>
        in Some (leaves, compute_merkle_root (hash2 cfg) leaves, s))"

definition commit_merkle :: "h256 list \<Rightarrow> h256 \<Rightarrow> 'ccy ph_state \<Rightarrow> 'ccy ph_state" where
  "commit_merkle leaves_vec new_root s =
     (let bounded = (if length leaves_vec \<le> 1048576 then leaves_vec else []);
          prev = CurrentRoot s
      in s\<lparr>Leaves := bounded, CurrentRoot := new_root, MerkleRoot := new_root,
           RootLeafCount := (RootLeafCount s)(new_root := of_nat (length bounded)),
           RecentRoots := push_window (RecentRoots s) prev\<rparr>)"

definition compute_ownership_commitment :: "('acct, 'ccy) ph_config \<Rightarrow> h256 \<Rightarrow> h256 \<Rightarrow> h256" where
  "compute_ownership_commitment cfg rwa_id blinding =
     blake3 cfg (ascii ''nulla_rwa_ownership_v1'' @ le_bytes 32 rwa_id @ le_bytes 32 blinding)"

definition compute_pk_digest :: "('acct, 'ccy) ph_config \<Rightarrow> bytes \<Rightarrow> h256" where
  "compute_pk_digest cfg pk = blake3 cfg (ascii ''nulla_pk_digest_v2'' @ pk)"

definition v2_root_anchored :: "'ccy ph_state \<Rightarrow> h256 \<Rightarrow> bool" where
  "v2_root_anchored s rt \<longleftrightarrow> rt = CurrentRootV2 s \<or> rt \<in> set (RecentRootsV2 s)"

definition v2_insert ::
  "('acct, 'ccy) ph_config \<Rightarrow> h256 \<Rightarrow> 'ccy ph_state \<Rightarrow>
     ph_error dispatch_error + (u32 \<times> h256 \<times> 'ccy ph_state)" where
  "v2_insert cfg leaf s =
     ensure (LeafIndexV2 s leaf = None) (Module DuplicateLeaf)
     (let ns = FrontierNodesV2 s; count = LeafCountV2 s in
      ok_or (pv_v2_insert_leaf (ProofVerifier cfg) ns count leaf) (Module TreeFullV2)
      (\<lambda>(new_nodes, new_count, new_root).
        let idx = count; prev = CurrentRootV2 s;
            s = s\<lparr>FrontierNodesV2 := new_nodes, LeafCountV2 := new_count,
                  LeafIndexV2 := (LeafIndexV2 s)(leaf \<mapsto> idx), CurrentRootV2 := new_root\<rparr>;
            s = (if count > 0 then s\<lparr>RecentRootsV2 := push_window (RecentRootsV2 s) prev\<rparr> else s)
        in Inr (idx, new_root, s)))"

text \<open>\<open>T::Currency::transfer(from, to, amount as u128, ex)?\<close> and what follows it.\<close>

definition currency_transfer ::
  "('acct, 'ccy) ph_config \<Rightarrow> 'acct \<Rightarrow> 'acct \<Rightarrow> u64 \<Rightarrow> existence_requirement \<Rightarrow> 'ccy ph_state \<Rightarrow>
     ph_error dispatch_error + 'ccy ph_state" where
  "currency_transfer cfg src dst amount ex s =
     (case transfer cfg src dst (ucast amount) ex (ccy s) of
        Inl e \<Rightarrow> Inl (External e)
      | Inr b \<Rightarrow> Inr (s\<lparr>ccy := b\<rparr>))"

end
