(* ===== verification/ProofHubCalls.thy ===== *)
theory ProofHubCalls
  imports ProofHub
begin

text \<open>
  The dispatchables of the ProofHub proofs pallet, one definition each, the validation of unsigned
  extrinsics, and \<open>ph_apply\<close>, which runs one extrinsic: an unsigned one is validated first
  (FRAME's default \<open>pre_dispatch\<close>), then the call is dispatched with its origin.
\<close>

section \<open>Calls\<close>

datatype ph_call =
    call_deposit_public h256 bytes h256 h256 bytes
  | call_purchase_rwa bytes bytes
  | call_withdraw_private bytes bytes
  | call_relist_private relist_inputs
  | call_set_rwa_price h256 u64
  | call_set_access_config h256 u64 h256
  | call_purchase_access bytes bytes
  | call_purchase_access_v2 bytes bytes bytes
  | call_deposit_v2 h256 u64 bytes bytes
  | call_purchase_rwa_v2 bytes bytes bytes
  | call_withdraw_v2 bytes bytes bytes

section \<open>Validation of unsigned calls\<close>

definition validate_unsigned :: "('acct, 'ccy) ph_config \<Rightarrow> ph_call \<Rightarrow> 'ccy ph_state \<Rightarrow> validity" where
  "validate_unsigned cfg call s = (case call of
     call_purchase_rwa _ public_inputs \<Rightarrow>
       (case decode_rwa_purchase_inputs (ph_codec cfg) public_inputs of
          None \<Rightarrow> Inl Call
        | Some inputs \<Rightarrow>
            if SpendTagCommitments s (pi_spend_tag inputs) = None then Inl Stale
            else if SpendTagUsed s (pi_spend_tag inputs) then Inl Stale
            else if NullifierUsed s (pi_nullifier inputs) then Inl Stale
            else ValidTransaction ''RwaPurchase''
              [Tag128 (pi_tx_id inputs), Tag256 (pi_nullifier inputs), Tag256 (pi_spend_tag inputs)] 64)
   | call_withdraw_private _ public_inputs \<Rightarrow>
       (case decode_withdraw_inputs (ph_codec cfg) public_inputs of
          None \<Rightarrow> Inl Call
        | Some inputs \<Rightarrow>
            if SpendTagCommitments s (wi_spend_tag inputs) = None then Inl Stale
            else if SpendTagUsed s (wi_spend_tag inputs) then Inl Stale
            else ValidTransaction ''NullaWithdraw''
              [Tag128 (wi_tx_id inputs), Tag256 (wi_spend_tag inputs)] 64)
   | call_relist_private relist \<Rightarrow>
       (if OwnershipCommitments s (ri_old_tx_id relist) \<noteq> None
            \<and> \<not> OwnershipUsed s (ri_old_tx_id relist)
            \<and> SpendTagCommitments s (ri_new_buyer_spend_tag relist) \<noteq> None
            \<and> \<not> SpendTagUsed s (ri_new_buyer_spend_tag relist)
        then ValidTransaction ''NullaRelist''
          [Tag128 (ri_new_tx_id relist), Tag256 (ri_new_buyer_spend_tag relist)] 64
        else Inl Stale)
   | call_purchase_rwa_v2 _ public_inputs _ \<Rightarrow>
       (case decode_spend_public_v2 (ph_codec cfg) public_inputs of
          None \<Rightarrow> Inl Call
        | Some inputs \<Rightarrow>
            if NullifierUsed s (sp_nullifier inputs) then Inl Stale
            else if \<not> v2_root_anchored s (sp_merkle_root inputs) then Inl Stale
            else ValidTransaction ''NullaPurchaseV2''
              [Tag128 (sp_tx_id inputs), Tag256 (sp_nullifier inputs)] 64)
   | call_withdraw_v2 _ public_inputs _ \<Rightarrow>
       (case decode_withdraw_public_v2 (ph_codec cfg) public_inputs of
          None \<Rightarrow> Inl Call
        | Some inputs \<Rightarrow>
            if NullifierUsed s (wp_nullifier inputs) then Inl Stale
            else if \<not> v2_root_anchored s (wp_merkle_root inputs) then Inl Stale
            else ValidTransaction ''NullaWithdrawV2''
              [Tag128 (wp_tx_id inputs), Tag256 (wp_nullifier inputs)] 64)
   | call_purchase_access _ public_inputs \<Rightarrow>
       (case decode_rwa_purchase_inputs (ph_codec cfg) public_inputs of
          None \<Rightarrow> Inl Call
        | Some inputs \<Rightarrow>
            if SpendTagCommitments s (pi_spend_tag inputs) = None then Inl Stale
            else if SpendTagUsed s (pi_spend_tag inputs) then Inl Stale
            else if NullifierUsed s (pi_nullifier inputs) then Inl Stale
            else ValidTransaction ''DistAccessPurchase''
              [Tag128 (pi_tx_id inputs), Tag256 (pi_nullifier inputs), Tag256 (pi_spend_tag inputs)] 64)
   | call_purchase_access_v2 _ public_inputs _ \<Rightarrow>
       (case decode_spend_public_v2 (ph_codec cfg) public_inputs of
          None \<Rightarrow> Inl Call
        | Some inputs \<Rightarrow>
            if NullifierUsed s (sp_nullifier inputs) then Inl Stale
            else if \<not> v2_root_anchored s (sp_merkle_root inputs) then Inl Stale
            else ValidTransaction ''DistAccessPurchaseV2''
              [Tag128 (sp_tx_id inputs), Tag256 (sp_nullifier inputs)] 64)
   | _ \<Rightarrow> Inl Call)"

section \<open>Dispatchables of the v1 lane\<close>

definition deposit_public ::
  "'acct origin \<Rightarrow> h256 \<Rightarrow> bytes \<Rightarrow> h256 \<Rightarrow> h256 \<Rightarrow> bytes \<Rightarrow> 'ccy ph_state \<Rightarrow>
     ph_error dispatch_error + 'ccy ph_state" where
  "deposit_public orig commitment range_proof rp_commitment spend_tag hints_blob s =
     ok_or (ensure_signed orig) BadOrigin (\<lambda>_. Inl (Module LegacyDisabled))"

text \<open>The change note of \<open>purchase_rwa\<close> and \<open>purchase_access\<close>.\<close>

definition insert_change_note ::
  "('acct, 'ccy) ph_config \<Rightarrow> h256 option \<Rightarrow> h256 option \<Rightarrow> h256 \<Rightarrow> 'ccy ph_state \<Rightarrow> 'ccy ph_state" where
  "insert_change_note cfg change_commitment change_spend_tag change_rp_commitment s =
     (case (change_commitment, change_spend_tag) of
        (Some c_change, Some t_change) \<Rightarrow>
          let s = s\<lparr>SpendTagChangeRpCommitments :=
                    (SpendTagChangeRpCommitments s)(t_change \<mapsto> change_rp_commitment)\<rparr>;
              (new_root, s) =
                (case do_insert_note cfg c_change t_change (Leaves s) s of
                   Some (leaves_vec, rt, s) \<Rightarrow> (rt, commit_merkle leaves_vec rt s)
                 | None \<Rightarrow> (CurrentRoot s, s))
          in deposit_event (ChangeNoteCreated c_change t_change new_root) s
      | _ \<Rightarrow> s)"

definition purchase_rwa ::
  "('acct, 'ccy) ph_config \<Rightarrow> 'acct origin \<Rightarrow> bytes \<Rightarrow> bytes \<Rightarrow> 'ccy ph_state \<Rightarrow>
     ph_error dispatch_error + 'ccy ph_state" where
  "purchase_rwa cfg orig proof public_inputs s =
     ensure (ensure_none orig) BadOrigin
     (ok_or (decode_rwa_purchase_inputs (ph_codec cfg) public_inputs) (Module ProofVerificationFailed) (\<lambda>inputs.
      ensure (\<not> NullifierUsed s (pi_nullifier inputs)) (Module NullifierAlreadyUsed)
     (ensure (SpendTagCommitments s (pi_spend_tag inputs) \<noteq> None) (Module SpendTagNotFound)
     (ensure (\<not> SpendTagUsed s (pi_spend_tag inputs)) (Module SpendTagAlreadyUsed)
     (let price = RwaPrices s (pi_rwa_id inputs) in
      ensure (price > 0) (Module RwaPriceNotSet)
     (bind_res (case pi_change_spend_tag inputs of
          Some t_change \<Rightarrow> ok_or (SpendTagRpCommitments s t_change) (Module SpendTagNotFound) Inr
        | None \<Rightarrow> Inr 0) (\<lambda>change_rp_commitment.
      ok_or (SpendTagRpCommitments s (pi_spend_tag inputs)) (Module SpendTagNotFound) (\<lambda>stored_rp.
      ensure (pv_verify_purchase_proof (ProofVerifier cfg) (pi_purchase_proof inputs) stored_rp
          change_rp_commitment price) (Module ProofVerificationFailed)
     (ensure (pv_verify_purchase (ProofVerifier cfg) proof public_inputs) (Module MlDsaFailed)
     (let s = s\<lparr>NullifierUsed := (NullifierUsed s)(pi_nullifier inputs := True)\<rparr>;
          s = s\<lparr>SpendTagUsed := (SpendTagUsed s)(pi_spend_tag inputs := True)\<rparr>;
          s = s\<lparr>OwnershipCommitments :=
                (OwnershipCommitments s)(pi_tx_id inputs \<mapsto> pi_ownership_commitment inputs)\<rparr>;
          s = insert_change_note cfg (pi_change_commitment inputs) (pi_change_spend_tag inputs)
                change_rp_commitment s;
          s = deposit_event (RwaPurchaseAuthorized (pi_rwa_id inputs) (pi_tx_id inputs)) s
      in Inr (dispatch_send (RwaSend (pi_rwa_id inputs) (pi_nullifier inputs) (pi_spend_tag inputs)
           price (pi_tx_id inputs) (pi_ownership_commitment inputs)) s)))))))))))"

definition withdraw_private ::
  "('acct, 'ccy) ph_config \<Rightarrow> 'acct origin \<Rightarrow> bytes \<Rightarrow> bytes \<Rightarrow> 'ccy ph_state \<Rightarrow>
     ph_error dispatch_error + 'ccy ph_state" where
  "withdraw_private cfg orig proof public_inputs s =
     ensure (ensure_none orig) BadOrigin
     (ok_or (decode_withdraw_inputs (ph_codec cfg) public_inputs) (Module ProofVerificationFailed) (\<lambda>inputs.
      ensure (SpendTagCommitments s (wi_spend_tag inputs) \<noteq> None) (Module SpendTagNotFound)
     (ensure (\<not> SpendTagUsed s (wi_spend_tag inputs)) (Module SpendTagAlreadyUsed)
     (ensure (pv_verify_withdrawal (ProofVerifier cfg) proof public_inputs) (Module MlDsaFailed)
     (ok_or (SpendTagCommitments s (wi_spend_tag inputs)) (Module SpendTagNotFound) (\<lambda>stored_commitment.
      ensure (pv_verify_commitment (ProofVerifier cfg) (wi_note_value inputs) (wi_note_blinding inputs)
          stored_commitment) (Module ProofVerificationFailed)
     (let amount = wi_note_value inputs;
          s = s\<lparr>SpendTagUsed := (SpendTagUsed s)(wi_spend_tag inputs := True)\<rparr>
      in
      ensure (length (wi_destination inputs) = 32) (Module ProofVerificationFailed)
     (ok_or (decode_account cfg (wi_destination inputs)) (Module ProofVerificationFailed) (\<lambda>dest.
      bind_res (currency_transfer cfg (PoolAccount cfg) dest amount AllowDeath s) (\<lambda>s.
      Inr (deposit_event (WithdrawCompleted (wi_spend_tag inputs) (wi_tx_id inputs)) s)))))))))))"

definition relist_private ::
  "('acct, 'ccy) ph_config \<Rightarrow> 'acct origin \<Rightarrow> relist_inputs \<Rightarrow> 'ccy ph_state \<Rightarrow>
     ph_error dispatch_error + 'ccy ph_state" where
  "relist_private cfg orig inputs s =
     ensure (ensure_none orig) BadOrigin
     (ok_or (OwnershipCommitments s (ri_old_tx_id inputs)) (Module OwnershipNotFound) (\<lambda>stored_oc.
      ensure (\<not> OwnershipUsed s (ri_old_tx_id inputs)) (Module OwnershipAlreadyUsed)
     (ensure (compute_ownership_commitment cfg (ri_rwa_id inputs) (ri_ownership_blinding inputs) = stored_oc)
        (Module InvalidOwnershipProof)
     (ensure (SpendTagCommitments s (ri_new_buyer_spend_tag inputs) \<noteq> None) (Module SpendTagNotFound)
     (ensure (\<not> SpendTagUsed s (ri_new_buyer_spend_tag inputs)) (Module SpendTagAlreadyUsed)
     (ok_or (SpendTagCommitments s (ri_new_buyer_spend_tag inputs)) (Module SpendTagNotFound)
      (\<lambda>buyer_stored_commitment.
      ensure (pv_verify_commitment (ProofVerifier cfg) (ri_buyer_value inputs) (ri_buyer_blinding inputs)
          buyer_stored_commitment) (Module ProofVerificationFailed)
     (ensure (ri_buyer_value inputs \<ge> ri_price inputs) (Module BuyerInsufficientFunds)
     (let change_amount = ri_buyer_value inputs - ri_price inputs in
      bind_res (if change_amount > 0 then
          ensure (ri_change_commitment inputs \<noteq> None \<and> ri_change_spend_tag inputs \<noteq> None
            \<and> ri_change_value inputs \<noteq> None \<and> ri_change_blinding inputs \<noteq> None)
            (Module MissingChangeOutput)
         (let c_v = the (ri_change_value inputs); c_b = the (ri_change_blinding inputs);
              c_c = the (ri_change_commitment inputs)
          in
          ensure (c_v = change_amount) (Module ProofVerificationFailed)
         (ensure (pv_verify_commitment (ProofVerifier cfg) c_v c_b c_c) (Module ProofVerificationFailed)
         (Inr ())))
        else Inr ()) (\<lambda>_.
      ensure (pv_verify_commitment (ProofVerifier cfg) (ri_price inputs) (ri_payment_blinding inputs)
          (ri_payment_commitment inputs)) (Module ProofVerificationFailed)
     (let s = s\<lparr>OwnershipUsed := (OwnershipUsed s)(ri_old_tx_id inputs := True)\<rparr>;
          s = s\<lparr>SpendTagUsed := (SpendTagUsed s)(ri_new_buyer_spend_tag inputs := True)\<rparr>
      in
      ok_or (do_insert_note cfg (ri_payment_commitment inputs) (ri_payment_spend_tag inputs) (Leaves s) s)
        (Module ProofVerificationFailed) (\<lambda>(leaves_vec, payment_root, s).
      let (final_root, s) =
            (if change_amount > 0 then
               let c_change = the (ri_change_commitment inputs);
                   t_change = the (ri_change_spend_tag inputs)
               in (case do_insert_note cfg c_change t_change leaves_vec s of
                     Some (leaves_vec, change_root, s) \<Rightarrow>
                       (change_root,
                        deposit_event (ChangeNoteCreated c_change t_change change_root)
                          (commit_merkle leaves_vec change_root s))
                   | None \<Rightarrow> (payment_root, commit_merkle leaves_vec payment_root s))
             else (payment_root, commit_merkle leaves_vec payment_root s));
          s = s\<lparr>OwnershipCommitments :=
                (OwnershipCommitments s)(ri_new_tx_id inputs \<mapsto> ri_new_ownership_commitment inputs)\<rparr>;
          s = deposit_event (PaymentNoteCreated (ri_payment_commitment inputs)
                (ri_payment_spend_tag inputs) final_root) s;
          s = deposit_event (RelistInitiated (ri_old_tx_id inputs) (ri_new_tx_id inputs) (ri_rwa_id inputs)) s
      in Inr (dispatch_send (RwaSendTransfer (ri_old_tx_id inputs) (ri_new_ownership_commitment inputs)
           (ri_new_tx_id inputs)) s)))))))))))))"

section \<open>Prices and app configurations\<close>

definition set_rwa_price ::
  "'acct origin \<Rightarrow> h256 \<Rightarrow> u64 \<Rightarrow> 'ccy ph_state \<Rightarrow> ph_error dispatch_error + 'ccy ph_state" where
  "set_rwa_price orig rwa_id price s =
     ensure (ensure_root orig) BadOrigin
     (Inr (deposit_event (RwaPriceSet rwa_id price) (s\<lparr>RwaPrices := (RwaPrices s)(rwa_id := price)\<rparr>)))"

definition set_access_config ::
  "'acct origin \<Rightarrow> h256 \<Rightarrow> u64 \<Rightarrow> h256 \<Rightarrow> 'ccy ph_state \<Rightarrow> ph_error dispatch_error + 'ccy ph_state" where
  "set_access_config orig app_id price payment_account s =
     ensure (ensure_root orig) BadOrigin
     (let cfg = \<lparr>ac_price = price, ac_payment_account = payment_account\<rparr> in
      Inr (deposit_event (AccessConfigSet app_id price)
        (s\<lparr>AccessKeyConfigs := (AccessKeyConfigs s)(app_id \<mapsto> cfg)\<rparr>)))"

section \<open>Access purchases\<close>

definition purchase_access ::
  "('acct, 'ccy) ph_config \<Rightarrow> 'acct origin \<Rightarrow> bytes \<Rightarrow> bytes \<Rightarrow> 'ccy ph_state \<Rightarrow>
     ph_error dispatch_error + 'ccy ph_state" where
  "purchase_access cfg orig proof public_inputs s =
     ensure (ensure_none orig) BadOrigin
     (ok_or (decode_rwa_purchase_inputs (ph_codec cfg) public_inputs) (Module ProofVerificationFailed) (\<lambda>inputs.
      ensure (\<not> NullifierUsed s (pi_nullifier inputs)) (Module NullifierAlreadyUsed)
     (ensure (SpendTagCommitments s (pi_spend_tag inputs) \<noteq> None) (Module SpendTagNotFound)
     (ensure (\<not> SpendTagUsed s (pi_spend_tag inputs)) (Module SpendTagAlreadyUsed)
     (let app_id = pi_rwa_id inputs in
      ok_or (AccessKeyConfigs s app_id) (Module AccessAppNotConfigured) (\<lambda>app.
      ensure (ac_price app > 0) (Module AccessAppNotConfigured)
     (bind_res (case pi_change_spend_tag inputs of
          Some t_change \<Rightarrow> ok_or (SpendTagRpCommitments s t_change) (Module SpendTagNotFound) Inr
        | None \<Rightarrow> Inr 0) (\<lambda>change_rp_commitment.
      ok_or (SpendTagRpCommitments s (pi_spend_tag inputs)) (Module SpendTagNotFound) (\<lambda>stored_rp.
      ensure (pv_verify_purchase_proof (ProofVerifier cfg) (pi_purchase_proof inputs) stored_rp
          change_rp_commitment (ac_price app)) (Module ProofVerificationFailed)
     (ensure (pv_verify_purchase (ProofVerifier cfg) proof public_inputs) (Module MlDsaFailed)
     (let s = s\<lparr>NullifierUsed := (NullifierUsed s)(pi_nullifier inputs := True)\<rparr>;
          s = s\<lparr>SpendTagUsed := (SpendTagUsed s)(pi_spend_tag inputs := True)\<rparr>;
          s = insert_change_note cfg (pi_change_commitment inputs) (pi_change_spend_tag inputs)
                change_rp_commitment s
      in
      ok_or (decode_account cfg (le_bytes 32 (ac_payment_account app))) (Module ProofVerificationFailed)
      (\<lambda>payment_dest.
      bind_res (currency_transfer cfg (PoolAccount cfg) payment_dest (ac_price app) AllowDeath s) (\<lambda>s.
      let s = deposit_event (AccessPurchaseAuthorized app_id (pi_tx_id inputs)) s
      in Inr (dispatch_send (AccessSend app_id (pi_nullifier inputs) (pi_tx_id inputs)
           (pi_ownership_commitment inputs)) s))))))))))))))"

definition purchase_access_v2 ::
  "('acct, 'ccy) ph_config \<Rightarrow> 'acct origin \<Rightarrow> bytes \<Rightarrow> bytes \<Rightarrow> bytes \<Rightarrow> 'ccy ph_state \<Rightarrow>
     ph_error dispatch_error + 'ccy ph_state" where
  "purchase_access_v2 cfg orig auth public_inputs spend_proof s =
     ensure (ensure_none orig) BadOrigin
     (ok_or (decode_spend_public_v2 (ph_codec cfg) public_inputs) (Module ProofVerificationFailed) (\<lambda>inputs.
      ensure (\<not> NullifierUsed s (sp_nullifier inputs)) (Module NullifierAlreadyUsed)
     (ensure (v2_root_anchored s (sp_merkle_root inputs)) (Module RootNotRecent)
     (let app_id = sp_rwa_id inputs in
      ok_or (AccessKeyConfigs s app_id) (Module AccessAppNotConfigured) (\<lambda>app.
      ensure (ac_price app > 0) (Module AccessAppNotConfigured)
     (ensure (pv_verify_spend_auth_v2 (ProofVerifier cfg) auth public_inputs False) (Module MlDsaFailed)
     (ensure (length auth \<ge> 1312) (Module MlDsaFailed)
     (let pkd = compute_pk_digest cfg (take 1312 auth) in
      ensure (pv_verify_spend_v2 (ProofVerifier cfg) spend_proof (sp_merkle_root inputs)
          (sp_nullifier inputs) pkd (ac_price app) (sp_change_leaf inputs) (sp_change_pkd inputs) True)
        (Module ProofVerificationFailed)
     (let s = s\<lparr>NullifierUsed := (NullifierUsed s)(sp_nullifier inputs := True)\<rparr> in
      bind_res (v2_insert cfg (sp_change_leaf inputs) s) (\<lambda>(change_leaf_index, new_root, s).
      ok_or (decode_account cfg (le_bytes 32 (ac_payment_account app))) (Module ProofVerificationFailed)
      (\<lambda>payment_dest.
      bind_res (currency_transfer cfg (PoolAccount cfg) payment_dest (ac_price app) AllowDeath s) (\<lambda>s.
      let s = deposit_event (AccessPurchaseV2Authorized app_id (sp_tx_id inputs)) s
      in Inr (dispatch_send (AccessSend app_id (sp_nullifier inputs) (sp_tx_id inputs)
           (sp_ownership_commitment inputs)) s)))))))))))))"

section \<open>The v2 lane\<close>

definition deposit_v2 ::
  "('acct, 'ccy) ph_config \<Rightarrow> 'acct origin \<Rightarrow> h256 \<Rightarrow> u64 \<Rightarrow> bytes \<Rightarrow> bytes \<Rightarrow> 'ccy ph_state \<Rightarrow>
     ph_error dispatch_error + 'ccy ph_state" where
  "deposit_v2 cfg orig leaf amount deposit_proof hints_blob s =
     ok_or (ensure_signed orig) BadOrigin (\<lambda>who.
     ensure (pv_verify_deposit_v2 (ProofVerifier cfg) deposit_proof amount leaf) (Module ProofVerificationFailed)
     (bind_res (currency_transfer cfg who (PoolAccount cfg) amount KeepAlive s) (\<lambda>s.
      bind_res (v2_insert cfg leaf s) (\<lambda>(leaf_index, new_root, s).
      Inr (deposit_event (DepositV2Accepted leaf leaf_index new_root hints_blob) s)))))"

definition purchase_rwa_v2 ::
  "('acct, 'ccy) ph_config \<Rightarrow> 'acct origin \<Rightarrow> bytes \<Rightarrow> bytes \<Rightarrow> bytes \<Rightarrow> 'ccy ph_state \<Rightarrow>
     ph_error dispatch_error + 'ccy ph_state" where
  "purchase_rwa_v2 cfg orig auth public_inputs spend_proof s =
     ensure (ensure_none orig) BadOrigin
     (ok_or (decode_spend_public_v2 (ph_codec cfg) public_inputs) (Module ProofVerificationFailed) (\<lambda>inputs.
      ensure (\<not> NullifierUsed s (sp_nullifier inputs)) (Module NullifierAlreadyUsed)
     (ensure (v2_root_anchored s (sp_merkle_root inputs)) (Module RootNotRecent)
     (let price = RwaPrices s (sp_rwa_id inputs) in
      ensure (price > 0) (Module RwaPriceNotSet)
     (ensure (pv_verify_spend_auth_v2 (ProofVerifier cfg) auth public_inputs False) (Module MlDsaFailed)
     (ensure (length auth \<ge> 1312) (Module MlDsaFailed)
     (let pkd = compute_pk_digest cfg (take 1312 auth) in
      ensure (pv_verify_spend_v2 (ProofVerifier cfg) spend_proof (sp_merkle_root inputs)
          (sp_nullifier inputs) pkd price (sp_change_leaf inputs) (sp_change_pkd inputs) True)
        (Module ProofVerificationFailed)
     (let s = s\<lparr>NullifierUsed := (NullifierUsed s)(sp_nullifier inputs := True)\<rparr> in
      bind_res (v2_insert cfg (sp_change_leaf inputs) s) (\<lambda>(change_leaf_index, new_root, s).
      let s = s\<lparr>OwnershipCommitments :=
                (OwnershipCommitments s)(sp_tx_id inputs \<mapsto> sp_ownership_commitment inputs)\<rparr>;
          s = deposit_event (PurchaseV2Authorized (sp_rwa_id inputs) (sp_tx_id inputs)
                (sp_change_leaf inputs) change_leaf_index new_root) s
      in Inr (dispatch_send (RwaSend (sp_rwa_id inputs) (sp_nullifier inputs) (sp_nullifier inputs)
           price (sp_tx_id inputs) (sp_ownership_commitment inputs)) s))))))))))"

definition withdraw_v2 ::
  "('acct, 'ccy) ph_config \<Rightarrow> 'acct origin \<Rightarrow> bytes \<Rightarrow> bytes \<Rightarrow> bytes \<Rightarrow> 'ccy ph_state \<Rightarrow>
     ph_error dispatch_error + 'ccy ph_state" where
  "withdraw_v2 cfg orig auth public_inputs spend_proof s =
     ensure (ensure_none orig) BadOrigin
     (ok_or (decode_withdraw_public_v2 (ph_codec cfg) public_inputs) (Module ProofVerificationFailed) (\<lambda>inputs.
      ensure (\<not> NullifierUsed s (wp_nullifier inputs)) (Module NullifierAlreadyUsed)
     (ensure (v2_root_anchored s (wp_merkle_root inputs)) (Module RootNotRecent)
     (ensure (pv_verify_spend_auth_v2 (ProofVerifier cfg) auth public_inputs True) (Module MlDsaFailed)
     (ensure (length auth \<ge> 1312) (Module MlDsaFailed)
     (let pkd = compute_pk_digest cfg (take 1312 auth);
          zero_change = pv_v2_zero_change_leaf (ProofVerifier cfg)
      in
      ensure (pv_verify_spend_v2 (ProofVerifier cfg) spend_proof (wp_merkle_root inputs)
          (wp_nullifier inputs) pkd (wp_amount inputs) zero_change 0 False)
        (Module ProofVerificationFailed)
     (let s = s\<lparr>NullifierUsed := (NullifierUsed s)(wp_nullifier inputs := True)\<rparr> in
      ok_or (decode_account cfg (le_bytes 32 (wp_destination inputs))) (Module ProofVerificationFailed) (\<lambda>dest.
      bind_res (currency_transfer cfg (PoolAccount cfg) dest (wp_amount inputs) AllowDeath s) (\<lambda>s.
      Inr (deposit_event (WithdrawV2Completed (wp_tx_id inputs)) s))))))))))"

section \<open>Extrinsics\<close>

definition ph_dispatch ::
  "('acct, 'ccy) ph_config \<Rightarrow> 'acct origin \<Rightarrow> ph_call \<Rightarrow> 'ccy ph_state \<Rightarrow>
     ph_error dispatch_error + 'ccy ph_state" where
  "ph_dispatch cfg orig call s = (case call of
     call_deposit_public c rp rc t h \<Rightarrow> deposit_public orig c rp rc t h s
   | call_purchase_rwa p i \<Rightarrow> purchase_rwa cfg orig p i s
   | call_withdraw_private p i \<Rightarrow> withdraw_private cfg orig p i s
   | call_relist_private i \<Rightarrow> relist_private cfg orig i s
   | call_set_rwa_price r p \<Rightarrow> set_rwa_price orig r p s
   | call_set_access_config a p acc \<Rightarrow> set_access_config orig a p acc s
   | call_purchase_access p i \<Rightarrow> purchase_access cfg orig p i s
   | call_purchase_access_v2 a i p \<Rightarrow> purchase_access_v2 cfg orig a i p s
   | call_deposit_v2 l a p h \<Rightarrow> deposit_v2 cfg orig l a p h s
   | call_purchase_rwa_v2 a i p \<Rightarrow> purchase_rwa_v2 cfg orig a i p s
   | call_withdraw_v2 a i p \<Rightarrow> withdraw_v2 cfg orig a i p s)"

definition ph_apply ::
  "('acct, 'ccy) ph_config \<Rightarrow> 'acct origin \<times> ph_call \<Rightarrow> 'ccy ph_state \<Rightarrow>
     ph_error dispatch_error + 'ccy ph_state" where
  "ph_apply cfg x s = (case x of (orig, call) \<Rightarrow>
     if orig = Unsigned then
       (case validate_unsigned cfg call s of
          Inl e \<Rightarrow> Inl (InvalidTx e)
        | Inr _ \<Rightarrow> ph_dispatch cfg orig call s)
     else ph_dispatch cfg orig call s)"

end
