(* ===== verification/ProofHubGuards.thy ===== *)
theory ProofHubGuards
  imports ProofHubCalls
begin

text \<open>
  What an accepted extrinsic of the ProofHub proofs pallet does to each part of the storage: one
  inversion lemma per dispatchable (all guards and the resulting state), frame lemmas for the
  helpers, and the guards that are consumed once (nullifiers, spend tags, ownership records) as
  an interpretation of \<open>one_shot\<close>.
\<close>

section \<open>Helpers\<close>

lemma ph_fields_deposit_event [simp]:
  "NullifierUsed (deposit_event e s) = NullifierUsed s"
  "OwnershipCommitments (deposit_event e s) = OwnershipCommitments s"
  "OwnershipUsed (deposit_event e s) = OwnershipUsed s"
  "SpendTagCommitments (deposit_event e s) = SpendTagCommitments s"
  "SpendTagRpCommitments (deposit_event e s) = SpendTagRpCommitments s"
  "SpendTagUsed (deposit_event e s) = SpendTagUsed s"
  "Leaves (deposit_event e s) = Leaves s"
  "CurrentRoot (deposit_event e s) = CurrentRoot s"
  "MerkleRoot (deposit_event e s) = MerkleRoot s"
  "RecentRoots (deposit_event e s) = RecentRoots s"
  "CommitmentIndex (deposit_event e s) = CommitmentIndex s"
  "FrontierNodesV2 (deposit_event e s) = FrontierNodesV2 s"
  "LeafCountV2 (deposit_event e s) = LeafCountV2 s"
  "CurrentRootV2 (deposit_event e s) = CurrentRootV2 s"
  "RecentRootsV2 (deposit_event e s) = RecentRootsV2 s"
  "LeafIndexV2 (deposit_event e s) = LeafIndexV2 s"
  "RwaPrices (deposit_event e s) = RwaPrices s"
  "AccessKeyConfigs (deposit_event e s) = AccessKeyConfigs s"
  "ccy (deposit_event e s) = ccy s"
  "sent (deposit_event e s) = sent s"
  by (simp_all add: deposit_event_def)

lemma ph_fields_dispatch_send [simp]:
  "NullifierUsed (dispatch_send m s) = NullifierUsed s"
  "OwnershipCommitments (dispatch_send m s) = OwnershipCommitments s"
  "OwnershipUsed (dispatch_send m s) = OwnershipUsed s"
  "SpendTagCommitments (dispatch_send m s) = SpendTagCommitments s"
  "SpendTagRpCommitments (dispatch_send m s) = SpendTagRpCommitments s"
  "SpendTagUsed (dispatch_send m s) = SpendTagUsed s"
  "Leaves (dispatch_send m s) = Leaves s"
  "CurrentRoot (dispatch_send m s) = CurrentRoot s"
  "MerkleRoot (dispatch_send m s) = MerkleRoot s"
  "RecentRoots (dispatch_send m s) = RecentRoots s"
  "CommitmentIndex (dispatch_send m s) = CommitmentIndex s"
  "FrontierNodesV2 (dispatch_send m s) = FrontierNodesV2 s"
  "LeafCountV2 (dispatch_send m s) = LeafCountV2 s"
  "CurrentRootV2 (dispatch_send m s) = CurrentRootV2 s"
  "RecentRootsV2 (dispatch_send m s) = RecentRootsV2 s"
  "LeafIndexV2 (dispatch_send m s) = LeafIndexV2 s"
  "RwaPrices (dispatch_send m s) = RwaPrices s"
  "AccessKeyConfigs (dispatch_send m s) = AccessKeyConfigs s"
  "ccy (dispatch_send m s) = ccy s"
  "events (dispatch_send m s) = events s"
  by (simp_all add: dispatch_send_def)

text \<open>
  The v1 helpers change only the v1 Merkle storage, the tag registries and the events; what they
  keep is one equation on the rest of the record.
\<close>

definition v2_view :: "'ccy ph_state \<Rightarrow> h256 list \<times> u32 \<times> h256 \<times> h256 list \<times> (h256 \<rightharpoonup> u32)" where
  "v2_view s = (FrontierNodesV2 s, LeafCountV2 s, CurrentRootV2 s, RecentRootsV2 s, LeafIndexV2 s)"

definition guard_view :: "'ccy ph_state \<Rightarrow> (h256 \<Rightarrow> bool) \<times> (h256 \<Rightarrow> bool) \<times> (h128 \<Rightarrow> bool)" where
  "guard_view s = (NullifierUsed s, SpendTagUsed s, OwnershipUsed s)"

lemmas views = v2_view_def guard_view_def

lemma views_deposit_event [simp]:
  "v2_view (deposit_event e s) = v2_view s" "guard_view (deposit_event e s) = guard_view s"
  by (simp_all add: views)

lemma views_dispatch_send [simp]:
  "v2_view (dispatch_send m s) = v2_view s" "guard_view (dispatch_send m s) = guard_view s"
  by (simp_all add: views)

lemma commit_merkle_frame [simp]:
  "v2_view (commit_merkle l r s) = v2_view s" "guard_view (commit_merkle l r s) = guard_view s"
  "ccy (commit_merkle l r s) = ccy s" "RwaPrices (commit_merkle l r s) = RwaPrices s"
  "SpendTagRpCommitments (commit_merkle l r s) = SpendTagRpCommitments s"
  "AccessKeyConfigs (commit_merkle l r s) = AccessKeyConfigs s"
  by (simp_all add: commit_merkle_def Let_def views)

lemma ph_fields_commit_merkle [simp]:
  "NullifierUsed (commit_merkle l r s) = NullifierUsed s"
  "SpendTagUsed (commit_merkle l r s) = SpendTagUsed s"
  "OwnershipUsed (commit_merkle l r s) = OwnershipUsed s"
  "FrontierNodesV2 (commit_merkle l r s) = FrontierNodesV2 s"
  "LeafCountV2 (commit_merkle l r s) = LeafCountV2 s"
  "CurrentRootV2 (commit_merkle l r s) = CurrentRootV2 s"
  "RecentRootsV2 (commit_merkle l r s) = RecentRootsV2 s"
  "LeafIndexV2 (commit_merkle l r s) = LeafIndexV2 s"
  by (simp_all add: commit_merkle_def Let_def)

lemma do_insert_note_frame:
  assumes "do_insert_note cfg c t ls s = Some (ls', r, s')"
  shows "v2_view s' = v2_view s \<and> guard_view s' = guard_view s \<and> ccy s' = ccy s \<and>
    SpendTagRpCommitments s' = SpendTagRpCommitments s"
  using assms by (auto simp: do_insert_note_def Let_def views split: if_splits)

lemma insert_change_note_frame:
  "v2_view (insert_change_note cfg c t r s) = v2_view s \<and>
   guard_view (insert_change_note cfg c t r s) = guard_view s \<and>
   ccy (insert_change_note cfg c t r s) = ccy s \<and>
   SpendTagRpCommitments (insert_change_note cfg c t r s) = SpendTagRpCommitments s"
proof (cases "(c, t)")
  case (Pair c' t')
  show ?thesis
  proof (cases "c = None \<or> t = None")
    case True
    then show ?thesis by (auto simp: insert_change_note_def split: option.splits)
  next
    case False
    then obtain cc tt where ct: "c = Some cc" "t = Some tt" by auto
    let ?s = "s\<lparr>SpendTagChangeRpCommitments := (SpendTagChangeRpCommitments s)(tt \<mapsto> r)\<rparr>"
    have v: "v2_view ?s = v2_view s" "guard_view ?s = guard_view s" by (simp_all add: views)
    show ?thesis
    proof (cases "do_insert_note cfg cc tt (Leaves s) ?s")
      case None
      then show ?thesis using v by (simp add: insert_change_note_def ct)
    next
      case (Some x)
      obtain ls' rt s' where x: "x = (ls', rt, s')" by (cases x) auto
      show ?thesis
        using do_insert_note_frame [OF Some [unfolded x]] v Some
        by (simp add: insert_change_note_def ct x)
    qed
  qed
qed

lemma guard_view_eq:
  "guard_view s = (n, t, o') \<longleftrightarrow> NullifierUsed s = n \<and> SpendTagUsed s = t \<and> OwnershipUsed s = o'"
  by (simp add: guard_view_def)

definition after_insert ::
  "h256 \<Rightarrow> h256 list \<Rightarrow> u32 \<Rightarrow> h256 \<Rightarrow> 'ccy ph_state \<Rightarrow> 'ccy ph_state" where
  "after_insert leaf ns c rt s = s\<lparr>FrontierNodesV2 := ns, LeafCountV2 := c,
     LeafIndexV2 := (LeafIndexV2 s)(leaf \<mapsto> LeafCountV2 s), CurrentRootV2 := rt,
     RecentRootsV2 := (if LeafCountV2 s > 0 then push_window (RecentRootsV2 s) (CurrentRootV2 s)
       else RecentRootsV2 s)\<rparr>"

lemma v2_insert_Inr:
  "v2_insert cfg leaf s = Inr (i, rt, s') \<longleftrightarrow>
     LeafIndexV2 s leaf = None \<and> i = LeafCountV2 s \<and>
     (\<exists>ns c. pv_v2_insert_leaf (ProofVerifier cfg) (FrontierNodesV2 s) (LeafCountV2 s) leaf = Some (ns, c, rt) \<and>
       s' = after_insert leaf ns c rt s)"
proof (cases "LeafCountV2 s > 0")
  case True
  then show ?thesis by (auto simp: v2_insert_def Let_def after_insert_def)
next
  case False
  then show ?thesis by (auto simp: v2_insert_def Let_def after_insert_def)
qed

lemma after_insert_frame [simp]:
  "guard_view (after_insert leaf ns c rt s) = guard_view s" "ccy (after_insert leaf ns c rt s) = ccy s"
  "SpendTagCommitments (after_insert leaf ns c rt s) = SpendTagCommitments s"
  "SpendTagRpCommitments (after_insert leaf ns c rt s) = SpendTagRpCommitments s"
  "OwnershipCommitments (after_insert leaf ns c rt s) = OwnershipCommitments s"
  "events (after_insert leaf ns c rt s) = events s" "sent (after_insert leaf ns c rt s) = sent s"
  by (simp_all add: after_insert_def guard_view_def)

lemma currency_transfer_Inr:
  "currency_transfer cfg a b x ex s = Inr s' \<longleftrightarrow>
     (\<exists>c. transfer cfg a b (ucast x) ex (ccy s) = Inr c \<and> s' = s\<lparr>ccy := c\<rparr>)"
  by (auto simp: currency_transfer_def split: sum.splits)

section \<open>Inversion of accepted calls\<close>

text \<open>The v1 purchases share their guards.\<close>

definition v1_spend_guards ::
  "('acct, 'ccy) ph_config \<Rightarrow> rwa_purchase_inputs \<Rightarrow> 'ccy ph_state \<Rightarrow> bool" where
  "v1_spend_guards cfg inputs s \<longleftrightarrow>
     \<not> NullifierUsed s (pi_nullifier inputs) \<and> SpendTagCommitments s (pi_spend_tag inputs) \<noteq> None \<and>
     \<not> SpendTagUsed s (pi_spend_tag inputs) \<and> SpendTagRpCommitments s (pi_spend_tag inputs) \<noteq> None"

lemma purchase_rwa_accepted:
  assumes "purchase_rwa cfg orig proof pin s = Inr s'"
  shows "\<exists>inputs. decode_rwa_purchase_inputs (ph_codec cfg) pin = Some inputs \<and>
    v1_spend_guards cfg inputs s \<and> v2_view s' = v2_view s \<and> ccy s' = ccy s \<and>
    SpendTagRpCommitments s' = SpendTagRpCommitments s \<and>
    guard_view s' = ((NullifierUsed s)(pi_nullifier inputs := True),
      (SpendTagUsed s)(pi_spend_tag inputs := True), OwnershipUsed s)"
  using assms
  by (auto simp: purchase_rwa_def Let_def v1_spend_guards_def insert_change_note_frame)
    (simp_all add: views)

lemma purchase_access_accepted:
  assumes "purchase_access cfg orig proof pin s = Inr s'"
  shows "\<exists>inputs. decode_rwa_purchase_inputs (ph_codec cfg) pin = Some inputs \<and>
    v1_spend_guards cfg inputs s \<and> v2_view s' = v2_view s \<and>
    SpendTagRpCommitments s' = SpendTagRpCommitments s \<and>
    guard_view s' = ((NullifierUsed s)(pi_nullifier inputs := True),
      (SpendTagUsed s)(pi_spend_tag inputs := True), OwnershipUsed s)"
proof -
  have upd: "v2_view (t\<lparr>ccy := b\<rparr>) = v2_view t" "guard_view (t\<lparr>ccy := b\<rparr>) = guard_view t" for t b
    by (simp_all add: views)
  show ?thesis
    using assms
    by (auto simp: purchase_access_def Let_def v1_spend_guards_def insert_change_note_frame
        currency_transfer_Inr upd) (simp_all add: views)
qed

lemma withdraw_private_accepted:
  assumes "withdraw_private cfg orig proof pin s = Inr s'"
  shows "\<exists>inputs. decode_withdraw_inputs (ph_codec cfg) pin = Some inputs \<and>
    SpendTagCommitments s (wi_spend_tag inputs) \<noteq> None \<and> \<not> SpendTagUsed s (wi_spend_tag inputs) \<and>
    v2_view s' = v2_view s \<and> SpendTagRpCommitments s' = SpendTagRpCommitments s \<and>
    guard_view s' = (NullifierUsed s, (SpendTagUsed s)(wi_spend_tag inputs := True), OwnershipUsed s)"
  using assms
  by (auto simp: withdraw_private_def Let_def currency_transfer_Inr) (simp_all add: views)

lemma relist_private_accepted:
  assumes "relist_private cfg orig inputs s = Inr s'"
  shows "OwnershipCommitments s (ri_old_tx_id inputs) \<noteq> None \<and>
    \<not> OwnershipUsed s (ri_old_tx_id inputs) \<and>
    SpendTagCommitments s (ri_new_buyer_spend_tag inputs) \<noteq> None \<and>
    \<not> SpendTagUsed s (ri_new_buyer_spend_tag inputs) \<and>
    v2_view s' = v2_view s \<and> ccy s' = ccy s \<and> SpendTagRpCommitments s' = SpendTagRpCommitments s \<and>
    guard_view s' = (NullifierUsed s, (SpendTagUsed s)(ri_new_buyer_spend_tag inputs := True),
      (OwnershipUsed s)(ri_old_tx_id inputs := True))"
proof -
  have upd: "v2_view (t\<lparr>OwnershipCommitments := b\<rparr>) = v2_view t"
    "guard_view (t\<lparr>OwnershipCommitments := b\<rparr>) = guard_view t"
    "v2_view (t\<lparr>OwnershipUsed := ou, SpendTagUsed := st\<rparr>) = v2_view t" for t :: "'b ph_state" and b ou st
    by (simp_all add: views)
  show ?thesis
    using assms
    by (auto simp: relist_private_def Let_def upd dest!: do_insert_note_frame
        split: prod.splits if_splits option.splits) (simp_all add: views)
qed

lemma deposit_v2_accepted:
  assumes "deposit_v2 cfg orig leaf amount prf hints s = Inr s'"
  shows "\<exists>who b ns c rt. orig = Signed who \<and>
    pv_verify_deposit_v2 (ProofVerifier cfg) prf amount leaf \<and>
    transfer cfg who (PoolAccount cfg) (ucast amount) KeepAlive (ccy s) = Inr b \<and> LeafIndexV2 s leaf = None \<and>
    pv_v2_insert_leaf (ProofVerifier cfg) (FrontierNodesV2 s) (LeafCountV2 s) leaf = Some (ns, c, rt) \<and>
    s' = deposit_event (DepositV2Accepted leaf (LeafCountV2 s) rt hints) (after_insert leaf ns c rt (s\<lparr>ccy := b\<rparr>))"
  using assms by (auto simp: deposit_v2_def v2_insert_Inr currency_transfer_Inr)

definition v2_spend_guards :: "('acct, 'ccy) ph_config \<Rightarrow> h256 \<Rightarrow> h256 \<Rightarrow> bytes \<Rightarrow> bytes \<Rightarrow> bool \<Rightarrow> 'ccy ph_state \<Rightarrow> bool" where
  "v2_spend_guards cfg rt nullifier auth pin w s \<longleftrightarrow>
     \<not> NullifierUsed s nullifier \<and> v2_root_anchored s rt \<and>
     pv_verify_spend_auth_v2 (ProofVerifier cfg) auth pin w \<and> 1312 \<le> length auth"

lemma purchase_rwa_v2_accepted:
  assumes "purchase_rwa_v2 cfg orig auth pin prf s = Inr s'"
  shows "\<exists>i ns c rt. orig = Unsigned \<and> decode_spend_public_v2 (ph_codec cfg) pin = Some i \<and>
    v2_spend_guards cfg (sp_merkle_root i) (sp_nullifier i) auth pin False s \<and> 0 < RwaPrices s (sp_rwa_id i) \<and>
    pv_verify_spend_v2 (ProofVerifier cfg) prf (sp_merkle_root i) (sp_nullifier i)
      (compute_pk_digest cfg (take 1312 auth)) (RwaPrices s (sp_rwa_id i)) (sp_change_leaf i)
      (sp_change_pkd i) True \<and>
    LeafIndexV2 s (sp_change_leaf i) = None \<and>
    pv_v2_insert_leaf (ProofVerifier cfg) (FrontierNodesV2 s) (LeafCountV2 s) (sp_change_leaf i) = Some (ns, c, rt) \<and>
    s' = dispatch_send (RwaSend (sp_rwa_id i) (sp_nullifier i) (sp_nullifier i)
        (RwaPrices s (sp_rwa_id i)) (sp_tx_id i) (sp_ownership_commitment i))
      (deposit_event (PurchaseV2Authorized (sp_rwa_id i) (sp_tx_id i) (sp_change_leaf i) (LeafCountV2 s) rt)
        ((after_insert (sp_change_leaf i) ns c rt
            (s\<lparr>NullifierUsed := (NullifierUsed s)(sp_nullifier i := True)\<rparr>))
          \<lparr>OwnershipCommitments := (OwnershipCommitments s)(sp_tx_id i \<mapsto> sp_ownership_commitment i)\<rparr>))"
  using assms by (auto simp: purchase_rwa_v2_def Let_def v2_insert_Inr v2_spend_guards_def)

lemma purchase_access_v2_accepted:
  assumes "purchase_access_v2 cfg orig auth pin prf s = Inr s'"
  shows "\<exists>i app ns c rt dest b. orig = Unsigned \<and> decode_spend_public_v2 (ph_codec cfg) pin = Some i \<and>
    v2_spend_guards cfg (sp_merkle_root i) (sp_nullifier i) auth pin False s \<and>
    AccessKeyConfigs s (sp_rwa_id i) = Some app \<and> 0 < ac_price app \<and>
    pv_verify_spend_v2 (ProofVerifier cfg) prf (sp_merkle_root i) (sp_nullifier i)
      (compute_pk_digest cfg (take 1312 auth)) (ac_price app) (sp_change_leaf i) (sp_change_pkd i) True \<and>
    LeafIndexV2 s (sp_change_leaf i) = None \<and>
    pv_v2_insert_leaf (ProofVerifier cfg) (FrontierNodesV2 s) (LeafCountV2 s) (sp_change_leaf i) = Some (ns, c, rt) \<and>
    decode_account cfg (le_bytes 32 (ac_payment_account app)) = Some dest \<and>
    transfer cfg (PoolAccount cfg) dest (ucast (ac_price app)) AllowDeath (ccy s) = Inr b \<and>
    s' = dispatch_send (AccessSend (sp_rwa_id i) (sp_nullifier i) (sp_tx_id i) (sp_ownership_commitment i))
      (deposit_event (AccessPurchaseV2Authorized (sp_rwa_id i) (sp_tx_id i))
        ((after_insert (sp_change_leaf i) ns c rt
            (s\<lparr>NullifierUsed := (NullifierUsed s)(sp_nullifier i := True)\<rparr>))\<lparr>ccy := b\<rparr>))"
  using assms
  by (auto simp: purchase_access_v2_def Let_def v2_insert_Inr v2_spend_guards_def currency_transfer_Inr)

lemma withdraw_v2_accepted:
  assumes "withdraw_v2 cfg orig auth pin prf s = Inr s'"
  shows "\<exists>i dest b. orig = Unsigned \<and> decode_withdraw_public_v2 (ph_codec cfg) pin = Some i \<and>
    v2_spend_guards cfg (wp_merkle_root i) (wp_nullifier i) auth pin True s \<and>
    pv_verify_spend_v2 (ProofVerifier cfg) prf (wp_merkle_root i) (wp_nullifier i)
      (compute_pk_digest cfg (take 1312 auth)) (wp_amount i) (pv_v2_zero_change_leaf (ProofVerifier cfg)) 0 False \<and>
    decode_account cfg (le_bytes 32 (wp_destination i)) = Some dest \<and>
    transfer cfg (PoolAccount cfg) dest (ucast (wp_amount i)) AllowDeath (ccy s) = Inr b \<and>
    s' = deposit_event (WithdrawV2Completed (wp_tx_id i))
      (s\<lparr>NullifierUsed := (NullifierUsed s)(wp_nullifier i := True), ccy := b\<rparr>)"
  using assms by (auto simp: withdraw_v2_def Let_def v2_spend_guards_def currency_transfer_Inr)

section \<open>Guards consumed once\<close>

datatype guard_key = KNullifier h256 | KSpendTag h256 | KOwnership h128

fun ph_used :: "'ccy ph_state \<Rightarrow> guard_key \<Rightarrow> bool" where
  "ph_used s (KNullifier n) = NullifierUsed s n"
| "ph_used s (KSpendTag t) = SpendTagUsed s t"
| "ph_used s (KOwnership x) = OwnershipUsed s x"

text \<open>The guard keys named by a call, read from its arguments.\<close>

fun ph_consumes :: "('acct, 'ccy) ph_config \<Rightarrow> 'acct origin \<times> ph_call \<Rightarrow> guard_key set" where
  "ph_consumes cfg (_, call_purchase_rwa _ pin) =
     (case decode_rwa_purchase_inputs (ph_codec cfg) pin of None \<Rightarrow> {}
      | Some i \<Rightarrow> {KNullifier (pi_nullifier i), KSpendTag (pi_spend_tag i)})"
| "ph_consumes cfg (_, call_purchase_access _ pin) =
     (case decode_rwa_purchase_inputs (ph_codec cfg) pin of None \<Rightarrow> {}
      | Some i \<Rightarrow> {KNullifier (pi_nullifier i), KSpendTag (pi_spend_tag i)})"
| "ph_consumes cfg (_, call_withdraw_private _ pin) =
     (case decode_withdraw_inputs (ph_codec cfg) pin of None \<Rightarrow> {}
      | Some i \<Rightarrow> {KSpendTag (wi_spend_tag i)})"
| "ph_consumes cfg (_, call_relist_private i) =
     {KOwnership (ri_old_tx_id i), KSpendTag (ri_new_buyer_spend_tag i)}"
| "ph_consumes cfg (_, call_purchase_rwa_v2 _ pin _) =
     (case decode_spend_public_v2 (ph_codec cfg) pin of None \<Rightarrow> {} | Some i \<Rightarrow> {KNullifier (sp_nullifier i)})"
| "ph_consumes cfg (_, call_purchase_access_v2 _ pin _) =
     (case decode_spend_public_v2 (ph_codec cfg) pin of None \<Rightarrow> {} | Some i \<Rightarrow> {KNullifier (sp_nullifier i)})"
| "ph_consumes cfg (_, call_withdraw_v2 _ pin _) =
     (case decode_withdraw_public_v2 (ph_codec cfg) pin of None \<Rightarrow> {} | Some i \<Rightarrow> {KNullifier (wp_nullifier i)})"
| "ph_consumes cfg _ = {}"

lemma ph_used_view:
  "ph_used s k = (case guard_view s of (n, t, o') \<Rightarrow>
     case k of KNullifier x \<Rightarrow> n x | KSpendTag x \<Rightarrow> t x | KOwnership x \<Rightarrow> o' x)"
  by (cases k) (simp_all add: guard_view_def)

lemma set_calls_accepted:
  "set_rwa_price orig r p s = Inr s' \<Longrightarrow>
     orig = Root \<and> s' = deposit_event (RwaPriceSet r p) (s\<lparr>RwaPrices := (RwaPrices s)(r := p)\<rparr>)"
  "set_access_config orig a p acc s = Inr s' \<Longrightarrow>
     orig = Root \<and> s' = deposit_event (AccessConfigSet a p)
       (s\<lparr>AccessKeyConfigs := (AccessKeyConfigs s)(a \<mapsto> \<lparr>ac_price = p, ac_payment_account = acc\<rparr>)\<rparr>)"
  by (auto simp: set_rwa_price_def set_access_config_def)

lemma deposit_public_refused: "\<exists>e. deposit_public orig c rp rc t h s = Inl e"
  by (cases orig) (simp_all add: deposit_public_def)

lemma deposit_public_Inr [simp]: "deposit_public orig c rp rc t h s \<noteq> Inr s'"
  using deposit_public_refused [of orig c rp rc t h s] by auto

lemmas ph_accepted =
  purchase_rwa_accepted purchase_access_accepted withdraw_private_accepted relist_private_accepted
  deposit_v2_accepted purchase_rwa_v2_accepted purchase_access_v2_accepted withdraw_v2_accepted
  set_calls_accepted

lemma ph_dispatch_guards:
  assumes "ph_dispatch cfg orig call s = Inr s'"
  shows "(\<forall>k \<in> ph_consumes cfg (orig, call). \<not> ph_used s k) \<and>
    (\<forall>k. ph_used s' k \<longleftrightarrow> ph_used s k \<or> k \<in> ph_consumes cfg (orig, call))"
proof (cases call)
  case (call_deposit_public c rp rc t h)
  then show ?thesis using assms deposit_public_refused [of orig c rp rc t h s] by (auto simp: ph_dispatch_def)
next
  case (call_purchase_rwa p i)
  then show ?thesis using assms
    by (auto simp: ph_dispatch_def ph_used_view v1_spend_guards_def guard_view_def
        dest!: ph_accepted split: guard_key.splits)
next
  case (call_withdraw_private p i)
  then show ?thesis using assms
    by (auto simp: ph_dispatch_def ph_used_view guard_view_def dest!: ph_accepted split: guard_key.splits)
next
  case (call_relist_private i)
  then show ?thesis using assms
    by (auto simp: ph_dispatch_def ph_used_view guard_view_def dest!: ph_accepted split: guard_key.splits)
next
  case (call_purchase_access p i)
  then show ?thesis using assms
    by (auto simp: ph_dispatch_def ph_used_view v1_spend_guards_def guard_view_def
        dest!: ph_accepted split: guard_key.splits)
next
  case (call_set_rwa_price r p)
  then show ?thesis using assms
    by (auto simp: ph_dispatch_def ph_used_view guard_view_def dest!: ph_accepted split: guard_key.splits)
next
  case (call_set_access_config a p acc)
  then show ?thesis using assms
    by (auto simp: ph_dispatch_def ph_used_view guard_view_def dest!: ph_accepted split: guard_key.splits)
next
  case (call_purchase_access_v2 a i p)
  then show ?thesis using assms
    by (auto simp: ph_dispatch_def ph_used_view v2_spend_guards_def guard_view_def after_insert_def
        dest!: ph_accepted split: guard_key.splits)
next
  case (call_deposit_v2 l a p h)
  then show ?thesis using assms
    by (auto simp: ph_dispatch_def ph_used_view guard_view_def after_insert_def dest!: ph_accepted
        split: guard_key.splits)
next
  case (call_purchase_rwa_v2 a i p)
  then show ?thesis using assms
    by (auto simp: ph_dispatch_def ph_used_view v2_spend_guards_def guard_view_def after_insert_def
        dest!: ph_accepted split: guard_key.splits)
next
  case (call_withdraw_v2 a i p)
  then show ?thesis using assms
    by (auto simp: ph_dispatch_def ph_used_view v2_spend_guards_def guard_view_def
        dest!: ph_accepted split: guard_key.splits)
qed

lemma ph_apply_dispatch: "ph_apply cfg (orig, call) s = Inr s' \<Longrightarrow> ph_dispatch cfg orig call s = Inr s'"
  by (auto simp: ph_apply_def split: if_splits sum.splits)

interpretation ph: one_shot "ph_apply cfg" ph_used "ph_consumes cfg"
proof
  fix c :: "'a origin \<times> ph_call" and s s' :: "'b ph_state" and k
  assume "ph_apply cfg c s = Inr s'" and "k \<in> ph_consumes cfg c"
  then show "\<not> ph_used s k \<and> ph_used s' k"
    using ph_dispatch_guards [of cfg "fst c" "snd c" s s'] ph_apply_dispatch [of cfg "fst c" "snd c" s s']
    by auto
next
  fix c :: "'a origin \<times> ph_call" and s s' :: "'b ph_state" and k
  assume "ph_apply cfg c s = Inr s'" and "ph_used s k"
  then show "ph_used s' k"
    using ph_dispatch_guards [of cfg "fst c" "snd c" s s'] ph_apply_dispatch [of cfg "fst c" "snd c" s s']
    by auto
qed

end
