(* ===== verification/ProofHubLane.thy ===== *)
theory ProofHubLane
  imports ProofHubGuards
begin

text \<open>
  Properties of the ProofHub proofs pallet over whole runs of extrinsics: the guards, the v1 lane
  from genesis, the agreement of pool validation and dispatch, and the v2 lane's Merkle storage,
  which is proved in the context of the \<open>append_tree\<close> interface and then used for the frontier of
  theory MerkleV2.
\<close>

section \<open>Guards\<close>

text \<open>
  C7. No double spend in the pallet: over any sequence of extrinsics from any state, at most one
  accepted extrinsic names a given nullifier, spend tag or resold purchase, whichever of the
  seven spending calls it uses.
\<close>

theorem ph_guard_at_most_once:
  "length (filter (\<lambda>c. k \<in> ph_consumes cfg c) (accepted (ph_apply cfg) cs s)) \<le> 1"
  by (rule ph.at_most_once)

section \<open>The v1 lane\<close>

fun v1_call :: "ph_call \<Rightarrow> bool" where
  "v1_call (call_deposit_public _ _ _ _ _) = True"
| "v1_call (call_purchase_rwa _ _) = True"
| "v1_call (call_withdraw_private _ _) = True"
| "v1_call (call_relist_private _) = True"
| "v1_call (call_purchase_access _ _) = True"
| "v1_call _ = False"

definition v1_empty :: "'ccy ph_state \<Rightarrow> bool" where
  "v1_empty s \<longleftrightarrow> SpendTagCommitments s = Map.empty \<and> Leaves s = [] \<and> CurrentRoot s = 0"

lemma v1_refused:
  assumes "v1_call call" and "v1_empty s"
  shows "\<exists>e. ph_dispatch cfg orig call s = Inl e"
proof (cases "ph_dispatch cfg orig call s")
  case (Inr s')
  with assms show ?thesis
    by (cases call) (auto simp: ph_dispatch_def v1_empty_def v1_spend_guards_def dest: ph_accepted)
qed blast

lemma v2_keeps_v1_empty:
  assumes "ph_dispatch cfg orig call s = Inr s'" and "v1_empty s"
  shows "v1_empty s'"
proof (cases call)
  case (call_deposit_v2 l a p h)
  then show ?thesis using assms
    by (auto simp: ph_dispatch_def v1_empty_def after_insert_def dest!: ph_accepted)
next
  case (call_purchase_rwa_v2 a i p)
  then show ?thesis using assms
    by (auto simp: ph_dispatch_def v1_empty_def after_insert_def dest!: ph_accepted)
next
  case (call_purchase_access_v2 a i p)
  then show ?thesis using assms
    by (auto simp: ph_dispatch_def v1_empty_def after_insert_def dest!: ph_accepted)
next
  case (call_withdraw_v2 a i p)
  then show ?thesis using assms
    by (auto simp: ph_dispatch_def v1_empty_def dest!: ph_accepted)
next
  case (call_set_rwa_price r p)
  then show ?thesis using assms by (auto simp: ph_dispatch_def v1_empty_def dest!: ph_accepted)
next
  case (call_set_access_config a p acc)
  then show ?thesis using assms by (auto simp: ph_dispatch_def v1_empty_def dest!: ph_accepted)
qed (use assms v1_refused [of call s cfg orig] in auto)

lemma apply_keeps_v1_empty: "v1_empty s \<Longrightarrow> ph_apply cfg c s = Inr s' \<Longrightarrow> v1_empty s'"
  using ph_apply_dispatch v2_keeps_v1_empty by (cases c) blast

lemma v1_empty_run: "v1_empty s \<Longrightarrow> v1_empty (run (ph_apply cfg) cs s)"
  by (rule run_invariant [where P = v1_empty]) (auto intro: apply_keeps_v1_empty)

lemma v1_empty_genesis: "v1_empty (ph_genesis b)"
  by (simp add: v1_empty_def ph_genesis_def)

lemma v1_never_accepted: "v1_empty s \<Longrightarrow> filter (\<lambda>c. v1_call (snd c)) (accepted (ph_apply cfg) cs s) = []"
proof (induction cs arbitrary: s)
  case Nil
  then show ?case by simp
next
  case (Cons c cs)
  show ?case
  proof (cases "ph_apply cfg c s")
    case (Inl e)
    then show ?thesis using Cons by simp
  next
    case (Inr s')
    obtain orig call where c: "c = (orig, call)" by (cases c)
    have "ph_dispatch cfg orig call s = Inr s'" using Inr c ph_apply_dispatch by blast
    then have "\<not> v1_call call" using v1_refused [of call s cfg orig] Cons.prems by auto
    then show ?thesis using Inr c Cons.IH apply_keeps_v1_empty [OF Cons.prems Inr] by simp
  qed
qed

text \<open>
  On a chain started from the pallet's genesis the v1 lane is dead: deposits are disabled and
  nothing else registers a spend tag, so no v1 deposit, purchase, withdrawal, resale or access
  purchase is ever accepted and the v1 tree stays empty.
\<close>

theorem v1_lane_dead:
  "filter (\<lambda>c. v1_call (snd c)) (accepted (ph_apply cfg) cs (ph_genesis b)) = [] \<and>
   SpendTagCommitments (run (ph_apply cfg) cs (ph_genesis b)) = Map.empty \<and>
   Leaves (run (ph_apply cfg) cs (ph_genesis b)) = []"
  using v1_never_accepted [OF v1_empty_genesis, of cfg cs b] v1_empty_run [OF v1_empty_genesis, of cfg cs b]
  by (simp add: v1_empty_def)

lemma dispatch_keeps_rp:
  assumes "ph_dispatch cfg orig call s = Inr s'"
  shows "SpendTagRpCommitments s' = SpendTagRpCommitments s"
  using assms
  by (cases call) (auto simp: ph_dispatch_def after_insert_def dest!: ph_accepted)

text \<open>
  The registry of Poseidon commitments never changes: no extrinsic writes
  \<open>SpendTagRpCommitments\<close>, which every v1 purchase reads for the spent note and for its change note.
\<close>

theorem rp_commitments_never_written:
  "SpendTagRpCommitments (run (ph_apply cfg) cs s) = SpendTagRpCommitments s"
  by (rule run_frame) (metis ph_apply_dispatch dispatch_keeps_rp surj_pair)

section \<open>Pool validation agrees with dispatch\<close>

lemma dispatch_implies_valid:
  assumes "ph_dispatch cfg Unsigned call s = Inr s'"
  shows "\<exists>v. validate_unsigned cfg call s = Inr v"
proof (cases call)
  case (call_purchase_rwa p i)
  then show ?thesis using assms
    by (auto simp: ph_dispatch_def validate_unsigned_def v1_spend_guards_def ValidTransaction_def
        dest!: purchase_rwa_accepted)
next
  case (call_purchase_access p i)
  then show ?thesis using assms
    by (auto simp: ph_dispatch_def validate_unsigned_def v1_spend_guards_def ValidTransaction_def
        dest!: purchase_access_accepted)
next
  case (call_withdraw_private p i)
  then show ?thesis using assms
    by (auto simp: ph_dispatch_def validate_unsigned_def ValidTransaction_def
        dest!: withdraw_private_accepted)
next
  case (call_relist_private i)
  then show ?thesis using assms
    by (auto simp: ph_dispatch_def validate_unsigned_def ValidTransaction_def
        dest!: relist_private_accepted)
next
  case (call_purchase_rwa_v2 a i p)
  then show ?thesis using assms
    by (auto simp: ph_dispatch_def validate_unsigned_def v2_spend_guards_def ValidTransaction_def
        dest!: purchase_rwa_v2_accepted)
next
  case (call_purchase_access_v2 a i p)
  then show ?thesis using assms
    by (auto simp: ph_dispatch_def validate_unsigned_def v2_spend_guards_def ValidTransaction_def
        dest!: purchase_access_v2_accepted)
next
  case (call_withdraw_v2 a i p)
  then show ?thesis using assms
    by (auto simp: ph_dispatch_def validate_unsigned_def v2_spend_guards_def ValidTransaction_def
        dest!: withdraw_v2_accepted)
qed (use assms in \<open>auto simp: ph_dispatch_def deposit_public_def dest: ph_accepted\<close>)

text \<open>
  C28. The unsigned validation refuses nothing the dispatchable would accept: for an unsigned
  extrinsic the whole pipeline accepts with a result exactly when the dispatchable alone does.
\<close>

theorem validation_complete:
  "(ph_apply cfg (Unsigned, call) s = Inr s') = (ph_dispatch cfg Unsigned call s = Inr s')"
  using dispatch_implies_valid [of cfg call s s'] ph_apply_dispatch [of cfg Unsigned call s s']
  by (auto simp: ph_apply_def)

section \<open>The v2 lane's Merkle storage\<close>

text \<open>
  \<open>lane_v2 tr ls s\<close>: the stored index map, current root and window of recent roots are those of
  the leaf sequence \<open>ls\<close>, where \<open>tr\<close> gives the root shown for a sequence that has a leaf; without one
  the current root is 0, the default of the storage. The window holds the
  roots before the last insertion, the oldest first, at most 64 of them; the root of the empty
  tree is never in it.
\<close>

definition index_map :: "h256 list \<Rightarrow> h256 \<rightharpoonup> u32" where
  "index_map ls = map_of (zip ls (map of_nat [0..<length ls]))"

definition recent_window :: "(h256 list \<Rightarrow> h256) \<Rightarrow> h256 list \<Rightarrow> h256 list" where
  "recent_window tr ls = map (\<lambda>k. tr (take k ls)) [max 1 (length ls - 64)..<length ls]"

definition lane_v2 :: "(h256 list \<Rightarrow> h256) \<Rightarrow> h256 list \<Rightarrow> 'ccy ph_state \<Rightarrow> bool" where
  "lane_v2 tr ls s \<longleftrightarrow> distinct ls \<and> LeafIndexV2 s = index_map ls \<and>
     CurrentRootV2 s = (if ls = [] then 0 else tr ls) \<and> RecentRootsV2 s = recent_window tr ls"

lemma index_map_dom [simp]: "dom (index_map ls) = set ls"
  by (simp add: index_map_def)

lemma index_map_None: "index_map ls l = None \<longleftrightarrow> l \<notin> set ls"
  by (metis domIff index_map_dom)

lemma index_map_snoc: "l \<notin> set ls \<Longrightarrow> index_map (ls @ [l]) = (index_map ls)(l \<mapsto> of_nat (length ls))"
proof -
  assume l: "l \<notin> set ls"
  have "index_map (ls @ [l]) = [l \<mapsto> of_nat (length ls)] ++ index_map ls"
    by (simp add: index_map_def map_of_append)
  also have "\<dots> = (index_map ls)(l \<mapsto> of_nat (length ls))"
    using l index_map_None [of ls l] by (intro ext) (auto simp: map_add_def split: option.split)
  finally show ?thesis .
qed

lemma length_recent_window: "length (recent_window tr ls) \<le> 64"
  by (simp add: recent_window_def)

lemma recent_window_snoc:
  assumes "ls \<noteq> []"
  shows "recent_window tr (ls @ [l]) = push_window (recent_window tr ls) (tr ls)"
proof -
  let ?n = "length ls"
  let ?f = "\<lambda>k. tr (take k ls)"
  have n: "1 \<le> ?n" using assms by (cases ls) auto
  have upt: "[max 1 (?n + 1 - 64)..<?n + 1] = [max 1 (?n + 1 - 64)..<?n] @ [?n]"
    using n by simp
  have L: "recent_window tr (ls @ [l]) = map ?f [max 1 (?n + 1 - 64)..<?n] @ [tr ls]"
    unfolding recent_window_def length_append_singleton Suc_eq_plus1 upt map_append by simp
  have "map ?f [max 1 (?n + 1 - 64)..<?n] =
    (if length (recent_window tr ls) = 64 then drop 1 (recent_window tr ls) else recent_window tr ls)"
  proof (cases "?n \<ge> 65")
    case True
    then have "max 1 (?n - 64) = ?n - 64" "max 1 (?n + 1 - 64) = Suc (?n - 64)" by auto
    then show ?thesis using True by (simp add: recent_window_def drop_map)
  next
    case False
    then have "max 1 (?n - 64) = 1" "max 1 (?n + 1 - 64) = 1" by auto
    then show ?thesis using False by (simp add: recent_window_def)
  qed
  then show ?thesis by (simp only: L push_window_eq [OF length_recent_window])
qed

text \<open>Whatever an accepted call does, the v2 storage is kept or extended by one insertion.\<close>

lemma v2_view_updates [simp]:
  "v2_view (s\<lparr>ccy := b\<rparr>) = v2_view s" "v2_view (s\<lparr>NullifierUsed := n\<rparr>) = v2_view s"
  "v2_view (s\<lparr>OwnershipCommitments := o'\<rparr>) = v2_view s" "v2_view (s\<lparr>RwaPrices := p\<rparr>) = v2_view s"
  "v2_view (s\<lparr>AccessKeyConfigs := a\<rparr>) = v2_view s"
  by (simp_all add: v2_view_def)

lemma v2_view_after_insert [simp]:
  "v2_view (after_insert l ns c rt (s\<lparr>ccy := b\<rparr>)) = v2_view (after_insert l ns c rt s)"
  "v2_view (after_insert l ns c rt (s\<lparr>NullifierUsed := n\<rparr>)) = v2_view (after_insert l ns c rt s)"
  by (simp_all add: v2_view_def after_insert_def)

lemma dispatch_tree_effect:
  assumes "ph_dispatch cfg orig call s = Inr s'"
  shows "v2_view s' = v2_view s \<or> (\<exists>l ns c rt. LeafIndexV2 s l = None \<and>
    pv_v2_insert_leaf (ProofVerifier cfg) (FrontierNodesV2 s) (LeafCountV2 s) l = Some (ns, c, rt) \<and>
    v2_view s' = v2_view (after_insert l ns c rt s))"
proof (cases call)
  case (call_deposit_v2 l a p h)
  then show ?thesis using assms by (auto simp: ph_dispatch_def dest!: deposit_v2_accepted)
next
  case (call_purchase_rwa_v2 a i p)
  then show ?thesis using assms by (auto simp: ph_dispatch_def dest!: purchase_rwa_v2_accepted)
next
  case (call_purchase_access_v2 a i p)
  then show ?thesis using assms by (auto simp: ph_dispatch_def dest!: purchase_access_v2_accepted)
next
  case (call_withdraw_v2 a i p)
  have "v2_view (s\<lparr>NullifierUsed := n, ccy := b\<rparr>) = v2_view s" for n b by (simp add: v2_view_def)
  with call_withdraw_v2 show ?thesis using assms by (auto simp: ph_dispatch_def dest!: withdraw_v2_accepted)
qed (use assms in \<open>auto simp: ph_dispatch_def dest!: ph_accepted\<close>)

context append_tree
begin

text \<open>One insertion, for any tree behind the interface.\<close>

lemma after_insert_lane:
  assumes lane: "lane_v2 tree_root ls s" and rep: "rep ls (FrontierNodesV2 s) (LeafCountV2 s)"
    and fresh: "LeafIndexV2 s l = None"
    and ins: "ins (FrontierNodesV2 s) (LeafCountV2 s) l = Some (ns, c, rt)"
  shows "lane_v2 tree_root (ls @ [l]) (after_insert l ns c rt s) \<and>
    rep (ls @ [l]) (FrontierNodesV2 (after_insert l ns c rt s)) (LeafCountV2 (after_insert l ns c rt s))"
proof -
  have r: "rt = tree_root (ls @ [l])" and rep': "rep (ls @ [l]) ns c"
    using ins_SomeD [OF rep ins] by auto
  have l: "l \<notin> set ls" using lane fresh index_map_None by (simp add: lane_v2_def)
  have cnt: "LeafCountV2 s = of_nat (length ls)"
    using rep_count [OF rep] by (simp flip: rep_count [OF rep])
  have "unat (LeafCountV2 s) = length ls" using rep_count [OF rep] .
  then have pos: "LeafCountV2 s > 0 \<longleftrightarrow> ls \<noteq> []"
    by (metis length_0_conv unat_0 unat_eq_zero word_gt_0)
  have win: "(if LeafCountV2 s > 0 then push_window (RecentRootsV2 s) (CurrentRootV2 s) else RecentRootsV2 s)
      = recent_window tree_root (ls @ [l])"
  proof (cases "ls = []")
    case True
    then show ?thesis using lane pos by (simp add: lane_v2_def recent_window_def)
  next
    case False
    then show ?thesis using lane pos recent_window_snoc by (simp add: lane_v2_def)
  qed
  show ?thesis
    using lane l r rep' cnt win index_map_snoc [OF l]
    by (simp add: lane_v2_def after_insert_def)
qed

lemma lane_of_view: "v2_view s' = v2_view s \<Longrightarrow> lane_v2 tree_root ls s' = lane_v2 tree_root ls s"
  by (simp add: lane_v2_def v2_view_def)

definition tree_inv :: "'ccy ph_state \<Rightarrow> h256 list \<Rightarrow> bool" where
  "tree_inv s ls \<longleftrightarrow> lane_v2 tree_root ls s \<and> rep ls (FrontierNodesV2 s) (LeafCountV2 s)"

lemma tree_inv_view: "v2_view s' = v2_view s \<Longrightarrow> tree_inv s' ls = tree_inv s ls"
  by (simp add: tree_inv_def lane_v2_def v2_view_def)

lemma tree_inv_insert:
  "tree_inv s ls \<Longrightarrow> LeafIndexV2 s l = None \<Longrightarrow>
   ins (FrontierNodesV2 s) (LeafCountV2 s) l = Some (ns, c, rt) \<Longrightarrow>
   tree_inv (after_insert l ns c rt s) (ls @ [l])"
  unfolding tree_inv_def by (rule after_insert_lane) auto

lemma tree_inv_genesis: "tree_inv (ph_genesis b) []"
  using rep_empty
  by (simp add: tree_inv_def lane_v2_def ph_genesis_def index_map_def recent_window_def MERKLE_DEPTH_def)

lemma tree_inv_dispatch:
  assumes cfg: "pv_v2_insert_leaf (ProofVerifier cfg) = ins"
    and acc: "ph_dispatch cfg orig call s = Inr s'" and inv: "tree_inv s ls"
  shows "\<exists>ls'. tree_inv s' (ls @ ls')"
  using dispatch_tree_effect [OF acc]
proof (elim disjE exE conjE)
  assume "v2_view s' = v2_view s"
  then show ?thesis using inv tree_inv_view [of s' s ls] by (metis append_Nil2)
next
  fix l ns c rt
  assume "LeafIndexV2 s l = None"
    and "pv_v2_insert_leaf (ProofVerifier cfg) (FrontierNodesV2 s) (LeafCountV2 s) l = Some (ns, c, rt)"
    and v: "v2_view s' = v2_view (after_insert l ns c rt s)"
  then have "tree_inv (after_insert l ns c rt s) (ls @ [l])"
    using inv cfg by (intro tree_inv_insert) auto
  then show ?thesis using tree_inv_view [OF v] by blast
qed

lemma tree_inv_run:
  assumes "pv_v2_insert_leaf (ProofVerifier cfg) = ins" and "tree_inv s ls"
  shows "\<exists>ls'. tree_inv (run (ph_apply cfg) cs s) (ls @ ls')"
  using assms(2)
proof (induction cs arbitrary: s ls)
  case Nil
  then show ?case by (auto intro: exI [of _ "[]"])
next
  case (Cons c cs)
  show ?case
  proof (cases "ph_apply cfg c s")
    case (Inl e)
    then show ?thesis using Cons by simp
  next
    case (Inr s')
    then have "ph_dispatch cfg (fst c) (snd c) s = Inr s'"
      using ph_apply_dispatch [of cfg "fst c" "snd c"] by simp
    then obtain ls' where "tree_inv s' (ls @ ls')"
      using tree_inv_dispatch [OF assms(1)] Cons.prems by blast
    then show ?thesis using Cons.IH [of s' "ls @ ls'"] Inr by auto
  qed
qed

lemma tree_inv_from_genesis:
  assumes "pv_v2_insert_leaf (ProofVerifier cfg) = ins"
  shows "\<exists>ls. tree_inv (run (ph_apply cfg) cs (ph_genesis b)) ls"
  using tree_inv_run [OF assms tree_inv_genesis] by auto

end

text \<open>The pallet configured with the frontier of the verifier crate over the node hash \<open>h2\<close>.\<close>

definition with_frontier :: "(h256 \<Rightarrow> h256 \<Rightarrow> h256) \<Rightarrow> ('acct, 'ccy) ph_config \<Rightarrow> ('acct, 'ccy) ph_config" where
  "with_frontier h2 cfg =
     cfg\<lparr>ProofVerifier := (ProofVerifier cfg)\<lparr>pv_v2_insert_leaf := v2_insert_leaf h2\<rparr>\<rparr>"

text \<open>
  C5. The v2 Merkle storage is that of one leaf sequence: in every state reached from genesis there
  is a sequence of distinct leaves, at most \<open>2 ^ 20\<close>, for which the frontier, the leaf count, the
  index map, the current root and the window of recent roots are the ones of the append-only
  tree. Before the first insertion the current root is 0, the default of the storage, and not the
  root of the empty tree; from the first leaf on it is \<open>reference_root\<close> of the leaves until the tree is
  full, and then, with all \<open>2 ^ 20\<close> leaves, \<open>reference_root\<close> of the empty sequence.
\<close>

theorem v2_storage_consistent:
  "\<exists>ls. lane_v2 (shown_root h2) ls (run (ph_apply (with_frontier h2 cfg)) cs (ph_genesis b)) \<and>
    stored_rep h2 ls (FrontierNodesV2 (run (ph_apply (with_frontier h2 cfg)) cs (ph_genesis b)))
      (LeafCountV2 (run (ph_apply (with_frontier h2 cfg)) cs (ph_genesis b)))"
  using v2.tree_inv_from_genesis [of "with_frontier h2 cfg" h2 cs b]
  by (simp add: v2.tree_inv_def with_frontier_def)

text \<open>
  What a spend may anchor to: in every state reached from genesis, the roots
  \<open>v2_root_anchored\<close> accepts are exactly the roots shown after each of the last 65 insertions (the
  zero root while the tree is empty), so a proof stays usable for 64 further insertions.
\<close>

theorem v2_anchor_window:
  "\<exists>ls. set ls = dom (LeafIndexV2 (run (ph_apply (with_frontier h2 cfg)) cs (ph_genesis b))) \<and> distinct ls \<and>
    (\<forall>rt. v2_root_anchored (run (ph_apply (with_frontier h2 cfg)) cs (ph_genesis b)) rt =
      (if ls = [] then rt = 0
       else rt \<in> (\<lambda>k. shown_root h2 (take k ls)) ` {max 1 (length ls - 64)..length ls}))"
proof -
  let ?s = "run (ph_apply (with_frontier h2 cfg)) cs (ph_genesis b)"
  obtain ls where ls: "lane_v2 (shown_root h2) ls ?s"
    using v2.tree_inv_from_genesis [of "with_frontier h2 cfg" h2 cs b]
    by (auto simp: v2.tree_inv_def with_frontier_def)
  have "v2_root_anchored ?s rt = (if ls = [] then rt = 0
       else rt \<in> (\<lambda>k. shown_root h2 (take k ls)) ` {max 1 (length ls - 64)..length ls})" for rt
  proof (cases "ls = []")
    case True
    then show ?thesis using ls by (simp add: v2_root_anchored_def lane_v2_def recent_window_def)
  next
    case False
    then have n: "1 \<le> length ls" by (cases ls) auto
    then have iv: "{max 1 (length ls - 64)..length ls} = insert (length ls) {max 1 (length ls - 64)..<length ls}"
      by auto
    show ?thesis
      using ls False unfolding v2_root_anchored_def lane_v2_def recent_window_def iv
      by (auto simp del: upt_Suc)
  qed
  then show ?thesis using ls by (intro exI [of _ ls]) (auto simp: lane_v2_def)
qed

end
