(* ===== verification/ScanProof.thy ===== *)
theory ScanProof
  imports MerkleV1
begin

text \<open>
  The proofs pallet of the ScanProof parachain, \<open>scanproof/pallets/proofs/src/lib.rs\<close>: its public
  inputs, storage, events, errors and helpers. The dispatchables are in theory ScanProofCalls.
  Names of the source that theory ProofHub also uses carry the prefix \<open>sc_\<close>.
\<close>

section \<open>Public inputs\<close>

record sc_public_inputs =
  merkle_root :: h256
  new_merkle_root :: h256
  input_commitments :: "h256 list"
  input_indices :: "u32 list"
  input_paths :: "h256 list list"
  nullifiers :: "h256 list"
  new_commitments :: "h256 list"
  ppi_tx_id :: h128

record coin_spend_public =
  cs_group_id :: u32
  cs_serial :: h256
  cs_rwa_id :: h256
  cs_tx_id :: h128
  cs_ownership_commitment :: h256
  cs_change :: h256
  cs_change_coin :: h256

record coin_withdraw_public =
  cw_group_id :: u32
  cw_serial :: h256
  cw_amount :: u64
  cw_destination :: h256
  cw_tx_id :: h128

definition encode_sc_public_inputs :: "codec \<Rightarrow> sc_public_inputs \<Rightarrow> bytes" where
  "encode_sc_public_inputs C i =
     enc (f_h256 C) (merkle_root i) @ enc (f_h256 C) (new_merkle_root i) @
     enc (f_h256s C) (input_commitments i) @ enc (f_u32s C) (input_indices i) @
     enc (f_h256ss C) (input_paths i) @ enc (f_h256s C) (nullifiers i) @
     enc (f_h256s C) (new_commitments i) @ enc (f_h128 C) (ppi_tx_id i)"

definition decode_sc_public_inputs :: "codec \<Rightarrow> bytes \<Rightarrow> sc_public_inputs option" where
  "decode_sc_public_inputs C bs =
     dec_then (f_h256 C) bs (\<lambda>mr bs. dec_then (f_h256 C) bs (\<lambda>nmr bs.
     dec_then (f_h256s C) bs (\<lambda>ics bs. dec_then (f_u32s C) bs (\<lambda>iis bs.
     dec_then (f_h256ss C) bs (\<lambda>ips bs. dec_then (f_h256s C) bs (\<lambda>nfs bs.
     dec_then (f_h256s C) bs (\<lambda>ncs bs. dec_then (f_h128 C) bs (\<lambda>tx bs.
       Some \<lparr>merkle_root = mr, new_merkle_root = nmr, input_commitments = ics, input_indices = iis,
         input_paths = ips, nullifiers = nfs, new_commitments = ncs, ppi_tx_id = tx\<rparr>))))))))"

definition encode_coin_spend_public :: "codec \<Rightarrow> coin_spend_public \<Rightarrow> bytes" where
  "encode_coin_spend_public C i =
     enc (f_u32 C) (cs_group_id i) @ enc (f_h256 C) (cs_serial i) @ enc (f_h256 C) (cs_rwa_id i) @
     enc (f_h128 C) (cs_tx_id i) @ enc (f_h256 C) (cs_ownership_commitment i) @
     enc (f_h256 C) (cs_change i) @ enc (f_h256 C) (cs_change_coin i)"

definition decode_coin_spend_public :: "codec \<Rightarrow> bytes \<Rightarrow> coin_spend_public option" where
  "decode_coin_spend_public C bs =
     dec_then (f_u32 C) bs (\<lambda>g bs. dec_then (f_h256 C) bs (\<lambda>serial bs.
     dec_then (f_h256 C) bs (\<lambda>rwa bs. dec_then (f_h128 C) bs (\<lambda>tx bs.
     dec_then (f_h256 C) bs (\<lambda>oc bs. dec_then (f_h256 C) bs (\<lambda>change bs.
     dec_then (f_h256 C) bs (\<lambda>coin bs.
       Some \<lparr>cs_group_id = g, cs_serial = serial, cs_rwa_id = rwa, cs_tx_id = tx,
         cs_ownership_commitment = oc, cs_change = change, cs_change_coin = coin\<rparr>)))))))"

definition encode_coin_withdraw_public :: "codec \<Rightarrow> coin_withdraw_public \<Rightarrow> bytes" where
  "encode_coin_withdraw_public C i =
     enc (f_u32 C) (cw_group_id i) @ enc (f_h256 C) (cw_serial i) @ enc (f_u64 C) (cw_amount i) @
     enc (f_h256 C) (cw_destination i) @ enc (f_h128 C) (cw_tx_id i)"

definition decode_coin_withdraw_public :: "codec \<Rightarrow> bytes \<Rightarrow> coin_withdraw_public option" where
  "decode_coin_withdraw_public C bs =
     dec_then (f_u32 C) bs (\<lambda>g bs. dec_then (f_h256 C) bs (\<lambda>serial bs.
     dec_then (f_u64 C) bs (\<lambda>amount bs. dec_then (f_h256 C) bs (\<lambda>dest bs.
     dec_then (f_h128 C) bs (\<lambda>tx bs.
       Some \<lparr>cw_group_id = g, cw_serial = serial, cw_amount = amount, cw_destination = dest,
         cw_tx_id = tx\<rparr>)))))"

lemma decode_sc_public_inputs_enc:
  assumes "codec_laws C"
  shows "decode_sc_public_inputs C (encode_sc_public_inputs C i @ r) = Some i"
  using assms by (simp add: decode_sc_public_inputs_def encode_sc_public_inputs_def)

lemma decode_coin_spend_public_enc:
  assumes "codec_laws C"
  shows "decode_coin_spend_public C (encode_coin_spend_public C j @ r) = Some j"
  using assms by (simp add: decode_coin_spend_public_def encode_coin_spend_public_def)

lemma decode_coin_withdraw_public_enc:
  assumes "codec_laws C"
  shows "decode_coin_withdraw_public C (encode_coin_withdraw_public C k @ r) = Some k"
  using assms by (simp add: decode_coin_withdraw_public_def encode_coin_withdraw_public_def)

section \<open>Configuration\<close>

text \<open>The trait \<open>ProofVerify\<close> of this pallet.\<close>

record sc_verify =
  sv_verify :: "bytes \<Rightarrow> bytes \<Rightarrow> bool"
  sv_verify_commitment :: "u64 \<Rightarrow> h256 \<Rightarrow> h256 \<Rightarrow> bool"
  sv_verify_opening_knowledge :: "u64 \<Rightarrow> h256 \<Rightarrow> bytes \<Rightarrow> bytes \<Rightarrow> bool"
  sv_verify_range_proof :: "bytes \<Rightarrow> h256 list \<Rightarrow> bytes \<Rightarrow> nat \<Rightarrow> bool"
  sv_pedersen_subtract :: "h256 \<Rightarrow> h256 \<Rightarrow> h256 option"
  sv_verify_one_of_many :: "bytes \<Rightarrow> h256 list \<Rightarrow> h256 \<Rightarrow> u64 \<Rightarrow> h256 \<Rightarrow> bytes \<Rightarrow> bool"
  sv_verify_deposit_open :: "h256 \<Rightarrow> u64 \<Rightarrow> bytes \<Rightarrow> bytes \<Rightarrow> bool"
  sv_verify_g1_pok :: "h256 \<Rightarrow> h256 \<Rightarrow> bytes \<Rightarrow> bytes \<Rightarrow> bool"
  sv_pad_group :: "h256 list \<Rightarrow> u32 \<Rightarrow> h256 list"

datatype sc_msg =
    ScRwaSend h256 h256 h256 u64 h128 h256
  | ScAccessSend h256 h256 h128 h256

record sc_app_config =
  sac_price :: u64
  sac_payment_account :: h256

record ('acct, 'ccy) sc_config =
  sc_codec :: codec
  sc_verifier :: sc_verify
  sc_transfer :: "'acct \<Rightarrow> 'acct \<Rightarrow> u128 \<Rightarrow> existence_requirement \<Rightarrow> 'ccy \<Rightarrow> nat + 'ccy"
  sc_pool :: 'acct
  sc_decode_account :: "bytes \<Rightarrow> 'acct option"
  sc_encode_account :: "'acct \<Rightarrow> bytes"
  sc_blake2_256 :: "bytes \<Rightarrow> h256"
  MaxProofSize :: u32
  MaxRangeProofSize :: u32
  MaxOutputs :: u32

section \<open>Storage, events, errors\<close>

datatype sc_event =
    ProofAccepted h128 h256 "h256 list" bytes
  | ProofRejected
  | DepositAccepted h256 h256 bytes
  | RwaPurchaseAuthorized h256 h128
  | RwaPriceSet h256 u64
  | AccessPurchaseAuthorized h256 h128
  | AccessConfigSet h256 u64
  | WithdrawCompleted h256 bytes u64
  | CoinDeposited h256 u32 u32
  | CoinPurchaseAuthorized h256 h128 u32 h256
  | CoinWithdrawCompleted h128 u64

datatype sc_error =
    ProofVerificationFailed | NullifierAlreadyUsed | ProofTooLarge | RangeProofTooLarge | TreeFull
  | RwaPriceNotSet | NoteValueMismatch | OpeningProofInvalid | CommitmentNotFound | SerialAlreadyUsed
  | GroupNotFound | DuplicateCoin | OneOfManyInvalid | ChangeMismatch | AccessAppNotConfigured

record 'ccy sc_state =
  NullifierUsed :: "h256 \<Rightarrow> bool"
  MerkleRoot :: h256
  CurrentRoot :: h256
  RecentRoots :: "h256 list"
  Leaves :: "h256 list"
  RootLeafCount :: "h256 \<Rightarrow> u32"
  CommitmentIndex :: "h256 \<rightharpoonup> u32"
  RwaPrices :: "h256 \<Rightarrow> u64"
  AccessKeyConfigs :: "h256 \<rightharpoonup> sc_app_config"
  CoinGroups :: "u32 \<rightharpoonup> h256 list"
  CurrentGroup :: u32
  SerialUsed :: "h256 \<Rightarrow> bool"
  CoinLocation :: "h256 \<rightharpoonup> u32 \<times> u32"
  sc_ccy :: 'ccy
  sc_events :: "sc_event list"
  sc_sent :: "sc_msg list"

definition sc_genesis :: "'ccy \<Rightarrow> 'ccy sc_state" where
  "sc_genesis b = \<lparr>NullifierUsed = (\<lambda>_. False), MerkleRoot = 0, CurrentRoot = 0, RecentRoots = [],
     Leaves = [], RootLeafCount = (\<lambda>_. 0)(0 := 0), CommitmentIndex = Map.empty, RwaPrices = (\<lambda>_. 0),
     AccessKeyConfigs = Map.empty, CoinGroups = Map.empty, CurrentGroup = 0,
     SerialUsed = (\<lambda>_. False), CoinLocation = Map.empty, sc_ccy = b, sc_events = [], sc_sent = []\<rparr>"

definition sc_deposit_event :: "sc_event \<Rightarrow> 'ccy sc_state \<Rightarrow> 'ccy sc_state" where
  "sc_deposit_event e s = s\<lparr>sc_events := sc_events s @ [e]\<rparr>"

definition sc_dispatch_send :: "sc_msg \<Rightarrow> 'ccy sc_state \<Rightarrow> 'ccy sc_state" where
  "sc_dispatch_send m s = s\<lparr>sc_sent := sc_sent s @ [m]\<rparr>"

section \<open>Helpers\<close>

definition sc_hash2 :: "('acct, 'ccy) sc_config \<Rightarrow> h256 \<Rightarrow> h256 \<Rightarrow> h256" where
  "sc_hash2 cfg left right = sc_blake2_256 cfg (le_bytes 32 left @ le_bytes 32 right)"

definition sc_leaf_hash :: "('acct, 'ccy) sc_config \<Rightarrow> h256 \<Rightarrow> h256" where
  "sc_leaf_hash cfg commitment = sc_blake2_256 cfg (le_bytes 32 commitment @ replicate 32 0)"

definition sc_compute_merkle_root :: "('acct, 'ccy) sc_config \<Rightarrow> h256 list \<Rightarrow> h256" where
  "sc_compute_merkle_root cfg leaves = compute_merkle_root (sc_hash2 cfg) leaves"

text \<open>\<open>T::Currency::transfer(..)?\<close> and what follows it.\<close>

definition sc_currency_transfer ::
  "('acct, 'ccy) sc_config \<Rightarrow> 'acct \<Rightarrow> 'acct \<Rightarrow> u64 \<Rightarrow> existence_requirement \<Rightarrow> 'ccy sc_state \<Rightarrow>
     sc_error dispatch_error + 'ccy sc_state" where
  "sc_currency_transfer cfg src dst amount ex s =
     (case sc_transfer cfg src dst (ucast amount) ex (sc_ccy s) of
        Inl e \<Rightarrow> Inl (External e)
      | Inr b \<Rightarrow> Inr (s\<lparr>sc_ccy := b\<rparr>))"

text \<open>Pushing one leaf and registering its commitment.\<close>

definition push_leaf ::
  "('acct, 'ccy) sc_config \<Rightarrow> h256 \<Rightarrow> h256 list \<times> (h256 \<rightharpoonup> u32) \<Rightarrow> h256 list \<times> (h256 \<rightharpoonup> u32)" where
  "push_leaf cfg c x = (case x of (leaves, index) \<Rightarrow>
     (leaves @ [sc_leaf_hash cfg c], index(c \<mapsto> of_nat (length leaves))))"

text \<open>
  The end of every insertion: the new leaves and their root become current, the previous root
  enters the window of recent roots.
\<close>

definition sc_put_leaves :: "h256 list \<Rightarrow> h256 \<Rightarrow> 'ccy sc_state \<Rightarrow> 'ccy sc_state" where
  "sc_put_leaves leaves computed_root s =
     (let prev = CurrentRoot s
      in s\<lparr>Leaves := leaves, CurrentRoot := computed_root, MerkleRoot := computed_root,
           RootLeafCount := (RootLeafCount s)(computed_root := of_nat (length leaves)),
           RecentRoots := push_window (RecentRoots s) prev\<rparr>)"

definition sc_insert_commitment ::
  "('acct, 'ccy) sc_config \<Rightarrow> h256 \<Rightarrow> 'ccy sc_state \<Rightarrow> sc_error dispatch_error + 'ccy sc_state" where
  "sc_insert_commitment cfg c s =
     ensure (length (Leaves s) < 1048576) (Module TreeFull)
     (let (leaves, index) = push_leaf cfg c (Leaves s, CommitmentIndex s);
          s = s\<lparr>CommitmentIndex := index\<rparr>
      in Inr (sc_put_leaves leaves (sc_compute_merkle_root cfg leaves) s))"

text \<open>The proof binding of the v1 purchases: 80 bytes, 112 with a change commitment.\<close>

definition purchase_binding :: "h256 \<Rightarrow> h256 \<Rightarrow> h128 \<Rightarrow> h256 option \<Rightarrow> bytes" where
  "purchase_binding nullifier rwa_id tx_id change =
     le_bytes 32 nullifier @ le_bytes 32 rwa_id @ le_bytes 16 tx_id @
     (case change of Some cc \<Rightarrow> le_bytes 32 cc | None \<Rightarrow> [])"

definition withdraw_binding :: "h256 \<Rightarrow> h256 \<Rightarrow> bytes" where
  "withdraw_binding nullifier commitment = le_bytes 32 nullifier @ le_bytes 32 commitment"

text \<open>Adding a coin to the current group, or to the next one when it is full.\<close>

definition group_get :: "'ccy sc_state \<Rightarrow> u32 \<Rightarrow> h256 list" where
  "group_get s gid = (case CoinGroups s gid of None \<Rightarrow> [] | Some g \<Rightarrow> g)"

definition add_coin :: "h256 \<Rightarrow> 'ccy sc_state \<Rightarrow> sc_error dispatch_error + 'ccy sc_state" where
  "add_coin coin s =
     (let gid = CurrentGroup s; group = group_get s gid;
          (gid, group, s) =
            (if length group \<ge> 1024
             then (let gid = gid + 1; s = s\<lparr>CurrentGroup := gid\<rparr> in (gid, group_get s gid, s))
             else (gid, group, s));
          idx = of_nat (length group)
      in ensure (length group < 1024) (Module TreeFull)
        (let s = s\<lparr>CoinGroups := (CoinGroups s)(gid \<mapsto> group @ [coin])\<rparr>;
             s = s\<lparr>CoinLocation := (CoinLocation s)(coin \<mapsto> (gid, idx))\<rparr>
         in Inr (sc_deposit_event (CoinDeposited coin gid idx) s)))"

text \<open>
  The wire format of \<open>deposit_public\<close>'s range proof, \<open>[1][len: u32 LE][len bytes][amount: u64 LE]\<close>.
  The runtime runs as 32-bit wasm, where \<open>usize\<close> is \<open>u32\<close>: the length check \<open>5 + len + 8\<close> wraps, and
  the slice that follows then traps.
\<close>

datatype wire = WireError | WireTrap | Wire bytes u64

definition parse_deposit_wire :: "bytes \<Rightarrow> wire" where
  "parse_deposit_wire rp =
     (if \<not> length rp \<ge> 13 then WireError
      else if \<not> rp ! 0 = 1 then WireError
      else
        let proof_len = of_le_bytes (take 4 (drop 1 rp)) :: u32 in
        if \<not> (of_nat (length rp) :: u32) \<ge> 5 + proof_len + 8 then WireError
        else if unat (5 + proof_len) < 5 \<or> length rp < unat (5 + proof_len) then WireTrap
        else Wire (take (unat proof_len) (drop 5 rp))
               (of_le_bytes (take 8 (drop (5 + unat proof_len) rp))))"

end
