(* ===== verification/ScanProofCalls.thy ===== *)
theory ScanProofCalls
  imports ScanProof
begin

text \<open>
  The dispatchables of the ScanProof proofs pallet, its validation of unsigned extrinsics, and
  \<open>sc_apply\<close>, the entry point of an extrinsic.
\<close>

section \<open>Calls\<close>

datatype sc_call =
    sc_call_deposit_public bytes bytes bytes
  | sc_call_submit_proof bytes bytes bytes bytes
  | sc_call_purchase_rwa h256 bytes h256 h256 h128 h256 "h256 option"
  | sc_call_withdraw_private h256 h256 bytes bytes u64
  | sc_call_set_rwa_price h256 u64
  | sc_call_set_access_config h256 u64 h256
  | sc_call_purchase_access h256 bytes h256 h256 h128 h256 "h256 option"
  | sc_call_deposit_coin h256 u64 bytes
  | sc_call_purchase_coin bytes bytes bytes
  | sc_call_withdraw_coin bytes bytes
  | sc_call_purchase_access_coin bytes bytes bytes

section \<open>Validation of unsigned calls\<close>

text \<open>The end of the checks of the two v1 purchases, once the price is known.\<close>

definition validate_opening ::
  "('acct, 'ccy) sc_config \<Rightarrow> h256 \<Rightarrow> bytes \<Rightarrow> h256 \<Rightarrow> h256 \<Rightarrow> h128 \<Rightarrow> h256 option \<Rightarrow> u64 \<Rightarrow> string \<Rightarrow> validity" where
  "validate_opening cfg input_commitment opening_proof nullifier rwa_id tx_id change price pre =
     (if length opening_proof \<noteq> 64 then Inl BadProof
      else
        (case (case change of
                 Some cc \<Rightarrow> sv_pedersen_subtract (sc_verifier cfg) input_commitment cc
               | None \<Rightarrow> Some input_commitment) of
           None \<Rightarrow> Inl BadProof
         | Some effective \<Rightarrow>
             if \<not> sv_verify_opening_knowledge (sc_verifier cfg) price effective opening_proof
                    (purchase_binding nullifier rwa_id tx_id change)
             then Inl BadProof
             else ValidTransaction pre [Tag128 tx_id, Tag256 nullifier, Tag256 input_commitment] 64))"

text \<open>The checks of the two one-of-many purchases and of the withdrawal.\<close>

definition validate_serial :: "h256 \<Rightarrow> u32 \<Rightarrow> h128 \<Rightarrow> string \<Rightarrow> 'ccy sc_state \<Rightarrow> validity" where
  "validate_serial serial group_id tx_id pre s =
     (if SerialUsed s serial then Inl Stale
      else if CoinGroups s group_id = None then Inl BadMandatory
      else ValidTransaction pre [Tag128 tx_id, Tag256 serial] 64)"

definition validate_submit_proof ::
  "('acct, 'ccy) sc_config \<Rightarrow> bytes \<Rightarrow> bytes \<Rightarrow> bytes \<Rightarrow> 'ccy sc_state \<Rightarrow> validity" where
  "validate_submit_proof cfg proof range_proof public_inputs s =
     (if length proof > unat (MaxProofSize cfg) then Inl ExhaustsResources
      else if length range_proof > unat (MaxRangeProofSize cfg) then Inl ExhaustsResources
      else
        (case decode_sc_public_inputs (sc_codec cfg) public_inputs of
           None \<Rightarrow> Inl Call
         | Some inputs \<Rightarrow>
             if merkle_root inputs \<noteq> CurrentRoot s \<and> merkle_root inputs \<notin> set (RecentRoots s) then Inl Stale
             else if length (nullifiers inputs) \<noteq> length (input_commitments inputs) then Inl BadMandatory
             else if length (input_indices inputs) \<noteq> length (input_commitments inputs) then Inl BadMandatory
             else if \<not> distinct (nullifiers inputs) then Inl BadMandatory
             else if list_ex (NullifierUsed s) (nullifiers inputs) then Inl Stale
             else ValidTransaction ''ProofSubmission'' [Tag128 (ppi_tx_id inputs), TagList (nullifiers inputs)] 64))"

text \<open>The arms of the coin calls and of the access purchase.\<close>

definition validate_purchase_coin :: "('acct, 'ccy) sc_config \<Rightarrow> bytes \<Rightarrow> 'ccy sc_state \<Rightarrow> validity" where
  "validate_purchase_coin cfg public_inputs s =
     (case decode_coin_spend_public (sc_codec cfg) public_inputs of
        None \<Rightarrow> Inl Call
      | Some inputs \<Rightarrow> validate_serial (cs_serial inputs) (cs_group_id inputs) (cs_tx_id inputs) ''ScanCoinPurchase'' s)"

definition validate_withdraw_coin :: "('acct, 'ccy) sc_config \<Rightarrow> bytes \<Rightarrow> 'ccy sc_state \<Rightarrow> validity" where
  "validate_withdraw_coin cfg public_inputs s =
     (case decode_coin_withdraw_public (sc_codec cfg) public_inputs of
        None \<Rightarrow> Inl Call
      | Some inputs \<Rightarrow> validate_serial (cw_serial inputs) (cw_group_id inputs) (cw_tx_id inputs) ''ScanCoinWithdraw'' s)"

definition validate_purchase_access ::
  "('acct, 'ccy) sc_config \<Rightarrow> h256 \<Rightarrow> bytes \<Rightarrow> h256 \<Rightarrow> h256 \<Rightarrow> h128 \<Rightarrow> h256 option \<Rightarrow> 'ccy sc_state \<Rightarrow> validity" where
  "validate_purchase_access cfg input_commitment opening_proof nullifier app_id tx_id change s =
     (if NullifierUsed s nullifier then Inl Stale
      else if CommitmentIndex s input_commitment = None then Inl BadMandatory
      else
        (case AccessKeyConfigs s app_id of
           None \<Rightarrow> Inl Call
         | Some app \<Rightarrow>
             if \<not> sac_price app > 0 then Inl Call
             else validate_opening cfg input_commitment opening_proof nullifier app_id tx_id change
                    (sac_price app) ''ScanAccessPurchase''))"

definition validate_purchase_access_coin :: "('acct, 'ccy) sc_config \<Rightarrow> bytes \<Rightarrow> 'ccy sc_state \<Rightarrow> validity" where
  "validate_purchase_access_coin cfg public_inputs s =
     (case decode_coin_spend_public (sc_codec cfg) public_inputs of
        None \<Rightarrow> Inl Call
      | Some inputs \<Rightarrow> validate_serial (cs_serial inputs) (cs_group_id inputs) (cs_tx_id inputs) ''ScanAccessCoinPurchase'' s)"

definition sc_validate_unsigned :: "('acct, 'ccy) sc_config \<Rightarrow> sc_call \<Rightarrow> 'ccy sc_state \<Rightarrow> validity" where
  "sc_validate_unsigned cfg call s = (case call of
     sc_call_submit_proof proof range_proof public_inputs _ \<Rightarrow>
       validate_submit_proof cfg proof range_proof public_inputs s
   | sc_call_purchase_rwa input_commitment opening_proof nullifier rwa_id tx_id _ change \<Rightarrow>
       (if NullifierUsed s nullifier then Inl Stale
        else if CommitmentIndex s input_commitment = None then Inl BadMandatory
        else if RwaPrices s rwa_id = 0 then Inl Call
        else validate_opening cfg input_commitment opening_proof nullifier rwa_id tx_id change
               (RwaPrices s rwa_id) ''ScanRwaPurchase'')
   | sc_call_withdraw_private commitment nullifier opening_proof _ val \<Rightarrow>
       (if NullifierUsed s nullifier then Inl Stale
        else if CommitmentIndex s commitment = None then Inl BadMandatory
        else if length opening_proof \<noteq> 64 then Inl BadProof
        else if \<not> sv_verify_opening_knowledge (sc_verifier cfg) val commitment opening_proof
                    (withdraw_binding nullifier commitment) then Inl BadProof
        else ValidTransaction ''ScanWithdraw'' [Tag256 nullifier] (2 ^ 64 - 1))
   | sc_call_purchase_coin public_inputs _ _ \<Rightarrow> validate_purchase_coin cfg public_inputs s
   | sc_call_withdraw_coin public_inputs _ \<Rightarrow> validate_withdraw_coin cfg public_inputs s
   | sc_call_purchase_access input_commitment opening_proof nullifier app_id tx_id _ change \<Rightarrow>
       validate_purchase_access cfg input_commitment opening_proof nullifier app_id tx_id change s
   | sc_call_purchase_access_coin public_inputs _ _ \<Rightarrow> validate_purchase_access_coin cfg public_inputs s
   | _ \<Rightarrow> Inl Call)"

lemmas sc_validate_defs = sc_validate_unsigned_def validate_purchase_coin_def validate_withdraw_coin_def
  validate_purchase_access_def validate_purchase_access_coin_def

section \<open>Dispatchables of the v1 lane\<close>

definition sc_deposit_public ::
  "('acct, 'ccy) sc_config \<Rightarrow> 'acct origin \<Rightarrow> bytes \<Rightarrow> bytes \<Rightarrow> bytes \<Rightarrow> 'ccy sc_state \<Rightarrow>
     sc_error dispatch_error + 'ccy sc_state" where
  "sc_deposit_public cfg orig commitment range_proof hints_blob s =
     ok_or (ensure_signed orig) BadOrigin (\<lambda>who.
     ensure (length commitment = 32) (Module ProofVerificationFailed)
     (let c_arr = of_le_bytes commitment in
      (case parse_deposit_wire range_proof of
         WireError \<Rightarrow> Inl (Module ProofVerificationFailed)
       | WireTrap \<Rightarrow> Inl Panic
       | Wire bp_bytes amt_u64 \<Rightarrow>
           ensure (sv_verify_range_proof (sc_verifier cfg) bp_bytes [c_arr] [] 64) (Module ProofVerificationFailed)
          (bind_res (sc_currency_transfer cfg who (sc_pool cfg) amt_u64 KeepAlive s) (\<lambda>s.
           ensure (CommitmentIndex s c_arr = None) (Module ProofVerificationFailed)
          (bind_res (sc_insert_commitment cfg c_arr s) (\<lambda>s.
           Inr (sc_deposit_event (DepositAccepted c_arr (CurrentRoot s) hints_blob) s))))))))"

text \<open>The membership path of an input of \<open>submit_proof\<close>.\<close>

fun path_node :: "('acct, 'ccy) sc_config \<Rightarrow> h256 \<Rightarrow> u32 \<Rightarrow> h256 list \<Rightarrow> h256" where
  "path_node cfg node idx [] = node"
| "path_node cfg node idx (sib # sibs) =
     path_node cfg (if idx AND 1 = 0 then sc_hash2 cfg node sib else sc_hash2 cfg sib node) (drop_bit 1 idx) sibs"

definition input_known ::
  "('acct, 'ccy) sc_config \<Rightarrow> sc_public_inputs \<Rightarrow> 'ccy sc_state \<Rightarrow> nat \<times> h256 \<Rightarrow> bool" where
  "input_known cfg inputs s x = (case x of (i, c) \<Rightarrow>
     if i < length (input_paths inputs) \<and> input_paths inputs ! i \<noteq> [] \<and> i < length (input_indices inputs)
     then path_node cfg (sc_leaf_hash cfg c) (input_indices inputs ! i) (input_paths inputs ! i) = merkle_root inputs
     else (case CommitmentIndex s c of
             None \<Rightarrow> False
           | Some idx \<Rightarrow> idx < RootLeafCount s (merkle_root inputs)))"

definition submit_proof ::
  "('acct, 'ccy) sc_config \<Rightarrow> 'acct origin \<Rightarrow> bytes \<Rightarrow> bytes \<Rightarrow> bytes \<Rightarrow> bytes \<Rightarrow> 'ccy sc_state \<Rightarrow>
     sc_error dispatch_error + 'ccy sc_state" where
  "submit_proof cfg orig proof range_proof public_inputs hints_blob s =
     ensure (ensure_none orig) BadOrigin
     (ensure (length proof \<le> unat (MaxProofSize cfg)) (Module ProofTooLarge)
     (ensure (length range_proof \<le> unat (MaxRangeProofSize cfg)) (Module RangeProofTooLarge)
     (ok_or (decode_sc_public_inputs (sc_codec cfg) public_inputs) (Module ProofVerificationFailed) (\<lambda>inputs.
      ensure (merkle_root inputs = CurrentRoot s \<or> merkle_root inputs \<in> set (RecentRoots s))
        (Module ProofVerificationFailed)
     (ensure ((of_nat (length (new_commitments inputs)) :: u32) \<le> MaxOutputs cfg) (Module ProofVerificationFailed)
     (ensure (sv_verify_range_proof (sc_verifier cfg) range_proof (new_commitments inputs) public_inputs 64)
        (Module ProofVerificationFailed)
     (ensure (sv_verify (sc_verifier cfg) proof public_inputs) (Module ProofVerificationFailed)
     (ensure (list_all (input_known cfg inputs s) (enumerate 0 (input_commitments inputs)))
        (Module ProofVerificationFailed)
     (ensure (list_all (\<lambda>n. \<not> NullifierUsed s n) (nullifiers inputs)) (Module NullifierAlreadyUsed)
     (let s = s\<lparr>NullifierUsed := fold (\<lambda>n used. used(n := True)) (nullifiers inputs) (NullifierUsed s)\<rparr> in
      ensure (distinct (new_commitments inputs) \<and>
          list_all (\<lambda>c. CommitmentIndex s c = None) (new_commitments inputs)) (Module ProofVerificationFailed)
     (ensure (length (new_commitments inputs) \<le> 1048576 - length (Leaves s)) (Module TreeFull)
     (let (leaves, index) = fold (push_leaf cfg) (new_commitments inputs) (Leaves s, CommitmentIndex s);
          s = s\<lparr>CommitmentIndex := index\<rparr>;
          computed_root = sc_compute_merkle_root cfg leaves
      in
      ensure (new_merkle_root inputs \<noteq> 0 \<longrightarrow> new_merkle_root inputs = computed_root)
        (Module ProofVerificationFailed)
     (let s = sc_put_leaves leaves computed_root s
      in Inr (sc_deposit_event (ProofAccepted (ppi_tx_id inputs) computed_root (new_commitments inputs)
           hints_blob) s))))))))))))))"

text \<open>The commitment the proof of a v1 purchase is about: the input, less the change.\<close>

definition effective_commitment ::
  "('acct, 'ccy) sc_config \<Rightarrow> h256 \<Rightarrow> h256 option \<Rightarrow> 'ccy sc_state \<Rightarrow> sc_error dispatch_error + h256" where
  "effective_commitment cfg input_commitment change s =
     (case change of
        Some cc \<Rightarrow>
          ensure (CommitmentIndex s cc = None) (Module ProofVerificationFailed)
         (ok_or (sv_pedersen_subtract (sc_verifier cfg) input_commitment cc) (Module ProofVerificationFailed) Inr)
      | None \<Rightarrow> Inr input_commitment)"

definition sc_insert_change ::
  "('acct, 'ccy) sc_config \<Rightarrow> h256 option \<Rightarrow> 'ccy sc_state \<Rightarrow> sc_error dispatch_error + 'ccy sc_state" where
  "sc_insert_change cfg change s =
     (case change of Some cc \<Rightarrow> sc_insert_commitment cfg cc s | None \<Rightarrow> Inr s)"

definition sc_purchase_rwa ::
  "('acct, 'ccy) sc_config \<Rightarrow> 'acct origin \<Rightarrow> h256 \<Rightarrow> bytes \<Rightarrow> h256 \<Rightarrow> h256 \<Rightarrow> h128 \<Rightarrow> h256 \<Rightarrow> h256 option \<Rightarrow>
     'ccy sc_state \<Rightarrow> sc_error dispatch_error + 'ccy sc_state" where
  "sc_purchase_rwa cfg orig input_commitment opening_proof nullifier rwa_id tx_id ownership_commitment change s =
     ensure (ensure_none orig) BadOrigin
     (ensure (\<not> NullifierUsed s nullifier) (Module NullifierAlreadyUsed)
     (ensure (CommitmentIndex s input_commitment \<noteq> None) (Module CommitmentNotFound)
     (let price = RwaPrices s rwa_id in
      ensure (price > 0) (Module RwaPriceNotSet)
     (bind_res (effective_commitment cfg input_commitment change s) (\<lambda>effective.
      ensure (length opening_proof = 64) (Module OpeningProofInvalid)
     (ensure (sv_verify_opening_knowledge (sc_verifier cfg) price effective opening_proof
          (purchase_binding nullifier rwa_id tx_id change)) (Module OpeningProofInvalid)
     (let s = s\<lparr>NullifierUsed := (NullifierUsed s)(nullifier := True)\<rparr> in
      bind_res (sc_insert_change cfg change s) (\<lambda>s.
      let s = sc_deposit_event (RwaPurchaseAuthorized rwa_id tx_id) s
      in Inr (sc_dispatch_send (ScRwaSend rwa_id nullifier 0 price tx_id ownership_commitment) s)))))))))"

definition sc_withdraw_private ::
  "('acct, 'ccy) sc_config \<Rightarrow> 'acct origin \<Rightarrow> h256 \<Rightarrow> h256 \<Rightarrow> bytes \<Rightarrow> bytes \<Rightarrow> u64 \<Rightarrow> 'ccy sc_state \<Rightarrow>
     sc_error dispatch_error + 'ccy sc_state" where
  "sc_withdraw_private cfg orig commitment nullifier opening_proof destination val s =
     ensure (ensure_none orig) BadOrigin
     (ensure (CommitmentIndex s commitment \<noteq> None) (Module CommitmentNotFound)
     (ensure (\<not> NullifierUsed s nullifier) (Module NullifierAlreadyUsed)
     (ensure (sv_verify_opening_knowledge (sc_verifier cfg) val commitment opening_proof
          (withdraw_binding nullifier commitment)) (Module OpeningProofInvalid)
     (ensure (length destination = 32) (Module ProofVerificationFailed)
     (ok_or (sc_decode_account cfg destination) (Module ProofVerificationFailed) (\<lambda>dest.
      bind_res (sc_currency_transfer cfg (sc_pool cfg) dest val AllowDeath s) (\<lambda>s.
      let s = s\<lparr>NullifierUsed := (NullifierUsed s)(nullifier := True)\<rparr>
      in Inr (sc_deposit_event (WithdrawCompleted nullifier destination val) s))))))))"

definition sc_set_rwa_price ::
  "'acct origin \<Rightarrow> h256 \<Rightarrow> u64 \<Rightarrow> 'ccy sc_state \<Rightarrow> sc_error dispatch_error + 'ccy sc_state" where
  "sc_set_rwa_price orig rwa_id price s =
     ensure (ensure_root orig) BadOrigin
     (Inr (sc_deposit_event (RwaPriceSet rwa_id price) (s\<lparr>RwaPrices := (RwaPrices s)(rwa_id := price)\<rparr>)))"

definition sc_set_access_config ::
  "'acct origin \<Rightarrow> h256 \<Rightarrow> u64 \<Rightarrow> h256 \<Rightarrow> 'ccy sc_state \<Rightarrow> sc_error dispatch_error + 'ccy sc_state" where
  "sc_set_access_config orig app_id price payment_account s =
     ensure (ensure_root orig) BadOrigin
     (let app = \<lparr>sac_price = price, sac_payment_account = payment_account\<rparr> in
      Inr (sc_deposit_event (AccessConfigSet app_id price)
        (s\<lparr>AccessKeyConfigs := (AccessKeyConfigs s)(app_id \<mapsto> app)\<rparr>)))"

definition sc_purchase_access ::
  "('acct, 'ccy) sc_config \<Rightarrow> 'acct origin \<Rightarrow> h256 \<Rightarrow> bytes \<Rightarrow> h256 \<Rightarrow> h256 \<Rightarrow> h128 \<Rightarrow> h256 \<Rightarrow> h256 option \<Rightarrow>
     'ccy sc_state \<Rightarrow> sc_error dispatch_error + 'ccy sc_state" where
  "sc_purchase_access cfg orig input_commitment opening_proof nullifier app_id tx_id access_key_commitment change s =
     ensure (ensure_none orig) BadOrigin
     (ensure (\<not> NullifierUsed s nullifier) (Module NullifierAlreadyUsed)
     (ensure (CommitmentIndex s input_commitment \<noteq> None) (Module CommitmentNotFound)
     (ok_or (AccessKeyConfigs s app_id) (Module AccessAppNotConfigured) (\<lambda>app.
      ensure (sac_price app > 0) (Module AccessAppNotConfigured)
     (bind_res (effective_commitment cfg input_commitment change s) (\<lambda>effective.
      ensure (length opening_proof = 64) (Module OpeningProofInvalid)
     (ensure (sv_verify_opening_knowledge (sc_verifier cfg) (sac_price app) effective opening_proof
          (purchase_binding nullifier app_id tx_id change)) (Module OpeningProofInvalid)
     (let s = s\<lparr>NullifierUsed := (NullifierUsed s)(nullifier := True)\<rparr> in
      ok_or (sc_decode_account cfg (le_bytes 32 (sac_payment_account app))) (Module ProofVerificationFailed)
      (\<lambda>payment_dest.
      bind_res (sc_currency_transfer cfg (sc_pool cfg) payment_dest (sac_price app) AllowDeath s) (\<lambda>s.
      bind_res (sc_insert_change cfg change s) (\<lambda>s.
      let s = sc_deposit_event (AccessPurchaseAuthorized app_id tx_id) s
      in Inr (sc_dispatch_send (ScAccessSend app_id nullifier tx_id access_key_commitment) s))))))))))))"

section \<open>The coin lane\<close>

definition deposit_coin ::
  "('acct, 'ccy) sc_config \<Rightarrow> 'acct origin \<Rightarrow> h256 \<Rightarrow> u64 \<Rightarrow> bytes \<Rightarrow> 'ccy sc_state \<Rightarrow>
     sc_error dispatch_error + 'ccy sc_state" where
  "deposit_coin cfg orig coin amount open_proof s =
     ok_or (ensure_signed orig) BadOrigin (\<lambda>who.
     ensure (CoinLocation s coin = None) (Module DuplicateCoin)
     (let ctx = sc_encode_account cfg who in
      ensure (sv_verify_deposit_open (sc_verifier cfg) coin amount open_proof ctx) (Module OpeningProofInvalid)
     (bind_res (sc_currency_transfer cfg who (sc_pool cfg) amount KeepAlive s) (\<lambda>s.
      add_coin coin s))))"

text \<open>The change coin of the two one-of-many purchases.\<close>

definition register_change_coin ::
  "('acct, 'ccy) sc_config \<Rightarrow> coin_spend_public \<Rightarrow> bytes \<Rightarrow> bytes \<Rightarrow> 'ccy sc_state \<Rightarrow>
     sc_error dispatch_error + 'ccy sc_state" where
  "register_change_coin cfg inputs g1_pok ctx s =
     (if cs_change inputs \<noteq> 0 then
        ensure (CoinLocation s (cs_change_coin inputs) = None) (Module DuplicateCoin)
       (ensure (sv_verify_g1_pok (sc_verifier cfg) (cs_change_coin inputs) (cs_change inputs) g1_pok ctx)
          (Module OpeningProofInvalid)
       (add_coin (cs_change_coin inputs) s))
      else Inr s)"

definition purchase_coin ::
  "('acct, 'ccy) sc_config \<Rightarrow> 'acct origin \<Rightarrow> bytes \<Rightarrow> bytes \<Rightarrow> bytes \<Rightarrow> 'ccy sc_state \<Rightarrow>
     sc_error dispatch_error + 'ccy sc_state" where
  "purchase_coin cfg orig public_inputs one_of_many_proof g1_pok s =
     ensure (ensure_none orig) BadOrigin
     (ok_or (decode_coin_spend_public (sc_codec cfg) public_inputs) (Module ProofVerificationFailed) (\<lambda>inputs.
      ensure (\<not> SerialUsed s (cs_serial inputs)) (Module SerialAlreadyUsed)
     (ensure (CoinGroups s (cs_group_id inputs) \<noteq> None) (Module GroupNotFound)
     (let price = RwaPrices s (cs_rwa_id inputs) in
      ensure (price > 0) (Module RwaPriceNotSet)
     (ensure ((cs_change inputs \<noteq> 0) = (cs_change_coin inputs \<noteq> 0)) (Module ChangeMismatch)
     (let coins = sv_pad_group (sc_verifier cfg) (group_get s (cs_group_id inputs)) (cs_group_id inputs);
          ctx = le_bytes 32 (sc_blake2_256 cfg public_inputs)
      in
      ensure (sv_verify_one_of_many (sc_verifier cfg) one_of_many_proof coins (cs_serial inputs) price
          (cs_change inputs) ctx) (Module OneOfManyInvalid)
     (bind_res (register_change_coin cfg inputs g1_pok ctx s) (\<lambda>s.
      let s = s\<lparr>SerialUsed := (SerialUsed s)(cs_serial inputs := True)\<rparr>;
          s = sc_deposit_event (CoinPurchaseAuthorized (cs_rwa_id inputs) (cs_tx_id inputs)
                (cs_group_id inputs) (cs_change_coin inputs)) s
      in Inr (sc_dispatch_send (ScRwaSend (cs_rwa_id inputs) (cs_serial inputs) (cs_serial inputs) price
           (cs_tx_id inputs) (cs_ownership_commitment inputs)) s)))))))))"

definition withdraw_coin ::
  "('acct, 'ccy) sc_config \<Rightarrow> 'acct origin \<Rightarrow> bytes \<Rightarrow> bytes \<Rightarrow> 'ccy sc_state \<Rightarrow>
     sc_error dispatch_error + 'ccy sc_state" where
  "withdraw_coin cfg orig public_inputs one_of_many_proof s =
     ensure (ensure_none orig) BadOrigin
     (ok_or (decode_coin_withdraw_public (sc_codec cfg) public_inputs) (Module ProofVerificationFailed) (\<lambda>inputs.
      ensure (\<not> SerialUsed s (cw_serial inputs)) (Module SerialAlreadyUsed)
     (ensure (CoinGroups s (cw_group_id inputs) \<noteq> None) (Module GroupNotFound)
     (let coins = sv_pad_group (sc_verifier cfg) (group_get s (cw_group_id inputs)) (cw_group_id inputs);
          ctx = le_bytes 32 (sc_blake2_256 cfg public_inputs)
      in
      ensure (sv_verify_one_of_many (sc_verifier cfg) one_of_many_proof coins (cw_serial inputs)
          (cw_amount inputs) 0 ctx) (Module OneOfManyInvalid)
     (let s = s\<lparr>SerialUsed := (SerialUsed s)(cw_serial inputs := True)\<rparr> in
      ok_or (sc_decode_account cfg (le_bytes 32 (cw_destination inputs))) (Module ProofVerificationFailed) (\<lambda>dest.
      bind_res (sc_currency_transfer cfg (sc_pool cfg) dest (cw_amount inputs) AllowDeath s) (\<lambda>s.
      Inr (sc_deposit_event (CoinWithdrawCompleted (cw_tx_id inputs) (cw_amount inputs)) s))))))))"

definition purchase_access_coin ::
  "('acct, 'ccy) sc_config \<Rightarrow> 'acct origin \<Rightarrow> bytes \<Rightarrow> bytes \<Rightarrow> bytes \<Rightarrow> 'ccy sc_state \<Rightarrow>
     sc_error dispatch_error + 'ccy sc_state" where
  "purchase_access_coin cfg orig public_inputs one_of_many_proof g1_pok s =
     ensure (ensure_none orig) BadOrigin
     (ok_or (decode_coin_spend_public (sc_codec cfg) public_inputs) (Module ProofVerificationFailed) (\<lambda>inputs.
      ensure (\<not> SerialUsed s (cs_serial inputs)) (Module SerialAlreadyUsed)
     (ensure (CoinGroups s (cs_group_id inputs) \<noteq> None) (Module GroupNotFound)
     (let app_id = cs_rwa_id inputs in
      ok_or (AccessKeyConfigs s app_id) (Module AccessAppNotConfigured) (\<lambda>app.
      ensure (sac_price app > 0) (Module AccessAppNotConfigured)
     (ensure ((cs_change inputs \<noteq> 0) = (cs_change_coin inputs \<noteq> 0)) (Module ChangeMismatch)
     (let coins = sv_pad_group (sc_verifier cfg) (group_get s (cs_group_id inputs)) (cs_group_id inputs);
          ctx = le_bytes 32 (sc_blake2_256 cfg public_inputs)
      in
      ensure (sv_verify_one_of_many (sc_verifier cfg) one_of_many_proof coins (cs_serial inputs)
          (sac_price app) (cs_change inputs) ctx) (Module OneOfManyInvalid)
     (bind_res (register_change_coin cfg inputs g1_pok ctx s) (\<lambda>s.
      let s = s\<lparr>SerialUsed := (SerialUsed s)(cs_serial inputs := True)\<rparr> in
      ok_or (sc_decode_account cfg (le_bytes 32 (sac_payment_account app))) (Module ProofVerificationFailed)
      (\<lambda>payment_dest.
      bind_res (sc_currency_transfer cfg (sc_pool cfg) payment_dest (sac_price app) AllowDeath s) (\<lambda>s.
      let s = sc_deposit_event (AccessPurchaseAuthorized app_id (cs_tx_id inputs)) s
      in Inr (sc_dispatch_send (ScAccessSend app_id (cs_serial inputs) (cs_tx_id inputs)
           (cs_ownership_commitment inputs)) s))))))))))))"

section \<open>Extrinsics\<close>

definition sc_dispatch ::
  "('acct, 'ccy) sc_config \<Rightarrow> 'acct origin \<Rightarrow> sc_call \<Rightarrow> 'ccy sc_state \<Rightarrow>
     sc_error dispatch_error + 'ccy sc_state" where
  "sc_dispatch cfg orig call s = (case call of
     sc_call_deposit_public c r h \<Rightarrow> sc_deposit_public cfg orig c r h s
   | sc_call_submit_proof p r i h \<Rightarrow> submit_proof cfg orig p r i h s
   | sc_call_purchase_rwa c p n r t oc ch \<Rightarrow> sc_purchase_rwa cfg orig c p n r t oc ch s
   | sc_call_withdraw_private c n p d v \<Rightarrow> sc_withdraw_private cfg orig c n p d v s
   | sc_call_set_rwa_price r p \<Rightarrow> sc_set_rwa_price orig r p s
   | sc_call_set_access_config a p acc \<Rightarrow> sc_set_access_config orig a p acc s
   | sc_call_purchase_access c p n a t k ch \<Rightarrow> sc_purchase_access cfg orig c p n a t k ch s
   | sc_call_deposit_coin c a p \<Rightarrow> deposit_coin cfg orig c a p s
   | sc_call_purchase_coin i p g \<Rightarrow> purchase_coin cfg orig i p g s
   | sc_call_withdraw_coin i p \<Rightarrow> withdraw_coin cfg orig i p s
   | sc_call_purchase_access_coin i p g \<Rightarrow> purchase_access_coin cfg orig i p g s)"

definition sc_apply ::
  "('acct, 'ccy) sc_config \<Rightarrow> 'acct origin \<times> sc_call \<Rightarrow> 'ccy sc_state \<Rightarrow>
     sc_error dispatch_error + 'ccy sc_state" where
  "sc_apply cfg x s = (case x of (orig, call) \<Rightarrow>
     if orig = Unsigned then
       (case sc_validate_unsigned cfg call s of
          Inl e \<Rightarrow> Inl (InvalidTx e)
        | Inr _ \<Rightarrow> sc_dispatch cfg orig call s)
     else sc_dispatch cfg orig call s)"

end
