(* ===== verification/ScanProofGuards.thy ===== *)
theory ScanProofGuards
  imports ScanProofCalls
begin

text \<open>
  What an accepted extrinsic of the ScanProof proofs pallet does to each part of the storage: the
  state after an insertion, one inversion lemma per dispatchable, the origin each call needs, and
  the guards consumed once (nullifiers and coin serials) as an interpretation of \<open>one_shot\<close>.
\<close>

section \<open>Views of the storage\<close>

definition sc_tree :: "'ccy sc_state \<Rightarrow>
    h256 list \<times> h256 \<times> h256 \<times> h256 list \<times> (h256 \<Rightarrow> u32) \<times> (h256 \<rightharpoonup> u32)" where
  "sc_tree s = (Leaves s, CurrentRoot s, MerkleRoot s, RecentRoots s, RootLeafCount s, CommitmentIndex s)"

definition sc_coins :: "'ccy sc_state \<Rightarrow> (u32 \<rightharpoonup> h256 list) \<times> u32 \<times> (h256 \<rightharpoonup> u32 \<times> u32)" where
  "sc_coins s = (CoinGroups s, CurrentGroup s, CoinLocation s)"

definition sc_guards :: "'ccy sc_state \<Rightarrow> (h256 \<Rightarrow> bool) \<times> (h256 \<Rightarrow> bool)" where
  "sc_guards s = (NullifierUsed s, SerialUsed s)"

lemmas sc_views = sc_tree_def sc_coins_def sc_guards_def

lemma sc_views_frame [simp]:
  "sc_tree (sc_deposit_event e s) = sc_tree s" "sc_coins (sc_deposit_event e s) = sc_coins s"
  "sc_guards (sc_deposit_event e s) = sc_guards s"
  "sc_tree (sc_dispatch_send m s) = sc_tree s" "sc_coins (sc_dispatch_send m s) = sc_coins s"
  "sc_guards (sc_dispatch_send m s) = sc_guards s"
  by (simp_all add: sc_views sc_deposit_event_def sc_dispatch_send_def)

lemma sc_views_update [simp]:
  "sc_tree (s\<lparr>sc_ccy := b\<rparr>) = sc_tree s" "sc_coins (s\<lparr>sc_ccy := b\<rparr>) = sc_coins s"
  "sc_guards (s\<lparr>sc_ccy := b\<rparr>) = sc_guards s"
  "sc_tree (s\<lparr>NullifierUsed := n\<rparr>) = sc_tree s" "sc_coins (s\<lparr>NullifierUsed := n\<rparr>) = sc_coins s"
  "sc_guards (s\<lparr>NullifierUsed := n\<rparr>) = (n, SerialUsed s)"
  "sc_tree (s\<lparr>SerialUsed := n\<rparr>) = sc_tree s" "sc_coins (s\<lparr>SerialUsed := n\<rparr>) = sc_coins s"
  "sc_guards (s\<lparr>SerialUsed := n\<rparr>) = (NullifierUsed s, n)"
  "sc_tree (s\<lparr>RwaPrices := p\<rparr>) = sc_tree s" "sc_coins (s\<lparr>RwaPrices := p\<rparr>) = sc_coins s"
  "sc_guards (s\<lparr>RwaPrices := p\<rparr>) = sc_guards s"
  "sc_tree (s\<lparr>AccessKeyConfigs := k\<rparr>) = sc_tree s" "sc_coins (s\<lparr>AccessKeyConfigs := k\<rparr>) = sc_coins s"
  "sc_guards (s\<lparr>AccessKeyConfigs := k\<rparr>) = sc_guards s"
  by (simp_all add: sc_views)

text \<open>The state after the commitments \<open>cs\<close> have been inserted in one extrinsic.\<close>

definition sc_after :: "('acct, 'ccy) sc_config \<Rightarrow> h256 list \<Rightarrow> 'ccy sc_state \<Rightarrow> 'ccy sc_state" where
  "sc_after cfg cs s =
     (let (leaves, index) = fold (push_leaf cfg) cs (Leaves s, CommitmentIndex s)
      in sc_put_leaves leaves (sc_compute_merkle_root cfg leaves) (s\<lparr>CommitmentIndex := index\<rparr>))"

lemma sc_after_frame [simp]:
  "sc_coins (sc_after cfg cs s) = sc_coins s" "sc_guards (sc_after cfg cs s) = sc_guards s"
  "sc_ccy (sc_after cfg cs s) = sc_ccy s"
  by (simp_all add: sc_after_def sc_put_leaves_def Let_def sc_views split: prod.split)

lemma sc_after_view: "sc_tree s = sc_tree t \<Longrightarrow> sc_tree (sc_after cfg cs s) = sc_tree (sc_after cfg cs t)"
  by (simp add: sc_after_def sc_put_leaves_def Let_def sc_tree_def split: prod.split)

lemma sc_insert_commitment_Inr:
  "sc_insert_commitment cfg c s = Inr s' \<longleftrightarrow> length (Leaves s) < 1048576 \<and> s' = sc_after cfg [c] s"
  by (auto simp: sc_insert_commitment_def sc_after_def Let_def split: prod.splits)

text \<open>The inserted list and its room: what \<open>effective_commitment\<close> and \<open>sc_insert_change\<close> check.\<close>

definition change_list :: "h256 option \<Rightarrow> h256 list" where
  "change_list change = (case change of None \<Rightarrow> [] | Some cc \<Rightarrow> [cc])"

definition insertable :: "h256 list \<Rightarrow> 'ccy sc_state \<Rightarrow> bool" where
  "insertable cs s \<longleftrightarrow> distinct cs \<and> (\<forall>c \<in> set cs. CommitmentIndex s c = None) \<and>
     length cs \<le> 1048576 - length (Leaves s)"

lemma insertable_view: "sc_tree s = sc_tree t \<Longrightarrow> insertable cs s = insertable cs t"
  by (simp add: insertable_def sc_tree_def)

lemma insertable_one:
  "insertable [c] s \<longleftrightarrow> CommitmentIndex s c = None \<and> length (Leaves s) < 1048576"
  by (auto simp: insertable_def)

text \<open>How the tree changes: not at all, or by the insertion of \<open>cs\<close>.\<close>

definition tree_step :: "('acct, 'ccy) sc_config \<Rightarrow> h256 list \<Rightarrow> 'ccy sc_state \<Rightarrow> 'ccy sc_state \<Rightarrow> bool" where
  "tree_step cfg cs s s' \<longleftrightarrow> insertable cs s \<and> sc_tree s' = sc_tree (sc_after cfg cs s)"

definition change_step :: "('acct, 'ccy) sc_config \<Rightarrow> h256 option \<Rightarrow> 'ccy sc_state \<Rightarrow> 'ccy sc_state \<Rightarrow> bool" where
  "change_step cfg change s s' \<longleftrightarrow>
     (case change of None \<Rightarrow> sc_tree s' = sc_tree s | Some cc \<Rightarrow> tree_step cfg [cc] s s')"

lemma sc_insert_change_Inr:
  assumes "sc_insert_change cfg change s1 = Inr s2" and "sc_tree s1 = sc_tree s"
    and "effective_commitment cfg ic change s = Inr eff"
  shows "change_step cfg change s s2 \<and> sc_coins s2 = sc_coins s1 \<and> sc_guards s2 = sc_guards s1"
proof (cases change)
  case None
  then show ?thesis using assms by (simp add: sc_insert_change_def change_step_def)
next
  case (Some cc)
  then have r: "length (Leaves s1) < 1048576" "s2 = sc_after cfg [cc] s1"
    using assms(1) by (simp_all add: sc_insert_change_def sc_insert_commitment_Inr)
  have i: "CommitmentIndex s cc = None" using assms(3) Some by (simp add: effective_commitment_def)
  have l: "Leaves s1 = Leaves s" using assms(2) by (simp add: sc_tree_def)
  show ?thesis
    using r i l Some sc_after_view [OF assms(2)]
    by (simp add: change_step_def tree_step_def insertable_one)
qed

lemma sc_currency_transfer_Inr:
  "sc_currency_transfer cfg a b x ex s = Inr s' \<longleftrightarrow>
     (\<exists>c. sc_transfer cfg a b (ucast x) ex (sc_ccy s) = Inr c \<and> s' = s\<lparr>sc_ccy := c\<rparr>)"
  by (auto simp: sc_currency_transfer_def split: sum.splits)

lemma sc_fields_update [simp]:
  "sc_ccy (sc_deposit_event e s) = sc_ccy s" "sc_ccy (sc_dispatch_send m s) = sc_ccy s"
  "NullifierUsed (sc_deposit_event e s) = NullifierUsed s" "SerialUsed (sc_deposit_event e s) = SerialUsed s"
  "Leaves (s\<lparr>sc_ccy := b\<rparr>) = Leaves s" "CommitmentIndex (s\<lparr>sc_ccy := b\<rparr>) = CommitmentIndex s"
  by (simp_all add: sc_deposit_event_def sc_dispatch_send_def)

section \<open>Inversion of accepted calls\<close>

lemma sc_deposit_public_accepted:
  assumes "sc_deposit_public cfg orig commitment rp hints s = Inr s'"
  shows "\<exists>who bp amount b. orig = Signed who \<and> length commitment = 32 \<and>
    parse_deposit_wire rp = Wire bp amount \<and>
    sv_verify_range_proof (sc_verifier cfg) bp [of_le_bytes commitment] [] 64 \<and>
    sc_transfer cfg who (sc_pool cfg) (ucast amount) KeepAlive (sc_ccy s) = Inr b \<and> sc_ccy s' = b \<and>
    tree_step cfg [of_le_bytes commitment] s s' \<and> sc_coins s' = sc_coins s \<and> sc_guards s' = sc_guards s"
proof -
  have v: "sc_tree (sc_after cfg cs (s\<lparr>sc_ccy := b\<rparr>)) = sc_tree (sc_after cfg cs s)" for cs b
    by (rule sc_after_view) simp
  show ?thesis using assms
    by (cases "parse_deposit_wire rp")
      (auto simp: sc_deposit_public_def Let_def sc_currency_transfer_Inr sc_insert_commitment_Inr
        tree_step_def insertable_one v)
qed

lemma submit_proof_accepted:
  assumes "submit_proof cfg orig proof rp pin hints s = Inr s'"
  shows "\<exists>i. orig = Unsigned \<and> decode_sc_public_inputs (sc_codec cfg) pin = Some i \<and>
    (merkle_root i = CurrentRoot s \<or> merkle_root i \<in> set (RecentRoots s)) \<and>
    sv_verify (sc_verifier cfg) proof pin \<and>
    list_all (input_known cfg i s) (enumerate 0 (input_commitments i)) \<and>
    (\<forall>n \<in> set (nullifiers i). \<not> NullifierUsed s n) \<and>
    tree_step cfg (new_commitments i) s s' \<and> sc_coins s' = sc_coins s \<and> sc_ccy s' = sc_ccy s \<and>
    sc_guards s' = (\<lambda>n. NullifierUsed s n \<or> n \<in> set (nullifiers i), SerialUsed s)"
proof -
  have used: "fold (\<lambda>n used. used(n := True)) ns u = (\<lambda>n. u n \<or> n \<in> set ns)" for ns :: "h256 list" and u
    by (induction ns arbitrary: u) (auto simp: fun_eq_iff)
  have upd: "sc_deposit_event (ProofAccepted (ppi_tx_id i) r (new_commitments i) hints)
        (sc_put_leaves ls r (t\<lparr>CommitmentIndex := ix\<rparr>)) = s' \<Longrightarrow>
      sc_ccy s' = sc_ccy t \<and> sc_coins s' = sc_coins t \<and> sc_guards s' = sc_guards t \<and>
      sc_tree s' = sc_tree (sc_put_leaves ls r (t\<lparr>CommitmentIndex := ix\<rparr>))" for i r ls ix t
    by (auto simp: sc_views sc_put_leaves_def Let_def sc_deposit_event_def)
  from assms obtain i where i: "orig = Unsigned" "decode_sc_public_inputs (sc_codec cfg) pin = Some i"
    "merkle_root i = CurrentRoot s \<or> merkle_root i \<in> set (RecentRoots s)" "sv_verify (sc_verifier cfg) proof pin"
    "list_all (input_known cfg i s) (enumerate 0 (input_commitments i))"
    "\<forall>n \<in> set (nullifiers i). \<not> NullifierUsed s n" "distinct (new_commitments i)"
    "\<forall>c \<in> set (new_commitments i). CommitmentIndex s c = None"
    "length (new_commitments i) \<le> 1048576 - length (Leaves s)"
    and st: "sc_deposit_event (ProofAccepted (ppi_tx_id i)
          (sc_compute_merkle_root cfg (fst (fold (push_leaf cfg) (new_commitments i) (Leaves s, CommitmentIndex s))))
          (new_commitments i) hints)
        (sc_put_leaves (fst (fold (push_leaf cfg) (new_commitments i) (Leaves s, CommitmentIndex s)))
          (sc_compute_merkle_root cfg (fst (fold (push_leaf cfg) (new_commitments i) (Leaves s, CommitmentIndex s))))
          ((s\<lparr>NullifierUsed := fold (\<lambda>n used. used(n := True)) (nullifiers i) (NullifierUsed s)\<rparr>)
            \<lparr>CommitmentIndex := snd (fold (push_leaf cfg) (new_commitments i) (Leaves s, CommitmentIndex s))\<rparr>)) = s'"
    by (clarsimp simp: submit_proof_def Let_def list_all_iff case_prod_beta)
  have tree: "sc_tree s' = sc_tree (sc_after cfg (new_commitments i) s)"
    using upd [OF st] by (simp add: sc_after_def sc_tree_def sc_put_leaves_def Let_def split_beta)
  have ins: "insertable (new_commitments i) s" using i(7-9) by (simp add: insertable_def)
  show ?thesis
    by (rule exI [of _ i]) (use i(1-6) upd [OF st] tree ins in \<open>simp add: tree_step_def used sc_guards_def sc_coins_def\<close>)
qed

lemma sc_purchase_rwa_accepted:
  assumes "sc_purchase_rwa cfg orig ic op n r t oc change s = Inr s'"
  shows "\<exists>eff. orig = Unsigned \<and> \<not> NullifierUsed s n \<and> CommitmentIndex s ic \<noteq> None \<and> RwaPrices s r > 0 \<and>
    effective_commitment cfg ic change s = Inr eff \<and>
    sv_verify_opening_knowledge (sc_verifier cfg) (RwaPrices s r) eff op (purchase_binding n r t change) \<and>
    change_step cfg change s s' \<and> sc_coins s' = sc_coins s \<and>
    sc_guards s' = ((NullifierUsed s)(n := True), SerialUsed s)"
proof -
  from assms obtain eff s2 where r: "orig = Unsigned" "\<not> NullifierUsed s n" "CommitmentIndex s ic \<noteq> None"
    "RwaPrices s r > 0" "effective_commitment cfg ic change s = Inr eff"
    "sv_verify_opening_knowledge (sc_verifier cfg) (RwaPrices s r) eff op (purchase_binding n r t change)"
    and i: "sc_insert_change cfg change (s\<lparr>NullifierUsed := (NullifierUsed s)(n := True)\<rparr>) = Inr s2"
    and s': "s' = sc_dispatch_send (ScRwaSend r n 0 (RwaPrices s r) t oc)
      (sc_deposit_event (RwaPurchaseAuthorized r t) s2)"
    by (clarsimp simp: sc_purchase_rwa_def Let_def)
  have "change_step cfg change s s2 \<and> sc_coins s2 = sc_coins s \<and>
    sc_guards s2 = ((NullifierUsed s)(n := True), SerialUsed s)"
    using sc_insert_change_Inr [OF i _ r(5)] by simp
  then show ?thesis using r s' by (auto simp: change_step_def tree_step_def split: option.splits)
qed

lemma sc_withdraw_private_accepted:
  assumes "sc_withdraw_private cfg orig c n op d v s = Inr s'"
  shows "\<exists>dest b. orig = Unsigned \<and> \<not> NullifierUsed s n \<and> CommitmentIndex s c \<noteq> None \<and>
    sv_verify_opening_knowledge (sc_verifier cfg) v c op (withdraw_binding n c) \<and> length d = 32 \<and>
    sc_decode_account cfg d = Some dest \<and>
    sc_transfer cfg (sc_pool cfg) dest (ucast v) AllowDeath (sc_ccy s) = Inr b \<and>
    s' = sc_deposit_event (WithdrawCompleted n d v)
      (s\<lparr>sc_ccy := b, NullifierUsed := (NullifierUsed s)(n := True)\<rparr>)"
  using assms by (auto simp: sc_withdraw_private_def Let_def sc_currency_transfer_Inr)

lemma sc_purchase_access_accepted:
  assumes "sc_purchase_access cfg orig ic op n a t k change s = Inr s'"
  shows "\<exists>eff app. orig = Unsigned \<and> \<not> NullifierUsed s n \<and> CommitmentIndex s ic \<noteq> None \<and>
    AccessKeyConfigs s a = Some app \<and> sac_price app > 0 \<and>
    effective_commitment cfg ic change s = Inr eff \<and>
    sv_verify_opening_knowledge (sc_verifier cfg) (sac_price app) eff op (purchase_binding n a t change) \<and>
    change_step cfg change s s' \<and> sc_coins s' = sc_coins s \<and>
    sc_guards s' = ((NullifierUsed s)(n := True), SerialUsed s)"
proof -
  from assms obtain app eff b s2 where r: "orig = Unsigned" "\<not> NullifierUsed s n" "CommitmentIndex s ic \<noteq> None"
    "AccessKeyConfigs s a = Some app" "sac_price app > 0" "effective_commitment cfg ic change s = Inr eff"
    "sv_verify_opening_knowledge (sc_verifier cfg) (sac_price app) eff op (purchase_binding n a t change)"
    and i: "sc_insert_change cfg change
      ((s\<lparr>NullifierUsed := (NullifierUsed s)(n := True)\<rparr>)\<lparr>sc_ccy := b\<rparr>) = Inr s2"
    and s': "s' = sc_dispatch_send (ScAccessSend a n t k) (sc_deposit_event (AccessPurchaseAuthorized a t) s2)"
    by (clarsimp simp: sc_purchase_access_def sc_currency_transfer_Inr)
  have "change_step cfg change s s2 \<and> sc_coins s2 = sc_coins s \<and>
    sc_guards s2 = ((NullifierUsed s)(n := True), SerialUsed s)"
    using sc_insert_change_Inr [OF i _ r(6)] by simp
  then show ?thesis using r s' by (auto simp: change_step_def tree_step_def split: option.splits)
qed

section \<open>The coin lane\<close>

text \<open>\<open>add_coin\<close> as one update: the group that takes the coin, and what it held before.\<close>

definition coin_group :: "'ccy sc_state \<Rightarrow> u32" where
  "coin_group s = (if length (group_get s (CurrentGroup s)) \<ge> 1024 then CurrentGroup s + 1 else CurrentGroup s)"

definition coin_step :: "h256 \<Rightarrow> 'ccy sc_state \<Rightarrow> 'ccy sc_state \<Rightarrow> bool" where
  "coin_step coin s s' \<longleftrightarrow> CoinLocation s coin = None \<and>
     (let gid = coin_group s; group = group_get s gid
      in length group < 1024 \<and>
         sc_coins s' = ((CoinGroups s)(gid \<mapsto> group @ [coin]), gid,
           (CoinLocation s)(coin \<mapsto> (gid, of_nat (length group)))))"

lemma group_get_update [simp]:
  "group_get (s\<lparr>CurrentGroup := g\<rparr>) = group_get s" "group_get (s\<lparr>sc_ccy := b\<rparr>) = group_get s"
  by (simp_all add: group_get_def fun_eq_iff)

lemma add_coin_Inr:
  assumes "add_coin coin s = Inr s'" and "CoinLocation s coin = None"
  shows "coin_step coin s s' \<and> sc_tree s' = sc_tree s \<and> sc_guards s' = sc_guards s \<and> sc_ccy s' = sc_ccy s"
proof (cases "length (group_get s (CurrentGroup s)) \<ge> 1024")
  case True
  then show ?thesis using assms
    by (auto simp: add_coin_def Let_def coin_step_def coin_group_def sc_deposit_event_def sc_views)
next
  case False
  then show ?thesis using assms
    by (auto simp: add_coin_def Let_def coin_step_def coin_group_def sc_deposit_event_def sc_views)
qed

lemma coin_step_view:
  assumes "coin_step coin s s'" and "sc_coins s = sc_coins t" and "sc_coins s' = sc_coins t'"
  shows "coin_step coin t t'"
proof -
  have f: "CoinGroups s = CoinGroups t" "CurrentGroup s = CurrentGroup t" "CoinLocation s = CoinLocation t"
    using assms(2) by (simp_all add: sc_coins_def)
  then have "group_get s = group_get t" by (simp add: group_get_def fun_eq_iff)
  moreover from this f have "coin_group s = coin_group t" by (simp add: coin_group_def)
  ultimately show ?thesis using f assms(1,3) by (simp add: coin_step_def Let_def)
qed

text \<open>The optional change coin of a purchase.\<close>

definition change_coin_step :: "coin_spend_public \<Rightarrow> 'ccy sc_state \<Rightarrow> 'ccy sc_state \<Rightarrow> bool" where
  "change_coin_step i s s' \<longleftrightarrow>
     (if cs_change i = 0 then sc_coins s' = sc_coins s else coin_step (cs_change_coin i) s s')"

lemma change_coin_step_view:
  "change_coin_step i s s' \<Longrightarrow> sc_coins s' = sc_coins t' \<Longrightarrow> change_coin_step i s t'"
  using coin_step_view [of "cs_change_coin i" s s' s t'] by (simp add: change_coin_step_def split: if_splits)

lemma register_change_coin_Inr:
  assumes "register_change_coin cfg i g ctx s = Inr s'"
  shows "change_coin_step i s s' \<and> sc_tree s' = sc_tree s \<and> sc_guards s' = sc_guards s \<and> sc_ccy s' = sc_ccy s"
  using assms add_coin_Inr [of "cs_change_coin i" s s']
  by (auto simp: register_change_coin_def change_coin_step_def split: if_splits)

lemma deposit_coin_accepted:
  assumes "deposit_coin cfg orig coin amount op s = Inr s'"
  shows "\<exists>who b. orig = Signed who \<and>
    sv_verify_deposit_open (sc_verifier cfg) coin amount op (sc_encode_account cfg who) \<and>
    sc_transfer cfg who (sc_pool cfg) (ucast amount) KeepAlive (sc_ccy s) = Inr b \<and> sc_ccy s' = b \<and>
    coin_step coin s s' \<and> sc_tree s' = sc_tree s \<and> sc_guards s' = sc_guards s"
proof -
  from assms obtain who b where r: "orig = Signed who" "CoinLocation s coin = None"
    "sv_verify_deposit_open (sc_verifier cfg) coin amount op (sc_encode_account cfg who)"
    "sc_transfer cfg who (sc_pool cfg) (ucast amount) KeepAlive (sc_ccy s) = Inr b"
    and a: "add_coin coin (s\<lparr>sc_ccy := b\<rparr>) = Inr s'"
    by (auto simp: deposit_coin_def Let_def sc_currency_transfer_Inr)
  have "CoinLocation (s\<lparr>sc_ccy := b\<rparr>) coin = None" using r by simp
  from add_coin_Inr [OF a this] show ?thesis
    using r coin_step_view [of coin "s\<lparr>sc_ccy := b\<rparr>" s' s s'] by auto
qed

definition one_of_many ::
  "('acct, 'ccy) sc_config \<Rightarrow> u32 \<Rightarrow> h256 \<Rightarrow> u64 \<Rightarrow> h256 \<Rightarrow> bytes \<Rightarrow> bytes \<Rightarrow> 'ccy sc_state \<Rightarrow> bool" where
  "one_of_many cfg gid serial value_committed change p pin s \<longleftrightarrow>
     CoinGroups s gid \<noteq> None \<and>
     sv_verify_one_of_many (sc_verifier cfg) p (sv_pad_group (sc_verifier cfg) (group_get s gid) gid) serial
       value_committed change (le_bytes 32 (sc_blake2_256 cfg pin))"

lemma purchase_coin_accepted:
  assumes "purchase_coin cfg orig pin p g s = Inr s'"
  shows "\<exists>i. orig = Unsigned \<and> decode_coin_spend_public (sc_codec cfg) pin = Some i \<and>
    \<not> SerialUsed s (cs_serial i) \<and> RwaPrices s (cs_rwa_id i) > 0 \<and>
    one_of_many cfg (cs_group_id i) (cs_serial i) (RwaPrices s (cs_rwa_id i)) (cs_change i) p pin s \<and>
    change_coin_step i s s' \<and> sc_tree s' = sc_tree s \<and> sc_ccy s' = sc_ccy s \<and>
    sc_guards s' = (NullifierUsed s, (SerialUsed s)(cs_serial i := True))"
proof -
  from assms obtain i s2 where r: "orig = Unsigned" "decode_coin_spend_public (sc_codec cfg) pin = Some i"
    "\<not> SerialUsed s (cs_serial i)" "RwaPrices s (cs_rwa_id i) > 0"
    "one_of_many cfg (cs_group_id i) (cs_serial i) (RwaPrices s (cs_rwa_id i)) (cs_change i) p pin s"
    and a: "register_change_coin cfg i g (le_bytes 32 (sc_blake2_256 cfg pin)) s = Inr s2"
    and s': "sc_coins s' = sc_coins s2 \<and> sc_tree s' = sc_tree s2 \<and> sc_ccy s' = sc_ccy s2 \<and>
      sc_guards s' = (NullifierUsed s2, (SerialUsed s2)(cs_serial i := True))"
    by (clarsimp simp: purchase_coin_def Let_def one_of_many_def)
  note a = register_change_coin_Inr [OF a]
  show ?thesis
    using r s' a change_coin_step_view [of i s s2 s'] by (auto simp: sc_guards_def)
qed

lemma withdraw_coin_accepted:
  assumes "withdraw_coin cfg orig pin p s = Inr s'"
  shows "\<exists>i dest b. orig = Unsigned \<and> decode_coin_withdraw_public (sc_codec cfg) pin = Some i \<and>
    \<not> SerialUsed s (cw_serial i) \<and>
    one_of_many cfg (cw_group_id i) (cw_serial i) (cw_amount i) 0 p pin s \<and>
    sc_decode_account cfg (le_bytes 32 (cw_destination i)) = Some dest \<and>
    sc_transfer cfg (sc_pool cfg) dest (ucast (cw_amount i)) AllowDeath (sc_ccy s) = Inr b \<and>
    s' = sc_deposit_event (CoinWithdrawCompleted (cw_tx_id i) (cw_amount i))
      (s\<lparr>SerialUsed := (SerialUsed s)(cw_serial i := True), sc_ccy := b\<rparr>)"
  using assms by (auto simp: withdraw_coin_def Let_def one_of_many_def sc_currency_transfer_Inr)

lemma purchase_access_coin_accepted:
  assumes "purchase_access_coin cfg orig pin p g s = Inr s'"
  shows "\<exists>i app. orig = Unsigned \<and> decode_coin_spend_public (sc_codec cfg) pin = Some i \<and>
    \<not> SerialUsed s (cs_serial i) \<and> AccessKeyConfigs s (cs_rwa_id i) = Some app \<and> sac_price app > 0 \<and>
    one_of_many cfg (cs_group_id i) (cs_serial i) (sac_price app) (cs_change i) p pin s \<and>
    change_coin_step i s s' \<and> sc_tree s' = sc_tree s \<and>
    sc_guards s' = (NullifierUsed s, (SerialUsed s)(cs_serial i := True))"
proof -
  from assms obtain i app s2 where r: "orig = Unsigned" "decode_coin_spend_public (sc_codec cfg) pin = Some i"
    "\<not> SerialUsed s (cs_serial i)" "AccessKeyConfigs s (cs_rwa_id i) = Some app" "sac_price app > 0"
    "one_of_many cfg (cs_group_id i) (cs_serial i) (sac_price app) (cs_change i) p pin s"
    and a: "register_change_coin cfg i g (le_bytes 32 (sc_blake2_256 cfg pin)) s = Inr s2"
    and s': "sc_coins s' = sc_coins s2 \<and> sc_tree s' = sc_tree s2 \<and>
      sc_guards s' = (NullifierUsed s2, (SerialUsed s2)(cs_serial i := True))"
    by (clarsimp simp: purchase_access_coin_def Let_def one_of_many_def sc_currency_transfer_Inr)
  note a = register_change_coin_Inr [OF a]
  show ?thesis
    using r s' a change_coin_step_view [of i s s2 s'] by (auto simp: sc_guards_def)
qed

lemma sc_set_calls_accepted:
  "sc_set_rwa_price orig r p s = Inr s' \<Longrightarrow>
     orig = Root \<and> s' = sc_deposit_event (RwaPriceSet r p) (s\<lparr>RwaPrices := (RwaPrices s)(r := p)\<rparr>)"
  "sc_set_access_config orig a p acc s = Inr s' \<Longrightarrow>
     orig = Root \<and> s' = sc_deposit_event (AccessConfigSet a p)
       (s\<lparr>AccessKeyConfigs := (AccessKeyConfigs s)(a \<mapsto> \<lparr>sac_price = p, sac_payment_account = acc\<rparr>)\<rparr>)"
  by (auto simp: sc_set_rwa_price_def sc_set_access_config_def)

lemmas sc_accepted =
  sc_deposit_public_accepted submit_proof_accepted sc_purchase_rwa_accepted sc_withdraw_private_accepted
  sc_purchase_access_accepted deposit_coin_accepted purchase_coin_accepted withdraw_coin_accepted
  purchase_access_coin_accepted sc_set_calls_accepted

section \<open>Guards consumed once\<close>

datatype sc_key = KNote h256 | KSerial h256

fun sc_used :: "'ccy sc_state \<Rightarrow> sc_key \<Rightarrow> bool" where
  "sc_used s (KNote n) = NullifierUsed s n"
| "sc_used s (KSerial n) = SerialUsed s n"

fun sc_consumes :: "('acct, 'ccy) sc_config \<Rightarrow> 'acct origin \<times> sc_call \<Rightarrow> sc_key set" where
  "sc_consumes cfg (_, sc_call_submit_proof _ _ pin _) =
     (case decode_sc_public_inputs (sc_codec cfg) pin of None \<Rightarrow> {} | Some i \<Rightarrow> KNote ` set (nullifiers i))"
| "sc_consumes cfg (_, sc_call_purchase_rwa _ _ n _ _ _ _) = {KNote n}"
| "sc_consumes cfg (_, sc_call_withdraw_private _ n _ _ _) = {KNote n}"
| "sc_consumes cfg (_, sc_call_purchase_access _ _ n _ _ _ _) = {KNote n}"
| "sc_consumes cfg (_, sc_call_purchase_coin pin _ _) =
     (case decode_coin_spend_public (sc_codec cfg) pin of None \<Rightarrow> {} | Some i \<Rightarrow> {KSerial (cs_serial i)})"
| "sc_consumes cfg (_, sc_call_withdraw_coin pin _) =
     (case decode_coin_withdraw_public (sc_codec cfg) pin of None \<Rightarrow> {} | Some i \<Rightarrow> {KSerial (cw_serial i)})"
| "sc_consumes cfg (_, sc_call_purchase_access_coin pin _ _) =
     (case decode_coin_spend_public (sc_codec cfg) pin of None \<Rightarrow> {} | Some i \<Rightarrow> {KSerial (cs_serial i)})"
| "sc_consumes cfg _ = {}"

lemma sc_used_view:
  "sc_used s k = (case sc_guards s of (n, t) \<Rightarrow> case k of KNote x \<Rightarrow> n x | KSerial x \<Rightarrow> t x)"
  by (cases k) (simp_all add: sc_guards_def)

lemma sc_dispatch_guards:
  assumes "sc_dispatch cfg orig call s = Inr s'"
  shows "(\<forall>k \<in> sc_consumes cfg (orig, call). \<not> sc_used s k) \<and>
    (\<forall>k. sc_used s' k \<longleftrightarrow> sc_used s k \<or> k \<in> sc_consumes cfg (orig, call))"
  using assms
  by (cases call)
    (auto simp: sc_dispatch_def sc_used_view sc_guards_def dest!: sc_accepted split: sc_key.splits)

lemma sc_apply_dispatch: "sc_apply cfg (orig, call) s = Inr s' \<Longrightarrow> sc_dispatch cfg orig call s = Inr s'"
  by (auto simp: sc_apply_def split: if_splits sum.splits)

interpretation sc: one_shot "sc_apply cfg" sc_used "sc_consumes cfg"
proof
  fix c :: "'a origin \<times> sc_call" and s s' :: "'b sc_state" and k
  assume "sc_apply cfg c s = Inr s'" and "k \<in> sc_consumes cfg c"
  then show "\<not> sc_used s k \<and> sc_used s' k"
    using sc_dispatch_guards [of cfg "fst c" "snd c" s s'] sc_apply_dispatch [of cfg "fst c" "snd c" s s']
    by auto
next
  fix c :: "'a origin \<times> sc_call" and s s' :: "'b sc_state" and k
  assume "sc_apply cfg c s = Inr s'" and "sc_used s k"
  then show "sc_used s' k"
    using sc_dispatch_guards [of cfg "fst c" "snd c" s s'] sc_apply_dispatch [of cfg "fst c" "snd c" s s']
    by auto
qed

end
