(* ===== verification/ScanProofLane.thy ===== *)
theory ScanProofLane
  imports ScanProofGuards
begin

text \<open>
  Properties of the ScanProof proofs pallet over whole runs of extrinsics: guards and origins, the
  v1 note tree and its anchors, the coin groups as chunks of one coin sequence, and what the v1
  withdrawal and deposit leave open.
\<close>

section \<open>Guards and origins\<close>

text \<open>
  C22. No double spend in the pallet: over any sequence of extrinsics from any state, at most one
  accepted extrinsic names a given note nullifier or coin serial, whichever of the seven spending
  calls it uses; a proof that spends several notes names each of them.
\<close>

theorem sc_guard_at_most_once:
  "length (filter (\<lambda>c. k \<in> sc_consumes cfg c) (accepted (sc_apply cfg) cs s)) \<le> 1"
  by (rule sc.at_most_once)

section \<open>What a call changes\<close>

lemma sc_dispatch_tree:
  assumes "sc_dispatch cfg orig call s = Inr s'"
  shows "sc_tree s' = sc_tree s \<or> (\<exists>cs. tree_step cfg cs s s')"
  using assms
  by (cases call) (fastforce simp: sc_dispatch_def change_step_def dest!: sc_accepted split: option.splits)+

lemma sc_dispatch_coins:
  assumes "sc_dispatch cfg orig call s = Inr s'"
  shows "sc_coins s' = sc_coins s \<or> (\<exists>coin. coin_step coin s s')"
  using assms
  by (cases call) (auto simp: sc_dispatch_def change_coin_step_def dest!: sc_accepted split: if_splits)

section \<open>The note tree\<close>

text \<open>Every leaf is where the index says, every anchor is the root of a prefix of the leaves.\<close>

definition index_ok :: "('acct, 'ccy) sc_config \<Rightarrow> h256 list \<times> (h256 \<rightharpoonup> u32) \<Rightarrow> bool" where
  "index_ok cfg x \<longleftrightarrow> (\<forall>c i. snd x c = Some i \<longrightarrow>
     unat i < length (fst x) \<and> fst x ! unat i = sc_leaf_hash cfg c)"

definition anchor_ok :: "('acct, 'ccy) sc_config \<Rightarrow> h256 list \<Rightarrow> (h256 \<Rightarrow> u32) \<Rightarrow> h256 \<Rightarrow> bool" where
  "anchor_ok cfg leaves count r \<longleftrightarrow> unat (count r) \<le> length leaves \<and>
     sc_compute_merkle_root cfg (take (unat (count r)) leaves) = r"

definition sc_tree_ok :: "('acct, 'ccy) sc_config \<Rightarrow> 'ccy sc_state \<Rightarrow> bool" where
  "sc_tree_ok cfg s \<longleftrightarrow> length (Leaves s) \<le> 1048576 \<and> length (RecentRoots s) \<le> 64 \<and>
     CurrentRoot s = sc_compute_merkle_root cfg (Leaves s) \<and> MerkleRoot s = CurrentRoot s \<and>
     index_ok cfg (Leaves s, CommitmentIndex s) \<and>
     (\<forall>r \<in> insert (CurrentRoot s) (set (RecentRoots s)). anchor_ok cfg (Leaves s) (RootLeafCount s) r)"

lemma index_ok_push:
  assumes "index_ok cfg x" and "length (fst x) < 2 ^ 32"
  shows "index_ok cfg (push_leaf cfg c x)"
  using assms
  by (auto simp: index_ok_def push_leaf_def nth_append unat_of_nat split: prod.splits)

lemma fst_fold_push: "fst (fold (push_leaf cfg) cs x) = fst x @ map (sc_leaf_hash cfg) cs"
  by (induction cs arbitrary: x) (simp_all add: push_leaf_def split: prod.splits)

lemma index_ok_fold:
  "index_ok cfg x \<Longrightarrow> length (fst x) + length cs < 2 ^ 32 \<Longrightarrow> index_ok cfg (fold (push_leaf cfg) cs x)"
proof (induction cs arbitrary: x)
  case Nil
  then show ?case by simp
next
  case (Cons c cs)
  have "fst (push_leaf cfg c x) = fst x @ [sc_leaf_hash cfg c]"
    using fst_fold_push [of cfg "[c]" x] by simp
  then show ?case using Cons by (simp add: index_ok_push)
qed

lemma anchor_ok_append: "anchor_ok cfg ls count r \<Longrightarrow> anchor_ok cfg (ls @ xs) count r"
  by (simp add: anchor_ok_def)

lemma anchor_ok_new:
  assumes "length ls < 2 ^ 32" and "r \<noteq> sc_compute_merkle_root cfg ls \<Longrightarrow> anchor_ok cfg ls count r"
  shows "anchor_ok cfg ls (count(sc_compute_merkle_root cfg ls := of_nat (length ls))) r"
  using assms by (auto simp: anchor_ok_def unat_of_nat)

lemma sc_after_tree:
  assumes "ls = Leaves s @ map (sc_leaf_hash cfg) cs"
  shows "Leaves (sc_after cfg cs s) = ls" and "CurrentRoot (sc_after cfg cs s) = sc_compute_merkle_root cfg ls"
    and "MerkleRoot (sc_after cfg cs s) = sc_compute_merkle_root cfg ls"
    and "RecentRoots (sc_after cfg cs s) = push_window (RecentRoots s) (CurrentRoot s)"
    and "RootLeafCount (sc_after cfg cs s) =
      (RootLeafCount s)(sc_compute_merkle_root cfg ls := of_nat (length ls))"
    and "(Leaves (sc_after cfg cs s), CommitmentIndex (sc_after cfg cs s)) =
      fold (push_leaf cfg) cs (Leaves s, CommitmentIndex s)"
  using assms fst_fold_push [of cfg cs "(Leaves s, CommitmentIndex s)"]
  by (auto simp: sc_after_def sc_put_leaves_def Let_def split: prod.splits)

lemma sc_tree_ok_after:
  assumes "sc_tree_ok cfg s" and "insertable cs s"
  shows "sc_tree_ok cfg (sc_after cfg cs s)"
proof -
  define ls where "ls = Leaves s @ map (sc_leaf_hash cfg) cs"
  note t = sc_after_tree [OF ls_def]
  have len: "length ls \<le> 1048576" using assms by (auto simp: ls_def sc_tree_ok_def insertable_def)
  have w: "length (RecentRoots s) \<le> 64" using assms by (simp add: sc_tree_ok_def)
  have "index_ok cfg (fold (push_leaf cfg) cs (Leaves s, CommitmentIndex s))"
    using assms len by (intro index_ok_fold) (auto simp: sc_tree_ok_def ls_def)
  moreover have "anchor_ok cfg ls (RootLeafCount (sc_after cfg cs s)) r"
    if "r \<in> insert (CurrentRoot (sc_after cfg cs s)) (set (RecentRoots (sc_after cfg cs s)))" for r
  proof -
    have "r = sc_compute_merkle_root cfg ls \<or> r \<in> insert (CurrentRoot s) (set (RecentRoots s))"
      using that set_push_window [OF w] unfolding t by auto
    then have "r \<noteq> sc_compute_merkle_root cfg ls \<Longrightarrow> anchor_ok cfg ls (RootLeafCount s) r"
      using assms(1) by (auto simp: sc_tree_ok_def ls_def intro!: anchor_ok_append)
    then show ?thesis unfolding t using len by (intro anchor_ok_new) auto
  qed
  ultimately show ?thesis
    using len length_push_window [OF w] unfolding sc_tree_ok_def t by (metis t(1) t(6))
qed

lemma sc_tree_ok_view: "sc_tree s = sc_tree t \<Longrightarrow> sc_tree_ok cfg s = sc_tree_ok cfg t"
  by (simp add: sc_tree_ok_def sc_tree_def)

lemma sc_tree_ok_step:
  assumes "sc_tree_ok cfg s" and "sc_apply cfg c s = Inr s'"
  shows "sc_tree_ok cfg s'"
proof -
  have "sc_dispatch cfg (fst c) (snd c) s = Inr s'" using assms(2) sc_apply_dispatch by (cases c) auto
  from sc_dispatch_tree [OF this] show ?thesis
    using assms(1) sc_tree_ok_after sc_tree_ok_view by (metis tree_step_def)
qed

lemma sc_tree_ok_run: "sc_tree_ok cfg (run (sc_apply cfg) cs (sc_genesis b))"
proof (rule run_invariant [where P = "sc_tree_ok cfg"])
  show "sc_tree_ok cfg (sc_genesis b)"
    by (simp add: sc_tree_ok_def sc_genesis_def index_ok_def anchor_ok_def sc_compute_merkle_root_def
        compute_merkle_root_def)
qed (rule sc_tree_ok_step)

text \<open>
  C23. The note tree of every reachable state is consistent: at most \<open>2 ^ 20\<close> leaves and 64 recent
  roots, the current root (and its copy \<open>MerkleRoot\<close>) is the batch root of the leaves, and every
  indexed commitment has its hashed leaf at its index.
\<close>

theorem sc_tree_consistent:
  "let s = run (sc_apply cfg) cs (sc_genesis b) in
     length (Leaves s) \<le> 2 ^ 20 \<and> length (RecentRoots s) \<le> 64 \<and>
     CurrentRoot s = compute_merkle_root (sc_hash2 cfg) (Leaves s) \<and> MerkleRoot s = CurrentRoot s \<and>
     (\<forall>c. case CommitmentIndex s c of None \<Rightarrow> True
       | Some i \<Rightarrow> unat i < length (Leaves s) \<and> Leaves s ! unat i = sc_leaf_hash cfg c)"
  using sc_tree_ok_run [of cfg cs b]
  by (auto simp: sc_tree_ok_def index_ok_def sc_compute_merkle_root_def Let_def split: option.splits)

text \<open>
  The inputs of an accepted shielded transfer are in the tree of its anchor: for every input of
  a \<open>submit_proof\<close> accepted in a reachable state, either the supplied path leads from its hashed leaf
  to the anchor, or its hashed leaf is among the leaves the anchor is the batch root of; and the
  anchor is the current root or one of the 64 recent ones.
\<close>

theorem submit_inputs_in_tree:
  assumes "s = run (sc_apply cfg) cs (sc_genesis b)"
    and "submit_proof cfg orig proof rp pin hints s = Inr s'"
  shows "\<exists>i. decode_sc_public_inputs (sc_codec cfg) pin = Some i \<and>
    (merkle_root i = CurrentRoot s \<or> merkle_root i \<in> set (RecentRoots s)) \<and>
    (\<forall>k < length (input_commitments i).
      path_node cfg (sc_leaf_hash cfg (input_commitments i ! k)) (input_indices i ! k) (input_paths i ! k) =
        merkle_root i \<or>
      (\<exists>n \<le> length (Leaves s). compute_merkle_root (sc_hash2 cfg) (take n (Leaves s)) = merkle_root i \<and>
        sc_leaf_hash cfg (input_commitments i ! k) \<in> set (take n (Leaves s))))"
proof -
  obtain i where i: "decode_sc_public_inputs (sc_codec cfg) pin = Some i"
    "merkle_root i = CurrentRoot s \<or> merkle_root i \<in> set (RecentRoots s)"
    "list_all (input_known cfg i s) (enumerate 0 (input_commitments i))"
    using submit_proof_accepted [OF assms(2)] by blast
  have ok: "sc_tree_ok cfg s" using sc_tree_ok_run assms(1) by simp
  then have a: "anchor_ok cfg (Leaves s) (RootLeafCount s) (merkle_root i)"
    using i(2) by (auto simp: sc_tree_ok_def)
  let ?n = "unat (RootLeafCount s (merkle_root i))"
  have in_tree: "sc_leaf_hash cfg c \<in> set (take ?n (Leaves s))"
    if "CommitmentIndex s c = Some x" "x < RootLeafCount s (merkle_root i)" for c x
    using that ok a
    by (auto simp: sc_tree_ok_def index_ok_def anchor_ok_def word_less_nat_alt in_set_conv_nth intro!: exI [of _ "unat x"])
  have "input_known cfg i s (k, input_commitments i ! k)" if "k < length (input_commitments i)" for k
    using i(3) that by (auto simp: list_all_iff in_set_enumerate_eq)
  then show ?thesis
    using i(1,2) a in_tree
    by (fastforce simp: input_known_def anchor_ok_def sc_compute_merkle_root_def split: if_splits option.splits)
qed

text \<open>
  A concrete configuration for the witnesses: a verifier that accepts, a hash that keeps its left
  half (so the root is the first leaf), balances as a function of account numbers.
\<close>

definition demo_sc_transfer ::
  "nat \<Rightarrow> nat \<Rightarrow> u128 \<Rightarrow> existence_requirement \<Rightarrow> (nat \<Rightarrow> nat) \<Rightarrow> nat + (nat \<Rightarrow> nat)" where
  "demo_sc_transfer a b x ex c =
     (if unat x \<le> c a then Inr (if a = b then c else c(a := c a - unat x, b := c b + unat x)) else Inl 0)"

definition demo_sc_verify :: sc_verify where
  "demo_sc_verify = \<lparr>sv_verify = (\<lambda>_ _. True), sv_verify_commitment = (\<lambda>_ _ _. True),
     sv_verify_opening_knowledge = (\<lambda>_ _ _ _. True), sv_verify_range_proof = (\<lambda>_ _ _ _. True),
     sv_pedersen_subtract = (\<lambda>a b. Some (a - b)), sv_verify_one_of_many = (\<lambda>_ _ _ _ _ _. True),
     sv_verify_deposit_open = (\<lambda>_ _ _ _. True), sv_verify_g1_pok = (\<lambda>_ _ _ _. True),
     sv_pad_group = (\<lambda>g _. g)\<rparr>"

definition demo_sc :: "(nat, nat \<Rightarrow> nat) sc_config" where
  "demo_sc = \<lparr>sc_codec = le_codec, sc_verifier = demo_sc_verify, sc_transfer = demo_sc_transfer,
     sc_pool = 0, sc_decode_account = (\<lambda>_. Some 7), sc_encode_account = (\<lambda>_. []),
     sc_blake2_256 = (\<lambda>bs. of_le_bytes (take 32 bs)), MaxProofSize = 100, MaxRangeProofSize = 100,
     MaxOutputs = 2\<rparr>"

lemma demo_sc_simps [simp]:
  "sc_codec demo_sc = le_codec" "sc_verifier demo_sc = demo_sc_verify" "sc_transfer demo_sc = demo_sc_transfer"
  "sc_pool demo_sc = 0" "sc_decode_account demo_sc d = Some 7" "sc_encode_account demo_sc a = []"
  "MaxProofSize demo_sc = 100" "MaxRangeProofSize demo_sc = 100" "MaxOutputs demo_sc = 2"
  by (simp_all add: demo_sc_def)

lemma demo_sc_verify_simps [simp]:
  "sv_verify demo_sc_verify p i" "sv_verify_opening_knowledge demo_sc_verify v c op b"
  "sv_verify_range_proof demo_sc_verify rp cs i n" "sv_verify_one_of_many demo_sc_verify op cs h v c b"
  "sv_verify_deposit_open demo_sc_verify c v op b" "sv_verify_g1_pok demo_sc_verify c h op b"
  "sv_pad_group demo_sc_verify g gid = g"
  by (simp_all add: demo_sc_verify_def)

lemma demo_sc_hash: "sc_leaf_hash demo_sc c = c" "sc_hash2 demo_sc a b = a"
  by (simp_all add: sc_leaf_hash_def sc_hash2_def demo_sc_def of_le_bytes_le_bytes)

definition demo_sc_deposit :: "nat origin \<times> sc_call" where
  "demo_sc_deposit = (Signed 1, sc_call_deposit_public (le_bytes 32 (9 :: h256)) (1 # replicate 12 0) [])"

definition demo_sc_inputs :: sc_public_inputs where
  "demo_sc_inputs = \<lparr>merkle_root = 9, new_merkle_root = 0, input_commitments = [9], input_indices = [],
     input_paths = [], nullifiers = [4], new_commitments = [6], ppi_tx_id = 3\<rparr>"

lemma demo_sc_root: "sc_compute_merkle_root demo_sc [c] = c" "sc_compute_merkle_root demo_sc [c, d] = c"
proof -
  have l: "ceillog2 (Suc (Suc 0)) = 1" by (rule ceillog2_eqI) simp_all
  show "sc_compute_merkle_root demo_sc [c] = c"
    using compute_merkle_root_subtree [of "[c]" "sc_hash2 demo_sc"] by (simp add: sc_compute_merkle_root_def)
  show "sc_compute_merkle_root demo_sc [c, d] = c"
    using compute_merkle_root_subtree [of "[c, d]" "sc_hash2 demo_sc"]
    by (simp add: sc_compute_merkle_root_def l demo_sc_hash)
qed

lemma demo_sc_parse: "parse_deposit_wire (1 # replicate 12 0) = Wire [] 0"
proof -
  have z: "of_le_bytes (replicate n 0) = (0 :: 'a::len word)" for n by (induction n) simp_all
  show ?thesis by (simp add: parse_deposit_wire_def z)
qed

lemma demo_sc_step:
  "run (sc_apply demo_sc) [demo_sc_deposit] (sc_genesis (\<lambda>_. 100)) =
     sc_deposit_event (DepositAccepted 9 9 []) (sc_after demo_sc [9] (sc_genesis (\<lambda>_. 100)))"
proof -
  have c: "of_le_bytes (le_bytes 32 (9 :: h256)) = (9 :: h256)" by (rule of_le_bytes_le_bytes) simp
  have "sc_apply demo_sc demo_sc_deposit (sc_genesis (\<lambda>_. 100)) =
     Inr (sc_deposit_event (DepositAccepted 9 9 []) (sc_after demo_sc [9] (sc_genesis (\<lambda>_. 100))))"
    by (simp add: sc_apply_def demo_sc_deposit_def sc_dispatch_def sc_deposit_public_def c demo_sc_parse
        sc_currency_transfer_def sc_insert_commitment_def push_leaf_def sc_put_leaves_def sc_after_def
        demo_sc_root demo_sc_hash demo_sc_transfer_def sc_genesis_def fun_upd_idem Let_def)
  then show ?thesis by simp
qed

lemma demo_sc_submit:
  "\<exists>s'. submit_proof demo_sc Unsigned [] [] (encode_sc_public_inputs le_codec demo_sc_inputs) []
     (run (sc_apply demo_sc) [demo_sc_deposit] (sc_genesis (\<lambda>_. 100))) = Inr s'"
proof -
  have d: "decode_sc_public_inputs le_codec (encode_sc_public_inputs le_codec demo_sc_inputs) = Some demo_sc_inputs"
    using decode_sc_public_inputs_enc [OF le_codec_laws, of demo_sc_inputs "[]"] by simp
  show ?thesis
    unfolding demo_sc_step
    by (simp add: submit_proof_def d sc_after_def push_leaf_def sc_put_leaves_def demo_sc_root demo_sc_hash
        sc_deposit_event_def sc_genesis_def Let_def)
      (simp add: demo_sc_inputs_def input_known_def push_leaf_def)
qed

lemma submit_inputs_in_tree_witness:
  "\<exists>s'. submit_proof demo_sc Unsigned [] [] (encode_sc_public_inputs le_codec demo_sc_inputs) []
      (run (sc_apply demo_sc) [demo_sc_deposit] (sc_genesis (\<lambda>_. 100))) = Inr s' \<and>
    (\<exists>i. decode_sc_public_inputs (sc_codec demo_sc) (encode_sc_public_inputs le_codec demo_sc_inputs) = Some i \<and>
      (merkle_root i = CurrentRoot (run (sc_apply demo_sc) [demo_sc_deposit] (sc_genesis (\<lambda>_. 100))) \<or>
       merkle_root i \<in> set (RecentRoots (run (sc_apply demo_sc) [demo_sc_deposit] (sc_genesis (\<lambda>_. 100))))))"
proof -
  obtain s' where s': "submit_proof demo_sc Unsigned [] [] (encode_sc_public_inputs le_codec demo_sc_inputs) []
      (run (sc_apply demo_sc) [demo_sc_deposit] (sc_genesis (\<lambda>_. 100))) = Inr s'"
    using demo_sc_submit by blast
  show ?thesis using submit_inputs_in_tree [OF refl s'] s' by blast
qed

section \<open>Coin groups\<close>

text \<open>
  The abstract state of the coin lane is the sequence of all coins. \<open>coins_rep\<close> says how the three
  storage items hold it: group \<open>g\<close> is the \<open>g\<close>-th chunk of 1024, the current group is the chunk of
  the last coin, and the location of a coin is its position.
\<close>

definition coins_rep :: "h256 list \<Rightarrow> 'ccy sc_state \<Rightarrow> bool" where
  "coins_rep coins s \<longleftrightarrow> distinct coins \<and> CurrentGroup s = of_nat ((length coins - 1) div 1024) \<and>
     (\<forall>g. CoinGroups s g = (if 1024 * unat g < length coins
        then Some (take 1024 (drop (1024 * unat g) coins)) else None)) \<and>
     (\<forall>c g i. CoinLocation s c = Some (g, i) \<longleftrightarrow>
        unat i < 1024 \<and> 1024 * unat g + unat i < length coins \<and> coins ! (1024 * unat g + unat i) = c)"

lemma coins_rep_view: "sc_coins s = sc_coins t \<Longrightarrow> coins_rep coins s = coins_rep coins t"
  by (simp add: coins_rep_def sc_coins_def)

lemma group_get_rep:
  assumes "coins_rep coins s"
  shows "group_get s g = take 1024 (drop (1024 * unat g) coins)"
  using assms by (simp add: group_get_def coins_rep_def)

lemma coin_group_rep:
  assumes "coins_rep coins s" and "length coins < 2 ^ 42"
  shows "coin_group s = of_nat (length coins div 1024)"
proof -
  define n where "n = length coins"
  have g: "CurrentGroup s = of_nat ((n - 1) div 1024)" using assms(1) by (simp add: coins_rep_def n_def)
  have u: "unat (of_nat ((n - 1) div 1024) :: u32) = (n - 1) div 1024"
    using assms(2) by (simp add: unat_of_nat_small n_def)
  have len: "length (group_get s (CurrentGroup s)) = min 1024 (n - 1024 * ((n - 1) div 1024))"
    unfolding group_get_rep [OF assms(1)] g u length_take length_drop n_def [symmetric] by simp
  show ?thesis
  proof (cases "length (group_get s (CurrentGroup s)) \<ge> 1024")
    case True
    then have "n div 1024 = Suc ((n - 1) div 1024)" using len by arith
    with True show ?thesis unfolding coin_group_def g n_def [symmetric] by (simp add: add.commute)
  next
    case False
    then have "n div 1024 = (n - 1) div 1024" using len by arith
    then show ?thesis using False unfolding coin_group_def g n_def [symmetric] by simp
  qed
qed

lemma coins_rep_step:
  assumes rep: "coins_rep coins s" and len: "length coins < 2 ^ 42" and st: "coin_step coin s s'"
  shows "coins_rep (coins @ [coin]) s'"
proof -
  define n where "n = length coins"
  define g where "g = n div 1024"
  have gb: "g < 2 ^ 32" using len by (simp add: g_def n_def)
  have ug: "unat (of_nat g :: u32) = g" using gb by (simp add: unat_of_nat_small)
  have cg: "coin_group s = of_nat g" using coin_group_rep [OF rep len] by (simp add: g_def n_def)
  have nm: "n = 1024 * g + n mod 1024" by (simp add: g_def)
  have lg: "length (drop (1024 * g) coins) = n mod 1024"
    unfolding length_drop n_def [symmetric] using nm by arith
  then have "length (drop (1024 * g) coins) \<le> 1024" by simp
  then have grp: "group_get s (of_nat g) = drop (1024 * g) coins"
    unfolding group_get_rep [OF rep] ug by simp
  have um: "unat (of_nat (n mod 1024) :: u32) = n mod 1024"
    by (rule unat_of_nat_small) (rule less_trans [of _ 1024], simp_all)
  have s': "CoinGroups s' = (CoinGroups s)(of_nat g \<mapsto> drop (1024 * g) coins @ [coin])"
    "CurrentGroup s' = of_nat g" "CoinLocation s' = (CoinLocation s)(coin \<mapsto> (of_nat g, of_nat (n mod 1024)))"
    "CoinLocation s coin = None"
    using st by (simp_all only: coin_step_def cg grp lg Let_def sc_coins_def prod.inject)
  have fresh: "coin \<notin> set coins"
  proof
    assume "coin \<in> set coins"
    then obtain k where k: "k < n" "coins ! k = coin" by (auto simp: in_set_conv_nth n_def)
    have "unat (of_nat (k div 1024) :: u32) = k div 1024" "unat (of_nat (k mod 1024) :: u32) = k mod 1024"
      using k len by (auto simp: n_def intro!: unat_of_nat_small)
    then have "CoinLocation s coin = Some (of_nat (k div 1024), of_nat (k mod 1024))"
      using rep k by (simp add: coins_rep_def n_def)
    with s'(4) show False by simp
  qed
  have groups: "CoinGroups s' h = (if 1024 * unat h < length (coins @ [coin])
      then Some (take 1024 (drop (1024 * unat h) (coins @ [coin]))) else None)" for h
  proof (cases "h = of_nat g")
    case True
    have "length (drop (1024 * g) coins @ [coin]) \<le> 1024" using lg by simp
    moreover have "1024 * g \<le> n" using nm by arith
    ultimately show ?thesis using True by (simp add: s'(1) ug n_def)
  next
    case False
    then have ne: "unat h \<noteq> g" using ug by auto
    have old: "CoinGroups s' h = CoinGroups s h" using False by (simp add: s'(1))
    have "n mod 1024 < 1024" by simp
    with nm ne consider "unat h < g" "1024 * unat h + 1024 \<le> n" | "g < unat h" "n < 1024 * unat h"
      by linarith
    then show ?thesis
    proof cases
      case 1
      then show ?thesis using rep by (simp add: old coins_rep_def n_def)
    next
      case 2
      then show ?thesis using rep by (simp add: old coins_rep_def n_def)
    qed
  qed
  have locs: "CoinLocation s' c = Some (h, i) \<longleftrightarrow> unat i < 1024 \<and>
      1024 * unat h + unat i < length (coins @ [coin]) \<and> (coins @ [coin]) ! (1024 * unat h + unat i) = c" for c h i
  proof (cases "1024 * unat h + unat i = n \<and> unat i < 1024")
    case True
    then have "unat i = n mod 1024" "unat h = g" using nm
      by (auto simp: g_def mod_mult_self4 div_mult_self4)
    then have "i = of_nat (n mod 1024)" "h = of_nat g" by (metis unat_of_nat_small word_unat_eq_iff ug um)+
    then show ?thesis using True fresh rep by (auto simp: s'(3) n_def coins_rep_def)
  next
    case False
    then have ne: "\<not> (h = of_nat g \<and> i = of_nat (n mod 1024))" using nm ug um by auto
    show ?thesis
    proof (cases "c = coin")
      case True
      then show ?thesis using ne fresh False by (auto simp: s'(3) nth_append n_def dest: nth_mem)
    next
      case c: False
      then show ?thesis using rep False by (auto simp: s'(3) nth_append n_def coins_rep_def less_Suc_eq)
    qed
  qed
  show ?thesis
    using rep fresh groups locs s'(2) by (auto simp: coins_rep_def g_def n_def)
qed

lemma coins_rep_run:
  assumes "coins_rep coins s" and "length coins + length cs \<le> 2 ^ 42"
  shows "\<exists>more. coins_rep (coins @ more) (run (sc_apply cfg) cs s) \<and> length more \<le> length cs"
  using assms
proof (induction cs arbitrary: coins s)
  case Nil
  then show ?case by (auto intro: exI [of _ "[]"])
next
  case (Cons c cs)
  show ?case
  proof (cases "sc_apply cfg c s")
    case (Inl e)
    then show ?thesis using Cons.IH [OF Cons.prems(1)] Cons.prems(2) by (auto simp: le_Suc_eq)
  next
    case (Inr s')
    then have "sc_dispatch cfg (fst c) (snd c) s = Inr s'" by (cases c) (auto dest: sc_apply_dispatch)
    from sc_dispatch_coins [OF this] show ?thesis
    proof
      assume "sc_coins s' = sc_coins s"
      then have "coins_rep coins s'" using Cons.prems(1) coins_rep_view by metis
      from Cons.IH [OF this] show ?thesis using Cons.prems(2) Inr by (auto simp: le_Suc_eq)
    next
      assume "\<exists>coin. coin_step coin s s'"
      then obtain coin where "coin_step coin s s'" ..
      then have "coins_rep (coins @ [coin]) s'"
        using Cons.prems by (intro coins_rep_step [of _ s]) auto
      from Cons.IH [OF this] Cons.prems(2) obtain more where
        "coins_rep ((coins @ [coin]) @ more) (run (sc_apply cfg) cs s')" "length more \<le> length cs"
        by auto
      then show ?thesis using Inr by (intro exI [of _ "coin # more"]) simp
    qed
  qed
qed

text \<open>
  C32. Coin groups are the chunks of one coin sequence: after any run from genesis of at most
  \<open>2 ^ 42\<close> extrinsics there is a sequence of distinct coins such that group \<open>g\<close> exists exactly when the
  sequence reaches it and holds its \<open>g\<close>-th chunk of 1024 coins (so only the last group can be
  partly filled), and \<open>CoinLocation\<close> gives exactly the position of each coin. The \<open>u32\<close> group number
  does not wrap within that bound.
\<close>

theorem coin_groups_chunked:
  assumes "length cs \<le> 2 ^ 42"
  shows "\<exists>coins. distinct coins \<and> length coins \<le> length cs \<and>
    (\<forall>g. CoinGroups (run (sc_apply cfg) cs (sc_genesis b)) g =
      (if 1024 * unat g < length coins then Some (take 1024 (drop (1024 * unat g) coins)) else None)) \<and>
    (\<forall>c g i. CoinLocation (run (sc_apply cfg) cs (sc_genesis b)) c = Some (g, i) \<longleftrightarrow>
      unat i < 1024 \<and> 1024 * unat g + unat i < length coins \<and> coins ! (1024 * unat g + unat i) = c)"
proof -
  have "coins_rep [] (sc_genesis b)" by (simp add: coins_rep_def sc_genesis_def fun_eq_iff)
  from coins_rep_run [OF this, of cs cfg] assms show ?thesis by (auto simp: coins_rep_def)
qed

lemma coin_groups_chunked_witness:
  "\<exists>coins. distinct coins \<and> length coins \<le> 2 \<and>
    (\<forall>g. CoinGroups (run (sc_apply demo_sc) [(Signed 1, sc_call_deposit_coin 8 0 []),
        (Signed 1, sc_call_deposit_coin 9 0 [])] (sc_genesis (\<lambda>_. 100))) g =
      (if 1024 * unat g < length coins then Some (take 1024 (drop (1024 * unat g) coins)) else None))"
  using coin_groups_chunked [of "[(Signed 1, sc_call_deposit_coin 8 0 []),
      (Signed 1, sc_call_deposit_coin 9 0 [])]" demo_sc "\<lambda>_. 100"] by auto

section \<open>Origins\<close>

fun required_origin :: "sc_call \<Rightarrow> 'acct origin \<Rightarrow> bool" where
  "required_origin (sc_call_set_rwa_price _ _) orig = (orig = Root)"
| "required_origin (sc_call_set_access_config _ _ _) orig = (orig = Root)"
| "required_origin (sc_call_deposit_public _ _ _) orig = (\<exists>who. orig = Signed who)"
| "required_origin (sc_call_deposit_coin _ _ _) orig = (\<exists>who. orig = Signed who)"
| "required_origin _ orig = (orig = Unsigned)"

text \<open>
  Every call has one kind of origin: an accepted extrinsic that sets a price or an application
  is Root's, one that deposits is signed, and one that spends is unsigned; and the pool admits no
  unsigned extrinsic outside the seven spends.
\<close>

theorem sc_origins:
  "(case sc_apply cfg (orig, call) s of Inl _ \<Rightarrow> True | Inr _ \<Rightarrow> required_origin call orig) \<and>
   (required_origin call (Unsigned :: 'acct origin) \<or> sc_validate_unsigned cfg call s = Inl Call)"
proof
  show "case sc_apply cfg (orig, call) s of Inl _ \<Rightarrow> True | Inr _ \<Rightarrow> required_origin call orig"
  proof (cases "sc_apply cfg (orig, call) s")
    case (Inr s')
    then have "sc_dispatch cfg orig call s = Inr s'" by (rule sc_apply_dispatch)
    then show ?thesis using Inr by (cases call) (auto simp: sc_dispatch_def dest!: sc_accepted)
  qed simp
  show "required_origin call (Unsigned :: 'acct origin) \<or> sc_validate_unsigned cfg call s = Inl Call"
    by (cases call) (simp_all add: sc_validate_defs)
qed

section \<open>The v1 lane's open ends\<close>

text \<open>
  A v1 note is not tied to its nullifier: two unsigned \<open>withdraw_private\<close> extrinsics on the same
  commitment both pay out whenever their nullifiers differ and are unused, each proves the opening
  with its own nullifier in the binding, and the pool can pay; nothing records that the commitment
  was spent. Any two nullifiers will do.
\<close>

theorem withdraw_private_repeatable:
  assumes "CommitmentIndex s c \<noteq> None" and "n1 \<noteq> n2" and "\<not> NullifierUsed s n1" and "\<not> NullifierUsed s n2"
    and "length op1 = 64" and "length op2 = 64" and "length d = 32" and "sc_decode_account cfg d = Some dest"
    and "sv_verify_opening_knowledge (sc_verifier cfg) v c op1 (withdraw_binding n1 c)"
    and "sv_verify_opening_knowledge (sc_verifier cfg) v c op2 (withdraw_binding n2 c)"
    and "sc_transfer cfg (sc_pool cfg) dest (ucast v) AllowDeath (sc_ccy s) = Inr b1"
    and "sc_transfer cfg (sc_pool cfg) dest (ucast v) AllowDeath b1 = Inr b2"
  shows "\<exists>s1 s2. sc_apply cfg (Unsigned, sc_call_withdraw_private c n1 op1 d v) s = Inr s1 \<and>
    sc_apply cfg (Unsigned, sc_call_withdraw_private c n2 op2 d v) s1 = Inr s2 \<and>
    sc_ccy s2 = b2 \<and> CommitmentIndex s2 c = CommitmentIndex s c"
  using assms
  by (simp add: sc_apply_def sc_validate_defs ValidTransaction_def sc_dispatch_def
      sc_withdraw_private_def sc_currency_transfer_def sc_deposit_event_def)

lemma withdraw_private_repeatable_witness:
  "\<exists>s1 s2. sc_apply demo_sc (Unsigned, sc_call_withdraw_private 9 1 (replicate 64 0) (replicate 32 0) 20)
      (run (sc_apply demo_sc) [demo_sc_deposit] (sc_genesis (\<lambda>_. 100))) = Inr s1 \<and>
    sc_apply demo_sc (Unsigned, sc_call_withdraw_private 9 2 (replicate 64 0) (replicate 32 0) 20) s1 = Inr s2 \<and>
    sc_ccy s2 = (\<lambda>_. 100)(0 := 60, 7 := 140) \<and>
    CommitmentIndex s2 9 = CommitmentIndex (run (sc_apply demo_sc) [demo_sc_deposit] (sc_genesis (\<lambda>_. 100))) 9"
  unfolding demo_sc_step
  by (rule withdraw_private_repeatable [where dest = 7 and ?b1.0 = "(\<lambda>_. 100)(0 := 80, 7 := 120)"])
    (simp_all add: sc_after_def push_leaf_def sc_put_leaves_def sc_deposit_event_def sc_genesis_def
      demo_sc_transfer_def fun_eq_iff Let_def)

text \<open>
  The deposit wire format in the runtime's 32-bit arithmetic: for an input below \<open>2 ^ 31\<close> bytes, a
  parsed input is \<open>1\<close>, the length and bytes of one proof, the amount, and an ignored rest; and parsing
  traps exactly on 13 bytes or more with the version byte \<open>1\<close> and a length field of at least
  \<open>2 ^ 32 - 13\<close>, for which \<open>5 + proof_len + 8\<close> wraps and passes the length check.
\<close>

theorem deposit_wire_spec:
  assumes "length rp < 2 ^ 31"
  shows "(\<forall>bp amount. parse_deposit_wire rp = Wire bp amount \<longrightarrow>
      (\<exists>rest. rp = 1 # le_bytes 4 (of_nat (length bp) :: u32) @ bp @ le_bytes 8 amount @ rest)) \<and>
    (parse_deposit_wire rp = WireTrap \<longleftrightarrow>
      13 \<le> length rp \<and> rp ! 0 = 1 \<and> 2 ^ 32 - 13 \<le> unat (of_le_bytes (take 4 (drop 1 rp)) :: u32))"
proof (cases "13 \<le> length rp \<and> rp ! 0 = 1")
  case False
  then show ?thesis by (auto simp: parse_deposit_wire_def)
next
  case True
  define l where "l = (of_le_bytes (take 4 (drop 1 rp)) :: u32)"
  define u where "u = unat l"
  have ub: "u < 2 ^ 32" unfolding u_def using unsigned_less [of l] by simp
  have n: "unat (of_nat (length rp) :: u32) = length rp" using assms by (intro unat_of_nat_small) simp
  have s1: "unat (5 + l) = (5 + u) mod 2 ^ 32" by (simp add: unat_word_ariths(1) u_def)
  have "5 + l + 8 = 13 + l" by simp
  then have s2: "unat (5 + l + 8) = (13 + u) mod 2 ^ 32" by (simp add: unat_word_ariths(1) u_def)
  have p: "parse_deposit_wire rp =
      (if \<not> (13 + u) mod 2 ^ 32 \<le> length rp then WireError
       else if (5 + u) mod 2 ^ 32 < 5 \<or> length rp < (5 + u) mod 2 ^ 32 then WireTrap
       else Wire (take u (drop 5 rp)) (of_le_bytes (take 8 (drop (5 + u) rp))))"
    using True unfolding parse_deposit_wire_def Let_def l_def [symmetric] word_le_nat_alt n s1 s2 u_def [symmetric]
    by (simp only: simp_thms if_True if_False)
  show ?thesis
  proof (cases "2 ^ 32 - 13 \<le> u")
    case big: True
    then have w: "(13 + u) mod 2 ^ 32 = u + 13 - 2 ^ 32" using ub by (simp add: le_mod_geq)
    have "(5 + u) mod 2 ^ 32 < 5 \<or> length rp < (5 + u) mod 2 ^ 32"
    proof (cases "2 ^ 32 \<le> 5 + u")
      case True
      then have "(5 + u) mod 2 ^ 32 = 5 + u - 2 ^ 32" using ub by (simp add: le_mod_geq)
      then show ?thesis using True ub by linarith
    next
      case False
      then show ?thesis using assms big by simp
    qed
    then have "parse_deposit_wire rp = WireTrap" using p w True ub by auto
    then show ?thesis using True big by (simp add: u_def l_def)
  next
    case small: False
    then have w: "(13 + u) mod 2 ^ 32 = 13 + u" "(5 + u) mod 2 ^ 32 = 5 + u" by simp_all
    have "\<exists>rest. rp = 1 # le_bytes 4 (of_nat (length bp) :: u32) @ bp @ le_bytes 8 amount @ rest"
      if "parse_deposit_wire rp = Wire bp amount" for bp amount
    proof -
      from that p w have bp: "bp = take u (drop 5 rp)" "amount = of_le_bytes (take 8 (drop (5 + u) rp))"
        and len: "13 + u \<le> length rp" by (auto split: if_splits)
      have lb: "length bp = u" using bp len by simp
      have a: "le_bytes 8 amount = take 8 (drop (5 + u) rp)"
        using len unfolding bp by (intro le_bytes_of_le_bytes) auto
      have "le_bytes 4 (of_nat (length bp) :: u32) = le_bytes 4 l" using lb by (simp add: u_def)
      also have "\<dots> = take 4 (drop 1 rp)"
        unfolding l_def using len by (intro le_bytes_of_le_bytes) auto
      finally have k: "le_bytes 4 (of_nat (length bp) :: u32) = take 4 (drop 1 rp)" .
      have "rp = rp ! 0 # take 4 (drop 1 rp) @ take u (drop 5 rp) @ take 8 (drop (5 + u) rp) @ drop (13 + u) rp"
      proof -
        have sp: "drop n rp = take a (drop n rp) @ drop (a + n) rp" for n a
          by (metis append_take_drop_id drop_drop)
        have "rp = rp ! 0 # drop 1 rp" using len by (cases rp) auto
        moreover have "drop 1 rp = take 4 (drop 1 rp) @ drop 5 rp" using sp [of 1 4] by simp
        moreover have "drop 5 rp = take u (drop 5 rp) @ drop (5 + u) rp"
          using sp [of 5 u] by (simp add: add.commute)
        moreover have "drop (5 + u) rp = take 8 (drop (5 + u) rp) @ drop (13 + u) rp"
          using sp [of "5 + u" 8] by (simp add: add.assoc [symmetric])
        ultimately show ?thesis by (metis append_assoc)
      qed
      then show ?thesis using True k a bp by metis
    qed
    then show ?thesis using p w small by (auto simp: u_def l_def split: if_splits)
  qed
qed

lemma deposit_wire_spec_witness:
  "parse_deposit_wire ([1] @ le_bytes 4 (- 13 :: u32) @ replicate 8 0) = WireTrap"
proof -
  have l: "of_le_bytes (le_bytes 4 (- 13 :: u32)) = (- 13 :: u32)" by (rule of_le_bytes_le_bytes) simp
  have "take 4 (drop 1 ([1] @ le_bytes 4 (- 13 :: u32) @ replicate 8 0)) = le_bytes 4 (- 13 :: u32)" by simp
  then show ?thesis
    using deposit_wire_spec [of "[1] @ le_bytes 4 (- 13 :: u32) @ replicate 8 0"] l by simp
qed

end
