(* ===== verification/AuthGate.thy ===== *)
theory AuthGate
  imports Poseidon
begin

text \<open>
  The access-key pallet of the AuthGate parachain,
  \<open>authgate-parachain/pallets/access-keys/src/lib.rs\<close>: app slots, access grants recorded by the
  ProofHub sovereign accounts, and single-use access keys. A bounded byte vector is a byte list;
  the admin origin check and BLAKE3 are parameters (\<open>ag_config\<close>).
\<close>

section \<open>State\<close>

record app_slot =
  slot_name :: bytes
  slot_price :: u64
  slot_payment_account :: h256
  slot_active :: bool

record access_grant =
  grant_app_id :: h256
  grant_nullifier :: h256
  grant_commitment :: h256
  grant_used :: bool

record 'acct ag_config =
  ag_admin :: "'acct origin \<Rightarrow> bool"
  ProofHubSovereign :: 'acct
  ProofHubSovereign2 :: 'acct
  ag_blake3 :: "bytes \<Rightarrow> h256"

datatype ag_event =
    AppSlotRegistered h256 u64
  | AppSlotUpdated h256
  | AccessGrantReceived h128 h256 h256 h256
  | AccessKeyUsed h128 h256

datatype ag_error =
    AppNotFound | AppNotActive | NotProofHubSovereign | GrantAlreadyRecorded | GrantNotFound
  | KeyAlreadyUsed | InvalidBlinding | AppIdMismatch

record ag_state =
  AppRegistry :: "h256 \<rightharpoonup> app_slot"
  AccessGrants :: "h128 \<rightharpoonup> access_grant"
  KeyUsed :: "h128 \<Rightarrow> bool"
  ag_events :: "ag_event list"

definition ag_empty :: ag_state where
  "ag_empty = \<lparr>AppRegistry = Map.empty, AccessGrants = Map.empty, KeyUsed = (\<lambda>_. False), ag_events = []\<rparr>"

definition ag_deposit :: "ag_event \<Rightarrow> ag_state \<Rightarrow> ag_state" where
  "ag_deposit e s = s\<lparr>ag_events := ag_events s @ [e]\<rparr>"

section \<open>Dispatchables\<close>

definition list_access_slot ::
  "'acct ag_config \<Rightarrow> 'acct origin \<Rightarrow> h256 \<Rightarrow> bytes \<Rightarrow> u64 \<Rightarrow> h256 \<Rightarrow> ag_state \<Rightarrow> ag_error dispatch_error + ag_state" where
  "list_access_slot cfg orig app_id name price payment_account s =
     ensure (ag_admin cfg orig) BadOrigin
     (let slot = \<lparr>slot_name = name, slot_price = price, slot_payment_account = payment_account,
                  slot_active = True\<rparr> in
      Inr (ag_deposit (AppSlotRegistered app_id price)
        (s\<lparr>AppRegistry := (AppRegistry s)(app_id \<mapsto> slot)\<rparr>)))"

definition update_access_slot ::
  "'acct ag_config \<Rightarrow> 'acct origin \<Rightarrow> h256 \<Rightarrow> bytes option \<Rightarrow> u64 option \<Rightarrow> h256 option \<Rightarrow> bool option \<Rightarrow>
     ag_state \<Rightarrow> ag_error dispatch_error + ag_state" where
  "update_access_slot cfg orig app_id name price payment_account active s =
     ensure (ag_admin cfg orig) BadOrigin
     (ok_or (AppRegistry s app_id) (Module AppNotFound) (\<lambda>slot.
      let slot = (case name of Some n \<Rightarrow> slot\<lparr>slot_name := n\<rparr> | None \<Rightarrow> slot);
          slot = (case price of Some p \<Rightarrow> slot\<lparr>slot_price := p\<rparr> | None \<Rightarrow> slot);
          slot = (case payment_account of Some pa \<Rightarrow> slot\<lparr>slot_payment_account := pa\<rparr> | None \<Rightarrow> slot);
          slot = (case active of Some a \<Rightarrow> slot\<lparr>slot_active := a\<rparr> | None \<Rightarrow> slot)
      in Inr (ag_deposit (AppSlotUpdated app_id) (s\<lparr>AppRegistry := (AppRegistry s)(app_id \<mapsto> slot)\<rparr>))))"

definition xcm_record_access_grant ::
  "'acct ag_config \<Rightarrow> 'acct origin \<Rightarrow> h256 \<Rightarrow> h256 \<Rightarrow> h128 \<Rightarrow> h256 \<Rightarrow> ag_state \<Rightarrow>
     ag_error dispatch_error + ag_state" where
  "xcm_record_access_grant cfg orig app_id nullifier tx_id access_key_commitment s =
     ok_or (ensure_signed orig) BadOrigin (\<lambda>caller.
     ensure (caller = ProofHubSovereign cfg \<or> caller = ProofHubSovereign2 cfg) (Module NotProofHubSovereign)
     (ok_or (AppRegistry s app_id) (Module AppNotFound) (\<lambda>slot.
      ensure (slot_active slot) (Module AppNotActive)
     (ensure (AccessGrants s tx_id = None) (Module GrantAlreadyRecorded)
     (let grant = \<lparr>grant_app_id = app_id, grant_nullifier = nullifier,
                   grant_commitment = access_key_commitment, grant_used = False\<rparr> in
      Inr (ag_deposit (AccessGrantReceived tx_id app_id nullifier access_key_commitment)
        (s\<lparr>AccessGrants := (AccessGrants s)(tx_id \<mapsto> grant)\<rparr>)))))))"

definition compute_access_key_commitment :: "'acct ag_config \<Rightarrow> h256 \<Rightarrow> h256 \<Rightarrow> h256" where
  "compute_access_key_commitment cfg app_id blinding =
     ag_blake3 cfg (ascii ''nulla_access_key_v1'' @ le_bytes 32 app_id @ le_bytes 32 blinding)"

definition use_access_key ::
  "'acct ag_config \<Rightarrow> 'acct origin \<Rightarrow> h128 \<Rightarrow> h256 \<Rightarrow> ag_state \<Rightarrow> ag_error dispatch_error + ag_state" where
  "use_access_key cfg orig tx_id blinding s =
     ok_or (ensure_signed orig) BadOrigin (\<lambda>_.
     ensure (\<not> KeyUsed s tx_id) (Module KeyAlreadyUsed)
     (ok_or (AccessGrants s tx_id) (Module GrantNotFound) (\<lambda>grant.
      ensure (\<not> grant_used grant) (Module KeyAlreadyUsed)
     (let expected = compute_access_key_commitment cfg (grant_app_id grant) blinding in
      ensure (expected = grant_commitment grant) (Module InvalidBlinding)
     (let grant = grant\<lparr>grant_used := True\<rparr>;
          s = s\<lparr>AccessGrants := (AccessGrants s)(tx_id \<mapsto> grant)\<rparr>;
          s = s\<lparr>KeyUsed := (KeyUsed s)(tx_id := True)\<rparr>
      in Inr (ag_deposit (AccessKeyUsed tx_id (grant_app_id grant)) s))))))"

section \<open>Extrinsics\<close>

datatype ag_call =
    call_list_access_slot h256 bytes u64 h256
  | call_update_access_slot h256 "bytes option" "u64 option" "h256 option" "bool option"
  | call_xcm_record_access_grant h256 h256 h128 h256
  | call_use_access_key h128 h256

definition ag_validate_unsigned :: "ag_call \<Rightarrow> validity" where
  "ag_validate_unsigned _ = Inl Call"

definition ag_dispatch ::
  "'acct ag_config \<Rightarrow> 'acct origin \<Rightarrow> ag_call \<Rightarrow> ag_state \<Rightarrow> ag_error dispatch_error + ag_state" where
  "ag_dispatch cfg orig call s = (case call of
     call_list_access_slot a n p pa \<Rightarrow> list_access_slot cfg orig a n p pa s
   | call_update_access_slot a n p pa act \<Rightarrow> update_access_slot cfg orig a n p pa act s
   | call_xcm_record_access_grant a n t k \<Rightarrow> xcm_record_access_grant cfg orig a n t k s
   | call_use_access_key t b \<Rightarrow> use_access_key cfg orig t b s)"

definition ag_apply ::
  "'acct ag_config \<Rightarrow> 'acct origin \<times> ag_call \<Rightarrow> ag_state \<Rightarrow> ag_error dispatch_error + ag_state" where
  "ag_apply cfg x s = (case x of (orig, call) \<Rightarrow>
     if orig = Unsigned then
       (case ag_validate_unsigned call of
          Inl e \<Rightarrow> Inl (InvalidTx e)
        | Inr _ \<Rightarrow> ag_dispatch cfg orig call s)
     else ag_dispatch cfg orig call s)"

section \<open>Effects\<close>

lemma ag_deposit_fields [simp]:
  "AppRegistry (ag_deposit e s) = AppRegistry s" "AccessGrants (ag_deposit e s) = AccessGrants s"
  "KeyUsed (ag_deposit e s) = KeyUsed s" "ag_events (ag_deposit e s) = ag_events s @ [e]"
  by (simp_all add: ag_deposit_def)

lemmas ag_handlers = ag_dispatch_def ag_validate_unsigned_def list_access_slot_def update_access_slot_def xcm_record_access_grant_def
  use_access_key_def

lemma ag_apply_cases:
  assumes "ag_apply cfg (orig, call) s = Inr s'"
  shows "(AccessGrants s' = AccessGrants s \<and> KeyUsed s' = KeyUsed s \<and>
      (\<forall>t b. call \<noteq> call_use_access_key t b) \<and> (\<forall>a n t k. call \<noteq> call_xcm_record_access_grant a n t k)) \<or>
    (\<exists>a n t k. call = call_xcm_record_access_grant a n t k \<and>
      (orig = Signed (ProofHubSovereign cfg) \<or> orig = Signed (ProofHubSovereign2 cfg)) \<and>
      (\<exists>slot. AppRegistry s a = Some slot \<and> slot_active slot) \<and> AccessGrants s t = None \<and>
      AccessGrants s' = (AccessGrants s)(t \<mapsto> \<lparr>grant_app_id = a, grant_nullifier = n,
        grant_commitment = k, grant_used = False\<rparr>) \<and> KeyUsed s' = KeyUsed s) \<or>
    (\<exists>t b g who. call = call_use_access_key t b \<and> orig = Signed who \<and> \<not> KeyUsed s t \<and>
      AccessGrants s t = Some g \<and> \<not> grant_used g \<and>
      compute_access_key_commitment cfg (grant_app_id g) b = grant_commitment g \<and>
      AccessGrants s' = (AccessGrants s)(t \<mapsto> g\<lparr>grant_used := True\<rparr>) \<and>
      KeyUsed s' = (KeyUsed s)(t := True))"
proof (cases call)
  case (call_list_access_slot a n p pa)
  then show ?thesis using assms
    by (auto simp: ag_apply_def ag_handlers Let_def split: sum.splits if_splits)
next
  case (call_update_access_slot a n p pa act)
  then show ?thesis using assms
    by (auto simp: ag_apply_def ag_handlers Let_def split: sum.splits if_splits)
next
  case (call_xcm_record_access_grant a n t k)
  then show ?thesis using assms
    by (auto simp: ag_apply_def ag_handlers Let_def split: sum.splits if_splits)
next
  case (call_use_access_key t b)
  then show ?thesis using assms
    by (auto simp: ag_apply_def ag_handlers Let_def split: sum.splits if_splits)
qed

section \<open>Keys and grants are used once\<close>

datatype ag_key = KGrant h128 | KKey h128

fun ag_used :: "ag_state \<Rightarrow> ag_key \<Rightarrow> bool" where
  "ag_used s (KGrant t) = (AccessGrants s t \<noteq> None)"
| "ag_used s (KKey t) = KeyUsed s t"

fun ag_consumes :: "'acct origin \<times> ag_call \<Rightarrow> ag_key set" where
  "ag_consumes (_, call_xcm_record_access_grant _ _ t _) = {KGrant t}"
| "ag_consumes (_, call_use_access_key t _) = {KKey t}"
| "ag_consumes _ = {}"

lemma ag_apply_guards:
  assumes "ag_apply cfg c s = Inr s'"
  shows "(k \<in> ag_consumes c \<longrightarrow> \<not> ag_used s k \<and> ag_used s' k) \<and> (ag_used s k \<longrightarrow> ag_used s' k)"
proof -
  obtain orig call where c: "c = (orig, call)" by (cases c)
  show ?thesis
    using ag_apply_cases [OF assms [unfolded c]] unfolding c
    by (cases k; cases call) auto
qed

interpretation ag: one_shot "ag_apply cfg" ag_used ag_consumes
  using ag_apply_guards by unfold_locales blast+

text \<open>
  An access key opens one session and a purchase is recorded once: over any sequence of
  extrinsics, at most one accepted \<open>use_access_key\<close> names a given purchase, and at most one
  accepted \<open>xcm_record_access_grant\<close> does.
\<close>

theorem access_key_single_use:
  "length (filter (\<lambda>c. k \<in> ag_consumes c) (accepted (ag_apply cfg) cs s)) \<le> 1"
  by (rule ag.at_most_once)

section \<open>Where grants come from\<close>

definition ag_inv :: "ag_state \<Rightarrow> bool" where
  "ag_inv s \<longleftrightarrow> (\<forall>t. KeyUsed s t = (\<exists>g. AccessGrants s t = Some g \<and> grant_used g))"

lemma ag_inv_step:
  assumes "ag_inv s" and "ag_apply cfg c s = Inr s'"
  shows "ag_inv s'"
proof -
  obtain orig call where c: "c = (orig, call)" by (cases c)
  show ?thesis
    using ag_apply_cases [OF assms(2) [unfolded c]] assms(1)
    by (elim disjE exE conjE) (auto simp: ag_inv_def)
qed

lemma ag_inv_reached: "ag_inv (run (ag_apply cfg) cs ag_empty)"
  by (rule run_invariant [where P = ag_inv, OF ag_inv_step]) (simp_all add: ag_inv_def ag_empty_def)

text \<open>
  The two records of use agree: in every state reached from the empty pallet, \<open>KeyUsed\<close> holds for
  a purchase exactly when its grant is stored and marked used.
\<close>

theorem key_used_iff_grant_used:
  "KeyUsed (run (ag_apply cfg) cs ag_empty) t =
    (\<exists>g. AccessGrants (run (ag_apply cfg) cs ag_empty) t = Some g \<and> grant_used g)"
  using ag_inv_reached [of cfg cs] by (simp add: ag_inv_def)

definition grant_matches :: "h128 \<Rightarrow> access_grant \<Rightarrow> ag_state \<Rightarrow> bool" where
  "grant_matches t g s \<longleftrightarrow>
     (\<exists>u. AccessGrants s t = Some (g\<lparr>grant_used := u\<rparr>))"

lemma grant_matches_step:
  assumes "ag_apply cfg c s = Inr s'" and "grant_matches t g s'"
  shows "grant_matches t g s \<or>
    (\<exists>o'. c = (o', call_xcm_record_access_grant (grant_app_id g) (grant_nullifier g) t (grant_commitment g)) \<and>
      (o' = Signed (ProofHubSovereign cfg) \<or> o' = Signed (ProofHubSovereign2 cfg)))"
proof -
  obtain orig call where c: "c = (orig, call)" by (cases c)
  from ag_apply_cases [OF assms(1) [unfolded c]] show ?thesis
  proof (elim disjE exE conjE)
    fix a n t' k
    assume "call = call_xcm_record_access_grant a n t' k"
      "AccessGrants s' = (AccessGrants s)(t' \<mapsto> \<lparr>grant_app_id = a, grant_nullifier = n,
        grant_commitment = k, grant_used = False\<rparr>)"
      "orig = Signed (ProofHubSovereign cfg)"
    then show ?thesis using assms(2) c by (cases g) (auto simp: grant_matches_def split: if_splits)
  next
    fix a n t' k
    assume "call = call_xcm_record_access_grant a n t' k"
      "AccessGrants s' = (AccessGrants s)(t' \<mapsto> \<lparr>grant_app_id = a, grant_nullifier = n,
        grant_commitment = k, grant_used = False\<rparr>)"
      "orig = Signed (ProofHubSovereign2 cfg)"
    then show ?thesis using assms(2) c by (cases g) (auto simp: grant_matches_def split: if_splits)
  next
    fix t' b g' who
    assume "AccessGrants s t' = Some g'" "AccessGrants s' = (AccessGrants s)(t' \<mapsto> g'\<lparr>grant_used := True\<rparr>)"
    then show ?thesis using assms(2)
      by (cases g; cases g') (auto simp: grant_matches_def split: if_splits)
  qed (use assms(2) in \<open>auto simp: grant_matches_def\<close>)
qed

text \<open>
  C29. No session without a recorded purchase: when an accepted \<open>use_access_key\<close> consumes a key in a
  state reached from the empty pallet, one of the two ProofHub sovereign accounts recorded the
  grant earlier with that purchase id, and the revealed blinding opens the commitment it recorded
  for the grant's app.
\<close>

theorem access_key_provenance:
  assumes "ag_apply cfg (orig, call_use_access_key t b) (run (ag_apply cfg) cs ag_empty) = Inr s'"
  shows "\<exists>o' a n. (o', call_xcm_record_access_grant a n t (compute_access_key_commitment cfg a b)) \<in>
      set (accepted (ag_apply cfg) cs ag_empty) \<and>
    (o' = Signed (ProofHubSovereign cfg) \<or> o' = Signed (ProofHubSovereign2 cfg))"
proof -
  let ?s = "run (ag_apply cfg) cs ag_empty"
  obtain g where g: "AccessGrants ?s t = Some g"
    and opens: "compute_access_key_commitment cfg (grant_app_id g) b = grant_commitment g"
    using ag_apply_cases [OF assms] by auto
  have "grant_matches t g ?s" using g by (auto simp: grant_matches_def intro!: exI [of _ "grant_used g"])
  moreover have "\<not> grant_matches t g ag_empty" by (simp add: grant_matches_def ag_empty_def)
  ultimately have "\<exists>c \<in> set (accepted (ag_apply cfg) cs ag_empty).
      \<exists>o'. c = (o', call_xcm_record_access_grant (grant_app_id g) (grant_nullifier g) t (grant_commitment g)) \<and>
        (o' = Signed (ProofHubSovereign cfg) \<or> o' = Signed (ProofHubSovereign2 cfg))"
    by (intro accepted_provenance [where Q = "grant_matches t g"] grant_matches_step)
  then show ?thesis using opens by metis
qed

definition demo_ag :: "nat ag_config" where
  "demo_ag = \<lparr>ag_admin = (\<lambda>o'. o' = Root), ProofHubSovereign = 2000, ProofHubSovereign2 = 2002,
     ag_blake3 = (\<lambda>bs. of_le_bytes (drop 51 bs))\<rparr>"

lemma access_key_provenance_witness:
  "\<exists>o' a n. (o', call_xcm_record_access_grant a n 9 (compute_access_key_commitment demo_ag a 3)) \<in>
      set (accepted (ag_apply demo_ag) [(Root, call_list_access_slot 1 [] 10 4),
        (Signed 2002, call_xcm_record_access_grant 1 7 9 (compute_access_key_commitment demo_ag 1 3))] ag_empty) \<and>
    (o' = Signed (ProofHubSovereign demo_ag) \<or> o' = Signed (ProofHubSovereign2 demo_ag))"
proof -
  have "\<exists>s'. ag_apply demo_ag (Signed 5, call_use_access_key 9 3)
      (run (ag_apply demo_ag) [(Root, call_list_access_slot 1 [] 10 4),
        (Signed 2002, call_xcm_record_access_grant 1 7 9 (compute_access_key_commitment demo_ag 1 3))] ag_empty)
      = Inr s'"
    by (simp add: ag_apply_def ag_handlers ValidTransaction_def ag_empty_def ag_deposit_def Let_def)
      (simp add: demo_ag_def)
  then show ?thesis using access_key_provenance by blast
qed

end
