(* ===== verification/RwaMarketplace.thy ===== *)
theory RwaMarketplace
  imports Poseidon
begin

text \<open>
  The RWA parachain: the asset registry (\<open>rwa-parachain/pallets/rwa-registry/src/lib.rs\<close>) and the
  marketplace over it (\<open>rwa-parachain/pallets/rwa-marketplace/src/lib.rs\<close>), which calls the
  registry's helpers directly. One state holds both pallets' storage; \<open>rwa_apply\<close> runs an
  extrinsic of either. Bounded byte vectors are byte lists.
\<close>

section \<open>The registry\<close>

datatype asset_category = RealEstate | Fleet | FinancialInstrument | Commodity | IntellectualProperty

record 'acct rwa_asset =
  asset_id :: u32
  asset_name :: bytes
  description :: bytes
  category :: asset_category
  usd_value_cents :: u128
  owner :: 'acct
  is_locked :: bool
  is_sold :: bool
  metadata :: bytes

record company_info =
  company_name :: bytes
  disclaimer :: bytes

datatype 'acct registry_event =
    AssetRegistered u32 bytes
  | AssetLocked u32
  | AssetUnlocked u32
  | AssetTransferred u32 'acct
  | MarkedSold u32

datatype registry_error = AssetNotFound | RegistryAlreadySold | AlreadyLocked | NotLocked | Unauthorized | TooLong

section \<open>The marketplace\<close>

datatype listing_status = Active | SoldPrivately | SoldPublicly | Cancelled | Redeemed

record 'acct listing =
  seller :: 'acct
  listing_asset_id :: u32
  price_hint :: u128
  status :: listing_status
  entry_commitment_hash :: "h256 option"

record 'acct redemption_claim =
  claim_asset_id :: u32
  claim_nullifier_hash :: h256
  contact :: "bytes option"
  redeemer :: 'acct

record purchase_record =
  pr_rwa_id :: h256
  pr_buyer :: h256
  pr_spend_tag :: h256
  pr_nullifier :: h256
  pr_ownership_commitment :: h256

datatype 'acct market_event =
    AssetListed u32 'acct u128
  | ListingCancelled u32
  | AssetSoldPrivately u32 'acct h256
  | RedemptionSubmitted u32 h256 'acct
  | AssetRedeemed u32 h256
  | ProofHubPurchaseReceived h128 u32 h256 h256 h256 h256
  | OwnershipRedeemedEvent h128 u32 'acct

datatype market_error =
    ListingNotFound | NotSeller | NotActive | AlreadySold | AssetNotAvailableForSale
  | NullifierAlreadyUsed | AssetNotSoldPrivately | NotProofHubSovereign | PurchaseAlreadyRecorded
  | PurchaseNotFound | OwnershipAlreadyRedeemed | InvalidOwnershipProof

datatype rwa_error = Registry registry_error | Market market_error

record 'acct rwa_config =
  rwa_admin :: "'acct origin \<Rightarrow> bool"
  rwa_sovereign :: 'acct
  rwa_blake3 :: "bytes \<Rightarrow> h256"

record 'acct rwa_state =
  Assets :: "u32 \<rightharpoonup> 'acct rwa_asset"
  NextAssetId :: u32
  Company :: "company_info option"
  registry_events :: "'acct registry_event list"
  Listings :: "u32 \<rightharpoonup> 'acct listing"
  RedemptionClaims :: "h256 \<rightharpoonup> 'acct redemption_claim"
  NullifierUsed :: "h256 \<Rightarrow> bool"
  ProofHubPurchases :: "h128 \<rightharpoonup> purchase_record"
  OwnershipRedeemed :: "h128 \<Rightarrow> bool"
  market_events :: "'acct market_event list"

definition saturating_succ :: "u32 \<Rightarrow> u32" where
  "saturating_succ n = (if n = - 1 then - 1 else n + 1)"

definition insert_genesis_asset :: "'acct rwa_asset \<Rightarrow> u32 \<times> (u32 \<rightharpoonup> 'acct rwa_asset) \<Rightarrow> u32 \<times> (u32 \<rightharpoonup> 'acct rwa_asset)" where
  "insert_genesis_asset asset x = (case x of (next_id, as) \<Rightarrow> (saturating_succ next_id, as(next_id \<mapsto> asset)))"

definition rwa_genesis :: "'acct rwa_asset list \<Rightarrow> company_info option \<Rightarrow> 'acct rwa_state" where
  "rwa_genesis assets company =
     (let (next_id, as) = fold insert_genesis_asset assets (0, Map.empty) in
      \<lparr>Assets = as, NextAssetId = next_id, Company = company, registry_events = [],
       Listings = Map.empty, RedemptionClaims = Map.empty, NullifierUsed = (\<lambda>_. False),
       ProofHubPurchases = Map.empty, OwnershipRedeemed = (\<lambda>_. False), market_events = []\<rparr>)"

definition reg_deposit :: "'acct registry_event \<Rightarrow> 'acct rwa_state \<Rightarrow> 'acct rwa_state" where
  "reg_deposit e s = s\<lparr>registry_events := registry_events s @ [e]\<rparr>"

definition mk_deposit :: "'acct market_event \<Rightarrow> 'acct rwa_state \<Rightarrow> 'acct rwa_state" where
  "mk_deposit e s = s\<lparr>market_events := market_events s @ [e]\<rparr>"

section \<open>Registry operations\<close>

definition register_asset ::
  "'acct rwa_config \<Rightarrow> 'acct origin \<Rightarrow> 'acct \<Rightarrow> bytes \<Rightarrow> bytes \<Rightarrow> asset_category \<Rightarrow> u128 \<Rightarrow> bytes \<Rightarrow>
     'acct rwa_state \<Rightarrow> rwa_error dispatch_error + 'acct rwa_state" where
  "register_asset cfg orig own name desc cat usd meta s =
     ensure (rwa_admin cfg orig) BadOrigin
     (let i = NextAssetId s;
          asset = \<lparr>asset_id = i, asset_name = name, description = desc, category = cat,
            usd_value_cents = usd, owner = own, is_locked = False, is_sold = False, metadata = meta\<rparr>
      in Inr (reg_deposit (AssetRegistered i name)
           (s\<lparr>Assets := (Assets s)(i \<mapsto> asset), NextAssetId := saturating_succ i\<rparr>)))"

definition lock_for_sale ::
  "'acct rwa_config \<Rightarrow> 'acct origin \<Rightarrow> u32 \<Rightarrow> 'acct rwa_state \<Rightarrow> rwa_error dispatch_error + 'acct rwa_state" where
  "lock_for_sale cfg orig i s =
     ensure (rwa_admin cfg orig) BadOrigin
     (ok_or (Assets s i) (Module (Registry AssetNotFound)) (\<lambda>asset.
      ensure (\<not> is_locked asset) (Module (Registry AlreadyLocked))
     (Inr (reg_deposit (AssetLocked i) (s\<lparr>Assets := (Assets s)(i \<mapsto> asset\<lparr>is_locked := True\<rparr>)\<rparr>)))))"

definition internal_mark_sold ::
  "u32 \<Rightarrow> 'acct rwa_state \<Rightarrow> rwa_error dispatch_error + 'acct rwa_state" where
  "internal_mark_sold i s =
     ok_or (Assets s i) (Module (Registry AssetNotFound)) (\<lambda>asset.
     ensure (\<not> is_sold asset) (Module (Registry RegistryAlreadySold))
    (Inr (s\<lparr>Assets := (Assets s)(i \<mapsto> asset\<lparr>is_sold := True\<rparr>)\<rparr>)))"

definition mark_sold ::
  "'acct rwa_config \<Rightarrow> 'acct origin \<Rightarrow> u32 \<Rightarrow> 'acct rwa_state \<Rightarrow> rwa_error dispatch_error + 'acct rwa_state" where
  "mark_sold cfg orig i s =
     ensure (rwa_admin cfg orig) BadOrigin
     (ok_or (Assets s i) (Module (Registry AssetNotFound)) (\<lambda>asset.
      ensure (\<not> is_sold asset) (Module (Registry RegistryAlreadySold))
     (Inr (reg_deposit (MarkedSold i) (s\<lparr>Assets := (Assets s)(i \<mapsto> asset\<lparr>is_sold := True\<rparr>)\<rparr>)))))"

definition release_after_redemption ::
  "'acct rwa_config \<Rightarrow> 'acct origin \<Rightarrow> u32 \<Rightarrow> 'acct rwa_state \<Rightarrow> rwa_error dispatch_error + 'acct rwa_state" where
  "release_after_redemption cfg orig i s =
     ensure (rwa_admin cfg orig) BadOrigin
     (ok_or (Assets s i) (Module (Registry AssetNotFound)) (\<lambda>asset.
      ensure (is_locked asset) (Module (Registry NotLocked))
     (Inr (reg_deposit (AssetUnlocked i) (s\<lparr>Assets := (Assets s)(i \<mapsto> asset\<lparr>is_locked := False\<rparr>)\<rparr>)))))"

definition internal_release :: "u32 \<Rightarrow> 'acct rwa_state \<Rightarrow> rwa_error dispatch_error + 'acct rwa_state" where
  "internal_release i s =
     ok_or (Assets s i) (Module (Registry AssetNotFound)) (\<lambda>asset.
     Inr (s\<lparr>Assets := (Assets s)(i \<mapsto> asset\<lparr>is_locked := False\<rparr>)\<rparr>))"

definition set_company_info ::
  "'acct rwa_config \<Rightarrow> 'acct origin \<Rightarrow> bytes \<Rightarrow> bytes \<Rightarrow> 'acct rwa_state \<Rightarrow>
     rwa_error dispatch_error + 'acct rwa_state" where
  "set_company_info cfg orig name discl s =
     ensure (rwa_admin cfg orig) BadOrigin
     (Inr (s\<lparr>Company := Some \<lparr>company_name = name, disclaimer = discl\<rparr>\<rparr>))"

definition is_available_for_sale :: "u32 \<Rightarrow> 'acct rwa_state \<Rightarrow> bool" where
  "is_available_for_sale i s = (case Assets s i of None \<Rightarrow> False | Some a \<Rightarrow> is_locked a \<and> \<not> is_sold a)"

definition asset_is_locked :: "u32 \<Rightarrow> 'acct rwa_state \<Rightarrow> bool" where
  "asset_is_locked i s = (case Assets s i of None \<Rightarrow> False | Some a \<Rightarrow> is_locked a)"

section \<open>Marketplace operations\<close>

definition list_asset ::
  "'acct rwa_config \<Rightarrow> 'acct origin \<Rightarrow> u32 \<Rightarrow> 'acct \<Rightarrow> u128 \<Rightarrow> 'acct rwa_state \<Rightarrow>
     rwa_error dispatch_error + 'acct rwa_state" where
  "list_asset cfg orig i sel hint s =
     ensure (rwa_admin cfg orig) BadOrigin
     (ensure (is_available_for_sale i s) (Module (Market AssetNotAvailableForSale))
     (let l = \<lparr>seller = sel, listing_asset_id = i, price_hint = hint, status = Active,
               entry_commitment_hash = None\<rparr> in
      Inr (mk_deposit (AssetListed i sel hint) (s\<lparr>Listings := (Listings s)(i \<mapsto> l)\<rparr>))))"

definition cancel_listing ::
  "'acct rwa_config \<Rightarrow> 'acct origin \<Rightarrow> u32 \<Rightarrow> 'acct rwa_state \<Rightarrow> rwa_error dispatch_error + 'acct rwa_state" where
  "cancel_listing cfg orig i s =
     ensure (rwa_admin cfg orig) BadOrigin
     (ok_or (Listings s i) (Module (Market ListingNotFound)) (\<lambda>l.
      ensure (status l = Active) (Module (Market NotActive))
     (let s = s\<lparr>Listings := (Listings s)(i \<mapsto> l\<lparr>status := Cancelled\<rparr>)\<rparr> in
      bind_res (internal_release i s) (\<lambda>s.
      Inr (mk_deposit (ListingCancelled i) s)))))"

definition buy_privately ::
  "'acct origin \<Rightarrow> u32 \<Rightarrow> h256 \<Rightarrow> 'acct rwa_state \<Rightarrow> rwa_error dispatch_error + 'acct rwa_state" where
  "buy_privately orig i h s =
     ok_or (ensure_signed orig) BadOrigin (\<lambda>buyer.
     ok_or (Listings s i) (Module (Market ListingNotFound)) (\<lambda>l.
     ensure (status l = Active) (Module (Market NotActive))
    (ensure (is_available_for_sale i s) (Module (Market AssetNotAvailableForSale))
    (let l = l\<lparr>status := SoldPrivately\<rparr>; l = l\<lparr>entry_commitment_hash := Some h\<rparr> in
     bind_res (internal_mark_sold i s) (\<lambda>s.
     let s = s\<lparr>Listings := (Listings s)(i \<mapsto> l)\<rparr> in
     Inr (mk_deposit (AssetSoldPrivately i buyer h) s))))))"

definition redeem_asset ::
  "'acct origin \<Rightarrow> u32 \<Rightarrow> h256 \<Rightarrow> bytes option \<Rightarrow> 'acct rwa_state \<Rightarrow>
     rwa_error dispatch_error + 'acct rwa_state" where
  "redeem_asset orig i nh cont s =
     ok_or (ensure_signed orig) BadOrigin (\<lambda>who.
     ensure (\<not> NullifierUsed s nh) (Module (Market NullifierAlreadyUsed))
    (ok_or (Listings s i) (Module (Market ListingNotFound)) (\<lambda>l.
     ensure (status l = SoldPrivately) (Module (Market AssetNotSoldPrivately))
    (let s = s\<lparr>NullifierUsed := (NullifierUsed s)(nh := True)\<rparr>;
         claim = \<lparr>claim_asset_id = i, claim_nullifier_hash = nh, contact = cont, redeemer = who\<rparr>;
         s = s\<lparr>RedemptionClaims := (RedemptionClaims s)(nh \<mapsto> claim)\<rparr>;
         s = s\<lparr>Listings := (Listings s)(i := map_option (\<lambda>l. l\<lparr>status := Redeemed\<rparr>) (Listings s i))\<rparr>
     in
     bind_res (internal_release i s) (\<lambda>s.
     let s = mk_deposit (RedemptionSubmitted i nh who) s
     in Inr (mk_deposit (AssetRedeemed i nh) s))))))"

definition rwa_id_of :: "u32 \<Rightarrow> h256" where
  "rwa_id_of i = ucast i"

definition xcm_record_purchase ::
  "'acct rwa_config \<Rightarrow> 'acct origin \<Rightarrow> u32 \<Rightarrow> h256 \<Rightarrow> h256 \<Rightarrow> h256 \<Rightarrow> h128 \<Rightarrow> h256 \<Rightarrow> 'acct rwa_state \<Rightarrow>
     rwa_error dispatch_error + 'acct rwa_state" where
  "xcm_record_purchase cfg orig i buyer spend_tag nullifier tx_id ownership_commitment s =
     ok_or (ensure_signed orig) BadOrigin (\<lambda>caller.
     ensure (caller = rwa_sovereign cfg) (Module (Market NotProofHubSovereign))
    (ensure (ProofHubPurchases s tx_id = None) (Module (Market PurchaseAlreadyRecorded))
    (let rec = \<lparr>pr_rwa_id = rwa_id_of i, pr_buyer = buyer, pr_spend_tag = spend_tag,
                pr_nullifier = nullifier, pr_ownership_commitment = ownership_commitment\<rparr>;
         s = s\<lparr>ProofHubPurchases := (ProofHubPurchases s)(tx_id \<mapsto> rec)\<rparr>
     in Inr (mk_deposit (ProofHubPurchaseReceived tx_id i buyer spend_tag nullifier ownership_commitment) s))))"

definition rwa_compute_ownership_commitment :: "'acct rwa_config \<Rightarrow> h256 \<Rightarrow> h256 \<Rightarrow> h256" where
  "rwa_compute_ownership_commitment cfg rwa_id blinding =
     rwa_blake3 cfg (ascii ''nulla_rwa_ownership_v1'' @ le_bytes 32 rwa_id @ le_bytes 32 blinding)"

definition redeem_rwa_ownership ::
  "'acct rwa_config \<Rightarrow> 'acct origin \<Rightarrow> h128 \<Rightarrow> h256 \<Rightarrow> 'acct rwa_state \<Rightarrow>
     rwa_error dispatch_error + 'acct rwa_state" where
  "redeem_rwa_ownership cfg orig tx_id blinding s =
     ok_or (ensure_signed orig) BadOrigin (\<lambda>who.
     ok_or (ProofHubPurchases s tx_id) (Module (Market PurchaseNotFound)) (\<lambda>rec.
     ensure (\<not> OwnershipRedeemed s tx_id) (Module (Market OwnershipAlreadyRedeemed))
    (let expected = rwa_compute_ownership_commitment cfg (pr_rwa_id rec) blinding in
     ensure (expected = pr_ownership_commitment rec) (Module (Market InvalidOwnershipProof))
    (let s = s\<lparr>OwnershipRedeemed := (OwnershipRedeemed s)(tx_id := True)\<rparr>;
         i = ucast (pr_rwa_id rec)
     in Inr (mk_deposit (OwnershipRedeemedEvent tx_id i who) s)))))"

section \<open>Extrinsics\<close>

datatype 'acct rwa_call =
    call_register_asset 'acct bytes bytes asset_category u128 bytes
  | call_lock_for_sale u32
  | call_mark_sold u32
  | call_release_after_redemption u32
  | call_set_company_info bytes bytes
  | call_list_asset u32 'acct u128
  | call_cancel_listing u32
  | call_buy_privately u32 h256
  | call_redeem_asset u32 h256 "bytes option"
  | call_xcm_record_purchase u32 h256 h256 h256 h128 h256
  | call_redeem_rwa_ownership h128 h256

text \<open>Neither pallet validates unsigned extrinsics, so an unsigned one never reaches dispatch.\<close>

definition rwa_apply ::
  "'acct rwa_config \<Rightarrow> 'acct origin \<times> 'acct rwa_call \<Rightarrow> 'acct rwa_state \<Rightarrow>
     rwa_error dispatch_error + 'acct rwa_state" where
  "rwa_apply cfg x s = (case x of (orig, call) \<Rightarrow>
     if orig = Unsigned then Inl (InvalidTx Call)
     else (case call of
       call_register_asset w n d c u m \<Rightarrow> register_asset cfg orig w n d c u m s
     | call_lock_for_sale i \<Rightarrow> lock_for_sale cfg orig i s
     | call_mark_sold i \<Rightarrow> mark_sold cfg orig i s
     | call_release_after_redemption i \<Rightarrow> release_after_redemption cfg orig i s
     | call_set_company_info n d \<Rightarrow> set_company_info cfg orig n d s
     | call_list_asset i w h \<Rightarrow> list_asset cfg orig i w h s
     | call_cancel_listing i \<Rightarrow> cancel_listing cfg orig i s
     | call_buy_privately i h \<Rightarrow> buy_privately orig i h s
     | call_redeem_asset i n c \<Rightarrow> redeem_asset orig i n c s
     | call_xcm_record_purchase i b st n t oc \<Rightarrow> xcm_record_purchase cfg orig i b st n t oc s
     | call_redeem_rwa_ownership t b \<Rightarrow> redeem_rwa_ownership cfg orig t b s))"

section \<open>Effects\<close>

lemma deposits [simp]:
  "Assets (reg_deposit e s) = Assets s" "NextAssetId (reg_deposit e s) = NextAssetId s"
  "Listings (reg_deposit e s) = Listings s" "NullifierUsed (reg_deposit e s) = NullifierUsed s"
  "ProofHubPurchases (reg_deposit e s) = ProofHubPurchases s"
  "OwnershipRedeemed (reg_deposit e s) = OwnershipRedeemed s"
  "Assets (mk_deposit f s) = Assets s" "NextAssetId (mk_deposit f s) = NextAssetId s"
  "Listings (mk_deposit f s) = Listings s" "NullifierUsed (mk_deposit f s) = NullifierUsed s"
  "ProofHubPurchases (mk_deposit f s) = ProofHubPurchases s"
  "OwnershipRedeemed (mk_deposit f s) = OwnershipRedeemed s"
  by (simp_all add: reg_deposit_def mk_deposit_def)

lemmas registry_handlers = register_asset_def lock_for_sale_def mark_sold_def
  release_after_redemption_def set_company_info_def internal_mark_sold_def internal_release_def

lemmas market_handlers = list_asset_def cancel_listing_def buy_privately_def redeem_asset_def
  xcm_record_purchase_def redeem_rwa_ownership_def

lemmas rwa_handlers = rwa_apply_def registry_handlers market_handlers Let_def

text \<open>What an accepted extrinsic does to the guards and to the recorded purchases.\<close>

datatype rwa_key = KRedemption h256 | KPurchase h128 | KOwnershipNote h128

fun rwa_used :: "'acct rwa_state \<Rightarrow> rwa_key \<Rightarrow> bool" where
  "rwa_used s (KRedemption n) = NullifierUsed s n"
| "rwa_used s (KPurchase t) = (ProofHubPurchases s t \<noteq> None)"
| "rwa_used s (KOwnershipNote t) = OwnershipRedeemed s t"

fun rwa_consumes :: "'acct origin \<times> 'acct rwa_call \<Rightarrow> rwa_key set" where
  "rwa_consumes (_, call_redeem_asset _ n _) = {KRedemption n}"
| "rwa_consumes (_, call_xcm_record_purchase _ _ _ _ t _) = {KPurchase t}"
| "rwa_consumes (_, call_redeem_rwa_ownership t _) = {KOwnershipNote t}"
| "rwa_consumes _ = {}"

lemma rwa_apply_guards:
  assumes "rwa_apply cfg (orig, call) s = Inr s'"
  shows "(k \<in> rwa_consumes (orig, call) \<longrightarrow> \<not> rwa_used s k \<and> rwa_used s' k) \<and> (rwa_used s k \<longrightarrow> rwa_used s' k)"
  using assms by (cases call; cases k) (auto simp: rwa_handlers split: if_splits)

interpretation rwa: one_shot "rwa_apply cfg" rwa_used rwa_consumes
  by unfold_locales (metis rwa_apply_guards surj_pair)+

text \<open>
  Every redemption is single: over any sequence of extrinsics of the RWA chain, at most one accepted
  \<open>redeem_asset\<close> uses a given nullifier, at most one \<open>xcm_record_purchase\<close> records a given purchase and
  at most one \<open>redeem_rwa_ownership\<close> redeems it.
\<close>

theorem rwa_redemption_single:
  "length (filter (\<lambda>c. k \<in> rwa_consumes c) (accepted (rwa_apply cfg) cs s)) \<le> 1"
  by (rule rwa.at_most_once)

section \<open>Where purchase records come from\<close>

lemma purchase_step:
  assumes "rwa_apply cfg (orig, call) s = Inr s'" and "ProofHubPurchases s' t = Some r"
  shows "ProofHubPurchases s t = Some r \<or>
    (\<exists>i. orig = Signed (rwa_sovereign cfg) \<and> pr_rwa_id r = rwa_id_of i \<and>
      call = call_xcm_record_purchase i (pr_buyer r) (pr_spend_tag r) (pr_nullifier r) t (pr_ownership_commitment r))"
  using assms by (cases call) (auto simp: rwa_handlers split: if_splits)

lemma redeem_rwa_ownership_accepted:
  assumes "rwa_apply cfg (orig, call_redeem_rwa_ownership t b) s = Inr s'"
  shows "\<exists>who r. orig = Signed who \<and> ProofHubPurchases s t = Some r \<and> \<not> OwnershipRedeemed s t \<and>
    rwa_compute_ownership_commitment cfg (pr_rwa_id r) b = pr_ownership_commitment r \<and>
    market_events s' = market_events s @ [OwnershipRedeemedEvent t (ucast (pr_rwa_id r)) who]"
  using assms by (auto simp: rwa_handlers mk_deposit_def split: if_splits)

text \<open>
  A physical release needs a recorded purchase: when \<open>redeem_rwa_ownership\<close> is accepted in a state
  reached from genesis, the ProofHub sovereign account recorded that purchase earlier, for the
  asset the release event names, and the revealed blinding opens the commitment it recorded.
\<close>

theorem ownership_provenance:
  assumes "rwa_apply cfg (orig, call_redeem_rwa_ownership t b) (run (rwa_apply cfg) cs (rwa_genesis as co)) = Inr s'"
  shows "\<exists>i buyer tag nul who. (Signed (rwa_sovereign cfg), call_xcm_record_purchase i buyer tag nul t
      (rwa_compute_ownership_commitment cfg (rwa_id_of i) b))
      \<in> set (accepted (rwa_apply cfg) cs (rwa_genesis as co)) \<and>
    last (market_events s') = OwnershipRedeemedEvent t i who"
proof -
  let ?s = "run (rwa_apply cfg) cs (rwa_genesis as co)"
  obtain who r where r: "ProofHubPurchases ?s t = Some r"
    "rwa_compute_ownership_commitment cfg (pr_rwa_id r) b = pr_ownership_commitment r"
    "market_events s' = market_events ?s @ [OwnershipRedeemedEvent t (ucast (pr_rwa_id r)) who]"
    using redeem_rwa_ownership_accepted [OF assms] by blast
  have "ProofHubPurchases (rwa_genesis as co) t \<noteq> Some r"
    by (simp add: rwa_genesis_def split: prod.splits)
  then have "\<exists>c \<in> set (accepted (rwa_apply cfg) cs (rwa_genesis as co)). \<exists>i. c = (Signed (rwa_sovereign cfg),
      call_xcm_record_purchase i (pr_buyer r) (pr_spend_tag r) (pr_nullifier r) t (pr_ownership_commitment r)) \<and>
      pr_rwa_id r = rwa_id_of i"
    using r(1) by (intro accepted_provenance [where Q = "\<lambda>s. ProofHubPurchases s t = Some r"])
      (auto dest!: purchase_step)
  moreover have "ucast (rwa_id_of i) = i" for i by (simp add: rwa_id_of_def)
  ultimately show ?thesis using r(2,3) by (metis last_snoc)
qed

section \<open>The life of a listing\<close>

text \<open>
  \<open>life_view i s\<close> is what the life cycle of asset \<open>i\<close> depends on: the status of its listing and
  whether it is sold.
\<close>

type_synonym life_state = "listing_status option \<times> bool option"

definition life_view :: "u32 \<Rightarrow> 'acct rwa_state \<Rightarrow> life_state" where
  "life_view i s = (map_option status (Listings s i), map_option is_sold (Assets s i))"

inductive life :: "life_state \<Rightarrow> life_state \<Rightarrow> bool" where
  registered: "life (None, None) (None, Some False)"
| listed: "life (st, Some False) (Some Active, Some False)"
| cancelled: "life (Some Active, sold) (Some Cancelled, sold)"
| bought: "life (Some Active, Some False) (Some SoldPrivately, Some True)"
| redeemed: "life (Some SoldPrivately, sold) (Some Redeemed, sold)"
| marked: "life (st, Some False) (st, Some True)"

inductive_cases life_soldE: "life (Some SoldPrivately, Some True) v"
inductive_cases life_redeemedE: "life (Some Redeemed, Some True) v"

definition rwa_inv :: "'acct rwa_state \<Rightarrow> bool" where
  "rwa_inv s \<longleftrightarrow>
     (\<forall>i \<in> dom (Assets s). i < NextAssetId s \<or> NextAssetId s = - 1) \<and>
     dom (Listings s) \<subseteq> dom (Assets s) \<and>
     (\<forall>i l. i \<noteq> - 1 \<longrightarrow> Listings s i = Some l \<longrightarrow> status l \<in> {SoldPrivately, Redeemed} \<longrightarrow>
       map_option is_sold (Assets s i) = Some True)"

lemma saturating_succ_le: "n < saturating_succ n \<or> saturating_succ n = - 1"
  by (auto simp: saturating_succ_def word_less_succ)

lemma less_saturating_succ: "i < n \<Longrightarrow> i < saturating_succ n \<or> saturating_succ n = - 1"
  using saturating_succ_le [of n] by auto

lemma rwa_inv_genesis: "rwa_inv (rwa_genesis as co)"
proof -
  have "\<forall>i \<in> dom (snd (fold insert_genesis_asset as (n, m))).
      i < fst (fold insert_genesis_asset as (n, m)) \<or> fst (fold insert_genesis_asset as (n, m)) = - 1"
    if "\<forall>i \<in> dom m. i < n \<or> n = - 1" for n m
    using that
  proof (induction as arbitrary: n m)
    case Nil
    then show ?case by simp
  next
    case (Cons a as)
    have "saturating_succ n = - 1" if "n = - 1" using that by (simp add: saturating_succ_def)
    then have "\<forall>i \<in> dom (m(n \<mapsto> a)). i < saturating_succ n \<or> saturating_succ n = - 1"
      using Cons.prems less_saturating_succ [of _ n] saturating_succ_le [of n] by (metis dom_fun_upd insertE option.distinct(1))
    moreover have "insert_genesis_asset a (n, m) = (saturating_succ n, m(n \<mapsto> a))"
      by (simp add: insert_genesis_asset_def)
    ultimately show ?case using Cons.IH [of "m(n \<mapsto> a)" "saturating_succ n"] by (simp only: fold_simps) blast
  qed
  from this [of Map.empty 0] show ?thesis
    by (auto simp: rwa_inv_def rwa_genesis_def split: prod.splits)
qed

text \<open>One extrinsic keeps the invariant and moves each asset along the life cycle.\<close>

lemma rwa_life_step:
  assumes "rwa_apply cfg (orig, call) s = Inr s'" and "rwa_inv s" and "i \<noteq> - 1"
  shows "life_view i s' = life_view i s \<or> life (life_view i s) (life_view i s')"
proof (cases call)
  case (call_register_asset w n d c u m)
  show ?thesis
  proof (cases "i = NextAssetId s")
    case True
    then have "Assets s i = None" using assms(2,3) by (auto simp: rwa_inv_def dom_def)
    moreover from this have "Listings s i = None" using assms(2) by (auto simp: rwa_inv_def dom_def)
    ultimately show ?thesis using assms(1) call_register_asset True
      by (auto simp: rwa_handlers life_view_def intro!: life.registered split: if_splits)
  next
    case False
    then show ?thesis using assms(1) call_register_asset
      by (auto simp: rwa_handlers life_view_def split: if_splits)
  qed
next
  case (call_mark_sold j)
  then show ?thesis using assms(1)
    by (auto simp: rwa_handlers life_view_def intro: life.intros split: if_splits)
next
  case (call_list_asset j w h)
  then show ?thesis using assms(1)
    by (auto simp: rwa_handlers life_view_def is_available_for_sale_def intro: life.intros
        split: if_splits option.splits)
next
  case (call_cancel_listing j)
  then show ?thesis using assms(1)
    by (auto simp: rwa_handlers life_view_def intro: life.intros split: if_splits)
next
  case (call_buy_privately j h)
  then show ?thesis using assms(1)
    by (auto simp: rwa_handlers life_view_def intro: life.intros split: if_splits)
next
  case (call_redeem_asset j n c)
  then show ?thesis using assms(1)
    by (auto simp: rwa_handlers life_view_def intro: life.intros split: if_splits)
qed (use assms(1) in \<open>auto simp: rwa_handlers life_view_def split: if_splits\<close>)

lemma rwa_dom_step:
  assumes "rwa_apply cfg (orig, call) s = Inr s'"
  shows "(NextAssetId s' = NextAssetId s \<and> dom (Assets s') = dom (Assets s) \<and>
      dom (Listings s') \<subseteq> dom (Listings s) \<union> dom (Assets s)) \<or>
    (NextAssetId s' = saturating_succ (NextAssetId s) \<and>
      dom (Assets s') = insert (NextAssetId s) (dom (Assets s)) \<and> Listings s' = Listings s)"
proof (cases call)
  case (call_list_asset i w h)
  then show ?thesis using assms
    by (auto simp: rwa_handlers is_available_for_sale_def dom_def split: if_splits option.splits)
next
  case (call_redeem_asset i n c)
  then show ?thesis using assms by (auto simp: rwa_handlers dom_def split: if_splits)
qed (use assms in \<open>auto simp: rwa_handlers split: if_splits\<close>)

lemma rwa_inv_step:
  assumes inv: "rwa_inv s" and acc: "rwa_apply cfg (orig, call) s = Inr s'"
  shows "rwa_inv s'"
proof -
  let ?low = "\<lambda>t. \<forall>i \<in> dom (Assets t). i < NextAssetId t \<or> NextAssetId t = - 1"
  have old: "?low s" "dom (Listings s) \<subseteq> dom (Assets s)" using inv by (simp_all add: rwa_inv_def)
  have "?low s' \<and> dom (Listings s') \<subseteq> dom (Assets s')"
    using rwa_dom_step [OF acc]
  proof (elim disjE conjE)
    assume "NextAssetId s' = NextAssetId s" "dom (Assets s') = dom (Assets s)"
      "dom (Listings s') \<subseteq> dom (Listings s) \<union> dom (Assets s)"
    then show ?thesis using old by (simp only: Un_absorb1)
  next
    assume n: "NextAssetId s' = saturating_succ (NextAssetId s)"
      and d: "dom (Assets s') = insert (NextAssetId s) (dom (Assets s))" and l: "Listings s' = Listings s"
    have "saturating_succ (NextAssetId s) = - 1" if "NextAssetId s = - 1"
      using that by (simp add: saturating_succ_def)
    then have "?low s'"
      unfolding n d using old(1) less_saturating_succ [of _ "NextAssetId s"] saturating_succ_le [of "NextAssetId s"]
      by (metis insertE)
    then show ?thesis using old(2) d l by auto
  qed
  moreover have "map_option is_sold (Assets s' i) = Some True"
    if "i \<noteq> - 1" and "Listings s' i = Some l" and "status l \<in> {SoldPrivately, Redeemed}" for i l
  proof -
    have v: "fst (life_view i s') = Some (status l)" using that by (simp add: life_view_def)
    have old: "fst (life_view i s) = Some st \<Longrightarrow> st \<in> {SoldPrivately, Redeemed} \<Longrightarrow>
        snd (life_view i s) = Some True" for st
      using inv that(1) by (auto simp: rwa_inv_def life_view_def)
    have "snd (life_view i s') = Some True"
      using rwa_life_step [OF acc inv that(1)] v that(3) old
      by (cases "life_view i s'"; cases "life_view i s") (auto elim: life.cases)
    then show ?thesis by (simp add: life_view_def)
  qed
  ultimately show ?thesis by (simp add: rwa_inv_def)
qed

lemma rwa_life_run:
  assumes "rwa_inv s" and "i \<noteq> - 1"
  shows "life\<^sup>*\<^sup>* (life_view i s) (life_view i (run (rwa_apply cfg) cs s))"
  using assms(1)
proof (induction cs arbitrary: s)
  case Nil
  then show ?case by simp
next
  case (Cons c cs)
  obtain orig call where c: "c = (orig, call)" by (cases c)
  show ?case
  proof (cases "rwa_apply cfg c s")
    case (Inl e)
    then show ?thesis using Cons by simp
  next
    case (Inr s')
    then have acc: "rwa_apply cfg (orig, call) s = Inr s'" using c by simp
    have "life\<^sup>*\<^sup>* (life_view i s') (life_view i (run (rwa_apply cfg) cs s'))"
      using Cons.IH rwa_inv_step [OF Cons.prems acc] by blast
    moreover have "life\<^sup>*\<^sup>* (life_view i s) (life_view i s')"
      using rwa_life_step [OF acc Cons.prems assms(2)] by auto
    ultimately show ?thesis using Inr by simp
  qed
qed

lemma rwa_inv_run: "rwa_inv s \<Longrightarrow> rwa_inv (run (rwa_apply cfg) cs s)"
  by (rule run_invariant [where P = rwa_inv]) (metis rwa_inv_step surj_pair)

text \<open>
  What each extrinsic does to one asset, guards included: the status of its listing, and whether the
  asset is locked and whether it is sold. \<open>adm\<close> says that the origin is the administrator, \<open>next_id\<close> is the
  next id.
\<close>

type_synonym asset_view = "listing_status option \<times> (bool \<times> bool) option"

definition asset_view :: "u32 \<Rightarrow> 'acct rwa_state \<Rightarrow> asset_view" where
  "asset_view i s = (map_option status (Listings s i), map_option (\<lambda>a. (is_locked a, is_sold a)) (Assets s i))"

fun asset_step :: "bool \<Rightarrow> u32 \<Rightarrow> 'acct rwa_call \<Rightarrow> u32 \<Rightarrow> asset_view \<Rightarrow> asset_view \<Rightarrow> bool" where
  "asset_step adm next_id (call_register_asset _ _ _ _ _ _) i v v' \<longleftrightarrow> adm \<and>
     (if i = next_id then v = (None, None) \<and> v' = (None, Some (False, False)) else v' = v)"
| "asset_step adm next_id (call_lock_for_sale j) i v v' \<longleftrightarrow> adm \<and>
     (if i = j then \<exists>so. snd v = Some (False, so) \<and> v' = (fst v, Some (True, so)) else v' = v)"
| "asset_step adm next_id (call_mark_sold j) i v v' \<longleftrightarrow> adm \<and>
     (if i = j then \<exists>lk. snd v = Some (lk, False) \<and> v' = (fst v, Some (lk, True)) else v' = v)"
| "asset_step adm next_id (call_release_after_redemption j) i v v' \<longleftrightarrow> adm \<and>
     (if i = j then \<exists>so. snd v = Some (True, so) \<and> v' = (fst v, Some (False, so)) else v' = v)"
| "asset_step adm next_id (call_list_asset j _ _) i v v' \<longleftrightarrow> adm \<and>
     (if i = j then snd v = Some (True, False) \<and> v' = (Some Active, Some (True, False)) else v' = v)"
| "asset_step adm next_id (call_cancel_listing j) i v v' \<longleftrightarrow> adm \<and>
     (if i = j then \<exists>lk so. v = (Some Active, Some (lk, so)) \<and> v' = (Some Cancelled, Some (False, so)) else v' = v)"
| "asset_step adm next_id (call_buy_privately j _) i v v' \<longleftrightarrow>
     (if i = j then v = (Some Active, Some (True, False)) \<and> v' = (Some SoldPrivately, Some (True, True)) else v' = v)"
| "asset_step adm next_id (call_redeem_asset j _ _) i v v' \<longleftrightarrow>
     (if i = j then \<exists>lk so. v = (Some SoldPrivately, Some (lk, so)) \<and> v' = (Some Redeemed, Some (False, so))
      else v' = v)"
| "asset_step adm next_id (call_set_company_info _ _) i v v' \<longleftrightarrow> adm \<and> v' = v"
| "asset_step adm next_id (call_xcm_record_purchase _ _ _ _ _ _) i v v' \<longleftrightarrow> v' = v"
| "asset_step adm next_id (call_redeem_rwa_ownership _ _) i v v' \<longleftrightarrow> v' = v"

lemma rwa_asset_step:
  assumes acc: "rwa_apply cfg (orig, call) s = Inr s'" and inv: "rwa_inv s" and i: "i \<noteq> - 1"
  shows "asset_step (rwa_admin cfg orig) (NextAssetId s) call i (asset_view i s) (asset_view i s')"
proof (cases call)
  case (call_register_asset w n d c u m)
  have none: "Assets s (NextAssetId s) = None" if "i = NextAssetId s"
    using inv i that by (auto simp: rwa_inv_def dom_def)
  then have "Listings s (NextAssetId s) = None" if "i = NextAssetId s"
    using inv that by (auto simp: rwa_inv_def dom_def)
  with none show ?thesis
    using acc call_register_asset by (auto simp: rwa_handlers asset_view_def split: if_splits)
qed (use acc in \<open>auto simp: rwa_handlers asset_view_def is_available_for_sale_def split: if_splits option.splits\<close>)

text \<open>A call that finds a flag clear and sets it for good is accepted once, under an invariant of the runs.\<close>

lemma accepted_once:
  assumes step: "\<And>c s s'. I s \<Longrightarrow> ex c s = Inr s' \<Longrightarrow> I s' \<and> (Q c \<longrightarrow> \<not> U s \<and> U s') \<and> (U s \<longrightarrow> U s')"
    and "I s"
  shows "length (filter Q (accepted ex cs s)) \<le> (if U s then 0 else 1)"
  using assms(2)
proof (induction cs arbitrary: s)
  case (Cons c cs)
  show ?case
  proof (cases "ex c s")
    case (Inl e)
    then show ?thesis using Cons by simp
  next
    case (Inr s')
    note st = step [OF Cons.prems Inr]
    have "length (filter Q (accepted ex cs s')) \<le> (if U s' then 0 else 1)" using Cons.IH st by blast
    then show ?thesis using st Inr by (auto split: if_splits)
  qed
qed simp

definition sold_now :: "u32 \<Rightarrow> 'acct rwa_state \<Rightarrow> bool" where
  "sold_now i s \<longleftrightarrow> (\<exists>lk. snd (asset_view i s) = Some (lk, True))"

definition redeemed_now :: "u32 \<Rightarrow> 'acct rwa_state \<Rightarrow> bool" where
  "redeemed_now i s \<longleftrightarrow> fst (asset_view i s) = Some Redeemed"

definition sells :: "u32 \<Rightarrow> 'acct origin \<times> 'acct rwa_call \<Rightarrow> bool" where
  "sells i c \<longleftrightarrow> (\<exists>h. snd c = call_buy_privately i h)"

definition redeems :: "u32 \<Rightarrow> 'acct origin \<times> 'acct rwa_call \<Rightarrow> bool" where
  "redeems i c \<longleftrightarrow> (\<exists>n k. snd c = call_redeem_asset i n k)"

lemma sale_step:
  assumes "rwa_inv s" and acc: "rwa_apply cfg c s = Inr s'" and i: "i \<noteq> - 1"
  shows "rwa_inv s'" and "sells i c \<longrightarrow> \<not> sold_now i s \<and> sold_now i s'" and "sold_now i s \<longrightarrow> sold_now i s'"
    and "redeems i c \<longrightarrow> \<not> redeemed_now i s \<and> redeemed_now i s'" and "redeemed_now i s \<longrightarrow> redeemed_now i s'"
proof -
  obtain orig call where c: "c = (orig, call)" by (cases c)
  have st: "asset_step (rwa_admin cfg orig) (NextAssetId s) call i (asset_view i s) (asset_view i s')"
    using rwa_asset_step [OF _ assms(1) i] acc c by simp
  have r: "snd (asset_view i s) \<noteq> Some (lk, False)" if "fst (asset_view i s) = Some Redeemed" for lk
    using assms(1) i that by (auto simp: rwa_inv_def asset_view_def)
  show "rwa_inv s'" using rwa_inv_step [OF assms(1)] acc c by simp
  show "sells i c \<longrightarrow> \<not> sold_now i s \<and> sold_now i s'"
    using st by (auto simp: c sells_def sold_now_def)
  show "sold_now i s \<longrightarrow> sold_now i s'"
    using st by (cases call) (auto simp: sold_now_def split: if_splits)
  show "redeems i c \<longrightarrow> \<not> redeemed_now i s \<and> redeemed_now i s'"
    using st by (auto simp: c redeems_def redeemed_now_def)
  show "redeemed_now i s \<longrightarrow> redeemed_now i s'"
    using st r by (cases call) (auto simp: redeemed_now_def split: if_splits)
qed

text \<open>
  C30. Listings follow the life cycle, step by step: in every state reached from genesis, an accepted
  extrinsic changes the listing status and the flags of an asset below the last id \<open>2 ^ 32 - 1\<close> only
  as \<open>asset_step\<close> says for its call, with that call's guards: only the administrator lists, and only an
  asset that is locked and unsold; only the administrator cancels, and only an active listing; only an
  active listing of a locked, unsold asset is bought; only a private sale is redeemed; the other calls
  of the administrator change the flags of the asset they name and no listing, and every call leaves the
  assets it does not name alone. In any run from genesis \<open>buy_privately\<close> is accepted at most once
  for the asset and \<open>redeem_asset\<close> at most once.
\<close>

theorem listing_lifecycle:
  assumes "i \<noteq> - 1"
  shows "(\<forall>orig call s'. rwa_apply cfg (orig, call) (run (rwa_apply cfg) cs (rwa_genesis as co)) = Inr s' \<longrightarrow>
      asset_step (rwa_admin cfg orig) (NextAssetId (run (rwa_apply cfg) cs (rwa_genesis as co))) call i
        (asset_view i (run (rwa_apply cfg) cs (rwa_genesis as co))) (asset_view i s')) \<and>
    length (filter (sells i) (accepted (rwa_apply cfg) cs (rwa_genesis as co))) \<le> 1 \<and>
    length (filter (redeems i) (accepted (rwa_apply cfg) cs (rwa_genesis as co))) \<le> 1"
proof (intro conjI)
  show "\<forall>orig call s'. rwa_apply cfg (orig, call) (run (rwa_apply cfg) cs (rwa_genesis as co)) = Inr s' \<longrightarrow>
      asset_step (rwa_admin cfg orig) (NextAssetId (run (rwa_apply cfg) cs (rwa_genesis as co))) call i
        (asset_view i (run (rwa_apply cfg) cs (rwa_genesis as co))) (asset_view i s')"
    using rwa_asset_step [OF _ rwa_inv_run [OF rwa_inv_genesis] assms] by blast
  have "length (filter (sells i) (accepted (rwa_apply cfg) cs (rwa_genesis as co))) \<le>
      (if sold_now i (rwa_genesis as co) then 0 else 1)"
    by (rule accepted_once [where I = rwa_inv, OF _ rwa_inv_genesis])
      (use sale_step(1-3) [OF _ _ assms] in blast)
  then show "length (filter (sells i) (accepted (rwa_apply cfg) cs (rwa_genesis as co))) \<le> 1"
    by (simp split: if_splits)
  have "length (filter (redeems i) (accepted (rwa_apply cfg) cs (rwa_genesis as co))) \<le>
      (if redeemed_now i (rwa_genesis as co) then 0 else 1)"
    by (rule accepted_once [where I = rwa_inv, OF _ rwa_inv_genesis])
      (use sale_step(1,4,5) [OF _ _ assms] in blast)
  then show "length (filter (redeems i) (accepted (rwa_apply cfg) cs (rwa_genesis as co))) \<le> 1"
    by (simp split: if_splits)
qed

lemma sold_final:
  "life\<^sup>*\<^sup>* v w \<Longrightarrow> v = (Some SoldPrivately, Some True) \<or> v = (Some Redeemed, Some True) \<Longrightarrow>
   w = (Some SoldPrivately, Some True) \<or> w = (Some Redeemed, Some True)"
  by (induction rule: rtranclp_induct) (auto elim: life_soldE life_redeemedE)

text \<open>
  A private sale is final: once an asset below the last id is sold privately, no further extrinsic
  cancels, relists or sells it again; its listing stays sold until it is redeemed, and stays redeemed.
\<close>

theorem private_sale_final:
  assumes "i \<noteq> - 1"
    and "map_option status (Listings (run (rwa_apply cfg) cs (rwa_genesis as co)) i) = Some st"
    and "st = SoldPrivately \<or> st = Redeemed"
  shows "map_option status (Listings (run (rwa_apply cfg) (cs @ ds) (rwa_genesis as co)) i)
    \<in> (if st = Redeemed then {Some Redeemed} else {Some SoldPrivately, Some Redeemed})"
proof -
  let ?s = "run (rwa_apply cfg) cs (rwa_genesis as co)"
  have inv: "rwa_inv ?s" by (rule rwa_inv_run [OF rwa_inv_genesis])
  have v: "life_view i ?s = (Some st, Some True)"
    using inv assms by (auto simp: rwa_inv_def life_view_def)
  have reach: "life\<^sup>*\<^sup>* (Some st, Some True) (life_view i (run (rwa_apply cfg) ds ?s))"
    using rwa_life_run [OF inv assms(1), of cfg ds] v by simp
  have "w = (Some Redeemed, Some True)" if "life\<^sup>*\<^sup>* (Some Redeemed, Some True) w" for w
    using that by (induction rule: rtranclp_induct) (auto elim: life_redeemedE)
  then show ?thesis
    using reach sold_final [OF reach] assms(3)
    by (auto simp: run_append life_view_def)
qed

section \<open>Concrete runs\<close>

definition demo_rwa :: "nat rwa_config" where
  "demo_rwa = \<lparr>rwa_admin = (\<lambda>o'. o' = Root), rwa_sovereign = 2000,
     rwa_blake3 = (\<lambda>bs. of_le_bytes (drop 54 bs))\<rparr>"

definition office_asset :: "nat rwa_asset" where
  "office_asset = \<lparr>asset_id = 0, asset_name = [], description = [], category = Fleet, usd_value_cents = 1,
     owner = 1, is_locked = True, is_sold = False, metadata = []\<rparr>"

lemma demo_genesis: "Assets (rwa_genesis [office_asset] None) = [0 \<mapsto> office_asset]"
  "Listings (rwa_genesis [office_asset] None) = Map.empty"
  by (simp_all add: rwa_genesis_def insert_genesis_asset_def)

lemma office_asset_flags: "is_locked office_asset" "\<not> is_sold office_asset"
  by (simp_all add: office_asset_def)

lemma listing_lifecycle_witness:
  "\<exists>s'. rwa_apply demo_rwa (Signed 3, call_buy_privately 0 9)
      (run (rwa_apply demo_rwa) [(Root, call_list_asset 0 1 5)] (rwa_genesis [office_asset] None)) = Inr s' \<and>
    asset_step False 1 (call_buy_privately 0 9 :: nat rwa_call) 0 (Some Active, Some (True, False)) (asset_view 0 s')"
proof -
  let ?s = "run (rwa_apply demo_rwa) [(Root, call_list_asset 0 1 5)] (rwa_genesis [office_asset] None)"
  obtain s' where acc: "rwa_apply demo_rwa (Signed 3, call_buy_privately 0 9) ?s = Inr s'"
    by (simp add: rwa_handlers is_available_for_sale_def demo_genesis demo_rwa_def office_asset_flags)
  have "asset_view 0 ?s = (Some Active, Some (True, False))" "NextAssetId ?s = 1"
    by (simp_all add: rwa_handlers is_available_for_sale_def demo_genesis demo_rwa_def office_asset_flags
        asset_view_def) (simp add: rwa_genesis_def insert_genesis_asset_def saturating_succ_def)
  moreover have "asset_step (rwa_admin demo_rwa (Signed 3)) (NextAssetId ?s) (call_buy_privately 0 9 :: nat rwa_call) 0
      (asset_view 0 ?s) (asset_view 0 s')"
    by (rule listing_lifecycle [of 0 demo_rwa "[(Root, call_list_asset 0 1 5)]" "[office_asset]" None,
          THEN conjunct1, rule_format, OF _ acc]) simp
  moreover have "\<not> rwa_admin demo_rwa (Signed 3)" by (simp add: demo_rwa_def)
  ultimately show ?thesis using acc by (intro exI [of _ s'] conjI) (simp_all only: simp_thms)
qed

lemma private_sale_final_witness:
  "map_option status (Listings (run (rwa_apply demo_rwa) ([(Root, call_list_asset 0 1 5),
      (Signed 3, call_buy_privately 0 9)] @ [(Root, call_list_asset 0 1 5), (Root, call_cancel_listing 0)])
      (rwa_genesis [office_asset] None)) 0) \<in> {Some SoldPrivately, Some Redeemed}"
proof -
  have "map_option status (Listings (run (rwa_apply demo_rwa) [(Root, call_list_asset 0 1 5),
      (Signed 3, call_buy_privately 0 9)] (rwa_genesis [office_asset] None)) 0) = Some SoldPrivately"
    by (simp add: rwa_handlers is_available_for_sale_def demo_genesis demo_rwa_def office_asset_flags)
  from private_sale_final [OF _ this, of "[(Root, call_list_asset 0 1 5), (Root, call_cancel_listing 0)]"]
  show ?thesis by simp
qed

lemma ownership_provenance_witness:
  "\<exists>i buyer tag nul who. (Signed (rwa_sovereign demo_rwa), call_xcm_record_purchase i buyer tag nul 7
      (rwa_compute_ownership_commitment demo_rwa (rwa_id_of i) 3))
      \<in> set (accepted (rwa_apply demo_rwa) [(Signed 2000, call_xcm_record_purchase 0 1 2 3 7
          (rwa_compute_ownership_commitment demo_rwa (rwa_id_of 0) 3))] (rwa_genesis [] None))"
proof -
  have "\<exists>s'. rwa_apply demo_rwa (Signed 5, call_redeem_rwa_ownership 7 3)
      (run (rwa_apply demo_rwa) [(Signed 2000, call_xcm_record_purchase 0 1 2 3 7
          (rwa_compute_ownership_commitment demo_rwa (rwa_id_of 0) 3))] (rwa_genesis [] None)) = Inr s'"
    by (simp add: rwa_handlers rwa_genesis_def mk_deposit_def) (simp add: demo_rwa_def)
  then show ?thesis using ownership_provenance by blast
qed

text \<open>
  C31. One asset can be released more than once: the marketplace records purchases under their own
  ids and never looks at the asset's listing, so in any state, two purchases of the same asset with
  fresh ids recorded by the sovereign account are both redeemed, each with a release event for the
  asset, whether or not the asset exists, is locked or is already sold.
\<close>

theorem asset_released_twice:
  assumes "ProofHubPurchases s t = None" and "ProofHubPurchases s u = None" and "t \<noteq> u"
    and "\<not> OwnershipRedeemed s t" and "\<not> OwnershipRedeemed s u"
  shows "\<exists>s'. market_events s' = market_events s @
      [ProofHubPurchaseReceived t i b1 tag1 n1 (rwa_compute_ownership_commitment cfg (rwa_id_of i) r1),
       ProofHubPurchaseReceived u i b2 tag2 n2 (rwa_compute_ownership_commitment cfg (rwa_id_of i) r2),
       OwnershipRedeemedEvent t i w1, OwnershipRedeemedEvent u i w2] \<and>
    s' = run (rwa_apply cfg)
      [(Signed (rwa_sovereign cfg), call_xcm_record_purchase i b1 tag1 n1 t
          (rwa_compute_ownership_commitment cfg (rwa_id_of i) r1)),
       (Signed (rwa_sovereign cfg), call_xcm_record_purchase i b2 tag2 n2 u
          (rwa_compute_ownership_commitment cfg (rwa_id_of i) r2)),
       (Signed w1, call_redeem_rwa_ownership t r1), (Signed w2, call_redeem_rwa_ownership u r2)] s"
  using assms by (simp add: rwa_handlers mk_deposit_def rwa_id_of_def)

lemma asset_released_twice_witness:
  "\<exists>s'. market_events s' = market_events (rwa_genesis [office_asset] None) @
      [ProofHubPurchaseReceived 1 0 4 5 6 (rwa_compute_ownership_commitment demo_rwa (rwa_id_of 0) 7),
       ProofHubPurchaseReceived 2 0 4 5 8 (rwa_compute_ownership_commitment demo_rwa (rwa_id_of 0) 9),
       OwnershipRedeemedEvent 1 0 10, OwnershipRedeemedEvent 2 0 11] \<and>
    s' = run (rwa_apply demo_rwa)
      [(Signed (rwa_sovereign demo_rwa), call_xcm_record_purchase 0 4 5 6 1
          (rwa_compute_ownership_commitment demo_rwa (rwa_id_of 0) 7)),
       (Signed (rwa_sovereign demo_rwa), call_xcm_record_purchase 0 4 5 8 2
          (rwa_compute_ownership_commitment demo_rwa (rwa_id_of 0) 9)),
       (Signed 10, call_redeem_rwa_ownership 1 7), (Signed 11, call_redeem_rwa_ownership 2 9)]
      (rwa_genesis [office_asset] None)"
  by (rule asset_released_twice) (simp_all add: rwa_genesis_def insert_genesis_asset_def)

end
