(* ===== verification/Xcm.thy ===== *)
theory Xcm
  imports XcmTypes ProofHubLane ScanProofLane AuthGate RwaMarketplace
begin

text \<open>
  The messages between the chains: \<open>RwaXcmDispatch\<close> and \<open>AccessGateXcmDispatch\<close> of
  \<open>proofhub/runtime/src/configs/mod.rs\<close> and \<open>scanproof/runtime/src/configs/mod.rs\<close> build a program
  with one \<open>Transact\<close>, whose call the receiving chain decodes and dispatches with the sovereign account
  of the sender. Routing belongs to the XCM crates; an error of it is swallowed by the sender, so a
  message is either lost or handled as below.
\<close>

section \<open>Sending\<close>

text \<open>A message is a program for a destination. Of the instructions, those the dispatchers use.\<close>

datatype instruction =
    UnpaidExecution
  | Transact "nat \<times> nat" bytes

record xcm_msg =
  xcm_dest :: location
  xcm_program :: "instruction list"

definition transact_to :: "u32 \<Rightarrow> bytes \<Rightarrow> xcm_msg" where
  "transact_to para call_data =
     \<lparr>xcm_dest = (1, [Parachain para]),
      xcm_program = [UnpaidExecution, Transact (500000000, 64 * 1024) call_data]\<rparr>"

text \<open>
  The dispatchers of ProofHub: \<open>send\<close> and \<open>send_transfer\<close> to the RWA chain, \<open>send\<close> to AuthGate. The
  asset id is the first four bytes of the RWA id.
\<close>

definition rwa_xcm_send :: "codec \<Rightarrow> h256 \<Rightarrow> h256 \<Rightarrow> h256 \<Rightarrow> u64 \<Rightarrow> h128 \<Rightarrow> h256 \<Rightarrow> xcm_msg" where
  "rwa_xcm_send C rwa_id nullifier spend_tag note_value tx_id ownership_commitment =
     (let asset_id = of_le_bytes (take 4 (le_bytes 32 rwa_id)) :: u32;
          call_data = [51, 4] @ enc (f_u32 C) asset_id @ enc (f_h256 C) spend_tag @
            enc (f_h256 C) nullifier @ enc (f_h128 C) tx_id @ enc (f_h256 C) ownership_commitment
      in transact_to 2001 call_data)"

definition rwa_xcm_send_transfer :: "codec \<Rightarrow> h128 \<Rightarrow> h256 \<Rightarrow> h128 \<Rightarrow> xcm_msg" where
  "rwa_xcm_send_transfer C old_tx_id new_ownership_commitment new_tx_id =
     (let call_data = [51, 6] @ enc (f_h128 C) old_tx_id @ enc (f_h256 C) new_ownership_commitment @
            enc (f_h128 C) new_tx_id
      in transact_to 2001 call_data)"

definition access_xcm_send :: "codec \<Rightarrow> h256 \<Rightarrow> h256 \<Rightarrow> h128 \<Rightarrow> h256 \<Rightarrow> xcm_msg" where
  "access_xcm_send C app_id nullifier tx_id access_key_commitment =
     (let call_data = [50, 2] @ enc (f_h256 C) app_id @ enc (f_h256 C) nullifier @
            enc (f_h128 C) tx_id @ enc (f_h256 C) access_key_commitment
      in transact_to 2003 call_data)"

definition ph_xcm :: "codec \<Rightarrow> dispatch_msg \<Rightarrow> xcm_msg" where
  "ph_xcm C msg = (case msg of
     RwaSend r n st v t oc \<Rightarrow> rwa_xcm_send C r n st v t oc
   | RwaSendTransfer t oc t' \<Rightarrow> rwa_xcm_send_transfer C t oc t'
   | AccessSend a n t k \<Rightarrow> access_xcm_send C a n t k)"

text \<open>The dispatchers of ScanProof.\<close>

definition sc_rwa_xcm_send :: "codec \<Rightarrow> h256 \<Rightarrow> h256 \<Rightarrow> h256 \<Rightarrow> u64 \<Rightarrow> h128 \<Rightarrow> h256 \<Rightarrow> xcm_msg" where
  "sc_rwa_xcm_send C rwa_id nullifier spend_tag note_value tx_id ownership_commitment =
     (let asset_id = of_le_bytes (take 4 (le_bytes 32 rwa_id)) :: u32;
          call_data = [51, 4] @ enc (f_u32 C) asset_id @ enc (f_h256 C) spend_tag @
            enc (f_h256 C) nullifier @ enc (f_h128 C) tx_id @ enc (f_h256 C) ownership_commitment
      in transact_to 2001 call_data)"

definition sc_access_xcm_send :: "codec \<Rightarrow> h256 \<Rightarrow> h256 \<Rightarrow> h128 \<Rightarrow> h256 \<Rightarrow> xcm_msg" where
  "sc_access_xcm_send C app_id nullifier tx_id access_key_commitment =
     (let call_data = [50, 2] @ enc (f_h256 C) app_id @ enc (f_h256 C) nullifier @
            enc (f_h128 C) tx_id @ enc (f_h256 C) access_key_commitment
      in transact_to 2003 call_data)"

definition sc_xcm :: "codec \<Rightarrow> sc_msg \<Rightarrow> xcm_msg" where
  "sc_xcm C msg = (case msg of
     ScRwaSend r n st v t oc \<Rightarrow> sc_rwa_xcm_send C r n st v t oc
   | ScAccessSend a n t k \<Rightarrow> sc_access_xcm_send C a n t k)"

section \<open>Receiving\<close>

text \<open>
  The derived decoder of the receiving chain's call: a pallet index, a call index, and the arguments
  of the dispatchable in order, trailing bytes ignored. \<open>other\<close> decodes the calls of the other
  pallets and call indices; an index no dispatchable has is an error.
\<close>

definition ag_runtime_call :: "codec \<Rightarrow> (bytes \<Rightarrow> ag_call option) \<Rightarrow> bytes \<Rightarrow> ag_call option" where
  "ag_runtime_call C other bs = (case bs of
     p # i # args \<Rightarrow>
       if p = 50 \<and> i = 2 then
         dec_then (f_h256 C) args (\<lambda>app_id bs. dec_then (f_h256 C) bs (\<lambda>nullifier bs.
         dec_then (f_h128 C) bs (\<lambda>tx_id bs. dec_then (f_h256 C) bs (\<lambda>access_key_commitment bs.
           Some (call_xcm_record_access_grant app_id nullifier tx_id access_key_commitment)))))
       else if p = 50 \<and> i \<ge> 4 then None
       else other bs
   | _ \<Rightarrow> None)"

definition rwa_runtime_call :: "codec \<Rightarrow> (bytes \<Rightarrow> 'acct rwa_call option) \<Rightarrow> bytes \<Rightarrow> 'acct rwa_call option" where
  "rwa_runtime_call C other bs = (case bs of
     p # i # args \<Rightarrow>
       if p = 51 \<and> i = 4 then
         dec_then (f_u32 C) args (\<lambda>asset_id bs. dec_then (f_h256 C) bs (\<lambda>buyer bs.
         dec_then (f_h256 C) bs (\<lambda>spend_tag bs. dec_then (f_h256 C) bs (\<lambda>nullifier bs.
         dec_then (f_h128 C) bs (\<lambda>tx_id bs. dec_then (f_h256 C) bs (\<lambda>ownership_commitment bs.
           Some (call_xcm_record_purchase asset_id buyer spend_tag nullifier tx_id ownership_commitment)))))))
       else if p = 51 \<and> i \<ge> 6 then None
       else other bs
   | _ \<Rightarrow> None)"

text \<open>
  The barriers of \<open>configs/xcm_config.rs\<close> of the two chains. The combinators of the XCM crates are
  parameters: \<open>xb_paid\<close> is \<open>TakeWeightCredit\<close> or \<open>AllowTopLevelPaidExecutionFrom\<close>, \<open>xb_deny\<close> the
  denial of reserve transfers to the relay, \<open>xb_unpaid\<close> \<open>AllowExplicitUnpaidExecutionFrom\<close>. So are the
  accounts of locations: \<open>xb_account\<close> is \<open>LocationToAccountId\<close>, \<open>xb_sibling\<close> the sovereign account of
  a sibling, \<open>Sibling::from(_).into_account_truncating()\<close>.
\<close>

record 'acct xcm_env =
  xb_paid :: "location \<Rightarrow> instruction list \<Rightarrow> bool"
  xb_deny :: "location \<Rightarrow> instruction list \<Rightarrow> bool"
  xb_unpaid :: "(location \<Rightarrow> bool) \<Rightarrow> location \<Rightarrow> instruction list \<Rightarrow> bool"
  xb_account :: "location \<Rightarrow> 'acct option"
  xb_sibling :: "u32 \<Rightarrow> 'acct"

text \<open>
  Their documented behaviour: a program that starts with \<open>UnpaidExecution\<close> is let through for the
  origins of the filter, and a sibling parachain acts with its sovereign account.
\<close>

definition xcm_laws :: "'acct xcm_env \<Rightarrow> bool" where
  "xcm_laws X \<longleftrightarrow>
     (\<forall>from l prog. from l \<longrightarrow> xb_unpaid X from l (UnpaidExecution # prog)) \<and>
     (\<forall>para. xb_account X (1, [Parachain para]) = Some (xb_sibling X para))"

definition ParentOrParentsExecutivePlurality :: "location \<Rightarrow> bool" where
  "ParentOrParentsExecutivePlurality l \<longleftrightarrow> l = (1, []) \<or> l = (1, [Plurality BodyExecutive])"

definition ag_ProofHubLocation :: "location \<Rightarrow> bool" where
  "ag_ProofHubLocation l \<longleftrightarrow> l = (1, [Parachain 2000]) \<or> l = (1, [Parachain 2002])"

definition ag_Barrier :: "'acct xcm_env \<Rightarrow> location \<Rightarrow> instruction list \<Rightarrow> bool" where
  "ag_Barrier X l prog \<longleftrightarrow> xb_paid X l prog \<or>
     xb_unpaid X ParentOrParentsExecutivePlurality l prog \<or> xb_unpaid X ag_ProofHubLocation l prog"

definition rwa_ProofHubLocation :: "location \<Rightarrow> bool" where
  "rwa_ProofHubLocation l \<longleftrightarrow> l = (1, [Parachain 2000])"

definition rwa_Barrier :: "'acct xcm_env \<Rightarrow> location \<Rightarrow> instruction list \<Rightarrow> bool" where
  "rwa_Barrier X l prog \<longleftrightarrow> \<not> xb_deny X l prog \<and> (xb_paid X l prog \<or>
     xb_unpaid X ParentOrParentsExecutivePlurality l prog \<or> xb_unpaid X rwa_ProofHubLocation l prog)"

text \<open>The configurations of the two pallets in their runtimes.\<close>

definition ag_runtime_config :: "'acct xcm_env \<Rightarrow> (bytes \<Rightarrow> h256) \<Rightarrow> 'acct ag_config" where
  "ag_runtime_config X b3 = \<lparr>ag_admin = (\<lambda>o'. o' = Root), ProofHubSovereign = xb_sibling X 2000,
     ProofHubSovereign2 = xb_sibling X 2002, ag_blake3 = b3\<rparr>"

definition rwa_runtime_config :: "'acct xcm_env \<Rightarrow> (bytes \<Rightarrow> h256) \<Rightarrow> 'acct rwa_config" where
  "rwa_runtime_config X b3 = \<lparr>rwa_admin = (\<lambda>o'. o' = Root), rwa_sovereign = xb_sibling X 2000,
     rwa_blake3 = b3\<rparr>"

text \<open>
  The execution of a program that the barrier lets through. A \<open>Transact\<close> whose call does not decode,
  whose origin has no account, or whose dispatch fails, leaves the storage as it was.
\<close>

definition transact :: "(bytes \<Rightarrow> 'call option) \<Rightarrow> ('acct \<Rightarrow> 'call \<Rightarrow> 's \<Rightarrow> 's) \<Rightarrow> 'acct option \<Rightarrow>
    instruction \<Rightarrow> 's \<Rightarrow> 's" where
  "transact decode dispatch who ins s = (case ins of
     UnpaidExecution \<Rightarrow> s
   | Transact _ call_data \<Rightarrow> (case (who, decode call_data) of
       (Some acct, Some call) \<Rightarrow> dispatch acct call s
     | _ \<Rightarrow> s))"

definition ag_receive :: "'acct xcm_env \<Rightarrow> (bytes \<Rightarrow> h256) \<Rightarrow> codec \<Rightarrow> (bytes \<Rightarrow> ag_call option) \<Rightarrow>
    location \<Rightarrow> xcm_msg \<Rightarrow> ag_state \<Rightarrow> ag_state" where
  "ag_receive X b3 C other from msg s =
     (if ag_Barrier X from (xcm_program msg)
      then fold (transact (ag_runtime_call C other)
             (\<lambda>acct call. run (ag_apply (ag_runtime_config X b3)) [(Signed acct, call)]) (xb_account X from))
           (xcm_program msg) s
      else s)"

definition rwa_receive :: "'acct xcm_env \<Rightarrow> (bytes \<Rightarrow> h256) \<Rightarrow> codec \<Rightarrow> (bytes \<Rightarrow> 'acct rwa_call option) \<Rightarrow>
    location \<Rightarrow> xcm_msg \<Rightarrow> 'acct rwa_state \<Rightarrow> 'acct rwa_state" where
  "rwa_receive X b3 C other from msg s =
     (if rwa_Barrier X from (xcm_program msg)
      then fold (transact (rwa_runtime_call C other)
             (\<lambda>acct call. run (rwa_apply (rwa_runtime_config X b3)) [(Signed acct, call)]) (xb_account X from))
           (xcm_program msg) s
      else s)"

section \<open>What arrives\<close>

text \<open>An access message decodes to the arguments it was sent with.\<close>

lemma access_message_decodes:
  assumes "codec_laws C"
  shows "ag_runtime_call C other
      (50 # 2 # enc (f_h256 C) a @ enc (f_h256 C) n @ enc (f_h128 C) t @ enc (f_h256 C) k) =
    Some (call_xcm_record_access_grant a n t k)"
  using assms codec_laws_dec(4) [OF assms, of k "[]"] by (simp add: ag_runtime_call_def dec_then_def)

lemma access_message_received:
  assumes "codec_laws C" and "xcm_laws X"
  shows "ag_receive X b3 C other (1, [Parachain 2000]) (ph_xcm C (AccessSend a n t k)) s =
      run (ag_apply (ag_runtime_config X b3))
        [(Signed (xb_sibling X 2000), call_xcm_record_access_grant a n t k)] s"
    "ag_receive X b3 C other (1, [Parachain 2002]) (sc_xcm C (ScAccessSend a n t k)) s =
      run (ag_apply (ag_runtime_config X b3))
        [(Signed (xb_sibling X 2002), call_xcm_record_access_grant a n t k)] s"
  using access_message_decodes [OF assms(1)] assms(2)
  by (simp_all add: ag_receive_def ph_xcm_def sc_xcm_def access_xcm_send_def sc_access_xcm_send_def
      transact_to_def ag_Barrier_def ag_ProofHubLocation_def xcm_laws_def transact_def)

text \<open>
  The grant of a message from a hub opens one session, for the blinding its commitment was made of:
  the call that uses the key succeeds after it.
\<close>

lemma granted_key_opens:
  assumes "sov = ProofHubSovereign cfg \<or> sov = ProofHubSovereign2 cfg"
    and "AppRegistry s a = Some slot" and "slot_active slot"
    and "AccessGrants s t = None" and "\<not> KeyUsed s t"
  shows "\<exists>s'. ag_apply cfg (Signed who, call_use_access_key t b)
    (run (ag_apply cfg) [(Signed sov,
       call_xcm_record_access_grant a n t (compute_access_key_commitment cfg a b))] s) = Inr s'"
  using assms by (auto simp: ag_apply_def ag_handlers Let_def)

text \<open>
  The arguments of an RWA message are 116 bytes, those of \<open>xcm_record_purchase\<close> 148: the buyer's
  account is missing, so the decoder runs out of input. The transfer message names a call index that
  the pallet does not have.
\<close>

lemma short_rwa_arguments:
  assumes "codec_laws C" and "length args < 148"
  shows "rwa_runtime_call C other (51 # 4 # args) = None"
proof (rule ccontr)
  note fw = codec_laws_fixed [OF assms(1)] and sp = codec_laws_fixed [OF assms(1), THEN fixed_width_SomeD]
  assume "rwa_runtime_call C other (51 # 4 # args) \<noteq> None"
  then obtain r0 r1 r2 r3 r4 r5 x0 x1 x2 x3 x4 x5 where
    "dec (f_u32 C) args = Some (x0, r0)" "dec (f_h256 C) r0 = Some (x1, r1)"
    "dec (f_h256 C) r1 = Some (x2, r2)" "dec (f_h256 C) r2 = Some (x3, r3)"
    "dec (f_h128 C) r3 = Some (x4, r4)" "dec (f_h256 C) r4 = Some (x5, r5)"
    by (auto simp: rwa_runtime_call_def dec_then_Some)
  then have "args = enc (f_u32 C) x0 @ enc (f_h256 C) x1 @ enc (f_h256 C) x2 @ enc (f_h256 C) x3 @
      enc (f_h128 C) x4 @ enc (f_h256 C) x5 @ r5"
    by (metis sp)
  then show False using assms codec_laws_length [OF assms(1)] by simp
qed

lemma rwa_messages_ignored:
  assumes "codec_laws C"
  shows "rwa_receive X b3 C other from (ph_xcm C (RwaSend r n st v t oc)) s = s"
    "rwa_receive X b3 C other from (ph_xcm C (RwaSendTransfer t oc t')) s = s"
    "rwa_receive X b3 C other from (sc_xcm C (ScRwaSend r n st v t oc)) s = s"
  using assms
  by (simp_all add: short_rwa_arguments rwa_receive_def ph_xcm_def sc_xcm_def rwa_xcm_send_def
      sc_rwa_xcm_send_def rwa_xcm_send_transfer_def transact_to_def transact_def Let_def
      rwa_runtime_call_def [of _ _ "51 # 6 # _"] split: option.split)

text \<open>The messages of a hub that are routed to a chain.\<close>

definition xcm_to :: "u32 \<Rightarrow> xcm_msg list \<Rightarrow> xcm_msg list" where
  "xcm_to para = filter (\<lambda>m. xcm_dest m = (1, [Parachain para]))"

lemma xcm_to_rwa:
  "m \<in> set (xcm_to 2001 (map (ph_xcm C) ms @ map (sc_xcm C) ms')) \<Longrightarrow>
    (\<exists>r n st v t oc. m = ph_xcm C (RwaSend r n st v t oc)) \<or>
    (\<exists>t oc t'. m = ph_xcm C (RwaSendTransfer t oc t')) \<or>
    (\<exists>r n st v t oc. m = sc_xcm C (ScRwaSend r n st v t oc))"
proof -
  assume m: "m \<in> set (xcm_to 2001 (map (ph_xcm C) ms @ map (sc_xcm C) ms'))"
  have "xcm_dest (ph_xcm C (AccessSend a n t k)) \<noteq> (1, [Parachain 2001])"
    "xcm_dest (sc_xcm C (ScAccessSend a n t k)) \<noteq> (1, [Parachain 2001])" for a n t k
    by (simp_all add: ph_xcm_def sc_xcm_def access_xcm_send_def sc_access_xcm_send_def transact_to_def)
  moreover obtain d where "m = ph_xcm C d \<and> xcm_dest m = (1, [Parachain 2001]) \<or> (\<exists>d'. m = sc_xcm C d' \<and> xcm_dest m = (1, [Parachain 2001]))"
    using m by (auto simp: xcm_to_def)
  ultimately show ?thesis by (metis dispatch_msg.exhaust sc_msg.exhaust)
qed

section \<open>A concrete environment\<close>

definition demo_xcm :: "nat xcm_env" where
  "demo_xcm = \<lparr>xb_paid = (\<lambda>_ _. False), xb_deny = (\<lambda>_ _. False),
     xb_unpaid = (\<lambda>from l prog. from l \<and> take 1 prog = [UnpaidExecution]),
     xb_account = (\<lambda>l. case l of (Suc 0, [Parachain para]) \<Rightarrow> Some (unat para) | _ \<Rightarrow> None), xb_sibling = unat\<rparr>"

lemma demo_xcm_laws: "xcm_laws demo_xcm"
  by (simp add: xcm_laws_def demo_xcm_def)

end
