(* ===== verification/Presets.thy ===== *)
theory Presets
  imports Xcm
begin

text \<open>
  The genesis presets of the four parachains, \<open>genesis_config_presets.rs\<close> of each runtime, with the demo
  assets that the RWA chain starts from. A preset is the patch that \<open>build_struct_json_patch!\<close> builds;
  its JSON text, the development keyring and the XCM version are parameters.
\<close>

section \<open>Genesis patches\<close>

text \<open>
  A collator has an account and an Aura key; \<open>k_well_known\<close> are the accounts of
  \<open>Sr25519Keyring::well_known()\<close>.
\<close>

record ('acct, 'aura) keyring =
  k_alice :: "'acct \<times> 'aura"
  k_bob :: "'acct \<times> 'aura"
  k_well_known :: "'acct list"
  k_xcm_version :: u32

record ('acct, 'aura) para_genesis =
  g_balances :: "('acct \<times> u128) list"
  g_parachain_id :: u32
  g_invulnerables :: "'acct list"
  g_candidacy_bond :: u128
  g_session_keys :: "('acct \<times> 'acct \<times> 'aura) list"
  g_safe_xcm_version :: "u32 option"
  g_sudo_key :: "'acct option"

record ('acct, 'aura) rwa_chain_genesis = "('acct, 'aura) para_genesis" +
  g_rwa_assets :: "'acct rwa_asset list"
  g_rwa_company :: "company_info option"

datatype preset_id = DEV_RUNTIME_PRESET | LOCAL_TESTNET_RUNTIME_PRESET | OtherPreset string

definition MILLI_UNIT :: u128 where "MILLI_UNIT = 1000000000"
definition EXISTENTIAL_DEPOSIT :: u128 where "EXISTENTIAL_DEPOSIT = MILLI_UNIT"

section \<open>ProofHub and ScanProof\<close>

definition ph_PARACHAIN_ID :: u32 where "ph_PARACHAIN_ID = 1000"
definition sc_PARACHAIN_ID :: u32 where "sc_PARACHAIN_ID = 2002"

definition ph_testnet_genesis ::
  "('acct, 'aura) keyring \<Rightarrow> ('acct \<times> 'aura) list \<Rightarrow> 'acct list \<Rightarrow> 'acct \<Rightarrow> u32 \<Rightarrow> ('acct, 'aura) para_genesis" where
  "ph_testnet_genesis K invulnerables endowed_accounts sudo i =
     \<lparr>g_balances = map (\<lambda>k. (k, push_bit 60 1)) endowed_accounts,
      g_parachain_id = i,
      g_invulnerables = map fst invulnerables,
      g_candidacy_bond = EXISTENTIAL_DEPOSIT * 16,
      g_session_keys = map (\<lambda>(acc, aura). (acc, acc, aura)) invulnerables,
      g_safe_xcm_version = Some (k_xcm_version K),
      g_sudo_key = Some sudo\<rparr>"

definition ph_local_testnet_genesis :: "('acct, 'aura) keyring \<Rightarrow> ('acct, 'aura) para_genesis" where
  "ph_local_testnet_genesis K =
     ph_testnet_genesis K [k_alice K, k_bob K] (k_well_known K) (fst (k_alice K)) ph_PARACHAIN_ID"

definition ph_development_config_genesis :: "('acct, 'aura) keyring \<Rightarrow> ('acct, 'aura) para_genesis" where
  "ph_development_config_genesis K =
     ph_testnet_genesis K [k_alice K, k_bob K] (k_well_known K) (fst (k_alice K)) ph_PARACHAIN_ID"

definition ph_get_preset ::
  "(('acct, 'aura) para_genesis \<Rightarrow> bytes) \<Rightarrow> ('acct, 'aura) keyring \<Rightarrow> preset_id \<Rightarrow> bytes option" where
  "ph_get_preset to_json K i = (case i of
     LOCAL_TESTNET_RUNTIME_PRESET \<Rightarrow> Some (to_json (ph_local_testnet_genesis K))
   | DEV_RUNTIME_PRESET \<Rightarrow> Some (to_json (ph_development_config_genesis K))
   | _ \<Rightarrow> None)"

definition ph_preset_names :: "preset_id list" where
  "ph_preset_names = [DEV_RUNTIME_PRESET, LOCAL_TESTNET_RUNTIME_PRESET]"

definition sc_testnet_genesis ::
  "('acct, 'aura) keyring \<Rightarrow> ('acct \<times> 'aura) list \<Rightarrow> 'acct list \<Rightarrow> 'acct \<Rightarrow> u32 \<Rightarrow> ('acct, 'aura) para_genesis" where
  "sc_testnet_genesis K invulnerables endowed_accounts sudo i =
     \<lparr>g_balances = map (\<lambda>k. (k, push_bit 60 1)) endowed_accounts,
      g_parachain_id = i,
      g_invulnerables = map fst invulnerables,
      g_candidacy_bond = EXISTENTIAL_DEPOSIT * 16,
      g_session_keys = map (\<lambda>(acc, aura). (acc, acc, aura)) invulnerables,
      g_safe_xcm_version = Some (k_xcm_version K),
      g_sudo_key = Some sudo\<rparr>"

definition sc_local_testnet_genesis :: "('acct, 'aura) keyring \<Rightarrow> ('acct, 'aura) para_genesis" where
  "sc_local_testnet_genesis K =
     sc_testnet_genesis K [k_alice K, k_bob K] (k_well_known K) (fst (k_alice K)) sc_PARACHAIN_ID"

definition sc_development_config_genesis :: "('acct, 'aura) keyring \<Rightarrow> ('acct, 'aura) para_genesis" where
  "sc_development_config_genesis K =
     sc_testnet_genesis K [k_alice K, k_bob K] (k_well_known K) (fst (k_alice K)) sc_PARACHAIN_ID"

definition sc_get_preset ::
  "(('acct, 'aura) para_genesis \<Rightarrow> bytes) \<Rightarrow> ('acct, 'aura) keyring \<Rightarrow> preset_id \<Rightarrow> bytes option" where
  "sc_get_preset to_json K i = (case i of
     LOCAL_TESTNET_RUNTIME_PRESET \<Rightarrow> Some (to_json (sc_local_testnet_genesis K))
   | DEV_RUNTIME_PRESET \<Rightarrow> Some (to_json (sc_development_config_genesis K))
   | _ \<Rightarrow> None)"

definition sc_preset_names :: "preset_id list" where
  "sc_preset_names = [DEV_RUNTIME_PRESET, LOCAL_TESTNET_RUNTIME_PRESET]"

section \<open>AuthGate\<close>

definition ag_PARACHAIN_ID :: u32 where "ag_PARACHAIN_ID = 2003"

definition authgate_genesis ::
  "('acct, 'aura) keyring \<Rightarrow> ('acct \<times> 'aura) list \<Rightarrow> 'acct list \<Rightarrow> u32 \<Rightarrow> 'acct \<Rightarrow> ('acct, 'aura) para_genesis" where
  "authgate_genesis K invulnerables endowed_accounts i root_key =
     \<lparr>g_balances = map (\<lambda>k. (k, push_bit 60 1)) endowed_accounts,
      g_parachain_id = i,
      g_invulnerables = map fst invulnerables,
      g_candidacy_bond = EXISTENTIAL_DEPOSIT * 16,
      g_session_keys = map (\<lambda>(acc, aura). (acc, acc, aura)) invulnerables,
      g_safe_xcm_version = Some (k_xcm_version K),
      g_sudo_key = Some root_key\<rparr>"

definition ag_local_testnet_genesis :: "('acct, 'aura) keyring \<Rightarrow> ('acct, 'aura) para_genesis" where
  "ag_local_testnet_genesis K =
     authgate_genesis K [k_alice K, k_bob K] (k_well_known K) ag_PARACHAIN_ID (fst (k_alice K))"

definition ag_get_preset ::
  "(('acct, 'aura) para_genesis \<Rightarrow> bytes) \<Rightarrow> ('acct, 'aura) keyring \<Rightarrow> preset_id \<Rightarrow> bytes option" where
  "ag_get_preset to_json K i = (case i of
     DEV_RUNTIME_PRESET \<Rightarrow> Some (to_json (ag_local_testnet_genesis K))
   | LOCAL_TESTNET_RUNTIME_PRESET \<Rightarrow> Some (to_json (ag_local_testnet_genesis K))
   | _ \<Rightarrow> None)"

definition ag_preset_names :: "preset_id list" where
  "ag_preset_names = [DEV_RUNTIME_PRESET, LOCAL_TESTNET_RUNTIME_PRESET]"

section \<open>The RWA chain\<close>

definition rwa_PARACHAIN_ID :: u32 where "rwa_PARACHAIN_ID = 2001"

definition MAX_NAME_LEN :: nat where "MAX_NAME_LEN = 64"
definition MAX_DESC_LEN :: nat where "MAX_DESC_LEN = 256"
definition MAX_META_LEN :: nat where "MAX_META_LEN = 512"
definition MAX_DISCLAIMER_LEN :: nat where "MAX_DISCLAIMER_LEN = 1024"
definition MAX_INFO_STR_LEN :: nat where "MAX_INFO_STR_LEN = 128"

text \<open>\<open>bvec!\<close> panics on a string beyond the bound, here \<open>None\<close>.\<close>

definition bvec :: "string \<Rightarrow> nat \<Rightarrow> bytes option" where
  "bvec s bound = (let bs = ascii s in if length bs \<le> bound then Some bs else None)"

text \<open>One literal \<open>RWAAsset\<close> of the list, whose fields differ in these arguments only.\<close>

definition demo_asset ::
  "u32 \<Rightarrow> string \<Rightarrow> string \<Rightarrow> asset_category \<Rightarrow> u128 \<Rightarrow> string \<Rightarrow> 'acct \<Rightarrow> 'acct rwa_asset option" where
  "demo_asset i name desc cat val meta admin =
     (case (bvec name MAX_NAME_LEN, bvec desc MAX_DESC_LEN, bvec meta MAX_META_LEN) of
        (Some name, Some desc, Some meta) \<Rightarrow>
          Some \<lparr>asset_id = i, asset_name = name, description = desc, category = cat, usd_value_cents = val,
            owner = admin, is_locked = True, is_sold = False, metadata = meta\<rparr>
      | _ \<Rightarrow> None)"

definition demo_real_estate :: "'acct \<Rightarrow> 'acct rwa_asset option list" where
  "demo_real_estate admin = [
    demo_asset 0 ''Office Tower Berlin''
      ''Prime 18-floor office tower in Mitte, Berlin, fully leased to tech tenants.''
      RealEstate 24000000000
      ''{\"location\":\"Berlin,DE\",\"sqm\":4200,\"floors\":18}'' admin,
    demo_asset 1 ''Residential Complex Prague''
      ''48-unit residential complex in Vinohrady, Prague, 95% occupancy.''
      RealEstate 8900000000
      ''{\"location\":\"Prague,CZ\",\"units\":48}'' admin,
    demo_asset 2 ''Warehouse Rotterdam Port''
      ''12,000 sqm logistics warehouse adjacent to Rotterdam Europort.''
      RealEstate 12000000000
      ''{\"location\":\"Rotterdam,NL\",\"sqm\":12000}'' admin,
    demo_asset 3 ''Retail Mall Madrid''
      ''Regional retail mall in northern Madrid suburbs, 120 tenants.''
      RealEstate 51000000000
      ''{\"location\":\"Madrid,ES\",\"tenants\":120}'' admin,
    demo_asset 4 ''Hotel Property Lisbon''
      ''4-star boutique hotel in historic Alfama district, Lisbon, 85 rooms.''
      RealEstate 37000000000
      ''{\"location\":\"Lisbon,PT\",\"rooms\":85,\"stars\":4}'' admin]"

definition demo_fleet :: "'acct \<Rightarrow> 'acct rwa_asset option list" where
  "demo_fleet admin = [
    demo_asset 5 ''Cargo Ship Hull RX-7721''
      ''Panamax bulk carrier, IMO 9812345, 76,000 DWT, built 2019, flagged Malta.''
      Fleet 83000000000
      ''{\"imo\":\"9812345\",\"dwt\":76000,\"flag\":\"MT\"}'' admin,
    demo_asset 6 ''European Truck Fleet 50 Units''
      ''50 x Mercedes-Benz Actros 2021 long-haul trucks, EUR 6 compliant.''
      Fleet 45000000000
      ''{\"make\":\"Mercedes-Benz\",\"model\":\"Actros\",\"count\":50,\"year\":2021}'' admin,
    demo_asset 7 ''Mining Equipment Set''
      ''Caterpillar 336 excavator fleet of 6 units, currently contracted in Poland.''
      Fleet 21000000000
      ''{\"make\":\"Caterpillar\",\"model\":\"336\",\"count\":6}'' admin,
    demo_asset 8 ''Solar Farm Array 100MW''
      ''100 MW photovoltaic installation in Andalusia, Spain, grid-connected.''
      Fleet 62000000000
      ''{\"location\":\"Andalusia,ES\",\"capacity_mw\":100,\"type\":\"PV\"}'' admin,
    demo_asset 9 ''Agriculture Machinery Pool''
      ''Pool of 12 John Deere combine harvesters leased to Ukrainian cooperatives.''
      Fleet 9800000000
      ''{\"make\":\"John Deere\",\"type\":\"combine\",\"count\":12}'' admin]"

definition demo_financial :: "'acct \<Rightarrow> 'acct rwa_asset option list" where
  "demo_financial admin = [
    demo_asset 10 ''Trade Finance Receivable A''
      ''Batch-A trade receivables from 10 exporters across MENA, 90-day maturity.''
      FinancialInstrument 5000000000
      ''{\"batch\":\"A\",\"borrowers\":10,\"maturity_days\":90}'' admin,
    demo_asset 11 ''Supply Chain Invoice Pool''
      ''Diversified invoice pool from 25 EU mid-cap suppliers, average 60-day terms.''
      FinancialInstrument 11000000000
      ''{\"suppliers\":25,\"avg_days\":60,\"region\":\"EU\"}'' admin,
    demo_asset 12 ''Corporate Bond Series 2026''
      ''5% coupon corporate bond maturing 2026, issued by NullaFinance AG, ISIN XS0000000001.''
      FinancialInstrument 100000000000
      ''{\"isin\":\"XS0000000001\",\"coupon\":\"5%\",\"maturity\":\"2026\"}'' admin,
    demo_asset 13 ''Infrastructure Revenue Share''
      ''15-year revenue share agreement on toll road A8 extension, Bavaria.''
      FinancialInstrument 32000000000
      ''{\"type\":\"revenue_share\",\"road\":\"A8\",\"years\":15}'' admin,
    demo_asset 14 ''Export Credit Note Series-1''
      ''Export credit note backed by ECA guarantee, covering machinery exports to Africa.''
      FinancialInstrument 7500000000
      ''{\"type\":\"export_credit\",\"eca\":\"EKF\",\"tenor_months\":24}'' admin]"

definition demo_ip_commodities :: "'acct \<Rightarrow> 'acct rwa_asset option list" where
  "demo_ip_commodities admin = [
    demo_asset 15 ''Patent Portfolio Biotech''
      ''12 patents in mRNA delivery and lipid nanoparticle synthesis, licensed to 3 pharma firms.''
      IntellectualProperty 28000000000
      ''{\"patents\":12,\"domain\":\"mRNA\",\"licensees\":3}'' admin,
    demo_asset 16 ''Carbon Credit Pool 50k tCO2''
      ''50,000 verified carbon credits (VCS) from reforestation projects in Brazil.''
      Commodity 14000000000
      ''{\"standard\":\"VCS\",\"tco2\":50000,\"origin\":\"BR\"}'' admin,
    demo_asset 17 ''Gold Reserve 100kg''
      ''100 kg of LBMA-certified 99.99% fine gold bars stored in Zurich vault.''
      Commodity 59000000000
      ''{\"purity\":\"99.99%\",\"weight_kg\":100,\"vault\":\"Zurich\"}'' admin,
    demo_asset 18 ''Software License Bundle''
      ''Enterprise perpetual licenses for 3 SaaS products with 800+ active business seats.''
      IntellectualProperty 6500000000
      ''{\"products\":3,\"seats\":800,\"type\":\"perpetual\"}'' admin,
    demo_asset 19 ''Art Collection Euro Masters''
      ''Curated collection of 8 European masters artworks, provenance verified, insured.''
      Commodity 42000000000
      ''{\"pieces\":8,\"insured\":true,\"provenance\":\"verified\"}'' admin]"

definition demo_assets :: "'acct \<Rightarrow> 'acct rwa_asset list option" where
  "demo_assets admin =
     those (demo_real_estate admin @ demo_fleet admin @ demo_financial admin @ demo_ip_commodities admin)"

definition demo_company :: "company_info option" where
  "demo_company =
     (case (bvec ''Nulla RWA Company (Demo)'' MAX_INFO_STR_LEN,
        bvec (''This parachain is independently operated for demonstration purposes only. '' @
              ''Nulla developers assume no liability for the assets listed herein. '' @
              ''Do not use with real funds.'') MAX_DISCLAIMER_LEN) of
        (Some name, Some discl) \<Rightarrow> Some \<lparr>company_name = name, disclaimer = discl\<rparr>
      | _ \<Rightarrow> None)"

definition rwa_testnet_genesis ::
  "('acct, 'aura) keyring \<Rightarrow> ('acct \<times> 'aura) list \<Rightarrow> 'acct list \<Rightarrow> 'acct \<Rightarrow> u32 \<Rightarrow>
     ('acct, 'aura) rwa_chain_genesis option" where
  "rwa_testnet_genesis K invulnerables endowed_accounts sudo i =
     (let admin = sudo in
      case (demo_assets admin, demo_company) of
        (Some assets, Some company) \<Rightarrow>
          Some \<lparr>g_balances = map (\<lambda>k. (k, push_bit 60 1)) endowed_accounts,
            g_parachain_id = i,
            g_invulnerables = map fst invulnerables,
            g_candidacy_bond = EXISTENTIAL_DEPOSIT * 16,
            g_session_keys = map (\<lambda>(acc, aura). (acc, acc, aura)) invulnerables,
            g_safe_xcm_version = Some (k_xcm_version K),
            g_sudo_key = Some sudo,
            g_rwa_assets = assets,
            g_rwa_company = Some company\<rparr>
      | _ \<Rightarrow> None)"

definition rwa_local_testnet_genesis ::
  "('acct, 'aura) keyring \<Rightarrow> ('acct, 'aura) rwa_chain_genesis option" where
  "rwa_local_testnet_genesis K =
     rwa_testnet_genesis K [k_alice K, k_bob K] (k_well_known K) (fst (k_alice K)) rwa_PARACHAIN_ID"

definition rwa_development_config_genesis ::
  "('acct, 'aura) keyring \<Rightarrow> ('acct, 'aura) rwa_chain_genesis option" where
  "rwa_development_config_genesis K =
     rwa_testnet_genesis K [k_alice K, k_bob K] (k_well_known K) (fst (k_alice K)) rwa_PARACHAIN_ID"

text \<open>The outer option of \<open>rwa_get_preset\<close> is the panic of \<open>bvec!\<close>, the inner one an unknown preset.\<close>

definition rwa_get_preset ::
  "(('acct, 'aura) rwa_chain_genesis \<Rightarrow> bytes) \<Rightarrow> ('acct, 'aura) keyring \<Rightarrow> preset_id \<Rightarrow> bytes option option" where
  "rwa_get_preset to_json K i = (case i of
     LOCAL_TESTNET_RUNTIME_PRESET \<Rightarrow> map_option (Some \<circ> to_json) (rwa_local_testnet_genesis K)
   | DEV_RUNTIME_PRESET \<Rightarrow> map_option (Some \<circ> to_json) (rwa_development_config_genesis K)
   | _ \<Rightarrow> Some None)"

text \<open>The names that \<open>apis.rs\<close> lists.\<close>

definition rwa_preset_names :: "preset_id list" where
  "rwa_preset_names = [LOCAL_TESTNET_RUNTIME_PRESET, DEV_RUNTIME_PRESET]"

text \<open>The registry and the marketplace as the genesis build leaves them.\<close>

definition rwa_build_state :: "('acct, 'aura) rwa_chain_genesis \<Rightarrow> 'acct rwa_state" where
  "rwa_build_state g = rwa_genesis (g_rwa_assets g) (g_rwa_company g)"

section \<open>The demo assets\<close>

lemma bvec_Some [simp]: "length s \<le> bound \<Longrightarrow> bvec s bound = Some (ascii s)"
  by (simp add: bvec_def ascii_def)

text \<open>
  What the literals have in common: the \<open>i\<close>-th asset has id \<open>i\<close>, belongs to the administrator and is
  offered for sale.
\<close>

definition offered :: "'acct \<Rightarrow> nat \<Rightarrow> 'acct rwa_asset \<Rightarrow> bool" where
  "offered admin i a \<longleftrightarrow> asset_id a = of_nat i \<and> owner a = admin \<and> is_locked a \<and> \<not> is_sold a"

fun all_offered :: "'acct \<Rightarrow> nat \<Rightarrow> 'acct rwa_asset option list \<Rightarrow> bool" where
  "all_offered admin i [] = True"
| "all_offered admin i (x # xs) = (case x of None \<Rightarrow> False | Some a \<Rightarrow> offered admin i a \<and> all_offered admin (Suc i) xs)"

lemma all_offered_append:
  "all_offered admin i (xs @ ys) \<longleftrightarrow> all_offered admin i xs \<and> all_offered admin (i + length xs) ys"
  by (induction xs arbitrary: i) (auto split: option.splits)

lemma all_offered_those:
  "all_offered admin i xs \<Longrightarrow>
     \<exists>as. those xs = Some as \<and> length as = length xs \<and> (\<forall>j < length as. offered admin (i + j) (as ! j))"
proof (induction xs arbitrary: i)
  case (Cons x xs)
  then obtain a where a: "x = Some a" "offered admin i a" "all_offered admin (Suc i) xs"
    by (auto split: option.splits)
  obtain as where as: "those xs = Some as" "length as = length xs"
    "\<forall>j < length as. offered admin (Suc i + j) (as ! j)"
    using Cons.IH [OF a(3)] by blast
  show ?case
    using a(1,2) as by (intro exI [of _ "a # as"]) (auto simp: nth_Cons split: nat.splits)
qed simp

lemma all_offered_demo_asset:
  assumes "length name \<le> MAX_NAME_LEN" and "length desc \<le> MAX_DESC_LEN" and "length meta \<le> MAX_META_LEN"
    and "i = of_nat k"
  shows "all_offered admin k (demo_asset i name desc cat val meta admin # xs) \<longleftrightarrow> all_offered admin (Suc k) xs"
  using assms by (simp add: demo_asset_def offered_def)

text \<open>Counting the characters of a literal upwards keeps the numbers binary.\<close>

lemma length_step: "length (x # xs) = length xs + 1" by simp

lemma demo_groups_offered:
  "all_offered admin 0 (demo_real_estate admin)" "all_offered admin 5 (demo_fleet admin)"
  "all_offered admin 10 (demo_financial admin)" "all_offered admin 15 (demo_ip_commodities admin)"
  unfolding demo_real_estate_def demo_fleet_def demo_financial_def demo_ip_commodities_def
  by (simp_all add: all_offered_demo_asset MAX_NAME_LEN_def MAX_DESC_LEN_def MAX_META_LEN_def length_step
      del: all_offered.simps(2) list.size(4) One_nat_def)

lemma demo_groups_length [simp]:
  "length (demo_real_estate admin) = 5" "length (demo_fleet admin) = 5"
  "length (demo_financial admin) = 5" "length (demo_ip_commodities admin) = 5"
  by (simp_all add: demo_real_estate_def demo_fleet_def demo_financial_def demo_ip_commodities_def)

lemma demo_assets_offered:
  obtains as where "demo_assets admin = Some as" and "length as = 20"
    and "\<forall>i < 20. offered admin i (as ! i)"
proof -
  have "all_offered admin 0 (demo_real_estate admin @ demo_fleet admin @ demo_financial admin @ demo_ip_commodities admin)"
    by (simp add: all_offered_append demo_groups_offered)
  from all_offered_those [OF this] show ?thesis by (auto simp: demo_assets_def intro: that)
qed

lemma demo_company_Some: "\<exists>company. demo_company = Some company"
  by (simp add: demo_company_def MAX_INFO_STR_LEN_def MAX_DISCLAIMER_LEN_def length_step del: list.size(4) One_nat_def)

section \<open>Genesis\<close>

lemma insert_genesis_asset_pair [simp]:
  "insert_genesis_asset a (n, as) = (saturating_succ n, as(n \<mapsto> a))"
  by (simp add: insert_genesis_asset_def)

lemma insert_genesis_assets:
  assumes "length as < 2 ^ 32"
  shows "fold insert_genesis_asset as (0, Map.empty) =
    (of_nat (length as), \<lambda>i. if unat i < length as then Some (as ! unat i) else None)"
  using assms
proof (induction as rule: rev_induct)
  case (snoc a as)
  then have n: "length as < 2 ^ 32 - 1" "length as < 2 ^ 32" by simp_all
  define w where "w = (of_nat (length as) :: u32)"
  have u: "unat w = length as" using n(2) by (simp add: w_def unat_of_nat)
  have "w \<noteq> - 1"
  proof
    assume "w = - 1"
    then have "length as = unat (- 1 :: u32)" using u by simp
    then show False using n by (simp add: unat_minus_one)
  qed
  moreover have "unat i = length as \<longleftrightarrow> i = w" for i by (simp only: word_unat_eq_iff u)
  moreover have "fold insert_genesis_asset as (0, Map.empty) =
      (w, \<lambda>i. if unat i < length as then Some (as ! unat i) else None)"
    using snoc.IH n(2) by (simp add: w_def)
  moreover have "of_nat (length (as @ [a])) = w + 1" by (simp add: w_def)
  moreover have "\<not> unat w < length as" using u by simp
  ultimately show ?case
    by (simp add: saturating_succ_def fun_eq_iff nth_append less_Suc_eq)
qed (simp add: fun_eq_iff)

lemma rwa_preset_state:
  obtains g where "rwa_local_testnet_genesis K = Some g" and "NextAssetId (rwa_build_state g) = 20"
    and "dom (Assets (rwa_build_state g)) = {..< 20}" and "NullifierUsed (rwa_build_state g) = (\<lambda>_. False)"
    and "\<forall>n < 20. \<exists>a. Assets (rwa_build_state g) n = Some a \<and> offered (fst (k_alice K)) (unat n) a"
proof -
  obtain as where as: "demo_assets (fst (k_alice K)) = Some as" "length as = 20"
    "\<forall>i < 20. offered (fst (k_alice K)) i (as ! i)"
    by (rule demo_assets_offered)
  obtain company where company: "demo_company = Some company" using demo_company_Some by blast
  obtain g where g: "rwa_local_testnet_genesis K = Some g" "g_rwa_assets g = as"
    by (simp add: rwa_local_testnet_genesis_def rwa_testnet_genesis_def as(1) company)
  have "unat n < 20 \<longleftrightarrow> n < 20" for n :: u32 by (simp add: word_less_nat_alt)
  then have "Assets (rwa_build_state g) = (\<lambda>n. if n < 20 then Some (as ! unat n) else None)"
    "NextAssetId (rwa_build_state g) = 20" "NullifierUsed (rwa_build_state g) = (\<lambda>_. False)"
    using insert_genesis_assets [of as] as(2) g(2) by (simp_all add: rwa_build_state_def rwa_genesis_def)
  with g(1) as(3) show ?thesis
    by (intro that [of g]) (auto simp: dom_def word_less_nat_alt split: if_splits)
qed

text \<open>
  C19. The RWA chain starts ready for business. Building the preset that its development and
  local networks share panics nowhere and
  leaves the assets 0 to 19, each stored under its own id, and 20 as the next id; and for every one of
  them the root can list it, anybody buy it privately and redeem it: the three extrinsics
  are accepted in this order.
\<close>

theorem demo_assets_sellable:
  assumes "rwa_admin cfg Root" and "n < 20"
  shows "\<exists>g a. rwa_local_testnet_genesis K = Some g \<and> NextAssetId (rwa_build_state g) = 20 \<and>
    dom (Assets (rwa_build_state g)) = {..< 20} \<and> Assets (rwa_build_state g) n = Some a \<and> asset_id a = n \<and>
    accepted (rwa_apply cfg) [(Root, call_list_asset n sel hint), (Signed buyer, call_buy_privately n h),
        (Signed buyer, call_redeem_asset n nh cont)] (rwa_build_state g) =
      [(Root, call_list_asset n sel hint), (Signed buyer, call_buy_privately n h),
        (Signed buyer, call_redeem_asset n nh cont)]"
proof -
  obtain g where g: "rwa_local_testnet_genesis K = Some g" "NextAssetId (rwa_build_state g) = 20"
    "dom (Assets (rwa_build_state g)) = {..< 20}" "NullifierUsed (rwa_build_state g) = (\<lambda>_. False)"
    "\<forall>n < 20. \<exists>a. Assets (rwa_build_state g) n = Some a \<and> offered (fst (k_alice K)) (unat n) a"
    by (rule rwa_preset_state [of K])
  obtain a where a: "Assets (rwa_build_state g) n = Some a" "offered (fst (k_alice K)) (unat n) a"
    using g(5) assms(2) by blast
  have "accepted (rwa_apply cfg) [(Root, call_list_asset n sel hint), (Signed buyer, call_buy_privately n h),
        (Signed buyer, call_redeem_asset n nh cont)] (rwa_build_state g) =
      [(Root, call_list_asset n sel hint), (Signed buyer, call_buy_privately n h),
        (Signed buyer, call_redeem_asset n nh cont)]"
    using a g(4) assms(1) by (simp add: rwa_handlers is_available_for_sale_def offered_def)
  with g(1-3) a show ?thesis by (auto simp: offered_def)
qed

definition demo_keyring :: "(nat, nat) keyring" where
  "demo_keyring = \<lparr>k_alice = (1, 11), k_bob = (2, 12), k_well_known = [1, 2], k_xcm_version = 5\<rparr>"

theorem demo_assets_sellable_witness:
  "\<exists>g a. rwa_local_testnet_genesis demo_keyring = Some g \<and> NextAssetId (rwa_build_state g) = 20 \<and>
    dom (Assets (rwa_build_state g)) = {..< 20} \<and> Assets (rwa_build_state g) 7 = Some a \<and> asset_id a = 7 \<and>
    accepted (rwa_apply (rwa_runtime_config demo_xcm (\<lambda>_. 0))) [(Root, call_list_asset 7 1 0),
        (Signed 2, call_buy_privately 7 5), (Signed 2, call_redeem_asset 7 9 None)] (rwa_build_state g) =
      [(Root, call_list_asset 7 1 0), (Signed 2, call_buy_privately 7 5), (Signed 2, call_redeem_asset 7 9 None)]"
  by (rule demo_assets_sellable) (simp_all add: rwa_runtime_config_def)

section \<open>The chains the presets name\<close>

text \<open>ScanProof, the RWA chain and AuthGate are where the dispatchers and the barriers look for them.\<close>

lemma preset_ids_meet:
  "ag_ProofHubLocation (1, [Parachain (g_parachain_id (sc_local_testnet_genesis K))])"
  "rwa_local_testnet_genesis K = Some g \<Longrightarrow> xcm_dest (ph_xcm C (RwaSend r n st v t oc)) = (1, [Parachain (g_parachain_id g)])"
  "xcm_dest (ph_xcm C (AccessSend a n t k)) = (1, [Parachain (g_parachain_id (ag_local_testnet_genesis K))])"
  by (auto simp: ag_ProofHubLocation_def sc_local_testnet_genesis_def sc_testnet_genesis_def sc_PARACHAIN_ID_def
      rwa_local_testnet_genesis_def rwa_testnet_genesis_def rwa_PARACHAIN_ID_def ph_xcm_def rwa_xcm_send_def
      access_xcm_send_def transact_to_def ag_local_testnet_genesis_def authgate_genesis_def ag_PARACHAIN_ID_def
      split: option.splits)

text \<open>A grant from an account that is neither hub's changes nothing, whatever the call data decode to.\<close>

lemma foreign_grant_ignored:
  assumes "xcm_laws X" and "inj (xb_sibling X)" and "para \<noteq> 2000" and "para \<noteq> 2002"
  shows "ag_receive X b3 C other (1, [Parachain para]) (ph_xcm C (AccessSend a n t k)) s = s"
proof -
  have acct: "xb_account X (1, [Parachain para]) = Some (xb_sibling X para)"
    using assms(1) by (simp add: xcm_laws_def)
  have "xb_sibling X para \<noteq> xb_sibling X 2000" "xb_sibling X para \<noteq> xb_sibling X 2002"
    using assms(2-4) by (simp_all add: inj_eq)
  then have "\<exists>e. ag_apply (ag_runtime_config X b3)
      (Signed (xb_sibling X para), call_xcm_record_access_grant a' n' t' k') s' = Inl e" for a' n' t' k' s'
    by (simp add: ag_apply_def ag_handlers ag_runtime_config_def)
  then have "run (ag_apply (ag_runtime_config X b3))
      [(Signed (xb_sibling X para), call_xcm_record_access_grant a' n' t' k')] s' = s'" for a' n' t' k' s'
    by (metis run.simps sum.case(1))
  note ignored = this
  show ?thesis
    by (simp add: ag_receive_def ph_xcm_def access_xcm_send_def transact_to_def transact_def acct acct [simplified]
        ag_runtime_call_def dec_then_def ignored del: run.simps split: option.splits)
qed

text \<open>
  C18. ProofHub is not heard from where its own preset puts it. The preset gives the hub the id 1000,
  while AuthGate listens to 2000 and 2002: whatever messages the hub sends to AuthGate, executing them
  there as coming from the preset's id leaves AuthGate as it was, even where its barrier lets them
  pass, so that no access that is paid for opens.
\<close>

theorem preset_hub_unheard:
  assumes "xcm_laws X" and "inj (xb_sibling X)"
  shows "fold (ag_receive X b3 C other (1, [Parachain (g_parachain_id (ph_local_testnet_genesis K))]))
    (xcm_to (g_parachain_id (ag_local_testnet_genesis K)) (map (ph_xcm C) ms)) s = s"
proof -
  have "\<exists>a n t k. m = ph_xcm C (AccessSend a n t k)" if "m \<in> set (xcm_to 2003 (map (ph_xcm C) ms))" for m
  proof -
    note m = that
    have "xcm_dest m = (1, [Parachain 2003])" using m by (simp add: xcm_to_def)
    moreover obtain d where "m = ph_xcm C d" using m by (auto simp: xcm_to_def)
    ultimately show ?thesis
      by (cases d) (auto simp: ph_xcm_def rwa_xcm_send_def rwa_xcm_send_transfer_def transact_to_def Let_def)
  qed
  then have "fold (ag_receive X b3 C other (1, [Parachain 1000])) xs s = s"
    if "set xs \<subseteq> set (xcm_to 2003 (map (ph_xcm C) ms))" for xs
    using that foreign_grant_ignored [OF assms, of 1000] by (induction xs) fastforce+
  then show ?thesis
    by (simp add: ph_local_testnet_genesis_def ph_testnet_genesis_def ph_PARACHAIN_ID_def
        ag_local_testnet_genesis_def authgate_genesis_def ag_PARACHAIN_ID_def)
qed

theorem preset_hub_unheard_witness:
  "fold (ag_receive demo_xcm (\<lambda>_. 0) le_codec (\<lambda>_. None)
      (1, [Parachain (g_parachain_id (ph_local_testnet_genesis demo_keyring))]))
    (xcm_to (g_parachain_id (ag_local_testnet_genesis demo_keyring))
      (map (ph_xcm le_codec) [AccessSend 1 2 3 4, RwaSend 1 2 3 4 5 6, AccessSend 5 6 7 8])) ag_empty = ag_empty"
  by (rule preset_hub_unheard [OF demo_xcm_laws]) (simp add: demo_xcm_def inj_def word_unat_eq_iff)

section \<open>The lists of presets\<close>

text \<open>A runtime offers exactly the presets it lists, and building them panics nowhere.\<close>

lemma presets_listed:
  "ph_get_preset j K i \<noteq> None \<longleftrightarrow> i \<in> set ph_preset_names"
  "sc_get_preset j K i \<noteq> None \<longleftrightarrow> i \<in> set sc_preset_names"
  "ag_get_preset j K i \<noteq> None \<longleftrightarrow> i \<in> set ag_preset_names"
  "\<exists>x. rwa_get_preset j' K i = Some x \<and> (x \<noteq> None \<longleftrightarrow> i \<in> set rwa_preset_names)"
proof -
  obtain g where "rwa_local_testnet_genesis K = Some g" by (rule rwa_preset_state)
  moreover have "rwa_development_config_genesis K = rwa_local_testnet_genesis K"
    by (simp add: rwa_development_config_genesis_def rwa_local_testnet_genesis_def)
  ultimately show "\<exists>x. rwa_get_preset j' K i = Some x \<and> (x \<noteq> None \<longleftrightarrow> i \<in> set rwa_preset_names)"
    by (simp add: rwa_get_preset_def rwa_preset_names_def split: preset_id.splits)
qed (simp_all add: ph_get_preset_def ph_preset_names_def sc_get_preset_def sc_preset_names_def
    ag_get_preset_def ag_preset_names_def split: preset_id.splits)

text \<open>
  The collators of a preset have the funds for their bond where the keyring's well-known accounts
  include them, and their session keys stand for themselves.
\<close>

lemma preset_collators:
  assumes "fst (k_alice K) \<in> set (k_well_known K)" and "fst (k_bob K) \<in> set (k_well_known K)"
    and "g \<in> {ph_local_testnet_genesis K, sc_local_testnet_genesis K, ag_local_testnet_genesis K}"
  shows "map fst (g_session_keys g) = g_invulnerables g"
    and "\<forall>acc \<in> set (g_invulnerables g). \<exists>b. (acc, b) \<in> set (g_balances g) \<and> g_candidacy_bond g < b"
  using assms
  by (auto simp: ph_local_testnet_genesis_def ph_testnet_genesis_def sc_local_testnet_genesis_def
      sc_testnet_genesis_def ag_local_testnet_genesis_def authgate_genesis_def EXISTENTIAL_DEPOSIT_def
      MILLI_UNIT_def push_bit_eq_mult image_iff case_prod_unfold)

end
