(* ===== verification/RelayTrust.thy ===== *)
theory RelayTrust
  imports Presets
begin

text \<open>
  Whom the relay chain trusts: the teleporters and the origin converter of \<open>runtime/src/xcm_config.rs\<close>, and
  the reserve rule of the hubs, \<open>AllRelayNativeFromParent\<close> of their \<open>configs/xcm_config.rs\<close>. The ids of
  the system chains are constants of another crate, the converters the XCM crates'.
\<close>

section \<open>Teleporters\<close>

record system_ids =
  ASSET_HUB_ID :: u32
  ASSET_HUB_NEXT_ID :: u32
  COLLECTIVES_ID :: u32
  BRIDGE_HUB_ID :: u32
  ENCOINTER_ID :: u32
  PEOPLE_ID :: u32
  BROKER_ID :: u32

text \<open>The filter for the relay's own asset.\<close>

definition Wnd :: "asset \<Rightarrow> bool" where
  "Wnd a \<longleftrightarrow> xcm_asset_id a = (0, [])"

definition teleporter_cases :: "system_ids \<Rightarrow> ((asset \<Rightarrow> bool) \<times> location) list" where
  "teleporter_cases I = map (\<lambda>i. (Wnd, (0, [Parachain i])))
     [ASSET_HUB_ID I, ASSET_HUB_NEXT_ID I, COLLECTIVES_ID I, BRIDGE_HUB_ID I, ENCOINTER_ID I, PEOPLE_ID I,
      BROKER_ID I]"

definition TrustedTeleporters :: "system_ids \<Rightarrow> asset \<Rightarrow> location \<Rightarrow> bool" where
  "TrustedTeleporters I a l \<longleftrightarrow> (\<exists>(flt, from) \<in> set (teleporter_cases I). flt a \<and> l = from)"

section \<open>Origins of remote calls\<close>

datatype origin_kind = Native | SovereignAccount | Superuser | XcmKind

text \<open>
  The converters of the XCM crates; \<open>cv_superuser\<close> is \<open>LocationAsSuperuser\<close> for a filter, \<open>cv_others\<close> the
  four that follow it in the tuple. A tuple takes the first converter that answers.
\<close>

record 'o converters =
  cv_root :: 'o
  cv_superuser :: "(location \<Rightarrow> bool) \<Rightarrow> location \<Rightarrow> origin_kind \<Rightarrow> 'o option"
  cv_others :: "(location \<Rightarrow> origin_kind \<Rightarrow> 'o option) list"

definition converter_laws :: "'o converters \<Rightarrow> bool" where
  "converter_laws V \<longleftrightarrow> (\<forall>flt l k. cv_superuser V flt l k =
     (if k = Superuser \<and> flt l then Some (cv_root V) else None))"

fun first_answer :: "('a \<Rightarrow> 'b \<Rightarrow> 'o option) list \<Rightarrow> 'a \<Rightarrow> 'b \<Rightarrow> 'o option" where
  "first_answer [] l k = None"
| "first_answer (c # cs) l k = (case c l k of Some x \<Rightarrow> Some x | None \<Rightarrow> first_answer cs l k)"

definition AssetHub :: "system_ids \<Rightarrow> location" where
  "AssetHub I = (0, [Parachain (ASSET_HUB_ID I)])"

definition LocalOriginConverter :: "'o converters \<Rightarrow> system_ids \<Rightarrow> location \<Rightarrow> origin_kind \<Rightarrow> 'o option" where
  "LocalOriginConverter V I = first_answer (cv_superuser V (\<lambda>l. l = AssetHub I) # cv_others V)"

text \<open>
  The id that ProofHub's preset takes is the one of the Asset Hub where that constant is 1000: the
  relay chain then runs the hub's superuser calls as root and accepts its teleports.
\<close>

theorem preset_hub_trusted_as_asset_hub:
  assumes "converter_laws V" and "ASSET_HUB_ID I = 1000"
  shows "LocalOriginConverter V I (0, [Parachain (g_parachain_id (ph_local_testnet_genesis K))]) Superuser =
      Some (cv_root V) \<and>
    TrustedTeleporters I \<lparr>xcm_asset_id = (0, []), fungible = amount\<rparr>
      (0, [Parachain (g_parachain_id (ph_local_testnet_genesis K))])"
  using assms
  by (simp add: LocalOriginConverter_def converter_laws_def AssetHub_def TrustedTeleporters_def
      teleporter_cases_def Wnd_def ph_local_testnet_genesis_def ph_testnet_genesis_def ph_PARACHAIN_ID_def)

text \<open>
  The other three presets take no system chain's id where those are below 2000: no teleport from them is
  trusted, and only the later converters answer for them.
\<close>

theorem preset_chains_untrusted:
  assumes "converter_laws V" and "\<forall>i \<in> {ASSET_HUB_ID I, ASSET_HUB_NEXT_ID I, COLLECTIVES_ID I, BRIDGE_HUB_ID I,
      ENCOINTER_ID I, PEOPLE_ID I, BROKER_ID I}. i < 2000"
    and "para \<in> {g_parachain_id (sc_local_testnet_genesis K), g_parachain_id (ag_local_testnet_genesis K),
      rwa_PARACHAIN_ID}"
  shows "\<not> TrustedTeleporters I a (0, [Parachain para]) \<and>
    LocalOriginConverter V I (0, [Parachain para]) k = first_answer (cv_others V) (0, [Parachain para]) k"
proof -
  have "para \<in> {2001, 2002, 2003}"
    using assms(3) by (auto simp: sc_local_testnet_genesis_def sc_testnet_genesis_def sc_PARACHAIN_ID_def
        ag_local_testnet_genesis_def authgate_genesis_def ag_PARACHAIN_ID_def rwa_PARACHAIN_ID_def)
  then have "2000 < para" by auto
  then have "\<not> TrustedTeleporters I a (0, [Parachain para])" "(0, [Parachain para]) \<noteq> AssetHub I"
    using assms(2) by (auto simp: TrustedTeleporters_def teleporter_cases_def AssetHub_def)
  with assms(1) show ?thesis by (simp add: LocalOriginConverter_def converter_laws_def)
qed

section \<open>The reserve rule of the hubs\<close>

definition AllRelayNativeFromParent :: "asset \<Rightarrow> location \<Rightarrow> bool" where
  "AllRelayNativeFromParent a origin' = (let relay = (1, []) in origin' = relay \<and> xcm_asset_id a = relay)"

text \<open>\<open>native\<close> is \<open>NativeAsset\<close> of the XCM crates: it accepts a fungible asset from the location that is its id.\<close>

definition IsReserve :: "(asset \<Rightarrow> location \<Rightarrow> bool) \<Rightarrow> asset \<Rightarrow> location \<Rightarrow> bool" where
  "IsReserve native a origin' \<longleftrightarrow> native a origin' \<or> AllRelayNativeFromParent a origin'"

text \<open>
  The second rule adds nothing to the first: what \<open>AllRelayNativeFromParent\<close> accepts, \<open>NativeAsset\<close> accepts
  already, which the comment beside it denies.
\<close>

theorem reserve_rule_redundant:
  assumes "\<And>a origin'. native a origin' \<longleftrightarrow> xcm_asset_id a = origin'"
  shows "IsReserve native = native"
  using assms by (auto simp: fun_eq_iff IsReserve_def AllRelayNativeFromParent_def Let_def)

end
