(* ===== verification/RelayGenesis.thy ===== *)
theory RelayGenesis
  imports Prelude
begin

text \<open>
  The genesis presets of the relay chain, \<open>runtime/src/genesis_config_presets.rs\<close>. Keys and accounts are
  their bytes. The constants of other crates, the development keyring and the derivation of keys from
  seeds are fields of \<open>relay_env\<close>.
\<close>

section \<open>Keys\<close>

fun hex_digit :: "char \<Rightarrow> nat" where
  "hex_digit c = (let n = of_char c in if n < 58 then n - 48 else n - 87)"

text \<open>The macro \<open>hex!\<close> on an even number of digits.\<close>

fun hex :: "string \<Rightarrow> bytes" where
  "hex (a # b # s) = of_nat (16 * hex_digit a + hex_digit b) # hex s"
| "hex _ = []"

type_synonym account = bytes

text \<open>Stash, controller, and the keys for BABE, GRANDPA, validation, assignment, discovery and BEEFY.\<close>

type_synonym authority = "account \<times> account \<times> bytes \<times> bytes \<times> bytes \<times> bytes \<times> bytes \<times> bytes"

datatype key_type = Sr25519 | Babe | Grandpa | ParaValidator | ParaAssignment | Discovery | Beefy

record relay_env =
  get_public :: "key_type \<Rightarrow> string \<Rightarrow> bytes"
  well_known :: "account list"
  alice_account :: account
  NULLA :: u128
  MAX_CODE_SIZE :: u32
  MAX_POV_SIZE :: u32
  LOWEST_PUBLIC_ID :: u32
  PRIMARY_PROBABILITY :: "u64 \<times> u64"
  ElasticScalingMVP :: nat
  EnableAssignmentsV2 :: nat
  CandidateReceiptV2 :: nat

definition get_authority_keys_from_seed_no_beefy ::
  "relay_env \<Rightarrow> string \<Rightarrow> account \<times> account \<times> bytes \<times> bytes \<times> bytes \<times> bytes \<times> bytes" where
  "get_authority_keys_from_seed_no_beefy R seed =
     (get_public R Sr25519 (seed @ ''//stash''), get_public R Sr25519 seed, get_public R Babe seed,
      get_public R Grandpa seed, get_public R ParaValidator seed, get_public R ParaAssignment seed,
      get_public R Discovery seed)"

definition get_authority_keys_from_seed :: "relay_env \<Rightarrow> string \<Rightarrow> authority" where
  "get_authority_keys_from_seed R seed =
     (case get_authority_keys_from_seed_no_beefy R seed of
        (k0, k1, k2, k3, k4, k5, k6) \<Rightarrow> (k0, k1, k2, k3, k4, k5, k6, get_public R Beefy seed))"

definition testnet_accounts :: "relay_env \<Rightarrow> account list" where
  "testnet_accounts R = well_known R"

record session_keys =
  babe :: bytes
  grandpa :: bytes
  para_validator :: bytes
  para_assignment :: bytes
  authority_discovery :: bytes
  beefy :: bytes

definition westend_session_keys ::
  "bytes \<Rightarrow> bytes \<Rightarrow> bytes \<Rightarrow> bytes \<Rightarrow> bytes \<Rightarrow> bytes \<Rightarrow> session_keys" where
  "westend_session_keys k2 k3 k4 k5 k6 k7 =
     \<lparr>babe = k2, grandpa = k3, para_validator = k4, para_assignment = k5, authority_discovery = k6, beefy = k7\<rparr>"

section \<open>The parachains host\<close>

text \<open>The fields that the preset sets; the others have the defaults of the parachains crates.\<close>

record host_configuration =
  validation_upgrade_cooldown :: u32
  validation_upgrade_delay :: u32
  code_retention_period :: u32
  max_code_size :: u32
  max_pov_size :: u32
  max_head_data_size :: u32
  max_upward_queue_count :: u32
  max_upward_queue_size :: u32
  max_downward_message_size :: u32
  max_upward_message_size :: u32
  max_upward_message_num_per_candidate :: u32
  hrmp_sender_deposit :: u128
  hrmp_recipient_deposit :: u128
  hrmp_channel_max_capacity :: u32
  hrmp_channel_max_total_size :: u32
  hrmp_max_parachain_inbound_channels :: u32
  hrmp_channel_max_message_size :: u32
  hrmp_max_parachain_outbound_channels :: u32
  hrmp_max_message_num_per_candidate :: u32
  dispute_period :: u32
  no_show_slots :: u32
  n_delay_tranches :: u32
  needed_approvals :: u32
  relay_vrf_modulo_samples :: u32
  zeroth_delay_tranche_width :: u32
  minimum_validation_upgrade_delay :: u32
  max_candidate_depth :: u32
  allowed_ancestry_len :: u32
  node_features :: u8
  lookahead :: u32
  group_rotation_frequency :: u32
  paras_availability_period :: u32
  max_approval_coalesce_count :: u32

definition default_parachains_host_configuration :: "relay_env \<Rightarrow> host_configuration" where
  "default_parachains_host_configuration R =
     \<lparr>validation_upgrade_cooldown = 2,
      validation_upgrade_delay = 2,
      code_retention_period = 1200,
      max_code_size = MAX_CODE_SIZE R,
      max_pov_size = MAX_POV_SIZE R,
      max_head_data_size = 32 * 1024,
      max_upward_queue_count = 8,
      max_upward_queue_size = 1024 * 1024,
      max_downward_message_size = 1024 * 1024,
      max_upward_message_size = 50 * 1024,
      max_upward_message_num_per_candidate = 5,
      hrmp_sender_deposit = 0,
      hrmp_recipient_deposit = 0,
      hrmp_channel_max_capacity = 8,
      hrmp_channel_max_total_size = 8 * 1024,
      hrmp_max_parachain_inbound_channels = 4,
      hrmp_channel_max_message_size = 1024 * 1024,
      hrmp_max_parachain_outbound_channels = 4,
      hrmp_max_message_num_per_candidate = 5,
      dispute_period = 6,
      no_show_slots = 2,
      n_delay_tranches = 25,
      needed_approvals = 2,
      relay_vrf_modulo_samples = 2,
      zeroth_delay_tranche_width = 0,
      minimum_validation_upgrade_delay = 5,
      max_candidate_depth = 0,
      allowed_ancestry_len = 0,
      node_features = (push_bit (ElasticScalingMVP R) 1 OR push_bit (EnableAssignmentsV2 R) 1) OR
        push_bit (CandidateReceiptV2 R) 1,
      lookahead = 3,
      group_rotation_frequency = 20,
      paras_availability_period = 4,
      max_approval_coalesce_count = 5\<rparr>"

section \<open>Genesis\<close>

datatype forcing = NotForcing | ForceNone

datatype allowed_slots = PrimarySlots | PrimaryAndSecondaryPlainSlots | PrimaryAndSecondaryVRFSlots

definition BABE_GENESIS_EPOCH_CONFIG :: "relay_env \<Rightarrow> (u64 \<times> u64) \<times> allowed_slots" where
  "BABE_GENESIS_EPOCH_CONFIG R = (PRIMARY_PROBABILITY R, PrimaryAndSecondaryVRFSlots)"

record relay_genesis =
  rg_balances :: "(account \<times> u128) list"
  rg_session_keys :: "(account \<times> account \<times> session_keys) list"
  rg_minimum_validator_count :: u32
  rg_validator_count :: u32
  rg_stakers :: "(account \<times> account \<times> u128) list"
  rg_invulnerables :: "account list"
  rg_force_era :: forcing
  rg_slash_reward_percent :: nat
  rg_babe :: "(u64 \<times> u64) \<times> allowed_slots"
  rg_sudo_key :: "account option"
  rg_configuration :: host_configuration
  rg_next_free_para_id :: u32

definition authority_session :: "authority \<Rightarrow> account \<times> account \<times> session_keys" where
  "authority_session x = (case x of (x0, x1, x2, x3, x4, x5, x6, x7) \<Rightarrow>
     (x0, x0, westend_session_keys x2 x3 x4 x5 x6 x7))"

definition westend_testnet_genesis ::
  "relay_env \<Rightarrow> authority list \<Rightarrow> account \<Rightarrow> account list option \<Rightarrow> relay_genesis" where
  "westend_testnet_genesis R initial_authorities root_key endowed_accounts =
     (let endowed_accounts = (case endowed_accounts of Some as \<Rightarrow> as | None \<Rightarrow> testnet_accounts R);
          ENDOWMENT = 1000000 * NULLA R;
          STASH = 100 * NULLA R
      in \<lparr>rg_balances = map (\<lambda>k. (k, ENDOWMENT)) endowed_accounts,
          rg_session_keys = map authority_session initial_authorities,
          rg_minimum_validator_count = 1,
          rg_validator_count = of_nat (length initial_authorities),
          rg_stakers = map (\<lambda>x. (fst x, fst x, STASH)) initial_authorities,
          rg_invulnerables = map fst initial_authorities,
          rg_force_era = NotForcing,
          rg_slash_reward_percent = 10,
          rg_babe = BABE_GENESIS_EPOCH_CONFIG R,
          rg_sudo_key = Some root_key,
          rg_configuration = default_parachains_host_configuration R,
          rg_next_free_para_id = LOWEST_PUBLIC_ID R\<rparr>)"

definition staging_endowed :: "account list" where
  "staging_endowed = [hex ''c416837e232d9603e83162ef4bda08e61580eeefe60fe92fc044aa508559ae42'']"

definition staging_authorities :: "authority list" where
  "staging_authorities = [
    (hex ''7ecfd50629cdd246649959d88d490b31508db511487e111a52a392e6e458f518'',
     hex ''eca2cca09bdc66a7e6d8c3d9499a0be2ad4690061be8a9834972e17d13d2fe7e'',
     hex ''ae27367cb77850fb195fe1f9c60b73210409e68c5ad953088070f7d8513d464c'',
     hex ''6faae44b21c6f2681a7f60df708e9f79d340f7d441d28bd987fab8d05c6487e8'',
     hex ''a6c1a5b501985a83cb1c37630c5b41e6b0a15b3675b2fd94694758e6cfa6794d'',
     hex ''485051748ab9c15732f19f3fbcf1fd00a6d9709635f084505107fbb059c33d2f'',
     hex ''be59ed75a72f7b47221ce081ba4262cf2e1ea7867e30e0b3781822f942b97677'',
     hex ''0207e43990799e1d02b0507451e342a1240ff836ea769c57297589a5fd072ad8f4''),
    (hex ''34b7b3efd35fcc3c1926ca065381682b1af29b57dabbcd091042c6de1d541b7d'',
     hex ''4226796fa792ac78875e023ff2e30e3c2cf79f0b7b3431254cd0f14a3007bc0e'',
     hex ''0e9b60f04be3bffe362eb2212ea99d2b909b052f4bff7c714e13c2416a797f5d'',
     hex ''98f4d81cb383898c2c3d54dab28698c0f717c81b509cb32dc6905af3cc697b18'',
     hex ''162508accd470e379b04cb0c7c60b35a7d5357e84407a89ed2dd48db4b726960'',
     hex ''4a559c028b69a7f784ce553393e547bec0aa530352157603396d515f9c83463b'',
     hex ''d464908266c878acbf181bf8fda398b3aa3fd2d05508013e414aaece4cf0d702'',
     hex ''02fdf30222d2cb88f2376d558d3de9cb83f9fde3aa4b2dd40c93e3104e3488bcd2''),
    (hex ''56e0f73c563d49ee4a3971c393e17c44eaa313dabad7fcf297dc3271d803f303'',
     hex ''2c58e5e1d5aef77774480cead4f6876b1a1a6261170166995184d7f86140572b'',
     hex ''6ed45cb7af613be5d88a2622921e18d147225165f24538af03b93f2a03ce6e13'',
     hex ''b0f8d2b9e4e1eafd4dab6358e0b9d5380d78af27c094e69ae9d6d30ca300fd86'',
     hex ''1055100a283968271a0781450b389b9093231be809be1e48a305ebad2a90497e'',
     hex ''3cea4ab74bab4adf176cf05a6e18c1599a7bc217d4c6c217275bfbe3b037a527'',
     hex ''169faa81aebfe74533518bda28567f2e2664014c8905aa07ea003336afda5a58'',
     hex ''03429d0d20f6ac5ca8b349f04d014f7b5b864acf382a744104d5d9a51108156c0f''),
    (hex ''deb804ed2ed2bb696a3dd4ed7de4cd5c496528a2b204051c6ace385bacd66a3a'',
     hex ''366da6a748afedb31f07902f2de36ab265beccee37762d3ae1f237de234d9c36'',
     hex ''1089bc0cd60237d061872925e81d36c9d9205d250d5d8b542c8e08a8ecf1b911'',
     hex ''1c309a70b4e274314b84c9a0a1f973c9c4fc084df5479ef686c54b1ae4950424'',
     hex ''2ee4d78f328db178c54f205ac809da12e291a33bcbd4f29f081ce7e74bdc5044'',
     hex ''d88e40e3c2c7a7c5abf96ffdd8f7b7bec8798cc277bc97e255881871ab73b529'',
     hex ''4cb3863271b70daa38612acd5dae4f5afcb7c165fa277629e5150d2214df322a'',
     hex ''03be5ec86d10a94db89c9b7a396d3c7742e3bec5f85159d4cf308cef505966ddf5'')]"

definition westend_staging_testnet_config_genesis :: "relay_env \<Rightarrow> relay_genesis" where
  "westend_staging_testnet_config_genesis R =
     (let endowed_accounts = staging_endowed;
          initial_authorities = staging_authorities;
          ENDOWMENT = 1000000 * NULLA R;
          STASH = 100 * NULLA R
      in \<lparr>rg_balances = map (\<lambda>k. (k, ENDOWMENT)) endowed_accounts @
            map (\<lambda>x. (fst x, STASH)) initial_authorities,
          rg_session_keys = map authority_session initial_authorities,
          rg_minimum_validator_count = 4,
          rg_validator_count = 50,
          rg_stakers = map (\<lambda>x. (fst x, fst x, STASH)) initial_authorities,
          rg_invulnerables = map fst initial_authorities,
          rg_force_era = ForceNone,
          rg_slash_reward_percent = 10,
          rg_babe = BABE_GENESIS_EPOCH_CONFIG R,
          rg_sudo_key = Some (endowed_accounts ! 0),
          rg_configuration = default_parachains_host_configuration R,
          rg_next_free_para_id = LOWEST_PUBLIC_ID R\<rparr>)"

definition westend_development_config_genesis :: "relay_env \<Rightarrow> relay_genesis" where
  "westend_development_config_genesis R =
     westend_testnet_genesis R [get_authority_keys_from_seed R ''Alice''] (alice_account R) None"

definition westend_local_testnet_genesis :: "relay_env \<Rightarrow> relay_genesis" where
  "westend_local_testnet_genesis R =
     westend_testnet_genesis R [get_authority_keys_from_seed R ''Alice'', get_authority_keys_from_seed R ''Bob'']
       (alice_account R) None"

datatype relay_preset = LocalTestnet | Development | NamedPreset string

definition relay_get_preset :: "(relay_genesis \<Rightarrow> bytes) \<Rightarrow> relay_env \<Rightarrow> relay_preset \<Rightarrow> bytes option" where
  "relay_get_preset to_json R i = (case i of
     LocalTestnet \<Rightarrow> Some (to_json (westend_local_testnet_genesis R))
   | Development \<Rightarrow> Some (to_json (westend_development_config_genesis R))
   | NamedPreset n \<Rightarrow>
       if n = ''staging_testnet'' then Some (to_json (westend_staging_testnet_config_genesis R)) else None)"

definition relay_preset_names :: "relay_preset list" where
  "relay_preset_names = [LocalTestnet, Development, NamedPreset ''staging_testnet'']"

section \<open>Consistency\<close>

lemma relay_presets_listed: "relay_get_preset j R i \<noteq> None \<longleftrightarrow> i \<in> set relay_preset_names"
  by (cases i) (simp_all add: relay_get_preset_def relay_preset_names_def)

text \<open>The keys of the staging authorities: 32 bytes each, 33 for BEEFY, and no key serves twice.\<close>

definition authority_keys :: "authority \<Rightarrow> bytes list" where
  "authority_keys x = (case x of (x0, x1, x2, x3, x4, x5, x6, x7) \<Rightarrow> [x0, x1, x2, x3, x4, x5, x6, x7])"

definition staging_keys :: "bytes list" where
  "staging_keys = staging_endowed @ concat (map authority_keys staging_authorities)"

text \<open>The length of each key and its first two bytes, which already tell the keys apart.\<close>

lemma staging_key_profile:
  "map (\<lambda>k. (length k, take 2 k)) staging_keys =
    [(32, [196, 22]), (32, [126, 207]), (32, [236, 162]), (32, [174, 39]), (32, [111, 170]), (32, [166,
     193]), (32, [72, 80]), (32, [190, 89]), (33, [2, 7]), (32, [52, 183]), (32, [66, 38]), (32, [14,
     155]), (32, [152, 244]), (32, [22, 37]), (32, [74, 85]), (32, [212, 100]), (33, [2, 253]), (32, [86,
     224]), (32, [44, 88]), (32, [110, 212]), (32, [176, 248]), (32, [16, 85]), (32, [60, 234]), (32,
     [22, 159]), (33, [3, 66]), (32, [222, 184]), (32, [54, 109]), (32, [16, 137]), (32, [28, 48]), (32,
     [46, 228]), (32, [216, 142]), (32, [76, 179]), (33, [3, 190])]"
  by (simp add: staging_keys_def staging_endowed_def staging_authorities_def authority_keys_def Let_def)

lemma staging_keys_distinct: "distinct staging_keys"
proof -
  have "distinct (map (\<lambda>k. (length k, take 2 k)) staging_keys)" unfolding staging_key_profile by simp
  then show ?thesis by (simp add: distinct_map)
qed

lemma distinct_concat_part:
  assumes "distinct (concat (map f xs))"
    and "\<And>x. distinct (f x) \<Longrightarrow> distinct (g x)" and "\<And>x. set (g x) \<subseteq> set (f x)"
  shows "distinct (concat (map g xs))"
  using assms(1)
proof (induction xs)
  case (Cons x xs)
  have "set (concat (map g xs)) \<subseteq> set (concat (map f xs))" using assms(3) by fastforce
  then show ?case using Cons assms(2,3) [of x] by auto
qed simp

definition session_key_list :: "session_keys \<Rightarrow> bytes list" where
  "session_key_list k = [babe k, grandpa k, para_validator k, para_assignment k, authority_discovery k, beefy k]"

text \<open>
  The staging network can start. No account appears twice among the balances; every staker is endowed
  with what it stakes, is its own controller, is invulnerable and has session keys of its own; no two session keys are
  the same; there are as many stakers as the minimum asks for and no more than there are seats; and
  the sudo account has funds.
\<close>

theorem staging_genesis_starts:
  fixes R
  defines "g \<equiv> westend_staging_testnet_config_genesis R"
  shows "distinct (map fst (rg_balances g)) \<and>
    (\<forall>(stash, ctrl, v) \<in> set (rg_stakers g). (stash, v) \<in> set (rg_balances g) \<and> ctrl = stash \<and>
       stash \<in> set (rg_invulnerables g) \<and> (\<exists>k. (stash, stash, k) \<in> set (rg_session_keys g))) \<and>
    distinct (concat (map (\<lambda>(_, _, k). session_key_list k) (rg_session_keys g))) \<and>
    unat (rg_minimum_validator_count g) \<le> length (rg_stakers g) \<and>
    length (rg_stakers g) \<le> unat (rg_validator_count g) \<and>
    (\<exists>who. rg_sudo_key g = Some who \<and> (who, 1000000 * NULLA R) \<in> set (rg_balances g))"
proof -
  note gd = g_def westend_staging_testnet_config_genesis_def Let_def
  have d: "distinct (staging_endowed @ concat (map authority_keys staging_authorities))"
    using staging_keys_distinct by (simp only: staging_keys_def)
  have fsts: "set (map fst staging_authorities) \<subseteq> set (concat (map authority_keys staging_authorities))"
    by (force simp: authority_keys_def)
  have "distinct (concat (map (\<lambda>x. [fst x]) staging_authorities))"
    by (rule distinct_concat_part [of authority_keys]) (use d in \<open>auto simp: authority_keys_def\<close>)
  moreover have "concat (map (\<lambda>x. [fst x]) xs) = map fst xs" for xs :: "authority list" by (induction xs) simp_all
  ultimately have "distinct (staging_endowed @ map fst staging_authorities)"
    using d fsts by (fastforce simp: distinct_append)
  then have 1: "distinct (map fst (rg_balances g))" by (simp add: gd comp_def)
  have "distinct (concat (map (\<lambda>x. session_key_list (snd (snd (authority_session x)))) staging_authorities))"
    by (rule distinct_concat_part [of authority_keys])
      (use d in \<open>auto simp: authority_keys_def authority_session_def session_key_list_def westend_session_keys_def
        split: prod.splits\<close>)
  then have 2: "distinct (concat (map (\<lambda>(_, _, k). session_key_list k) (rg_session_keys g)))"
    by (simp add: gd comp_def case_prod_unfold)
  have 3: "\<exists>k. (fst x, fst x, k) \<in> set (rg_session_keys g)" if "x \<in> set staging_authorities" for x
  proof -
    have "authority_session x \<in> set (rg_session_keys g)" using that by (simp add: gd)
    then show ?thesis by (auto simp: authority_session_def split: prod.splits)
  qed
  have "length staging_authorities = 4" by (simp add: staging_authorities_def)
  with 1 2 3 show ?thesis by (auto simp: gd image_iff staging_endowed_def)
qed

text \<open>The development presets are funded where the keyring's well-known accounts include the stashes.\<close>

lemma testnet_stakers_funded:
  assumes "fst ` set as \<subseteq> set (well_known R)" and "(stash, ctrl, v) \<in> set (rg_stakers (westend_testnet_genesis R as w None))"
  shows "(stash, 1000000 * NULLA R) \<in> set (rg_balances (westend_testnet_genesis R as w None))"
  using assms by (auto simp: westend_testnet_genesis_def testnet_accounts_def Let_def image_iff)

end
