(* ===== verification/Transactions.thy ===== *)
theory Transactions
  imports Presets "HOL-Library.Log_Nat"
begin

text \<open>
  How the relay chain's offchain workers make a signed extrinsic (\<open>CreateSignedTransaction\<close> of
  \<open>runtime/src/lib.rs\<close>) and how a parachain prices the weight of one (\<open>WeightToFee\<close> of
  \<open>proofhub/runtime/src/lib.rs\<close>, word for word the same in the other three runtimes).
\<close>

section \<open>Extrinsics of offchain workers\<close>

text \<open>
  An era is given by the arguments of \<open>Era::mortal\<close>, whose encoding is the SDK's. Of the extension's
  eleven parts, those that carry a value.
\<close>

datatype era = Immortal | Mortal u64 u64

record tx_extension =
  ext_mortality :: era
  ext_nonce :: u32
  ext_tip :: u128
  ext_metadata_hash :: bool

datatype ('call, 'addr, 'sig) unchecked_extrinsic =
    Bare 'call
  | General 'call tx_extension
  | SignedExtrinsic 'call 'addr 'sig tx_extension

text \<open>
  The SDK's part: the payload \<open>SignedPayload::new\<close> makes, \<open>None\<close> for its error; signing by the keystore; and
  the address of an account.
\<close>

record ('call, 'pub, 'acct, 'addr, 'sig) tx_env =
  signed_payload :: "'call \<Rightarrow> tx_extension \<Rightarrow> bytes option"
  tx_sign :: "bytes \<Rightarrow> 'pub \<Rightarrow> 'sig option"
  unlookup :: "'acct \<Rightarrow> 'addr"

definition create_transaction :: "'call \<Rightarrow> tx_extension \<Rightarrow> ('call, 'addr, 'sig) unchecked_extrinsic" where
  "create_transaction call extension = General call extension"

definition create_bare :: "'call \<Rightarrow> ('call, 'addr, 'sig) unchecked_extrinsic" where
  "create_bare call = Bare call"

definition create_extension :: tx_extension where
  "create_extension = \<lparr>ext_mortality = Immortal, ext_nonce = 0, ext_tip = 0, ext_metadata_hash = False\<rparr>"

text \<open>\<open>u32::checked_next_power_of_two\<close>.\<close>

fun double_up :: "nat \<Rightarrow> nat \<Rightarrow> nat \<Rightarrow> nat" where
  "double_up 0 p n = p"
| "double_up (Suc k) p n = (if n \<le> p then p else double_up k (2 * p) n)"

definition checked_next_power_of_two :: "u32 \<Rightarrow> u32 option" where
  "checked_next_power_of_two n =
     (let p = double_up 32 1 (unat n) in if p < 2 ^ 32 then Some (of_nat p) else None)"

definition mortal_period :: "u32 \<Rightarrow> u64" where
  "mortal_period block_hash_count =
     ucast (case map_option (\<lambda>c. c div 2) (checked_next_power_of_two block_hash_count) of
       Some c \<Rightarrow> c | None \<Rightarrow> 2)"

definition create_signed_transaction ::
  "('call, 'pub, 'acct, 'addr, 'sig) tx_env \<Rightarrow> u32 \<Rightarrow> u32 \<Rightarrow> 'call \<Rightarrow> 'pub \<Rightarrow> 'acct \<Rightarrow> u32 \<Rightarrow>
     ('call, 'addr, 'sig) unchecked_extrinsic option" where
  "create_signed_transaction T block_hash_count block_number call public account nonce =
     (let period = mortal_period block_hash_count;
          current_block = (let n = ucast block_number :: u64 in if n = 0 then 0 else n - 1);
          tip = 0;
          tx_ext = \<lparr>ext_mortality = Mortal period current_block, ext_nonce = nonce, ext_tip = tip,
            ext_metadata_hash = True\<rparr>
      in case signed_payload T call tx_ext of
           None \<Rightarrow> None
         | Some raw_payload \<Rightarrow>
             (case tx_sign T raw_payload public of
                None \<Rightarrow> None
              | Some signature \<Rightarrow> Some (SignedExtrinsic call (unlookup T account) signature tx_ext)))"

section \<open>The period\<close>

text \<open>\<open>double_up\<close> stops at the first power of two that is not below its bound.\<close>

lemma double_up_power:
  assumes "n \<le> 2 ^ k * p"
  shows "\<exists>j \<le> k. double_up k p n = 2 ^ j * p \<and> n \<le> 2 ^ j * p \<and> (j > 0 \<longrightarrow> 2 ^ (j - 1) * p < n)"
  using assms
proof (induction k arbitrary: p)
  case (Suc k)
  show ?case
  proof (cases "n \<le> p")
    case False
    have "n \<le> 2 ^ k * (2 * p)" using Suc.prems by (simp add: ac_simps)
    from Suc.IH [OF this] obtain j where j: "j \<le> k" "double_up k (2 * p) n = 2 ^ j * (2 * p)"
      "n \<le> 2 ^ j * (2 * p)" "j > 0 \<longrightarrow> 2 ^ (j - 1) * (2 * p) < n" by blast
    have "2 ^ j * p < n" using j(4) False by (cases j) (simp_all add: ac_simps)
    with j False show ?thesis by (intro exI [of _ "Suc j"]) (simp add: ac_simps)
  qed (auto intro: exI [of _ 0])
qed simp

text \<open>It is the library's binary logarithm, rounded up.\<close>

lemma double_up_ceillog2:
  assumes "n \<le> 2 ^ k"
  shows "double_up k 1 n = 2 ^ ceillog2 n"
proof -
  obtain j where j: "double_up k 1 n = 2 ^ j" "n \<le> 2 ^ j" "j > 0 \<longrightarrow> 2 ^ (j - 1) < n"
    using double_up_power [of n k 1] assms by auto
  have "ceillog2 n = j"
  proof (cases j)
    case 0
    with j(2) show ?thesis by simp
  next
    case (Suc i)
    with j(2,3) show ?thesis by (intro ceillog2_eqI) auto
  qed
  with j(1) show ?thesis by simp
qed

text \<open>
  An offchain worker's extrinsic lives as long as it can and no longer than its birth block can be
  checked: for every \<open>BlockHashCount\<close> up to \<open>2 ^ 31\<close> the period is the greatest power of two below it,
  so that the hash of the block the period begins with is still stored.
\<close>

theorem mortal_period_maximal:
  assumes "2 \<le> block_hash_count" and "block_hash_count \<le> 2 ^ 31"
  shows "\<exists>k. unat (mortal_period block_hash_count) = 2 ^ k \<and> 2 ^ k < unat block_hash_count \<and>
    unat block_hash_count \<le> 2 ^ Suc k"
proof -
  let ?n = "unat block_hash_count"
  have n: "2 \<le> ?n" "?n \<le> 2 ^ 31" using assms by (simp_all add: word_le_nat_alt)
  then obtain j where j: "double_up 32 1 ?n = 2 ^ j" "?n \<le> 2 ^ j" "j > 0 \<longrightarrow> 2 ^ (j - 1) < ?n"
    using double_up_power [of ?n 32 1] by auto
  have "0 < j" using n(1) j(2) by (cases j) simp_all
  then obtain k where k: "j = Suc k" by (cases j) simp_all
  have lt: "2 ^ k < ?n" using j(3) k by simp
  then have "(2 :: nat) ^ k < 2 ^ 31" using n(2) by simp
  then have k31: "k < 31" by (simp only: power_strict_increasing_iff [of 2])
  then have "(2 :: nat) ^ Suc k \<le> 2 ^ 31" by (intro power_increasing) simp_all
  then have c: "checked_next_power_of_two block_hash_count = Some (of_nat (2 ^ Suc k))"
    using j(1) k by (simp add: checked_next_power_of_two_def Let_def)
  have "unat (of_nat m div 2 :: u32) = m div 2" if "m \<le> 2 ^ 31" for m :: nat
    using that by (simp add: unat_div unat_of_nat_small)
  from this [OF \<open>(2 :: nat) ^ Suc k \<le> 2 ^ 31\<close>] have "unat (of_nat (2 ^ Suc k) div 2 :: u32) = 2 ^ k" by simp
  then have "unat (mortal_period block_hash_count) = 2 ^ k"
    using c by (simp add: mortal_period_def unat_ucast_up)
  with lt j(2) k show ?thesis by blast
qed

text \<open>A signed extrinsic carries the call and the nonce it was asked for, and a signature of exactly its payload.\<close>

lemma signed_transaction_payload:
  assumes "create_signed_transaction T bhc n call public account nonce = Some x"
  obtains sig ext p where "x = SignedExtrinsic call (unlookup T account) sig ext" and "ext_nonce ext = nonce"
    and "signed_payload T call ext = Some p" and "tx_sign T p public = Some sig"
    and "ext_mortality ext = Mortal (mortal_period bhc) (ucast n - (if n = 0 then 0 else 1))"
proof -
  have "ucast n = (0 :: u64) \<longleftrightarrow> n = 0" by (simp add: word_unat_eq_iff unat_ucast_up)
  then show ?thesis
    using assms by (fastforce simp: create_signed_transaction_def Let_def intro: that split: option.splits if_splits)
qed

section \<open>Fees on the parachains\<close>

lemma unat_less_length: "unat (w :: 'a::len word) < 2 ^ LENGTH('a)" by (rule unsigned_less)

text \<open>
  One coefficient of the polynomial. \<open>Perbill::from_rational\<close> is the SDK's: the fraction is its
  numerator and denominator.
\<close>

record fee_coefficient =
  degree :: u8
  negative :: bool
  coeff_frac :: "u128 \<times> u128"
  coeff_integer :: u128

definition fee_polynomial :: "u64 \<Rightarrow> fee_coefficient list" where
  "fee_polynomial extrinsic_base_ref_time =
     (let p = MILLI_UNIT div 10;
          q = 100 * ucast extrinsic_base_ref_time
      in [\<lparr>degree = 1, negative = False, coeff_frac = (p mod q, q), coeff_integer = p div q\<rparr>])"

text \<open>The polynomial as a rational number: what it charges for a weight before any rounding.\<close>

definition exact_fee :: "fee_coefficient list \<Rightarrow> nat \<Rightarrow> rat" where
  "exact_fee cs w = sum_list (map (\<lambda>c. (if negative c then -1 else 1) *
     (of_nat (unat (coeff_integer c)) + of_nat (unat (fst (coeff_frac c))) / of_nat (unat (snd (coeff_frac c)))) *
     of_nat w ^ unat (degree c)) cs)"

lemma div_mod_rat:
  assumes "0 < y"
  shows "(of_nat (x div y) + of_nat (x mod y) / of_nat y) * of_nat y = (of_nat x :: rat)"
proof -
  have "of_nat (x div y) * of_nat y + of_nat (x mod y) = (of_nat x :: rat)"
    by (simp only: div_mult_mod_eq flip: of_nat_mult of_nat_add)
  with assms show ?thesis by (simp add: distrib_right)
qed

text \<open>
  The least extrinsic costs one thousandth of a \<open>MILLI_UNIT\<close>, a hundredth of what the comment beside
  the code says: dividing by \<open>100 * base\<close> maps the base weight to a hundredth of the tenth.
\<close>

theorem base_extrinsic_fee:
  assumes "b \<noteq> 0"
  shows "exact_fee (fee_polynomial b) (unat b) = of_nat (unat MILLI_UNIT) / 1000"
proof -
  have b: "0 < unat b" using assms by (simp add: unat_gt_0)
  let ?q = "100 * ucast b :: u128" and ?p = "MILLI_UNIT div 10"
  have q: "unat ?q = 100 * unat b"
  proof -
    have "100 * unat b < 2 ^ LENGTH(128)" using unat_less_length [of b] by simp
    moreover have "?q = of_nat (100 * unat b)" by simp
    ultimately show ?thesis by (simp only: unat_of_nat_small)
  qed
  have p: "unat ?p = 100000000" "unat MILLI_UNIT = 1000000000" by (simp_all add: MILLI_UNIT_def unat_div)
  define c where "c = (of_nat (unat (?p div ?q)) + of_nat (unat (?p mod ?q)) / of_nat (unat ?q) :: rat)"
  have "c * of_nat (unat ?q) = of_nat (unat ?p)"
    using b div_mod_rat [of "unat ?q" "unat ?p"] by (simp only: c_def unat_div unat_mod q)
  then have "c * of_nat (unat b) = of_nat (unat ?p) / 100" by (simp add: q)
  moreover have "exact_fee (fee_polynomial b) (unat b) = c * of_nat (unat b)"
    by (simp add: exact_fee_def fee_polynomial_def Let_def c_def)
  ultimately show ?thesis by (simp add: p)
qed

end
