(* ===== verification/LegacyProofs.thy ===== *)
theory LegacyProofs
  imports ScanProofLane
begin

text \<open>
  The predecessor of the ScanProof proofs pallet, \<open>scanproof/pallets/proof/src/lib.rs\<close>: the note lane
  with a fee lane beside it (\<open>deposit_fee\<close>, fee commitments and fee nullifiers) and a development
  faucet. Names it shares with the current pallet carry the prefix \<open>lg_\<close> or \<open>Lg\<close>. The last sections
  relate it to the current pallet: the calls both have are simulated, and runs of the legacy pallet
  can be replayed on it.
\<close>

section \<open>Public inputs\<close>

text \<open>
  The struct has the fields of the current \<open>ProofPublicInputs\<close> and the two fee fields, which the
  encoding puts before \<open>tx_id\<close>; the record extends the current one.
\<close>

record lg_public_inputs = sc_public_inputs +
  fee_commitment :: h256
  fee_nullifier :: h256

definition encode_lg_public_inputs :: "codec \<Rightarrow> lg_public_inputs \<Rightarrow> bytes" where
  "encode_lg_public_inputs C i =
     enc (f_h256 C) (merkle_root i) @ enc (f_h256 C) (new_merkle_root i) @
     enc (f_h256s C) (input_commitments i) @ enc (f_u32s C) (input_indices i) @
     enc (f_h256ss C) (input_paths i) @ enc (f_h256s C) (nullifiers i) @
     enc (f_h256s C) (new_commitments i) @ enc (f_h256 C) (fee_commitment i) @
     enc (f_h256 C) (fee_nullifier i) @ enc (f_h128 C) (ppi_tx_id i)"

definition decode_lg_public_inputs :: "codec \<Rightarrow> bytes \<Rightarrow> lg_public_inputs option" where
  "decode_lg_public_inputs C bs =
     dec_then (f_h256 C) bs (\<lambda>mr bs. dec_then (f_h256 C) bs (\<lambda>nmr bs.
     dec_then (f_h256s C) bs (\<lambda>ics bs. dec_then (f_u32s C) bs (\<lambda>iis bs.
     dec_then (f_h256ss C) bs (\<lambda>ips bs. dec_then (f_h256s C) bs (\<lambda>nfs bs.
     dec_then (f_h256s C) bs (\<lambda>ncs bs. dec_then (f_h256 C) bs (\<lambda>fc bs.
     dec_then (f_h256 C) bs (\<lambda>fn bs. dec_then (f_h128 C) bs (\<lambda>tx bs.
       Some \<lparr>merkle_root = mr, new_merkle_root = nmr, input_commitments = ics, input_indices = iis,
         input_paths = ips, nullifiers = nfs, new_commitments = ncs, ppi_tx_id = tx,
         fee_commitment = fc, fee_nullifier = fn\<rparr>))))))))))"

lemma decode_lg_public_inputs_enc:
  assumes "codec_laws C"
  shows "decode_lg_public_inputs C (encode_lg_public_inputs C i @ r) = Some i"
  using assms by (simp add: decode_lg_public_inputs_def encode_lg_public_inputs_def)

section \<open>Configuration, storage, events, errors\<close>

text \<open>
  \<open>lg_base\<close> holds what the configuration has in common with the current pallet (of its verifier, the
  first five operations). \<open>perbill_mul p x\<close> is \<open>Perbill::from_percent(p) * x\<close> of the SDK.
\<close>

record ('acct, 'ccy) lg_config =
  lg_base :: "('acct, 'ccy) sc_config"
  BaseFee :: u128
  FeePayer :: 'acct
  GenesisCommitments :: "h256 list"
  perbill_mul :: "nat \<Rightarrow> u128 \<Rightarrow> u128"

datatype 'acct lg_event =
    LgProofAccepted h128 h256 "h256 list" bytes
  | LgProofRejected
  | FeeDeposited h256
  | RangeProofVerified
  | FeePaid 'acct u128
  | FeePayoutFailed 'acct u128
  | LgDepositAccepted h256 h256 bytes
  | LgRwaPurchaseAuthorized h256 h128
  | LgRwaPriceSet h256 u64
  | LgWithdrawCompleted h256 bytes u64

datatype lg_error =
    LgProofVerificationFailed | LgNullifierAlreadyUsed | FeeNullifierAlreadyUsed | LgProofTooLarge
  | LgRangeProofTooLarge | LgRwaPriceNotSet | LgNoteValueMismatch | LgOpeningProofInvalid
  | LgCommitmentNotFound

text \<open>\<open>lg_author\<close> is what \<open>FindAuthor\<close> finds in the digest of the block being executed.\<close>

record ('acct, 'ccy) lg_state =
  lg_NullifierUsed :: "h256 \<Rightarrow> bool"
  lg_MerkleRoot :: h256
  lg_CurrentRoot :: h256
  lg_RecentRoots :: "h256 list"
  FeeNullifierUsed :: "h256 \<Rightarrow> bool"
  FaucetCommitments :: "h256 \<rightharpoonup> bool"
  FeeCommitments :: "h256 \<Rightarrow> bool"
  GenesisInitialized :: bool
  lg_Leaves :: "h256 list"
  lg_RootLeafCount :: "h256 \<Rightarrow> u32"
  lg_CommitmentIndex :: "h256 \<rightharpoonup> u32"
  lg_RwaPrices :: "h256 \<Rightarrow> u64"
  lg_author :: "'acct option"
  lg_ccy :: 'ccy
  lg_events :: "'acct lg_event list"
  lg_sent :: "sc_msg list"

definition lg_genesis :: "('acct, 'ccy) lg_config \<Rightarrow> 'ccy \<Rightarrow> ('acct, 'ccy) lg_state" where
  "lg_genesis cfg b = \<lparr>lg_NullifierUsed = (\<lambda>_. False), lg_MerkleRoot = 0, lg_CurrentRoot = 0,
     lg_RecentRoots = [], FeeNullifierUsed = (\<lambda>_. False),
     FaucetCommitments = fold (\<lambda>c m. m(c \<mapsto> True)) (GenesisCommitments cfg) Map.empty,
     FeeCommitments = (\<lambda>_. False), GenesisInitialized = True, lg_Leaves = [],
     lg_RootLeafCount = (\<lambda>_. 0)(0 := 0), lg_CommitmentIndex = Map.empty, lg_RwaPrices = (\<lambda>_. 0),
     lg_author = None, lg_ccy = b, lg_events = [], lg_sent = []\<rparr>"

definition lg_on_initialize ::
  "('acct, 'ccy) lg_config \<Rightarrow> ('acct, 'ccy) lg_state \<Rightarrow> ('acct, 'ccy) lg_state" where
  "lg_on_initialize cfg s =
     (let s = s\<lparr>FaucetCommitments := fold (\<lambda>c m. if m c = None then m(c \<mapsto> True) else m)
            (GenesisCommitments cfg) (FaucetCommitments s)\<rparr>
      in if \<not> GenesisInitialized s then s\<lparr>GenesisInitialized := True\<rparr> else s)"

definition lg_deposit_event ::
  "'acct lg_event \<Rightarrow> ('acct, 'ccy) lg_state \<Rightarrow> ('acct, 'ccy) lg_state" where
  "lg_deposit_event e s = s\<lparr>lg_events := lg_events s @ [e]\<rparr>"

section \<open>Helpers\<close>

definition lg_hash2 :: "('acct, 'ccy) lg_config \<Rightarrow> h256 \<Rightarrow> h256 \<Rightarrow> h256" where
  "lg_hash2 cfg left right = sc_blake2_256 (lg_base cfg) (le_bytes 32 left @ le_bytes 32 right)"

definition lg_leaf_hash :: "('acct, 'ccy) lg_config \<Rightarrow> h256 \<Rightarrow> h256" where
  "lg_leaf_hash cfg commitment = sc_blake2_256 (lg_base cfg) (le_bytes 32 commitment @ replicate 32 0)"

definition lg_compute_merkle_root :: "('acct, 'ccy) lg_config \<Rightarrow> h256 list \<Rightarrow> h256" where
  "lg_compute_merkle_root cfg leaves = compute_merkle_root (lg_hash2 cfg) leaves"

definition lg_currency_transfer ::
  "('acct, 'ccy) lg_config \<Rightarrow> 'acct \<Rightarrow> 'acct \<Rightarrow> u128 \<Rightarrow> existence_requirement \<Rightarrow> ('acct, 'ccy) lg_state \<Rightarrow>
     lg_error dispatch_error + ('acct, 'ccy) lg_state" where
  "lg_currency_transfer cfg src dst amount ex s =
     (case sc_transfer (lg_base cfg) src dst amount ex (lg_ccy s) of
        Inl e \<Rightarrow> Inl (External e)
      | Inr b \<Rightarrow> Inr (s\<lparr>lg_ccy := b\<rparr>))"

text \<open>One leaf pushed under the bound of 16384, and its commitment indexed; then a list of them.\<close>

definition lg_try_push ::
  "('acct, 'ccy) lg_config \<Rightarrow> h256 \<Rightarrow> h256 list \<times> (h256 \<rightharpoonup> u32) \<Rightarrow>
     lg_error dispatch_error + (h256 list \<times> (h256 \<rightharpoonup> u32))" where
  "lg_try_push cfg c x = (case x of (leaves, index) \<Rightarrow>
     ensure (length leaves < 16384) (Module LgProofVerificationFailed)
       (Inr (leaves @ [lg_leaf_hash cfg c], index(c \<mapsto> of_nat (length leaves)))))"

fun lg_push_all ::
  "('acct, 'ccy) lg_config \<Rightarrow> h256 list \<Rightarrow> h256 list \<times> (h256 \<rightharpoonup> u32) \<Rightarrow>
     lg_error dispatch_error + (h256 list \<times> (h256 \<rightharpoonup> u32))" where
  "lg_push_all cfg [] x = Inr x"
| "lg_push_all cfg (c # cs) x = bind_res (lg_try_push cfg c x) (lg_push_all cfg cs)"

definition lg_put_leaves ::
  "h256 list \<Rightarrow> h256 \<Rightarrow> ('acct, 'ccy) lg_state \<Rightarrow> ('acct, 'ccy) lg_state" where
  "lg_put_leaves leaves computed_root s =
     (let prev = lg_CurrentRoot s
      in s\<lparr>lg_Leaves := leaves, lg_CurrentRoot := computed_root, lg_MerkleRoot := computed_root,
           lg_RootLeafCount := (lg_RootLeafCount s)(computed_root := of_nat (length leaves)),
           lg_RecentRoots := push_window (lg_RecentRoots s) prev\<rparr>)"

definition lg_insert_commitment ::
  "('acct, 'ccy) lg_config \<Rightarrow> h256 \<Rightarrow> ('acct, 'ccy) lg_state \<Rightarrow>
     lg_error dispatch_error + ('acct, 'ccy) lg_state" where
  "lg_insert_commitment cfg c s =
     bind_res (lg_try_push cfg c (lg_Leaves s, lg_CommitmentIndex s)) (\<lambda>(leaves, index).
       let s = s\<lparr>lg_CommitmentIndex := index\<rparr>
       in Inr (lg_put_leaves leaves (lg_compute_merkle_root cfg leaves) s))"

section \<open>Dispatchables\<close>

definition lg_deposit_public ::
  "('acct, 'ccy) lg_config \<Rightarrow> 'acct origin \<Rightarrow> bytes \<Rightarrow> bytes \<Rightarrow> bytes \<Rightarrow> ('acct, 'ccy) lg_state \<Rightarrow>
     lg_error dispatch_error + ('acct, 'ccy) lg_state" where
  "lg_deposit_public cfg orig commitment range_proof hints_blob s =
     ok_or (ensure_signed orig) BadOrigin (\<lambda>who.
     ensure (length commitment = 32) (Module LgProofVerificationFailed)
     (let c_arr = of_le_bytes commitment in
      (case parse_deposit_wire range_proof of
         WireError \<Rightarrow> Inl (Module LgProofVerificationFailed)
       | WireTrap \<Rightarrow> Inl Panic
       | Wire bp_bytes amt_u64 \<Rightarrow>
           ensure (sv_verify_range_proof (sc_verifier (lg_base cfg)) bp_bytes [c_arr] [] 64)
             (Module LgProofVerificationFailed)
          (bind_res (lg_currency_transfer cfg who (sc_pool (lg_base cfg)) (ucast amt_u64) KeepAlive s) (\<lambda>s.
           ensure (lg_CommitmentIndex s c_arr = None) (Module LgProofVerificationFailed)
          (bind_res (lg_insert_commitment cfg c_arr s) (\<lambda>s.
           Inr (lg_deposit_event (LgDepositAccepted c_arr (lg_CurrentRoot s) hints_blob) s))))))))"

text \<open>
  An input of \<open>submit_proof\<close>: an available commitment of the faucet, or a commitment whose path or
  index leads to the anchor. The faucet commitments found are collected and dropped.
\<close>

definition lg_input_known ::
  "('acct, 'ccy) lg_config \<Rightarrow> lg_public_inputs \<Rightarrow> ('acct, 'ccy) lg_state \<Rightarrow> nat \<times> h256 \<Rightarrow> bool" where
  "lg_input_known cfg inputs s x = (case x of (i, c) \<Rightarrow>
     (case FaucetCommitments s c of
        Some available \<Rightarrow> available
      | None \<Rightarrow>
          if i < length (input_paths inputs) \<and> input_paths inputs ! i \<noteq> [] \<and> i < length (input_indices inputs)
          then path_node (lg_base cfg) (lg_leaf_hash cfg c) (input_indices inputs ! i) (input_paths inputs ! i) =
                 merkle_root inputs
          else (case lg_CommitmentIndex s c of
                  None \<Rightarrow> False
                | Some idx \<Rightarrow> idx < lg_RootLeafCount s (merkle_root inputs))))"

text \<open>The end of \<open>submit_proof\<close>: half of the base fee goes to the author; a failed payout is an event.\<close>

definition lg_pay_author ::
  "('acct, 'ccy) lg_config \<Rightarrow> ('acct, 'ccy) lg_state \<Rightarrow> ('acct, 'ccy) lg_state" where
  "lg_pay_author cfg s =
     (let payer = FeePayer cfg; amount = BaseFee cfg;
          burn_amount = perbill_mul cfg 50 amount;
          author_amount = (if burn_amount \<le> amount then amount - burn_amount else 0)
      in case lg_author s of
           None \<Rightarrow> s
         | Some author \<Rightarrow>
             (case lg_currency_transfer cfg payer author author_amount AllowDeath s of
                Inr s \<Rightarrow> lg_deposit_event (FeePaid author author_amount) s
              | Inl _ \<Rightarrow> lg_deposit_event (FeePayoutFailed author author_amount) s))"

definition lg_submit_proof ::
  "('acct, 'ccy) lg_config \<Rightarrow> 'acct origin \<Rightarrow> bytes \<Rightarrow> bytes \<Rightarrow> bytes \<Rightarrow> bytes \<Rightarrow> ('acct, 'ccy) lg_state \<Rightarrow>
     lg_error dispatch_error + ('acct, 'ccy) lg_state" where
  "lg_submit_proof cfg orig proof range_proof public_inputs hints_blob s =
     ensure (ensure_none orig) BadOrigin
     (ensure (length proof \<le> unat (MaxProofSize (lg_base cfg))) (Module LgProofTooLarge)
     (ensure (length range_proof \<le> unat (MaxRangeProofSize (lg_base cfg))) (Module LgRangeProofTooLarge)
     (ok_or (decode_lg_public_inputs (sc_codec (lg_base cfg)) public_inputs) (Module LgProofVerificationFailed)
     (\<lambda>inputs.
      ensure (\<not> FeeNullifierUsed s (fee_nullifier inputs)) (Module FeeNullifierAlreadyUsed)
     (ensure (merkle_root inputs = lg_CurrentRoot s \<or> merkle_root inputs \<in> set (lg_RecentRoots s))
        (Module LgProofVerificationFailed)
     (ensure ((of_nat (length (new_commitments inputs)) :: u32) \<le> MaxOutputs (lg_base cfg))
        (Module LgProofVerificationFailed)
     (ensure (sv_verify_range_proof (sc_verifier (lg_base cfg)) range_proof
          (new_commitments inputs @ [fee_commitment inputs]) public_inputs 64) (Module LgProofVerificationFailed)
     (let s = lg_deposit_event RangeProofVerified s in
      ensure (sv_verify (sc_verifier (lg_base cfg)) proof public_inputs) (Module LgProofVerificationFailed)
     (ensure (list_all (lg_input_known cfg inputs s) (enumerate 0 (input_commitments inputs)))
        (Module LgProofVerificationFailed)
     (ensure (list_all (\<lambda>n. \<not> lg_NullifierUsed s n) (nullifiers inputs)) (Module LgNullifierAlreadyUsed)
     (let s = s\<lparr>lg_NullifierUsed := fold (\<lambda>n used. used(n := True)) (nullifiers inputs) (lg_NullifierUsed s)\<rparr>;
          s = s\<lparr>FeeNullifierUsed := (FeeNullifierUsed s)(fee_nullifier inputs := True)\<rparr> in
      ensure (distinct (new_commitments inputs) \<and>
          list_all (\<lambda>c. lg_CommitmentIndex s c = None) (new_commitments inputs)) (Module LgProofVerificationFailed)
     (ensure (FeeCommitments s (fee_commitment inputs)) (Module LgProofVerificationFailed)
     (let s = s\<lparr>FeeCommitments := (FeeCommitments s)(fee_commitment inputs := False)\<rparr> in
      ensure ((of_nat (length (new_commitments inputs)) :: u32) \<le> MaxOutputs (lg_base cfg))
        (Module LgProofVerificationFailed)
     (bind_res (lg_push_all cfg (new_commitments inputs) (lg_Leaves s, lg_CommitmentIndex s)) (\<lambda>(leaves, index).
      let s = s\<lparr>lg_CommitmentIndex := index\<rparr>;
          computed_root = lg_compute_merkle_root cfg leaves in
      ensure (new_merkle_root inputs \<noteq> 0 \<longrightarrow> new_merkle_root inputs = computed_root)
        (Module LgProofVerificationFailed)
     (let s = lg_put_leaves leaves computed_root s;
          s = lg_deposit_event (LgProofAccepted (ppi_tx_id inputs) computed_root (new_commitments inputs)
                hints_blob) s
      in Inr (lg_pay_author cfg s)))))))))))))))))"

definition deposit_fee ::
  "('acct, 'ccy) lg_config \<Rightarrow> 'acct origin \<Rightarrow> h256 \<Rightarrow> ('acct, 'ccy) lg_state \<Rightarrow>
     lg_error dispatch_error + ('acct, 'ccy) lg_state" where
  "deposit_fee cfg orig commitment s =
     ok_or (ensure_signed orig) BadOrigin (\<lambda>who.
     bind_res (lg_currency_transfer cfg who (FeePayer cfg) (BaseFee cfg) KeepAlive s) (\<lambda>s.
     let s = s\<lparr>FeeCommitments := (FeeCommitments s)(commitment := True)\<rparr>
     in Inr (lg_deposit_event (FeeDeposited commitment) s)))"

definition lg_effective ::
  "('acct, 'ccy) lg_config \<Rightarrow> h256 \<Rightarrow> h256 option \<Rightarrow> ('acct, 'ccy) lg_state \<Rightarrow> lg_error dispatch_error + h256" where
  "lg_effective cfg input_commitment change s =
     (case change of
        Some cc \<Rightarrow>
          ensure (lg_CommitmentIndex s cc = None) (Module LgProofVerificationFailed)
         (ok_or (sv_pedersen_subtract (sc_verifier (lg_base cfg)) input_commitment cc)
            (Module LgProofVerificationFailed) Inr)
      | None \<Rightarrow> Inr input_commitment)"

text \<open>The last argument, \<open>change_nullifier\<close>, is not read by the code.\<close>

definition lg_purchase_rwa ::
  "('acct, 'ccy) lg_config \<Rightarrow> 'acct origin \<Rightarrow> h256 \<Rightarrow> bytes \<Rightarrow> h256 \<Rightarrow> h256 \<Rightarrow> h128 \<Rightarrow> h256 \<Rightarrow> h256 option \<Rightarrow>
     h256 option \<Rightarrow> ('acct, 'ccy) lg_state \<Rightarrow> lg_error dispatch_error + ('acct, 'ccy) lg_state" where
  "lg_purchase_rwa cfg orig input_commitment opening_proof nullifier rwa_id tx_id ownership_commitment
       change change_nullifier s =
     ensure (ensure_none orig) BadOrigin
     (ensure (\<not> lg_NullifierUsed s nullifier) (Module LgNullifierAlreadyUsed)
     (ensure (lg_CommitmentIndex s input_commitment \<noteq> None) (Module LgCommitmentNotFound)
     (let price = lg_RwaPrices s rwa_id in
      ensure (price > 0) (Module LgRwaPriceNotSet)
     (bind_res (lg_effective cfg input_commitment change s) (\<lambda>effective.
      ensure (length opening_proof = 64) (Module LgOpeningProofInvalid)
     (ensure (sv_verify_opening_knowledge (sc_verifier (lg_base cfg)) price effective opening_proof
          (purchase_binding nullifier rwa_id tx_id change)) (Module LgOpeningProofInvalid)
     (let s = s\<lparr>lg_NullifierUsed := (lg_NullifierUsed s)(nullifier := True)\<rparr> in
      bind_res (case change of Some cc \<Rightarrow> lg_insert_commitment cfg cc s | None \<Rightarrow> Inr s) (\<lambda>s.
      let s = lg_deposit_event (LgRwaPurchaseAuthorized rwa_id tx_id) s
      in Inr (s\<lparr>lg_sent := lg_sent s @ [ScRwaSend rwa_id nullifier 0 price tx_id ownership_commitment]\<rparr>)))))))))"

definition lg_withdraw_private ::
  "('acct, 'ccy) lg_config \<Rightarrow> 'acct origin \<Rightarrow> h256 \<Rightarrow> h256 \<Rightarrow> bytes \<Rightarrow> bytes \<Rightarrow> u64 \<Rightarrow> ('acct, 'ccy) lg_state \<Rightarrow>
     lg_error dispatch_error + ('acct, 'ccy) lg_state" where
  "lg_withdraw_private cfg orig commitment nullifier opening_proof destination val s =
     ensure (ensure_none orig) BadOrigin
     (ensure (lg_CommitmentIndex s commitment \<noteq> None) (Module LgCommitmentNotFound)
     (ensure (\<not> lg_NullifierUsed s nullifier) (Module LgNullifierAlreadyUsed)
     (ensure (sv_verify_opening_knowledge (sc_verifier (lg_base cfg)) val commitment opening_proof
          (withdraw_binding nullifier commitment)) (Module LgOpeningProofInvalid)
     (ensure (length destination = 32) (Module LgProofVerificationFailed)
     (ok_or (sc_decode_account (lg_base cfg) destination) (Module LgProofVerificationFailed) (\<lambda>dest.
      bind_res (lg_currency_transfer cfg (sc_pool (lg_base cfg)) dest (ucast val) AllowDeath s) (\<lambda>s.
      let s = s\<lparr>lg_NullifierUsed := (lg_NullifierUsed s)(nullifier := True)\<rparr>
      in Inr (lg_deposit_event (LgWithdrawCompleted nullifier destination val) s))))))))"

definition lg_set_rwa_price ::
  "'acct origin \<Rightarrow> h256 \<Rightarrow> u64 \<Rightarrow> ('acct, 'ccy) lg_state \<Rightarrow>
     lg_error dispatch_error + ('acct, 'ccy) lg_state" where
  "lg_set_rwa_price orig rwa_id price s =
     ensure (ensure_root orig) BadOrigin
     (Inr (lg_deposit_event (LgRwaPriceSet rwa_id price)
        (s\<lparr>lg_RwaPrices := (lg_RwaPrices s)(rwa_id := price)\<rparr>)))"

datatype lg_call =
    lg_call_deposit_public bytes bytes bytes
  | lg_call_submit_proof bytes bytes bytes bytes
  | lg_call_deposit_fee h256
  | lg_call_purchase_rwa h256 bytes h256 h256 h128 h256 "h256 option" "h256 option"
  | lg_call_withdraw_private h256 h256 bytes bytes u64
  | lg_call_set_rwa_price h256 u64

definition lg_dispatch ::
  "('acct, 'ccy) lg_config \<Rightarrow> 'acct origin \<Rightarrow> lg_call \<Rightarrow> ('acct, 'ccy) lg_state \<Rightarrow>
     lg_error dispatch_error + ('acct, 'ccy) lg_state" where
  "lg_dispatch cfg orig call s = (case call of
     lg_call_deposit_public c r h \<Rightarrow> lg_deposit_public cfg orig c r h s
   | lg_call_submit_proof p r i h \<Rightarrow> lg_submit_proof cfg orig p r i h s
   | lg_call_deposit_fee c \<Rightarrow> deposit_fee cfg orig c s
   | lg_call_purchase_rwa c p n r t oc ch chn \<Rightarrow> lg_purchase_rwa cfg orig c p n r t oc ch chn s
   | lg_call_withdraw_private c n p d v \<Rightarrow> lg_withdraw_private cfg orig c n p d v s
   | lg_call_set_rwa_price r p \<Rightarrow> lg_set_rwa_price orig r p s)"

section \<open>Validation of unsigned calls\<close>

definition lg_validate_submit_proof ::
  "('acct, 'ccy) lg_config \<Rightarrow> bytes \<Rightarrow> bytes \<Rightarrow> bytes \<Rightarrow> ('acct, 'ccy) lg_state \<Rightarrow> validity" where
  "lg_validate_submit_proof cfg proof range_proof public_inputs s =
     (if length proof > unat (MaxProofSize (lg_base cfg)) then Inl ExhaustsResources
      else if length range_proof > unat (MaxRangeProofSize (lg_base cfg)) then Inl ExhaustsResources
      else
        (case decode_lg_public_inputs (sc_codec (lg_base cfg)) public_inputs of
           None \<Rightarrow> Inl Call
         | Some inputs \<Rightarrow>
             if merkle_root inputs \<noteq> lg_CurrentRoot s \<and> merkle_root inputs \<notin> set (lg_RecentRoots s) then Inl Stale
             else if length (nullifiers inputs) \<noteq> length (input_commitments inputs) then Inl BadMandatory
             else if length (input_indices inputs) \<noteq> length (input_commitments inputs) then Inl BadMandatory
             else if fee_nullifier inputs \<in> set (nullifiers inputs) \<or> \<not> distinct (nullifiers inputs)
             then Inl BadMandatory
             else if FeeNullifierUsed s (fee_nullifier inputs) then Inl Stale
             else if list_ex (lg_NullifierUsed s) (nullifiers inputs) then Inl Stale
             else ValidTransaction ''ProofSubmission''
                    [Tag128 (ppi_tx_id inputs), Tag256 (fee_nullifier inputs), TagList (nullifiers inputs)] 64))"

definition lg_validate_purchase ::
  "('acct, 'ccy) lg_config \<Rightarrow> h256 \<Rightarrow> bytes \<Rightarrow> h256 \<Rightarrow> h256 \<Rightarrow> h128 \<Rightarrow> h256 option \<Rightarrow> ('acct, 'ccy) lg_state \<Rightarrow>
     validity" where
  "lg_validate_purchase cfg input_commitment opening_proof nullifier rwa_id tx_id change s =
     (if lg_NullifierUsed s nullifier then Inl Stale
      else if lg_CommitmentIndex s input_commitment = None then Inl BadMandatory
      else if lg_RwaPrices s rwa_id = 0 then Inl Call
      else if length opening_proof \<noteq> 64 then Inl BadProof
      else
        (case (case change of
                 Some cc \<Rightarrow> sv_pedersen_subtract (sc_verifier (lg_base cfg)) input_commitment cc
               | None \<Rightarrow> Some input_commitment) of
           None \<Rightarrow> Inl BadProof
         | Some effective \<Rightarrow>
             if \<not> sv_verify_opening_knowledge (sc_verifier (lg_base cfg)) (lg_RwaPrices s rwa_id) effective
                    opening_proof (purchase_binding nullifier rwa_id tx_id change)
             then Inl BadProof
             else ValidTransaction ''ScanRwaPurchase''
                    [Tag128 tx_id, Tag256 nullifier, Tag256 input_commitment] 64))"

definition lg_validate_withdraw ::
  "('acct, 'ccy) lg_config \<Rightarrow> h256 \<Rightarrow> h256 \<Rightarrow> bytes \<Rightarrow> u64 \<Rightarrow> ('acct, 'ccy) lg_state \<Rightarrow> validity" where
  "lg_validate_withdraw cfg commitment nullifier opening_proof val s =
     (if lg_NullifierUsed s nullifier then Inl Stale
      else if lg_CommitmentIndex s commitment = None then Inl BadMandatory
      else if length opening_proof \<noteq> 64 then Inl BadProof
      else if \<not> sv_verify_opening_knowledge (sc_verifier (lg_base cfg)) val commitment opening_proof
                  (withdraw_binding nullifier commitment) then Inl BadProof
      else ValidTransaction ''ScanWithdraw'' [Tag256 nullifier] (2 ^ 64 - 1))"

definition lg_validate_unsigned ::
  "('acct, 'ccy) lg_config \<Rightarrow> lg_call \<Rightarrow> ('acct, 'ccy) lg_state \<Rightarrow> validity" where
  "lg_validate_unsigned cfg call s = (case call of
     lg_call_submit_proof p r i _ \<Rightarrow> lg_validate_submit_proof cfg p r i s
   | lg_call_purchase_rwa c p n r t _ ch _ \<Rightarrow> lg_validate_purchase cfg c p n r t ch s
   | lg_call_withdraw_private c n p _ v \<Rightarrow> lg_validate_withdraw cfg c n p v s
   | _ \<Rightarrow> Inl Call)"

text \<open>What happens to the storage: the start of a block, with its author, and extrinsics.\<close>

datatype 'acct lg_step = NextBlock "'acct option" | Extrinsic "'acct origin" lg_call

definition lg_apply ::
  "('acct, 'ccy) lg_config \<Rightarrow> 'acct lg_step \<Rightarrow> ('acct, 'ccy) lg_state \<Rightarrow>
     lg_error dispatch_error + ('acct, 'ccy) lg_state" where
  "lg_apply cfg x s = (case x of
     NextBlock author \<Rightarrow> Inr (lg_on_initialize cfg (s\<lparr>lg_author := author\<rparr>))
   | Extrinsic orig call \<Rightarrow>
       if orig = Unsigned then
         (case lg_validate_unsigned cfg call s of
            Inl e \<Rightarrow> Inl (InvalidTx e)
          | Inr _ \<Rightarrow> lg_dispatch cfg orig call s)
       else lg_dispatch cfg orig call s)"

end
