(* ===== verification/LegacyReplay.thy ===== *)
theory LegacyReplay
  imports LegacyProofs
begin

text \<open>
  The legacy ScanProof pallet against the current one: what an accepted legacy extrinsic does, its
  guards, and the refinement \<open>lg_notes\<close> into the storage of the current pallet.
\<close>

section \<open>The storage as the current pallet sees it\<close>

fun event_of :: "'acct lg_event \<Rightarrow> sc_event option" where
  "event_of (LgProofAccepted t r os h) = Some (ProofAccepted t r os h)"
| "event_of LgProofRejected = Some ProofRejected"
| "event_of (FeeDeposited c) = None"
| "event_of RangeProofVerified = None"
| "event_of (FeePaid a x) = None"
| "event_of (FeePayoutFailed a x) = None"
| "event_of (LgDepositAccepted c r h) = Some (DepositAccepted c r h)"
| "event_of (LgRwaPurchaseAuthorized r t) = Some (RwaPurchaseAuthorized r t)"
| "event_of (LgRwaPriceSet r p) = Some (RwaPriceSet r p)"
| "event_of (LgWithdrawCompleted n d v) = Some (WithdrawCompleted n d v)"

fun call_of :: "lg_call \<Rightarrow> sc_call option" where
  "call_of (lg_call_deposit_public c r h) = Some (sc_call_deposit_public c r h)"
| "call_of (lg_call_purchase_rwa c p n r t oc ch chn) = Some (sc_call_purchase_rwa c p n r t oc ch)"
| "call_of (lg_call_withdraw_private c n p d v) = Some (sc_call_withdraw_private c n p d v)"
| "call_of (lg_call_set_rwa_price r p) = Some (sc_call_set_rwa_price r p)"
| "call_of (lg_call_submit_proof p r i h) = None"
| "call_of (lg_call_deposit_fee c) = None"

definition lg_notes :: "('acct, 'ccy) lg_state \<Rightarrow> 'ccy sc_state" where
  "lg_notes s = \<lparr>NullifierUsed = lg_NullifierUsed s, MerkleRoot = lg_MerkleRoot s,
     CurrentRoot = lg_CurrentRoot s, RecentRoots = lg_RecentRoots s, Leaves = lg_Leaves s,
     RootLeafCount = lg_RootLeafCount s, CommitmentIndex = lg_CommitmentIndex s,
     RwaPrices = lg_RwaPrices s, AccessKeyConfigs = Map.empty, CoinGroups = Map.empty,
     CurrentGroup = 0, SerialUsed = (\<lambda>_. False), CoinLocation = Map.empty, sc_ccy = lg_ccy s,
     sc_events = List.map_filter event_of (lg_events s), sc_sent = lg_sent s\<rparr>"

lemma lg_notes_sel [simp]:
  "NullifierUsed (lg_notes s) = lg_NullifierUsed s" "CurrentRoot (lg_notes s) = lg_CurrentRoot s"
  "MerkleRoot (lg_notes s) = lg_MerkleRoot s" "RecentRoots (lg_notes s) = lg_RecentRoots s"
  "Leaves (lg_notes s) = lg_Leaves s" "RootLeafCount (lg_notes s) = lg_RootLeafCount s"
  "CommitmentIndex (lg_notes s) = lg_CommitmentIndex s" "RwaPrices (lg_notes s) = lg_RwaPrices s"
  "sc_ccy (lg_notes s) = lg_ccy s" "sc_sent (lg_notes s) = lg_sent s"
  by (simp_all add: lg_notes_def)

lemma lg_notes_upd [simp]:
  "lg_notes (s\<lparr>lg_ccy := b\<rparr>) = (lg_notes s)\<lparr>sc_ccy := b\<rparr>"
  "lg_notes (s\<lparr>lg_NullifierUsed := n\<rparr>) = (lg_notes s)\<lparr>NullifierUsed := n\<rparr>"
  "lg_notes (s\<lparr>lg_CommitmentIndex := m\<rparr>) = (lg_notes s)\<lparr>CommitmentIndex := m\<rparr>"
  "lg_notes (s\<lparr>lg_RwaPrices := p\<rparr>) = (lg_notes s)\<lparr>RwaPrices := p\<rparr>"
  "lg_notes (s\<lparr>lg_sent := ms\<rparr>) = (lg_notes s)\<lparr>sc_sent := ms\<rparr>"
  "lg_notes (s\<lparr>FeeCommitments := f\<rparr>) = lg_notes s" "lg_notes (s\<lparr>FeeNullifierUsed := g\<rparr>) = lg_notes s"
  "lg_notes (s\<lparr>lg_author := a\<rparr>) = lg_notes s" "lg_notes (s\<lparr>FaucetCommitments := h\<rparr>) = lg_notes s"
  "lg_notes (s\<lparr>GenesisInitialized := i\<rparr>) = lg_notes s"
  by (simp_all add: lg_notes_def)

lemma lg_notes_event [simp]:
  "lg_notes (lg_deposit_event e s) =
     (case event_of e of None \<Rightarrow> lg_notes s | Some e' \<Rightarrow> sc_deposit_event e' (lg_notes s))"
  by (simp add: lg_deposit_event_def sc_deposit_event_def lg_notes_def List.map_filter_def split: option.split)

lemma lg_hashes [simp]:
  "lg_leaf_hash cfg = sc_leaf_hash (lg_base cfg)" "lg_hash2 cfg = sc_hash2 (lg_base cfg)"
  by (simp_all add: fun_eq_iff lg_leaf_hash_def sc_leaf_hash_def lg_hash2_def sc_hash2_def)

lemma lg_root_hash [simp]: "lg_compute_merkle_root cfg = sc_compute_merkle_root (lg_base cfg)"
  by (simp add: fun_eq_iff lg_compute_merkle_root_def sc_compute_merkle_root_def)

lemma lg_fields_event [simp]:
  "lg_sent (lg_deposit_event e s) = lg_sent s" "lg_ccy (lg_deposit_event e s) = lg_ccy s"
  "lg_NullifierUsed (lg_deposit_event e s) = lg_NullifierUsed s"
  "FeeNullifierUsed (lg_deposit_event e s) = FeeNullifierUsed s"
  "FeeCommitments (lg_deposit_event e s) = FeeCommitments s"
  "FaucetCommitments (lg_deposit_event e s) = FaucetCommitments s"
  "lg_Leaves (lg_deposit_event e s) = lg_Leaves s"
  "lg_CommitmentIndex (lg_deposit_event e s) = lg_CommitmentIndex s"
  "lg_RootLeafCount (lg_deposit_event e s) = lg_RootLeafCount s"
  by (simp_all add: lg_deposit_event_def)

lemma lg_notes_put [simp]: "lg_notes (lg_put_leaves ls r s) = sc_put_leaves ls r (lg_notes s)"
  by (simp add: lg_put_leaves_def sc_put_leaves_def Let_def lg_notes_def)

lemma lg_notes_initialize [simp]: "lg_notes (lg_on_initialize cfg s) = lg_notes s"
  by (simp add: lg_on_initialize_def Let_def)

lemma lg_initialize_sel [simp]:
  "lg_NullifierUsed (lg_on_initialize cfg s) = lg_NullifierUsed s"
  "FeeNullifierUsed (lg_on_initialize cfg s) = FeeNullifierUsed s"
  "FeeCommitments (lg_on_initialize cfg s) = FeeCommitments s"
  "lg_ccy (lg_on_initialize cfg s) = lg_ccy s"
  "FaucetCommitments (lg_on_initialize cfg s) =
     fold (\<lambda>c m. if m c = None then m(c \<mapsto> True) else m) (GenesisCommitments cfg) (FaucetCommitments s)"
  by (simp_all add: lg_on_initialize_def Let_def)

lemma lg_notes_genesis [simp]: "lg_notes (lg_genesis cfg b) = sc_genesis b"
  by (simp add: lg_notes_def lg_genesis_def sc_genesis_def List.map_filter_simps)

lemma lg_fee_fields_put [simp]:
  "FeeNullifierUsed (lg_put_leaves ls r s) = FeeNullifierUsed s"
  "FeeCommitments (lg_put_leaves ls r s) = FeeCommitments s"
  "FaucetCommitments (lg_put_leaves ls r s) = FaucetCommitments s"
  "lg_NullifierUsed (lg_put_leaves ls r s) = lg_NullifierUsed s"
  by (simp_all add: lg_put_leaves_def Let_def)

section \<open>Simulation of the helpers\<close>

lemma lg_transfer_Inr:
  "lg_currency_transfer cfg a b x ex s = Inr s' \<longleftrightarrow>
     (\<exists>c. sc_transfer (lg_base cfg) a b x ex (lg_ccy s) = Inr c \<and> s' = s\<lparr>lg_ccy := c\<rparr>)"
  by (auto simp: lg_currency_transfer_def split: sum.splits)

lemma lg_push_all_Inr:
  "lg_push_all cfg cs x = Inr y \<Longrightarrow>
     y = fold (push_leaf (lg_base cfg)) cs x \<and> (cs = [] \<or> length (fst x) + length cs \<le> 16384)"
proof (induction cs arbitrary: x)
  case Nil
  then show ?case by simp
next
  case (Cons c cs)
  then have p: "lg_push_all cfg cs (push_leaf (lg_base cfg) c x) = Inr y" and l: "length (fst x) < 16384"
    by (auto simp: lg_try_push_def push_leaf_def split: prod.splits)
  then show ?case using Cons.IH [OF p] by (auto simp: push_leaf_def split: prod.splits)
qed

lemma lg_insert_Inr:
  assumes "lg_insert_commitment cfg c s = Inr s'"
  shows "sc_insert_commitment (lg_base cfg) c (lg_notes s) = Inr (lg_notes s')"
  using assms
  by (auto simp: lg_insert_commitment_def lg_try_push_def sc_insert_commitment_def push_leaf_def Let_def)

lemma lg_effective_Inr:
  "lg_effective cfg ic change s = Inr eff \<Longrightarrow> effective_commitment (lg_base cfg) ic change (lg_notes s) = Inr eff"
  by (auto simp: lg_effective_def effective_commitment_def split: option.splits)

lemma lg_change_Inr:
  "(case change of Some cc \<Rightarrow> lg_insert_commitment cfg cc s | None \<Rightarrow> Inr s) = Inr s' \<Longrightarrow>
     sc_insert_change (lg_base cfg) change (lg_notes s) = Inr (lg_notes s')"
  by (auto simp: sc_insert_change_def lg_insert_Inr split: option.splits)

section \<open>Simulation of the calls\<close>

lemma lg_deposit_public_sim:
  assumes "lg_deposit_public cfg orig c r h s = Inr s'"
  shows "sc_deposit_public (lg_base cfg) orig c r h (lg_notes s) = Inr (lg_notes s')"
  using assms
  by (cases "parse_deposit_wire r")
    (auto simp: lg_deposit_public_def sc_deposit_public_def Let_def lg_transfer_Inr sc_currency_transfer_Inr
      dest: lg_insert_Inr)

lemma lg_purchase_rwa_sim:
  assumes "lg_purchase_rwa cfg orig c p n r t oc ch chn s = Inr s'"
  shows "sc_purchase_rwa (lg_base cfg) orig c p n r t oc ch (lg_notes s) = Inr (lg_notes s')"
  using assms
  by (auto simp: lg_purchase_rwa_def sc_purchase_rwa_def Let_def sc_dispatch_send_def sc_deposit_event_def
      dest!: lg_effective_Inr lg_change_Inr)

lemma lg_withdraw_private_sim:
  assumes "lg_withdraw_private cfg orig c n p d v s = Inr s'"
  shows "sc_withdraw_private (lg_base cfg) orig c n p d v (lg_notes s) = Inr (lg_notes s')"
  using assms
  by (auto simp: lg_withdraw_private_def sc_withdraw_private_def Let_def lg_transfer_Inr sc_currency_transfer_Inr)

lemma lg_set_rwa_price_sim:
  assumes "lg_set_rwa_price orig r p s = Inr s'"
  shows "sc_set_rwa_price orig r p (lg_notes s) = Inr (lg_notes s')"
  using assms by (auto simp: lg_set_rwa_price_def sc_set_rwa_price_def)

lemma lg_dispatch_sim:
  assumes "lg_dispatch cfg orig call s = Inr s'" and "call_of call = Some c"
  shows "sc_dispatch (lg_base cfg) orig c (lg_notes s) = Inr (lg_notes s')"
  using assms
  by (cases call)
    (auto simp: lg_dispatch_def sc_dispatch_def lg_deposit_public_sim lg_purchase_rwa_sim
      lg_withdraw_private_sim lg_set_rwa_price_sim)

lemma lg_validate_sim:
  assumes "call_of call = Some c"
  shows "sc_validate_unsigned (lg_base cfg) c (lg_notes s) = lg_validate_unsigned cfg call s"
  using assms
  by (cases call)
    (auto simp: lg_validate_unsigned_def sc_validate_defs lg_validate_purchase_def
      lg_validate_withdraw_def validate_opening_def split: option.splits)

lemma lg_apply_sim:
  assumes "lg_apply cfg (Extrinsic orig call) s = Inr s'" and "call_of call = Some c"
  shows "sc_apply (lg_base cfg) (orig, c) (lg_notes s) = Inr (lg_notes s')"
  using assms lg_validate_sim [OF assms(2), of cfg s]
  by (auto simp: lg_apply_def sc_apply_def lg_dispatch_sim split: if_splits sum.splits)

text \<open>
  A schedule without \<open>submit_proof\<close> and \<open>deposit_fee\<close>, and the extrinsics the current pallet is given
  in its place.
\<close>

fun shared_step :: "'acct lg_step \<Rightarrow> bool" where
  "shared_step (NextBlock author) = True"
| "shared_step (Extrinsic orig call) = (call_of call \<noteq> None)"

fun replay :: "'acct lg_step list \<Rightarrow> ('acct origin \<times> sc_call) list" where
  "replay [] = []"
| "replay (NextBlock author # xs) = replay xs"
| "replay (Extrinsic orig call # xs) =
     (case call_of call of None \<Rightarrow> replay xs | Some c \<Rightarrow> (orig, c) # replay xs)"

lemma lg_replay_run:
  assumes "list_all shared_step xs"
  shows "run (sc_apply (lg_base cfg)) (replay (accepted (lg_apply cfg) xs s)) (lg_notes s) =
      lg_notes (run (lg_apply cfg) xs s) \<and>
    accepted (sc_apply (lg_base cfg)) (replay (accepted (lg_apply cfg) xs s)) (lg_notes s) =
      replay (accepted (lg_apply cfg) xs s)"
  using assms
proof (induction xs arbitrary: s)
  case Nil
  then show ?case by simp
next
  case (Cons x xs)
  show ?case
  proof (cases "lg_apply cfg x s")
    case (Inl e)
    then show ?thesis using Cons by simp
  next
    case (Inr s')
    show ?thesis
    proof (cases x)
      case (NextBlock author)
      then have "lg_notes s' = lg_notes s" using Inr by (auto simp: lg_apply_def)
      then show ?thesis using Cons.IH [of s'] Cons.prems Inr NextBlock by simp
    next
      case (Extrinsic orig call)
      then obtain c where "call_of call = Some c" using Cons.prems by auto
      then show ?thesis
        using Cons.IH [of s'] Cons.prems Inr Extrinsic lg_apply_sim [of cfg orig call s s' c] by simp
    qed
  qed
qed

text \<open>
  C33. The current pallet can take over the note lane of the legacy one: over any schedule of
  deposits, purchases, withdrawals and price changes from genesis, the current pallet accepts every
  extrinsic the legacy pallet accepts, in the same order, and reaches the same notes, roots, nullifiers,
  prices, balances, shared events and messages.
\<close>

theorem legacy_run_replays:
  assumes "list_all shared_step xs"
  shows "run (sc_apply (lg_base cfg)) (replay (accepted (lg_apply cfg) xs (lg_genesis cfg b))) (sc_genesis b) =
      lg_notes (run (lg_apply cfg) xs (lg_genesis cfg b)) \<and>
    accepted (sc_apply (lg_base cfg)) (replay (accepted (lg_apply cfg) xs (lg_genesis cfg b))) (sc_genesis b) =
      replay (accepted (lg_apply cfg) xs (lg_genesis cfg b))"
  using lg_replay_run [OF assms, of cfg "lg_genesis cfg b"] by simp

text \<open>A concrete configuration: the one of the current pallet's witnesses, a fee of 10, one faucet note.\<close>

definition demo_lg :: "(nat, nat \<Rightarrow> nat) lg_config" where
  "demo_lg = \<lparr>lg_base = demo_sc, BaseFee = 10, FeePayer = 2, GenesisCommitments = [5],
     perbill_mul = (\<lambda>p x. x div 2)\<rparr>"

lemma demo_lg_simps [simp]:
  "lg_base demo_lg = demo_sc" "BaseFee demo_lg = 10" "FeePayer demo_lg = 2"
  "GenesisCommitments demo_lg = [5]" "perbill_mul demo_lg p x = x div 2"
  by (simp_all add: demo_lg_def)

definition demo_lg_steps :: "nat lg_step list" where
  "demo_lg_steps = [NextBlock (Some 3), Extrinsic Root (lg_call_set_rwa_price 5 7),
     Extrinsic (Signed 1) (lg_call_deposit_public (le_bytes 32 (9 :: h256)) (1 # replicate 12 0) [])]"

lemma demo_lg_accepted:
  "accepted (lg_apply demo_lg) demo_lg_steps (lg_genesis demo_lg (\<lambda>_. 100)) = demo_lg_steps"
proof -
  have c: "of_le_bytes (le_bytes 32 (9 :: h256)) = (9 :: h256)" by (rule of_le_bytes_le_bytes) simp
  show ?thesis
    by (simp add: demo_lg_steps_def lg_apply_def lg_on_initialize_def lg_dispatch_def lg_set_rwa_price_def
        lg_deposit_event_def lg_deposit_public_def c demo_sc_parse lg_currency_transfer_def demo_sc_transfer_def
        lg_insert_commitment_def lg_try_push_def lg_genesis_def Let_def)
qed

lemma legacy_run_replays_witness:
  "run (sc_apply demo_sc) (replay demo_lg_steps) (sc_genesis (\<lambda>_. 100)) =
      lg_notes (run (lg_apply demo_lg) demo_lg_steps (lg_genesis demo_lg (\<lambda>_. 100))) \<and>
    accepted (sc_apply demo_sc) (replay demo_lg_steps) (sc_genesis (\<lambda>_. 100)) = replay demo_lg_steps \<and>
    length (replay demo_lg_steps) = 2"
  using legacy_run_replays [of demo_lg_steps demo_lg "\<lambda>_. 100"] demo_lg_accepted
  by (simp add: demo_lg_steps_def)

section \<open>The shielded transfer\<close>

lemma lg_pay_author_frame [simp]:
  "FeeNullifierUsed (lg_pay_author cfg s) = FeeNullifierUsed s"
  "FeeCommitments (lg_pay_author cfg s) = FeeCommitments s"
  "FaucetCommitments (lg_pay_author cfg s) = FaucetCommitments s"
  "lg_NullifierUsed (lg_pay_author cfg s) = lg_NullifierUsed s"
  "sc_tree (lg_notes (lg_pay_author cfg s)) = sc_tree (lg_notes s)"
  by (auto simp: lg_pay_author_def Let_def lg_currency_transfer_def split: option.split sum.split)

lemma lg_submit_proof_accepted:
  assumes "lg_submit_proof cfg orig proof rp pin hints s = Inr s'"
  shows "\<exists>i. orig = Unsigned \<and> decode_lg_public_inputs (sc_codec (lg_base cfg)) pin = Some i \<and>
    \<not> FeeNullifierUsed s (fee_nullifier i) \<and>
    FeeNullifierUsed s' = (FeeNullifierUsed s)(fee_nullifier i := True) \<and>
    FeeCommitments s (fee_commitment i) \<and>
    FeeCommitments s' = (FeeCommitments s)(fee_commitment i := False) \<and>
    FaucetCommitments s' = FaucetCommitments s \<and>
    (\<forall>n \<in> set (nullifiers i). \<not> lg_NullifierUsed s n) \<and>
    lg_NullifierUsed s' = (\<lambda>n. lg_NullifierUsed s n \<or> n \<in> set (nullifiers i)) \<and>
    tree_step (lg_base cfg) (new_commitments i) (lg_notes s) (lg_notes s')"
proof -
  have used: "fold (\<lambda>n used. used(n := True)) ns u = (\<lambda>n. u n \<or> n \<in> set ns)" for ns :: "h256 list" and u
    by (induction ns arbitrary: u) (auto simp: fun_eq_iff)
  show ?thesis
    using assms
    apply (clarsimp simp: lg_submit_proof_def Let_def list_all_iff)
    apply (drule lg_push_all_Inr)
    apply (clarsimp simp: used tree_step_def insertable_def)
    apply (auto simp: sc_after_def sc_tree_def sc_put_leaves_def Let_def split: prod.split)
    done
qed

section \<open>Guards consumed once\<close>

text \<open>The fee lane: open fee commitments, used fee nullifiers, and the faucet.\<close>

definition lg_fee_lane :: "('acct, 'ccy) lg_state \<Rightarrow> (h256 \<Rightarrow> bool) \<times> (h256 \<Rightarrow> bool) \<times> (h256 \<rightharpoonup> bool)" where
  "lg_fee_lane s = (FeeCommitments s, FeeNullifierUsed s, FaucetCommitments s)"

lemma lg_fee_lane_frame [simp]:
  "lg_fee_lane (lg_deposit_event e s) = lg_fee_lane s" "lg_fee_lane (lg_put_leaves ls r s) = lg_fee_lane s"
  "lg_fee_lane (s\<lparr>lg_NullifierUsed := n\<rparr>) = lg_fee_lane s" "lg_fee_lane (s\<lparr>lg_ccy := b\<rparr>) = lg_fee_lane s"
  "lg_fee_lane (s\<lparr>lg_CommitmentIndex := x\<rparr>) = lg_fee_lane s" "lg_fee_lane (s\<lparr>lg_sent := ms\<rparr>) = lg_fee_lane s"
  "lg_fee_lane (s\<lparr>lg_RwaPrices := p\<rparr>) = lg_fee_lane s"
  by (simp_all add: lg_fee_lane_def)

lemma lg_fee_lane_insert:
  "lg_insert_commitment cfg c s = Inr s' \<Longrightarrow> lg_fee_lane s' = lg_fee_lane s"
  by (auto simp: lg_insert_commitment_def Let_def)

lemma lg_fee_lane_change:
  "(case change of Some cc \<Rightarrow> lg_insert_commitment cfg cc s | None \<Rightarrow> Inr s) = Inr s' \<Longrightarrow>
     lg_fee_lane s' = lg_fee_lane s"
  by (auto simp: lg_fee_lane_insert split: option.splits)

lemma lg_dispatch_fee_lane:
  assumes "lg_dispatch cfg orig call s = Inr s'" and "call_of call \<noteq> None"
  shows "lg_fee_lane s' = lg_fee_lane s"
proof (cases call)
  case (lg_call_deposit_public c r h)
  then show ?thesis using assms
    by (cases "parse_deposit_wire r")
      (auto simp: lg_dispatch_def lg_deposit_public_def Let_def lg_transfer_Inr dest!: lg_fee_lane_insert)
qed (use assms in \<open>auto simp: lg_dispatch_def lg_purchase_rwa_def lg_withdraw_private_def lg_set_rwa_price_def
    lg_transfer_Inr Let_def dest!: lg_fee_lane_change\<close>)

lemma deposit_fee_accepted:
  assumes "deposit_fee cfg orig c s = Inr s'"
  shows "\<exists>who b. orig = Signed who \<and>
    sc_transfer (lg_base cfg) who (FeePayer cfg) (BaseFee cfg) KeepAlive (lg_ccy s) = Inr b \<and> lg_ccy s' = b \<and>
    lg_notes s' = (lg_notes s)\<lparr>sc_ccy := b\<rparr> \<and>
    lg_fee_lane s' = ((FeeCommitments s)(c := True), FeeNullifierUsed s, FaucetCommitments s)"
  using assms by (auto simp: deposit_fee_def lg_transfer_Inr lg_fee_lane_def)

datatype lg_key = LgNote h256 | LgFee h256

fun lg_used :: "('acct, 'ccy) lg_state \<Rightarrow> lg_key \<Rightarrow> bool" where
  "lg_used s (LgNote n) = lg_NullifierUsed s n"
| "lg_used s (LgFee n) = FeeNullifierUsed s n"

fun lg_consumes :: "('acct, 'ccy) lg_config \<Rightarrow> 'acct lg_step \<Rightarrow> lg_key set" where
  "lg_consumes cfg (Extrinsic _ (lg_call_submit_proof _ _ pin _)) =
     (case decode_lg_public_inputs (sc_codec (lg_base cfg)) pin of None \<Rightarrow> {}
      | Some i \<Rightarrow> insert (LgFee (fee_nullifier i)) (LgNote ` set (nullifiers i)))"
| "lg_consumes cfg (Extrinsic _ (lg_call_purchase_rwa _ _ n _ _ _ _ _)) = {LgNote n}"
| "lg_consumes cfg (Extrinsic _ (lg_call_withdraw_private _ n _ _ _)) = {LgNote n}"
| "lg_consumes cfg _ = {}"

lemma lg_dispatch_guards:
  assumes "lg_dispatch cfg orig call s = Inr s'"
  shows "(\<forall>k \<in> lg_consumes cfg (Extrinsic orig call). \<not> lg_used s k) \<and>
    (\<forall>k. lg_used s' k \<longleftrightarrow> lg_used s k \<or> k \<in> lg_consumes cfg (Extrinsic orig call))"
proof (cases "call_of call")
  case (Some c)
  have f: "FeeNullifierUsed s' = FeeNullifierUsed s"
    using lg_dispatch_fee_lane [OF assms] Some by (simp add: lg_fee_lane_def)
  have g: "(\<forall>k \<in> sc_consumes (lg_base cfg) (orig, c). \<not> sc_used (lg_notes s) k) \<and>
    (\<forall>k. sc_used (lg_notes s') k \<longleftrightarrow> sc_used (lg_notes s) k \<or> k \<in> sc_consumes (lg_base cfg) (orig, c))"
    using sc_dispatch_guards [OF lg_dispatch_sim [OF assms Some]] .
  have "lg_used s' k \<longleftrightarrow> lg_used s k \<or> k \<in> lg_consumes cfg (Extrinsic orig call)" for k
    using f conjunct2 [OF g, rule_format, of "case k of LgNote n \<Rightarrow> KNote n | LgFee n \<Rightarrow> KSerial n"] Some
    by (cases call; cases k) auto
  then show ?thesis using g Some by (cases call) auto
next
  case None
  then show ?thesis
  proof (cases call)
    case (lg_call_submit_proof p r i h)
    then obtain j where "decode_lg_public_inputs (sc_codec (lg_base cfg)) i = Some j"
      "\<not> FeeNullifierUsed s (fee_nullifier j)"
      "FeeNullifierUsed s' = (FeeNullifierUsed s)(fee_nullifier j := True)"
      "\<forall>n \<in> set (nullifiers j). \<not> lg_NullifierUsed s n"
      "lg_NullifierUsed s' = (\<lambda>n. lg_NullifierUsed s n \<or> n \<in> set (nullifiers j))"
      using assms lg_submit_proof_accepted [of cfg orig p r i h s s'] by (auto simp: lg_dispatch_def)
    moreover from this have "lg_used s' k \<longleftrightarrow> lg_used s k \<or> k \<in> lg_consumes cfg (Extrinsic orig call)" for k
      using lg_call_submit_proof by (cases k) auto
    ultimately show ?thesis using lg_call_submit_proof by auto
  next
    case (lg_call_deposit_fee c)
    then have "FeeNullifierUsed s' = FeeNullifierUsed s" "lg_notes s' = (lg_notes s)\<lparr>sc_ccy := lg_ccy s'\<rparr>"
      using assms deposit_fee_accepted [of cfg orig c s s'] by (auto simp: lg_dispatch_def lg_fee_lane_def)
    then have "lg_used s' k \<longleftrightarrow> lg_used s k" for k
      using lg_notes_sel(1) [of s'] by (cases k) simp_all
    then show ?thesis using lg_call_deposit_fee by simp
  qed simp_all
qed

lemma lg_apply_dispatch:
  "lg_apply cfg (Extrinsic orig call) s = Inr s' \<Longrightarrow> lg_dispatch cfg orig call s = Inr s'"
  by (auto simp: lg_apply_def split: if_splits sum.splits)

lemma lg_apply_guards:
  assumes "lg_apply cfg x s = Inr s'"
  shows "(\<forall>k \<in> lg_consumes cfg x. \<not> lg_used s k) \<and> (\<forall>k. lg_used s' k \<longleftrightarrow> lg_used s k \<or> k \<in> lg_consumes cfg x)"
proof (cases x)
  case (NextBlock author)
  have "lg_used s' k = lg_used s k" for k
    using assms NextBlock by (cases k) (auto simp: lg_apply_def)
  then show ?thesis using NextBlock by simp
next
  case (Extrinsic orig call)
  then show ?thesis using lg_dispatch_guards lg_apply_dispatch assms by blast
qed

interpretation lg: one_shot "lg_apply cfg" lg_used "lg_consumes cfg"
proof
  fix c :: "'a lg_step" and s s' :: "('a, 'b) lg_state" and k
  assume "lg_apply cfg c s = Inr s'" and "k \<in> lg_consumes cfg c"
  then show "\<not> lg_used s k \<and> lg_used s' k" using lg_apply_guards by blast
next
  fix c :: "'a lg_step" and s s' :: "('a, 'b) lg_state" and k
  assume "lg_apply cfg c s = Inr s'" and "lg_used s k"
  then show "lg_used s' k" using lg_apply_guards by blast
qed

section \<open>The note tree\<close>

text \<open>The tree invariant of the current pallet holds of the legacy storage as well.\<close>

lemma lg_tree_ok_step:
  assumes "sc_tree_ok (lg_base cfg) (lg_notes s)" and "lg_apply cfg x s = Inr s'"
  shows "sc_tree_ok (lg_base cfg) (lg_notes s')"
proof (cases x)
  case (NextBlock author)
  then show ?thesis using assms by (auto simp: lg_apply_def)
next
  case (Extrinsic orig call)
  have d: "lg_dispatch cfg orig call s = Inr s'" using assms(2) Extrinsic lg_apply_dispatch by blast
  have "sc_tree (lg_notes s') = sc_tree (lg_notes s) \<or> (\<exists>cs. tree_step (lg_base cfg) cs (lg_notes s) (lg_notes s'))"
  proof (cases "call_of call")
    case (Some c)
    then show ?thesis using sc_dispatch_tree [OF lg_dispatch_sim [OF d Some]] by simp
  next
    case None
    then show ?thesis using d
      by (cases call) (auto simp: lg_dispatch_def dest!: lg_submit_proof_accepted deposit_fee_accepted)
  qed
  then show ?thesis using assms(1) sc_tree_ok_after sc_tree_ok_view by (metis tree_step_def)
qed

lemma lg_tree_ok_run: "sc_tree_ok (lg_base cfg) (lg_notes (run (lg_apply cfg) xs (lg_genesis cfg b)))"
proof (rule run_invariant [where P = "\<lambda>s. sc_tree_ok (lg_base cfg) (lg_notes s)"])
  show "sc_tree_ok (lg_base cfg) (lg_notes (lg_genesis cfg b))"
    using sc_tree_ok_run [of "lg_base cfg" "[]" b] by simp
qed (rule lg_tree_ok_step)

end
