(* ===== verification/LegacyFees.thy ===== *)
theory LegacyFees
  imports LegacyReplay
begin

text \<open>
  The fee lane and the faucet of the legacy ScanProof pallet over whole runs: the fee account covers
  the open fee commitments, so the author of a block is paid for every transfer; and faucet
  commitments stay spendable.
\<close>

section \<open>The balances pallet\<close>

text \<open>
  \<open>Currency::transfer\<close>: the amount moves; a rest below the existential deposit \<open>ed\<close> may be removed as
  dust; a transfer to oneself changes nothing. A payment of at least \<open>ed\<close> that leaves \<open>ed\<close> behind
  succeeds.
\<close>

definition transfer_laws ::
  "nat \<Rightarrow> ('ccy \<Rightarrow> 'acct \<Rightarrow> nat) \<Rightarrow> ('acct \<Rightarrow> 'acct \<Rightarrow> u128 \<Rightarrow> existence_requirement \<Rightarrow> 'ccy \<Rightarrow> nat + 'ccy) \<Rightarrow>
     bool" where
  "transfer_laws ed bal tr \<longleftrightarrow> (\<forall>a b x ex c c'. tr a b x ex c = Inr c' \<longrightarrow>
     (if a = b then bal c' = bal c
      else unat x \<le> bal c a \<and> bal c' b = bal c b + unat x \<and>
        (bal c' a = bal c a - unat x \<or> bal c' a = 0 \<and> bal c a - unat x < ed) \<and>
        (\<forall>z. z \<noteq> a \<longrightarrow> z \<noteq> b \<longrightarrow> bal c' z = bal c z)))"

definition transfer_live ::
  "nat \<Rightarrow> ('ccy \<Rightarrow> 'acct \<Rightarrow> nat) \<Rightarrow> ('acct \<Rightarrow> 'acct \<Rightarrow> u128 \<Rightarrow> existence_requirement \<Rightarrow> 'ccy \<Rightarrow> nat + 'ccy) \<Rightarrow>
     bool" where
  "transfer_live ed bal tr \<longleftrightarrow> (\<forall>a b x c. unat x + ed \<le> bal c a \<longrightarrow> ed \<le> unat x \<longrightarrow>
     (\<exists>c'. tr a b x AllowDeath c = Inr c'))"

lemma transfer_bystander:
  assumes "transfer_laws ed bal tr" and "tr a b x ex c = Inr c'" and "z \<noteq> a"
  shows "bal c z \<le> bal c' z"
  using assms unfolding transfer_laws_def by (metis le_add1 le_refl)

lemma transfer_receiver:
  assumes "transfer_laws ed bal tr" and "tr a b x ex c = Inr c'" and "a \<noteq> b"
  shows "bal c' b = bal c b + unat x"
  using assms unfolding transfer_laws_def by metis

lemma transfer_sender:
  assumes "transfer_laws ed bal tr" and "tr a b x ex c = Inr c'" and "unat x + n + ed \<le> bal c a"
  shows "n + ed \<le> bal c' a"
proof (cases "a = b")
  case True
  then have "bal c' = bal c" using assms(1,2) unfolding transfer_laws_def by metis
  then show ?thesis using assms(3) by simp
next
  case False
  then have "bal c' a = bal c a - unat x \<or> bal c' a = 0 \<and> bal c a - unat x < ed"
    using assms(1,2) unfolding transfer_laws_def by metis
  then show ?thesis using assms(3) by auto
qed

section \<open>The fee account\<close>

definition open_fees :: "('acct, 'ccy) lg_state \<Rightarrow> h256 set" where
  "open_fees s = {c. FeeCommitments s c}"

definition author_share :: "('acct, 'ccy) lg_config \<Rightarrow> u128" where
  "author_share cfg = (if perbill_mul cfg 50 (BaseFee cfg) \<le> BaseFee cfg
     then BaseFee cfg - perbill_mul cfg 50 (BaseFee cfg) else 0)"

definition fee_inv ::
  "nat \<Rightarrow> ('ccy \<Rightarrow> 'acct \<Rightarrow> nat) \<Rightarrow> ('acct, 'ccy) lg_config \<Rightarrow> ('acct, 'ccy) lg_state \<Rightarrow> bool" where
  "fee_inv ed bal cfg s \<longleftrightarrow>
     unat (BaseFee cfg) * card (open_fees s) + ed \<le> bal (lg_ccy s) (FeePayer cfg)"

lemma finite_open_fees [simp]: "finite (open_fees s)"
  by (rule finite_subset [OF subset_UNIV]) simp

lemma author_share_le: "unat (author_share cfg) \<le> unat (BaseFee cfg)"
  by (simp add: author_share_def unat_sub word_le_nat_alt)

lemma fee_inv_mono:
  assumes "fee_inv ed bal cfg s" and "lg_fee_lane s' = lg_fee_lane s"
    and "bal (lg_ccy s) (FeePayer cfg) \<le> bal (lg_ccy s') (FeePayer cfg)"
  shows "fee_inv ed bal cfg s'"
  using assms by (simp add: fee_inv_def open_fees_def lg_fee_lane_def)

text \<open>The money an accepted call moves: a payment of its signer or of the pool.\<close>

lemma lg_ccy_insert:
  "lg_insert_commitment cfg c s = Inr s' \<Longrightarrow> lg_ccy s' = lg_ccy s"
  by (auto simp: lg_insert_commitment_def lg_put_leaves_def Let_def)

lemma lg_ccy_change:
  "(case change of Some cc \<Rightarrow> lg_insert_commitment cfg cc s | None \<Rightarrow> Inr s) = Inr s' \<Longrightarrow> lg_ccy s' = lg_ccy s"
  by (auto simp: lg_ccy_insert split: option.splits)

lemma lg_shared_payment:
  assumes "lg_dispatch cfg orig call s = Inr s'" and "call_of call \<noteq> None"
  shows "lg_ccy s' = lg_ccy s \<or> (\<exists>a b x ex. (orig = Signed a \<or> a = sc_pool (lg_base cfg)) \<and>
    sc_transfer (lg_base cfg) a b x ex (lg_ccy s) = Inr (lg_ccy s'))"
proof (cases call)
  case (lg_call_deposit_public c r h)
  then show ?thesis using assms
    by (cases "parse_deposit_wire r")
      (auto simp: lg_dispatch_def lg_deposit_public_def Let_def lg_transfer_Inr dest!: lg_ccy_insert, blast)
next
  case (lg_call_purchase_rwa c p n r t oc ch chn)
  then show ?thesis using assms
    by (auto simp: lg_dispatch_def lg_purchase_rwa_def Let_def dest!: lg_ccy_change)
qed (use assms in \<open>auto simp: lg_dispatch_def lg_withdraw_private_def lg_set_rwa_price_def lg_transfer_Inr Let_def\<close>)

lemma lg_submit_proof_pays:
  assumes "lg_submit_proof cfg orig proof rp pin hints s = Inr s'"
  shows "\<exists>t. s' = lg_pay_author cfg t \<and> lg_ccy t = lg_ccy s \<and> lg_author t = lg_author s"
  using assms
  by (clarsimp simp: lg_submit_proof_def Let_def) (auto simp: lg_put_leaves_def lg_deposit_event_def Let_def intro!: exI)

lemma lg_pay_author_cases:
  assumes "lg_author t = Some author"
  shows "(\<exists>c. sc_transfer (lg_base cfg) (FeePayer cfg) author (author_share cfg) AllowDeath (lg_ccy t) = Inr c \<and>
      lg_ccy (lg_pay_author cfg t) = c \<and> last (lg_events (lg_pay_author cfg t)) = FeePaid author (author_share cfg)) \<or>
    (\<exists>e. sc_transfer (lg_base cfg) (FeePayer cfg) author (author_share cfg) AllowDeath (lg_ccy t) = Inl e \<and>
      lg_ccy (lg_pay_author cfg t) = lg_ccy t)"
  using assms
  by (auto simp: lg_pay_author_def Let_def lg_currency_transfer_def author_share_def lg_deposit_event_def
      split: sum.split)

text \<open>An accepted transfer closes one fee commitment and pays out at most the base fee.\<close>

lemma fee_inv_submit:
  assumes laws: "transfer_laws ed bal (sc_transfer (lg_base cfg))" and inv: "fee_inv ed bal cfg s"
    and acc: "lg_submit_proof cfg orig proof rp pin hints s = Inr s'"
  shows "fee_inv ed bal cfg s' \<and> unat (BaseFee cfg) + ed \<le> bal (lg_ccy s) (FeePayer cfg)"
proof -
  obtain c where c: "FeeCommitments s c" "FeeCommitments s' = (FeeCommitments s)(c := False)"
    using lg_submit_proof_accepted [OF acc] by blast
  then have o: "open_fees s' = open_fees s - {c}" "c \<in> open_fees s" by (auto simp: open_fees_def)
  then have k: "card (open_fees s) = Suc (card (open_fees s'))"
    by (metis card_Suc_Diff1 finite_open_fees)
  have b: "unat (BaseFee cfg) + unat (BaseFee cfg) * card (open_fees s') + ed \<le> bal (lg_ccy s) (FeePayer cfg)"
    using inv by (simp add: fee_inv_def k)
  obtain t where t: "s' = lg_pay_author cfg t" "lg_ccy t = lg_ccy s" "lg_author t = lg_author s"
    using lg_submit_proof_pays [OF acc] by blast
  have "unat (BaseFee cfg) * card (open_fees s') + ed \<le> bal (lg_ccy s') (FeePayer cfg)"
  proof (cases "lg_author t")
    case None
    then have "s' = t" using t(1) by (simp add: lg_pay_author_def Let_def)
    then show ?thesis using b t(2) by simp
  next
    case (Some author)
    from lg_pay_author_cases [OF this, of cfg] show ?thesis
    proof (elim disjE exE conjE)
      fix c' assume "sc_transfer (lg_base cfg) (FeePayer cfg) author (author_share cfg) AllowDeath (lg_ccy t) = Inr c'"
        and "lg_ccy (lg_pay_author cfg t) = c'"
      then show ?thesis
        using transfer_sender [OF laws, of "FeePayer cfg" author "author_share cfg" AllowDeath "lg_ccy s" c'
            "unat (BaseFee cfg) * card (open_fees s')"] b author_share_le [of cfg] t(1,2) by simp
    next
      fix e assume "lg_ccy (lg_pay_author cfg t) = lg_ccy t"
      then show ?thesis using b t(1,2) by simp
    qed
  qed
  then show ?thesis using b by (simp add: fee_inv_def)
qed

lemma fee_inv_deposit_fee:
  assumes laws: "transfer_laws ed bal (sc_transfer (lg_base cfg))" and inv: "fee_inv ed bal cfg s"
    and acc: "deposit_fee cfg orig c s = Inr s'" and "orig \<noteq> Signed (FeePayer cfg)"
  shows "fee_inv ed bal cfg s'"
proof -
  obtain who where w: "orig = Signed who"
    "sc_transfer (lg_base cfg) who (FeePayer cfg) (BaseFee cfg) KeepAlive (lg_ccy s) = Inr (lg_ccy s')"
    "FeeCommitments s' = (FeeCommitments s)(c := True)"
    using deposit_fee_accepted [OF acc] by (auto simp: lg_fee_lane_def)
  have "open_fees s' \<subseteq> insert c (open_fees s)" using w(3) by (auto simp: open_fees_def)
  then have "card (open_fees s') \<le> Suc (card (open_fees s))"
    using card_mono [of "insert c (open_fees s)" "open_fees s'"] card_insert_le_m1 by (fastforce simp: card_insert_if split: if_splits)
  then have "unat (BaseFee cfg) * card (open_fees s') \<le> unat (BaseFee cfg) * Suc (card (open_fees s))"
    by (rule mult_le_mono2)
  moreover have "bal (lg_ccy s') (FeePayer cfg) = bal (lg_ccy s) (FeePayer cfg) + unat (BaseFee cfg)"
    using transfer_receiver [OF laws w(2)] w(1) assms(4) by auto
  ultimately show ?thesis using inv by (simp add: fee_inv_def)
qed

text \<open>The holder of the fee account signs nothing, and the fee account is not the pool.\<close>

definition fee_payer_idle :: "('acct, 'ccy) lg_config \<Rightarrow> 'acct lg_step list \<Rightarrow> bool" where
  "fee_payer_idle cfg xs \<longleftrightarrow> list_all (\<lambda>x. case x of NextBlock _ \<Rightarrow> True
     | Extrinsic orig _ \<Rightarrow> orig \<noteq> Signed (FeePayer cfg)) xs"

lemma fee_inv_step:
  assumes laws: "transfer_laws ed bal (sc_transfer (lg_base cfg))"
    and pool: "FeePayer cfg \<noteq> sc_pool (lg_base cfg)" and inv: "fee_inv ed bal cfg s"
    and idle: "fee_payer_idle cfg [x]" and acc: "lg_apply cfg x s = Inr s'"
  shows "fee_inv ed bal cfg s'"
proof (cases x)
  case (NextBlock author)
  then show ?thesis using acc inv by (auto simp: lg_apply_def fee_inv_def open_fees_def)
next
  case (Extrinsic orig call)
  have d: "lg_dispatch cfg orig call s = Inr s'" using acc Extrinsic lg_apply_dispatch by blast
  have o: "orig \<noteq> Signed (FeePayer cfg)" using idle Extrinsic by (simp add: fee_payer_idle_def)
  show ?thesis
  proof (cases "call_of call = None")
    case False
    note l = lg_dispatch_fee_lane [OF d False]
    from lg_shared_payment [OF d False]
    have "bal (lg_ccy s) (FeePayer cfg) \<le> bal (lg_ccy s') (FeePayer cfg)"
    proof (elim disjE exE conjE)
      fix a b x ex
      assume "sc_transfer (lg_base cfg) a b x ex (lg_ccy s) = Inr (lg_ccy s')" and "orig = Signed a"
      then show ?thesis using transfer_bystander [OF laws] o by metis
    next
      fix a b x ex
      assume "sc_transfer (lg_base cfg) a b x ex (lg_ccy s) = Inr (lg_ccy s')" and "a = sc_pool (lg_base cfg)"
      then show ?thesis using transfer_bystander [OF laws] pool by metis
    qed simp
    then show ?thesis by (rule fee_inv_mono [OF inv l])
  next
    case True
    then show ?thesis
      using d o fee_inv_submit [OF laws inv] fee_inv_deposit_fee [OF laws inv]
      by (cases call) (auto simp: lg_dispatch_def)
  qed
qed

lemma fee_inv_run:
  assumes "transfer_laws ed bal (sc_transfer (lg_base cfg))" and "FeePayer cfg \<noteq> sc_pool (lg_base cfg)"
    and "fee_inv ed bal cfg s" and "fee_payer_idle cfg xs"
  shows "fee_inv ed bal cfg (run (lg_apply cfg) xs s)"
  using assms(3,4)
  by (induction xs arbitrary: s)
    (auto simp: fee_payer_idle_def split: sum.split dest!: fee_inv_step [OF assms(1,2), rotated 2])

text \<open>
  C34. The fee lane pays for itself. Let the balances pallet obey \<open>transfer_laws\<close> and \<open>transfer_live\<close>, let
  the fee account be another account than the pool and start out with at least the existential deposit
  \<open>ed\<close>, let its holder sign nothing, and let the author's share of the base fee be at least \<open>ed\<close>. Then in
  every state reached from genesis the fee account holds the base fee for each open fee commitment and
  \<open>ed\<close> beside; and every \<open>submit_proof\<close> accepted there in a block with a known author has had the base fee of
  its commitment on the account, ends by paying the author the full share, not by skipping a failed
  payout, and leaves the fee account covering the commitments that are still open.
\<close>

theorem fee_lane_pays_authors:
  assumes laws: "transfer_laws ed bal (sc_transfer (lg_base cfg))"
    and live: "transfer_live ed bal (sc_transfer (lg_base cfg))"
    and pool: "FeePayer cfg \<noteq> sc_pool (lg_base cfg)" and idle: "fee_payer_idle cfg xs"
    and start: "ed \<le> bal b (FeePayer cfg)" and share: "ed \<le> unat (author_share cfg)"
    and s: "s = run (lg_apply cfg) xs (lg_genesis cfg b)"
  shows "unat (BaseFee cfg) * card {c. FeeCommitments s c} + ed \<le> bal (lg_ccy s) (FeePayer cfg) \<and>
    (\<forall>orig pf rp pin hints s' author.
      lg_submit_proof cfg orig pf rp pin hints s = Inr s' \<longrightarrow> lg_author s = Some author \<longrightarrow>
      unat (BaseFee cfg) + ed \<le> bal (lg_ccy s) (FeePayer cfg) \<and>
      last (lg_events s') = FeePaid author (author_share cfg) \<and>
      unat (BaseFee cfg) * card {c. FeeCommitments s' c} + ed \<le> bal (lg_ccy s') (FeePayer cfg))"
proof -
  have "fee_inv ed bal cfg (lg_genesis cfg b)" using start by (simp add: fee_inv_def open_fees_def lg_genesis_def)
  then have inv: "fee_inv ed bal cfg s" unfolding s by (rule fee_inv_run [OF laws pool _ idle])
  have "unat (BaseFee cfg) + ed \<le> bal (lg_ccy s) (FeePayer cfg) \<and>
      last (lg_events s') = FeePaid author (author_share cfg) \<and> fee_inv ed bal cfg s'"
    if acc: "lg_submit_proof cfg orig pf rp pin hints s = Inr s'" and author: "lg_author s = Some author"
    for orig pf rp pin hints s' author
  proof -
    note f = fee_inv_submit [OF laws inv acc]
    obtain t where t: "s' = lg_pay_author cfg t" "lg_ccy t = lg_ccy s" "lg_author t = lg_author s"
      using lg_submit_proof_pays [OF acc] by blast
    have "unat (author_share cfg) + ed \<le> bal (lg_ccy t) (FeePayer cfg)"
      using f author_share_le [of cfg] t(2) by simp
    then obtain c where
      "sc_transfer (lg_base cfg) (FeePayer cfg) author (author_share cfg) AllowDeath (lg_ccy t) = Inr c"
      using live share unfolding transfer_live_def by blast
    then show ?thesis
      using lg_pay_author_cases [of t author cfg] author t(1,3) f by auto
  qed
  then show ?thesis using inv unfolding fee_inv_def open_fees_def by blast
qed

section \<open>The faucet\<close>

lemma faucet_initialize:
  "m c = Some True \<Longrightarrow> fold (\<lambda>c m. if m c = None then m(c \<mapsto> True) else m) cs m c = Some True"
  by (induction cs arbitrary: m) auto

lemma faucet_genesis:
  "fold (\<lambda>c m. m(c \<mapsto> True)) cs m = (\<lambda>c. if c \<in> set cs then Some True else m c)"
  by (induction cs arbitrary: m) (auto simp: fun_eq_iff)

lemma faucet_kept:
  assumes "FaucetCommitments s c = Some True" and "lg_apply cfg x s = Inr s'"
  shows "FaucetCommitments s' c = Some True"
proof (cases x)
  case (NextBlock author)
  then show ?thesis using assms by (auto simp: lg_apply_def faucet_initialize)
next
  case (Extrinsic orig call)
  have d: "lg_dispatch cfg orig call s = Inr s'" using assms(2) Extrinsic lg_apply_dispatch by blast
  have "FaucetCommitments s' = FaucetCommitments s"
  proof (cases "call_of call = None")
    case True
    then show ?thesis using d
      by (cases call) (auto simp: lg_dispatch_def lg_fee_lane_def dest!: lg_submit_proof_accepted deposit_fee_accepted)
  qed (use lg_dispatch_fee_lane [OF d] in \<open>simp add: lg_fee_lane_def\<close>)
  then show ?thesis using assms(1) by simp
qed

lemma faucet_run:
  assumes "c \<in> set (GenesisCommitments cfg)"
  shows "FaucetCommitments (run (lg_apply cfg) xs (lg_genesis cfg b)) c = Some True"
proof (rule run_invariant [where P = "\<lambda>s. FaucetCommitments s c = Some True"])
  show "FaucetCommitments (lg_genesis cfg b) c = Some True"
    using assms by (simp add: lg_genesis_def faucet_genesis)
qed (rule faucet_kept)

text \<open>
  A faucet commitment is never consumed: in every reachable state, however often it has been
  spent, \<open>submit_proof\<close> accepts it as an input, at any position, without a path, an index or a
  leaf in the tree, and under any anchor.
\<close>

theorem faucet_never_consumed:
  assumes "c \<in> set (GenesisCommitments cfg)"
  shows "lg_input_known cfg i (run (lg_apply cfg) xs (lg_genesis cfg b)) (k, c)"
  using faucet_run [OF assms] by (simp add: lg_input_known_def)

section \<open>A concrete transfer\<close>

text \<open>A fee is deposited; the faucet note pays for a new note in the next call.\<close>

definition demo_lg_inputs :: lg_public_inputs where
  "demo_lg_inputs = \<lparr>merkle_root = 0, new_merkle_root = 0, input_commitments = [5], input_indices = [0],
     input_paths = [], nullifiers = [4], new_commitments = [6], ppi_tx_id = 3, fee_commitment = 8,
     fee_nullifier = 11\<rparr>"

definition demo_lg_fee_steps :: "nat lg_step list" where
  "demo_lg_fee_steps = [NextBlock (Some 3), Extrinsic (Signed 1) (lg_call_deposit_fee 8)]"

definition demo_lg_state :: "(nat, nat \<Rightarrow> nat) lg_state" where
  "demo_lg_state = run (lg_apply demo_lg) demo_lg_fee_steps (lg_genesis demo_lg (\<lambda>_. 100))"

lemma demo_transfer: "transfer_laws 1 (\<lambda>c. c) demo_sc_transfer" "transfer_live 1 (\<lambda>c. c) demo_sc_transfer"
  by (auto simp: transfer_laws_def transfer_live_def demo_sc_transfer_def split: if_splits)

lemma demo_lg_submit:
  "\<exists>s'. lg_submit_proof demo_lg Unsigned [] [] (encode_lg_public_inputs le_codec demo_lg_inputs) [] demo_lg_state =
     Inr s'"
proof -
  have d: "decode_lg_public_inputs le_codec (encode_lg_public_inputs le_codec demo_lg_inputs) = Some demo_lg_inputs"
    using decode_lg_public_inputs_enc [OF le_codec_laws, of demo_lg_inputs "[]"] by simp
  show ?thesis
    by (simp add: lg_submit_proof_def d Let_def demo_lg_state_def demo_lg_fee_steps_def lg_apply_def
        lg_on_initialize_def lg_dispatch_def deposit_fee_def lg_currency_transfer_def demo_sc_transfer_def
        lg_deposit_event_def lg_genesis_def lg_try_push_def)
      (simp add: demo_lg_inputs_def lg_input_known_def lg_try_push_def)
qed

lemma faucet_never_consumed_witness:
  "lg_input_known demo_lg demo_lg_inputs demo_lg_state (0, 5)"
  unfolding demo_lg_state_def by (rule faucet_never_consumed) simp

lemma fee_lane_pays_authors_witness:
  "\<exists>s'. lg_submit_proof demo_lg Unsigned [] [] (encode_lg_public_inputs le_codec demo_lg_inputs) [] demo_lg_state =
      Inr s' \<and> last (lg_events s') = FeePaid 3 5"
proof -
  obtain s' where s': "lg_submit_proof demo_lg Unsigned [] [] (encode_lg_public_inputs le_codec demo_lg_inputs) []
      demo_lg_state = Inr s'"
    using demo_lg_submit by blast
  have share: "author_share demo_lg = 5" by (simp add: author_share_def)
  have author: "lg_author demo_lg_state = Some 3"
    by (simp add: demo_lg_state_def demo_lg_fee_steps_def lg_apply_def lg_on_initialize_def lg_dispatch_def
        deposit_fee_def lg_currency_transfer_def demo_sc_transfer_def lg_deposit_event_def lg_genesis_def Let_def)
  have idle: "fee_payer_idle demo_lg demo_lg_fee_steps" by (simp add: fee_payer_idle_def demo_lg_fee_steps_def)
  have "last (lg_events s') = FeePaid 3 (author_share demo_lg)"
    by (rule fee_lane_pays_authors [of 1 "\<lambda>c. c" demo_lg demo_lg_fee_steps "\<lambda>_. 100" demo_lg_state,
          THEN conjunct2, rule_format, OF _ _ _ _ _ _ _ s' author, THEN conjunct2, THEN conjunct1])
      (use idle demo_transfer in \<open>simp_all add: share demo_lg_state_def\<close>)
  then show ?thesis using s' share by simp
qed

end
