(* ===== verification/StarkAir.thy ===== *)
theory StarkAir
  imports Poseidon
begin

text \<open>
  The circuits (AIRs) of \<open>proofhub/verifier/src/lib.rs\<close> as data: transition constraints on two
  consecutive rows, periodic columns, assertions. The STARK itself (\<open>winter_verifier::verify\<close>) is
  not part of the repository; what it shows of an accepted proof is \<open>air_accepts\<close> for some trace of
  some length. The degrees declared to the proof system are not part of the relation.

  The field laws a circuit relies on are \<open>f128_laws\<close>; the theory also has the Poseidon rounds as the
  circuits evaluate them, the lemmas on blocks of 64 rounds, and the range accumulator.
\<close>

section \<open>Circuits and traces\<close>

type_synonym 'f row = "'f list"

record 'f air =
  air_transition :: "'f row \<Rightarrow> 'f row \<Rightarrow> 'f list \<Rightarrow> 'f list"
  air_periodic :: "'f list list"
  air_assertions :: "(nat \<times> nat \<times> 'f) list"

text \<open>A periodic column repeats its values; an assertion is a column, a step and a value.\<close>

definition periodic_at :: "'f list list \<Rightarrow> nat \<Rightarrow> 'f list" where
  "periodic_at ps i = map (\<lambda>col. col ! (i mod length col)) ps"

definition air_accepts :: "'f::comm_ring_1 air \<Rightarrow> nat \<Rightarrow> (nat \<Rightarrow> 'f row) \<Rightarrow> bool" where
  "air_accepts air n tr \<longleftrightarrow>
     (\<forall>i < n - 1. list_all (\<lambda>x. x = 0)
        (air_transition air (tr i) (tr (i + 1)) (periodic_at (air_periodic air) i))) \<and>
     list_all (\<lambda>(col, step, val). step < n \<and> tr step ! col = val) (air_assertions air)"

lemma air_accepts_step:
  "air_accepts air n tr \<Longrightarrow> Suc i < n \<Longrightarrow>
     list_all (\<lambda>x. x = 0) (air_transition air (tr i) (tr (Suc i)) (periodic_at (air_periodic air) i))"
  by (simp add: air_accepts_def)

lemma air_accepts_assertion:
  "air_accepts air n tr \<Longrightarrow> (col, step, val) \<in> set (air_assertions air) \<Longrightarrow> step < n \<and> tr step ! col = val"
  by (auto simp: air_accepts_def list_all_iff)

text \<open>
  What the circuits use of the field: \<open>new\<close> is reduction modulo the characteristic, every element is
  \<open>new\<close> of its representative, numbers below \<open>2 ^ 127\<close> are distinct, and only 0 and 1 are roots of
  \<open>x (x - 1)\<close>. The 128-bit prime field of the crate has these laws.
\<close>

definition f128_laws :: "'f::comm_ring_1 field_env \<Rightarrow> bool" where
  "f128_laws E \<longleftrightarrow> field_laws E \<and> (\<forall>w. fe_new E w = of_nat (unat w)) \<and>
     (\<forall>m n. m < 2 ^ 127 \<and> n < 2 ^ 127 \<and> (of_nat m :: 'f) = of_nat n \<longrightarrow> m = n) \<and>
     (\<forall>x :: 'f. x * (x - 1) = 0 \<longrightarrow> x = 0 \<or> x = 1)"

lemma f128_inj:
  "f128_laws (E :: 'f::comm_ring_1 field_env) \<Longrightarrow> m < 2 ^ 127 \<Longrightarrow> n < 2 ^ 127 \<Longrightarrow>
    (of_nat m :: 'f) = of_nat n \<Longrightarrow> m = n"
  by (auto simp: f128_laws_def)

lemma f128_bit:
  assumes "f128_laws (E :: 'f::comm_ring_1 field_env)" and "(x :: 'f) * (x - 1) = 0"
  shows "x = of_bool (x = 1)"
  using assms by (auto simp: f128_laws_def)

lemma f128_field: "f128_laws E \<Longrightarrow> field_laws E"
  by (simp add: f128_laws_def)

lemma f128_new: "f128_laws E \<Longrightarrow> fe_new E w = of_nat (unat w)"
  by (simp add: f128_laws_def)

lemma f128_new_u64: "f128_laws E \<Longrightarrow> fe_new E (ucast (w :: u64)) = of_nat (unat w)"
  by (simp add: f128_new unat_ucast_up)

text \<open>The words of 128 bits have the laws: of two neighbours one is odd, so a unit.\<close>

definition word_env :: "(bytes \<Rightarrow> h256) \<Rightarrow> u128 field_env" where
  "word_env h = \<lparr>fe_new = (\<lambda>w. w), fe_int = (\<lambda>w. w), fe_blake3 = h\<rparr>"

lemma odd_mult_zero: "odd a \<Longrightarrow> (2 :: int) ^ n dvd a * b \<Longrightarrow> 2 ^ n dvd b"
  by (simp add: coprime_dvd_mult_right_iff)

lemma word_idempotent:
  fixes x :: u128
  assumes "x * (x - 1) = 0"
  shows "x = 0 \<or> x = 1"
proof -
  have "(word_of_int (uint x * (uint x - 1)) :: u128) = x * (x - 1)"
    by (simp add: of_int_mult)
  also have "\<dots> = 0" by (rule assms)
  finally have d: "2 ^ 128 dvd uint x * (uint x - 1)" unfolding word_of_int_eq_0_iff by simp
  show ?thesis
  proof (cases "odd (uint x)")
    case True
    then have "2 ^ 128 dvd uint x - 1" using d odd_mult_zero by blast
    then have "(word_of_int (uint x - 1) :: u128) = 0" unfolding word_of_int_eq_0_iff by simp
    moreover have "(word_of_int (uint x - 1) :: u128) = x - 1" by simp
    ultimately have "x - 1 = 0" by metis
    then show ?thesis by simp
  next
    case False
    then have "odd (uint x - 1)" by simp
    moreover have "2 ^ 128 dvd (uint x - 1) * uint x" using d by (subst mult.commute)
    ultimately have "2 ^ 128 dvd uint x" by (rule odd_mult_zero)
    then have "(word_of_int (uint x) :: u128) = 0" unfolding word_of_int_eq_0_iff by simp
    then show ?thesis by simp
  qed
qed

lemma word_env_laws: "f128_laws (word_env h)"
proof -
  have "m = n" if "m < 2 ^ 127" "n < 2 ^ 127" "(of_nat m :: u128) = of_nat n" for m n
    using that by (simp add: word_of_nat_eq_iff take_bit_nat_eq_self)
  then show ?thesis
    by (auto simp: f128_laws_def field_laws_def word_env_def dest: word_idempotent)
qed

section \<open>Poseidon rounds in a circuit\<close>

text \<open>The round every circuit evaluates on the current row, from its round constants and its flag.\<close>

definition round_cols :: "'f::comm_ring_1 row \<Rightarrow> 'f \<Rightarrow> 'f \<Rightarrow> 'f \<Rightarrow> 'f \<Rightarrow> 'f \<Rightarrow> 'f list" where
  "round_cols c rc0 rc1 rc2 rc3 isf =
     (let a0 = c ! 0 + rc0; a1 = c ! 1 + rc1; a2 = c ! 2 + rc2; a3 = c ! 3 + rc3;
          b0 = a0\<^sup>2 * a0;
          b1 = isf * (a1\<^sup>2 * a1) + (1 - isf) * a1;
          b2 = isf * (a2\<^sup>2 * a2) + (1 - isf) * a2;
          b3 = isf * (a3\<^sup>2 * a3) + (1 - isf) * a3;
          bsum = b0 + b1 + b2 + b3
      in [b0 + bsum, b1 + bsum, b2 + bsum, b3 + bsum])"

definition state4 :: "'f row \<Rightarrow> 'f quad" where
  "state4 c = (c ! 0, c ! 1, c ! 2, c ! 3)"

definition quad_of :: "'f list \<Rightarrow> 'f quad" where
  "quad_of xs = (xs ! 0, xs ! 1, xs ! 2, xs ! 3)"

lemma round_cols_eval:
  "quad_of (round_cols c (poseidon_rc E r 0) (poseidon_rc E r 1) (poseidon_rc E r 2) (poseidon_rc E r 3)
     (of_bool (is_full_round r))) = poseidon_eval_round_base E r (state4 c)"
  by (simp add: quad_of_def round_cols_def poseidon_eval_round_base_def state4_def Let_def)

definition round_at :: "'f::comm_ring_1 field_env \<Rightarrow> 'f row \<Rightarrow> nat \<Rightarrow> 'f list" where
  "round_at E c r = round_cols c (poseidon_rc E r 0) (poseidon_rc E r 1) (poseidon_rc E r 2)
     (poseidon_rc E r 3) (of_bool (is_full_round r))"

lemma round_at_fold [simp]:
  "round_cols c (poseidon_rc E r 0) (poseidon_rc E r (Suc 0)) (poseidon_rc E r 2) (poseidon_rc E r 3)
     (of_bool (is_full_round r)) = round_at E c r"
  by (simp only: round_at_def One_nat_def)

lemma round_at_nth [simp]:
  "round_at E c r ! 0 = fst (poseidon_eval_round_base E r (state4 c))"
  "round_at E c r ! Suc 0 = fst (snd (poseidon_eval_round_base E r (state4 c)))"
  "round_at E c r ! 2 = fst (snd (snd (poseidon_eval_round_base E r (state4 c))))"
  "round_at E c r ! 3 = snd (snd (snd (poseidon_eval_round_base E r (state4 c))))"
  unfolding round_cols_eval [of c E r, symmetric] round_at_def quad_of_def by simp_all

lemma perm_rows:
  assumes "\<And>k. k < 64 \<Longrightarrow> st (t + k + 1) = poseidon_eval_round_base E k (st (t + k))"
  shows "st (t + 64) = poseidon_perm E (st t)"
proof -
  have "st (t + m) = fold (poseidon_eval_round_base E) [0..<m] (st t)" if "m \<le> 64" for m
    using that by (induction m) (use assms in \<open>auto simp: add.assoc [symmetric]\<close>)
  from this [of 64] show ?thesis
    by (simp add: poseidon_perm_def POSEIDON_ROUNDS_def POSEIDON_RF_def POSEIDON_RP_def)
qed

lemma frozen:
  assumes "a \<le> b" and "\<And>i. a \<le> i \<Longrightarrow> i < b \<Longrightarrow> f (Suc i) = f i"
  shows "f b = f a"
  using assms by (induction b rule: dec_induct) auto

lemma periodic_at_cons [simp]:
  "periodic_at [] i = []" "periodic_at (col # cols) i = col ! (i mod length col) # periodic_at cols i"
  by (simp_all add: periodic_at_def)

lemma periodic_at_append: "periodic_at (xs @ ys) i = periodic_at xs i @ periodic_at ys i"
  by (simp add: periodic_at_def)

lemma POSEIDON_ROUNDS_64: "POSEIDON_ROUNDS = 64"
  by (simp add: POSEIDON_ROUNDS_def POSEIDON_RF_def POSEIDON_RP_def)

lemma periodic_64:
  "periodic_at (poseidon_periodic E) i =
     [poseidon_rc E (i mod 64) 0, poseidon_rc E (i mod 64) 1, poseidon_rc E (i mod 64) 2,
      poseidon_rc E (i mod 64) 3, of_bool (is_full_round (i mod 64))]"
  by (simp add: poseidon_periodic_def POSEIDON_ROUNDS_64)

section \<open>Columns filled by loops\<close>

text \<open>\<open>for i in is { xs[i] = v }\<close>.\<close>

definition fill :: "nat list \<Rightarrow> 'a \<Rightarrow> 'a list \<Rightarrow> 'a list" where
  "fill ixs v xs = fold (\<lambda>i xs. xs[i := v]) ixs xs"

lemma length_fill [simp]: "length (fill ixs v xs) = length xs"
  unfolding fill_def by (induction ixs arbitrary: xs) simp_all

lemma nth_fill: "i < length xs \<Longrightarrow> fill ixs v xs ! i = (if i \<in> set ixs then v else xs ! i)"
  unfolding fill_def by (induction ixs arbitrary: xs) (auto simp: nth_list_update)

lemma nth_fill_upt:
  "i < length xs \<Longrightarrow> fill [a..<b] v xs ! i = (if a \<le> i \<and> i < b then v else xs ! i)"
  by (simp add: nth_fill)

lemma nth_fold_fill:
  "i < length xs \<Longrightarrow> fold (\<lambda>b. fill (f b) v) bs xs ! i = (if \<exists>b \<in> set bs. i \<in> set (f b) then v else xs ! i)"
  by (induction bs arbitrary: xs) (auto simp: nth_fill)

lemma length_fold_fill [simp]: "length (fold (\<lambda>b. fill (f b) v) bs xs) = length xs"
  by (induction bs arbitrary: xs) simp_all

lemma nth_fold_upd:
  "i < length xs \<Longrightarrow> fold (\<lambda>d m. m[f d := v]) ds xs ! i = (if i \<in> f ` set ds then v else xs ! i)"
  by (induction ds arbitrary: xs) (auto simp: nth_list_update)

lemma length_fold_upd [simp]: "length (fold (\<lambda>d m. m[f d := v]) ds xs) = length xs"
  by (induction ds arbitrary: xs) simp_all

lemma nth_fold_cond:
  "i < length xs \<Longrightarrow> fold (\<lambda>s m. if P s then m[s := v] else m) ss xs ! i =
     (if i \<in> set ss \<and> P i then v else xs ! i)"
proof (induction ss arbitrary: xs)
  case Nil
  then show ?case by simp
next
  case (Cons s ss)
  then show ?case by (cases "s = i") (auto simp: nth_list_update)
qed

lemma length_fold_cond [simp]: "length (fold (\<lambda>s m. if P s then m[s := v] else m) ss xs) = length xs"
  by (induction ss arbitrary: xs) simp_all

lemma in_blocks:
  assumes "b < (c :: nat)" and "c \<le> 128"
  shows "(\<exists>k \<in> {0..<n}. i \<in> (\<lambda>s. k * 128 + s) ` {b..<c}) \<longleftrightarrow> i < n * 128 \<and> b \<le> i mod 128 \<and> i mod 128 < c"
proof
  assume "\<exists>k \<in> {0..<n}. i \<in> (\<lambda>s. k * 128 + s) ` {b..<c}"
  then obtain k s where ks: "k < n" "b \<le> s" "s < c" "i = k * 128 + s" by (elim bexE imageE) (rule that, simp_all)
  then have "i mod 128 = s" using assms(2) by simp
  moreover have "i < n * 128"
  proof -
    have "Suc k * 128 \<le> n * 128" using ks(1) by (intro mult_le_mono1) simp
    then show ?thesis using ks assms(2) by simp
  qed
  ultimately show "i < n * 128 \<and> b \<le> i mod 128 \<and> i mod 128 < c" using ks by simp
next
  assume i: "i < n * 128 \<and> b \<le> i mod 128 \<and> i mod 128 < c"
  then have "i div 128 < n" by (simp add: less_mult_imp_div_less)
  moreover have "i = i div 128 * 128 + i mod 128" by simp
  ultimately show "\<exists>k \<in> {0..<n}. i \<in> (\<lambda>s. k * 128 + s) ` {b..<c}"
    using i by (intro bexI [of _ "i div 128"] image_eqI [of _ _ "i mod 128"]) auto
qed

text \<open>Period-128 schedule: block step \<open>s\<close> in \<open>1..=64\<close> runs round \<open>s - 1\<close>.\<close>

definition BLOCK :: nat where "BLOCK = 128"

definition poseidon_periodic_128 :: "'f::comm_ring_1 field_env \<Rightarrow> 'f list list" where
  "poseidon_periodic_128 E =
     (let z = replicate BLOCK 0;
          col = (\<lambda>f. fold (\<lambda>s xs. xs[s := f (s - 1)]) [1..<65] z)
      in [col (\<lambda>r. poseidon_rc E r 0), col (\<lambda>r. poseidon_rc E r 1), col (\<lambda>r. poseidon_rc E r 2),
          col (\<lambda>r. poseidon_rc E r 3), col (\<lambda>r. if is_full_round r then 1 else 0)])"

lemma nth_fold_update:
  "i < length xs \<Longrightarrow> fold (\<lambda>s xs. xs[s := f s]) ixs xs ! i = (if i \<in> set ixs then f i else xs ! i)"
  by (induction ixs arbitrary: xs) (auto simp: nth_list_update)

lemma length_fold_update [simp]: "length (fold (\<lambda>s xs. xs[s := f s]) ixs xs) = length xs"
  by (induction ixs arbitrary: xs) simp_all

lemma periodic_128:
  assumes "i mod 128 = Suc r" and "r < 64"
  shows "periodic_at (poseidon_periodic_128 E) i =
     [poseidon_rc E r 0, poseidon_rc E r 1, poseidon_rc E r 2, poseidon_rc E r 3, of_bool (is_full_round r)]"
  using assms by (simp add: poseidon_periodic_128_def Let_def BLOCK_def nth_fold_update)

lemma length_periodic_128 [simp]: "length (poseidon_periodic_128 E) = 5"
  by (simp add: poseidon_periodic_128_def Let_def)

lemma rcs_split: obtains r0 r1 r2 r3 fl where "periodic_at (poseidon_periodic_128 E) i = [r0, r1, r2, r3, fl]"
  by (simp add: poseidon_periodic_128_def Let_def)

section \<open>Hashes of field elements\<close>

text \<open>\<open>add4\<close> is what an absorption adds to the state.\<close>

definition add4 :: "'f::comm_ring_1 quad \<Rightarrow> 'f \<Rightarrow> 'f \<Rightarrow> 'f quad" where
  "add4 s x y = (case s of (s0, s1, s2, s3) \<Rightarrow> (s0, s1 + x, s2 + y, s3))"

definition cells12 :: "'f quad \<Rightarrow> 'f \<times> 'f" where
  "cells12 s = (fst (snd s), fst (snd (snd s)))"

definition sponge :: "'f::comm_ring_1 field_env \<Rightarrow> 'f quad \<Rightarrow> 'f \<Rightarrow> 'f \<Rightarrow> 'f quad" where
  "sponge E s x y = poseidon_perm E (add4 (poseidon_perm E s) x y)"

lemma unpack_note_hash:
  "field_laws E \<Longrightarrow> unpack E (note_hash E v b pkd) =
     cells12 (sponge E (note_iv E, fe_new E (ucast v), fst (unpack E b), snd (unpack E b))
       (fst (unpack E pkd)) (snd (unpack E pkd)))"
  by (simp add: note_hash_def sponge_def add4_def cells12_def case_prod_beta Let_def)

lemma unpack_nullifier_hash:
  "field_laws E \<Longrightarrow> unpack E (nullifier_hash E b) =
     cells12 (poseidon_perm E (nullifier_iv E, fst (unpack E b), snd (unpack E b), 0))"
  by (simp add: nullifier_hash_def cells12_def case_prod_beta Let_def)

lemma unpack_merkle_hash2:
  "field_laws E \<Longrightarrow> unpack E (merkle_hash2 E l r) =
     cells12 (sponge E (merkle_iv E, fst (unpack E l), snd (unpack E l), fst (unpack E r)) (snd (unpack E r)) 0)"
  by (simp add: merkle_hash2_def sponge_def add4_def cells12_def case_prod_beta Let_def)

lemma cells12_state4: "cells12 (state4 r) = (r ! 1, r ! 2)"
  by (simp add: cells12_def state4_def)

section \<open>The range accumulator\<close>

definition bits_nat :: "(nat \<Rightarrow> bool) \<Rightarrow> nat \<Rightarrow> nat" where
  "bits_nat B m = (\<Sum>k < m. of_bool (B k) * 2 ^ k)"

lemma bits_nat_Suc: "bits_nat B (Suc m) = bits_nat B m + of_bool (B m) * 2 ^ m"
  by (simp add: bits_nat_def)

lemma bits_nat_bit: "d < 2 ^ m \<Longrightarrow> bits_nat (bit d) m = d"
proof -
  assume d: "d < 2 ^ m"
  have "bits_nat (bit d) m = take_bit m d"
    by (simp add: bits_nat_def take_bit_sum push_bit_eq_mult lessThan_atLeast0 mult.commute)
  then show ?thesis using d by (simp add: take_bit_nat_eq_self)
qed

lemma bits_nat_less: "bits_nat B m < 2 ^ m"
  by (induction m) (auto simp: bits_nat_def)

lemma range_acc:
  fixes acc pow bit' :: "nat \<Rightarrow> 'f::comm_ring_1"
  assumes "acc t = 0" and "pow t = 1"
    and "\<And>k. k < m \<Longrightarrow> acc (t + k + 1) = acc (t + k) + bit' (t + k) * pow (t + k)"
    and "\<And>k. k < m \<Longrightarrow> pow (t + k + 1) = 2 * pow (t + k)"
    and "\<And>k. k < m \<Longrightarrow> bit' (t + k) = of_bool (B k)"
  shows "acc (t + m) = of_nat (bits_nat B m) \<and> pow (t + m) = 2 ^ m"
  using assms
proof (induction m)
  case 0
  then show ?case by (simp add: bits_nat_def)
next
  case (Suc m)
  then have "acc (t + m) = of_nat (bits_nat B m) \<and> pow (t + m) = 2 ^ m" by simp
  with Suc.prems(3-5) [of m] show ?case by (simp add: bits_nat_def)
qed

lemma u64_of_bits:
  assumes "f128_laws E"
  shows "fe_new E (ucast (of_nat (bits_nat B 64) :: u64)) = of_nat (bits_nat B 64)"
  using assms bits_nat_less [of B 64] by (simp add: f128_new_u64 unat_of_nat_small)

lemma bits_nat_word: "bits_nat (bit (x :: u64)) 64 = unat x"
proof -
  have "bits_nat (bit x) 64 = bits_nat (bit (unat x)) 64"
    unfolding bits_nat_def by (rule sum.cong) (simp_all add: bit_unsigned_iff)
  also have "\<dots> = unat x" by (rule bits_nat_bit) (use unsigned_less [of x] in simp)
  finally show ?thesis .
qed

end
