(* ===== verification/SpendAir.thy ===== *)
theory SpendAir
  imports StarkAir MerkleV2
begin

text \<open>
  The v2 spend circuit, module \<open>spend_v2\<close> of \<open>proofhub/verifier/src/lib.rs\<close>: schedule masks,
  transition constraints and assertions of \<open>SpendAir\<close>, and \<open>verify_spend_v2\<close> over the STARK verifier as
  a parameter. The theory proves the circuit sound: from any accepted trace it extracts a note, its
  membership path, its change note and the conservation of value.
\<close>

section \<open>Layout\<close>

definition TRACE_LEN :: nat where "TRACE_LEN = 8192"
definition LEVELS :: nat where "LEVELS = MERKLE_DEPTH"
definition STEP_LNOTE :: nat where "STEP_LNOTE = 128"
definition STEP_ANOTE :: nat where "STEP_ANOTE = 256"
definition STEP_MRK_BASE :: nat where "STEP_MRK_BASE = 384"
definition STEP_LCHG :: nat where "STEP_LCHG = STEP_MRK_BASE + 256 * LEVELS"
definition STEP_ACHG :: nat where "STEP_ACHG = STEP_LCHG + BLOCK"
definition ROW_NF_OUT :: nat where "ROW_NF_OUT = 65"
definition ROW_ROOT :: nat where "ROW_ROOT = STEP_LCHG - BLOCK + 65"
definition ROW_CLEAF :: nat where "ROW_CLEAF = STEP_ACHG + 65"
definition ACTIVE_BLOCKS :: nat where "ACTIVE_BLOCKS = 45"

lemma layout:
  "TRACE_LEN = 8192" "LEVELS = 20" "STEP_LNOTE = 128" "STEP_ANOTE = 256" "STEP_MRK_BASE = 384"
  "STEP_LCHG = 5504" "STEP_ACHG = 5632" "ROW_NF_OUT = 65" "ROW_ROOT = 5441" "ROW_CLEAF = 5697"
  "ACTIVE_BLOCKS = 45" "BLOCK = 128"
  by (simp_all add: TRACE_LEN_def LEVELS_def MERKLE_DEPTH_def STEP_LNOTE_def STEP_ANOTE_def
      STEP_MRK_BASE_def STEP_LCHG_def STEP_ACHG_def ROW_NF_OUT_def ROW_ROOT_def ROW_CLEAF_def
      ACTIVE_BLOCKS_def BLOCK_def)

record spend_pi =
  pi_root :: h256
  pi_nf :: h256
  pi_pkd :: h256
  price_or_amount :: u64
  pi_change_leaf :: h256
  pi_change_pkd :: h256
  mode :: u64

section \<open>Schedule masks\<close>

definition spend_masks :: "'f::comm_ring_1 list list" where
  "spend_masks =
     (let n = TRACE_LEN; z = replicate n 0; o' = replicate n 1;
          m_rnd = fold (\<lambda>b. fill (map (\<lambda>s. b * BLOCK + s) [1..<65]) 1) [0..<ACTIVE_BLOCKS] z;
          m_frz = fold (\<lambda>b. fill (map (\<lambda>s. b * BLOCK + s) [65..<BLOCK]) 1) [0..<ACTIVE_BLOCKS] z;
          m_frz = m_frz[0 := 1];
          m_lnote = z[STEP_LNOTE := 1];
          m_anote = z[STEP_ANOTE := 1];
          m_lmrk = fold (\<lambda>d m. m[STEP_MRK_BASE + 256 * d := 1]) [0..<LEVELS] z;
          m_amrk = fold (\<lambda>d m. m[STEP_MRK_BASE + 256 * d + BLOCK := 1]) [0..<LEVELS] z;
          m_auxfrz = fold (\<lambda>d m. m[STEP_MRK_BASE + 256 * d := 0]) [0..<LEVELS] o';
          m_rhifrz = fold (\<lambda>d m. m[STEP_MRK_BASE + 256 * d := 0]) [0..<LEVELS] o';
          m_lchg = z[STEP_LCHG := 1];
          m_achg = z[STEP_ACHG := 1];
          m_auxfrz = m_auxfrz[STEP_LCHG := 0];
          m_rstep = fill [64..<127] 1 (fill [0..<63] 1 z);
          m_rst = z[63 := 1];
          m_chk2 = z[127 := 1];
          m_row0 = z[0 := 1];
          m_bitfrz = fold (\<lambda>s m. if (s - STEP_MRK_BASE) mod 256 \<noteq> 0 then m[s := 1] else m)
            [STEP_MRK_BASE..<STEP_LCHG] z
      in [m_rnd, m_frz, m_lnote, m_anote, m_lmrk, m_amrk, m_lchg, m_achg,
          m_rstep, m_rst, m_chk2, m_row0, m_auxfrz, m_bitfrz, m_rhifrz])"

section \<open>The circuit\<close>

definition spend_transition ::
  "'f::comm_ring_1 field_env \<Rightarrow> spend_pi \<Rightarrow> 'f row \<Rightarrow> 'f row \<Rightarrow> 'f list \<Rightarrow> 'f list" where
  "spend_transition E pi c n p =
     (let m_rnd = p ! 5; m_frz = p ! 6; m_lnote = p ! 7; m_anote = p ! 8;
          m_lmrk = p ! 9; m_amrk = p ! 10; m_lchg = p ! 11; m_achg = p ! 12;
          m_rstep = p ! 13; m_rst = p ! 14; m_chk2 = p ! 15; m_row0 = p ! 16;
          m_auxfrz = p ! 17; m_bitfrz = p ! 18; m_rhifrz = p ! 19;
          (pkd_lo, pkd_hi) = unpack E (pi_pkd pi);
          (cpkd_lo, cpkd_hi) = unpack E (pi_change_pkd pi);
          price = fe_new E (ucast (price_or_amount pi));
          md = fe_new E (ucast (mode pi));
          e = round_cols c (p ! 0) (p ! 1) (p ! 2) (p ! 3) (p ! 4);
          bt = n ! 4;
          l_lo = bt * n ! 9 + (1 - bt) * c ! 1;
          l_hi = bt * n ! 10 + (1 - bt) * c ! 2;
          r_lo = bt * c ! 1 + (1 - bt) * n ! 9;
          r_hi = bt * c ! 2 + (1 - bt) * n ! 10;
          lnote = [note_iv E, c ! 12, c ! 7, c ! 8];
          lmrk = [merkle_iv E, l_lo, l_hi, r_lo];
          lchg = [note_iv E, c ! 13, n ! 9, n ! 10];
          abs1 = m_anote * pkd_lo + m_amrk * c ! 11 + m_achg * cpkd_lo;
          abs2 = m_anote * pkd_hi + m_achg * cpkd_hi;
          m_abs = m_anote + m_amrk + m_achg
      in map (\<lambda>i. m_rnd * (n ! i - e ! i) + m_frz * (n ! i - c ! i) + m_lnote * (n ! i - lnote ! i)
                  + m_lmrk * (n ! i - lmrk ! i) + m_lchg * (n ! i - lchg ! i) + m_abs * (n ! i - c ! i)
                  - (if i = 1 then abs1 else if i = 2 then abs2 else 0)) [0, 1, 2, 3] @
         [c ! 4 * (c ! 4 - 1),
          m_rstep * (n ! 5 - c ! 5 - c ! 4 * c ! 6) + m_rst * n ! 5,
          m_rstep * (n ! 6 - (c ! 6 + c ! 6)) + m_rst * (n ! 6 - 1),
          m_rst * (c ! 5 + c ! 4 * c ! 6 - c ! 12) + m_chk2 * (c ! 5 + c ! 4 * c ! 6 - c ! 13),
          n ! 7 - c ! 7, n ! 8 - c ! 8, n ! 12 - c ! 12, n ! 13 - c ! 13,
          m_auxfrz * (n ! 9 - c ! 9), m_auxfrz * (n ! 10 - c ! 10),
          m_bitfrz * (n ! 4 - c ! 4),
          m_lmrk * (n ! 11 - r_hi) + m_rhifrz * (n ! 11 - c ! 11),
          c ! 12 - md * c ! 13 - price,
          (1 - md) * c ! 13,
          m_row0 * (c ! 0 - nullifier_iv E), m_row0 * (c ! 1 - c ! 7), m_row0 * (c ! 2 - c ! 8),
          m_row0 * c ! 3])"

definition spend_assertions :: "'f::comm_ring_1 field_env \<Rightarrow> spend_pi \<Rightarrow> (nat \<times> nat \<times> 'f) list" where
  "spend_assertions E pi =
     (let (nf_lo, nf_hi) = unpack E (pi_nf pi); (root_lo, root_hi) = unpack E (pi_root pi);
          (cl_lo, cl_hi) = unpack E (pi_change_leaf pi)
      in [(5, 0, 0), (6, 0, 1), (1, ROW_NF_OUT, nf_lo), (2, ROW_NF_OUT, nf_hi),
          (1, ROW_ROOT, root_lo), (2, ROW_ROOT, root_hi), (1, ROW_CLEAF, cl_lo), (2, ROW_CLEAF, cl_hi)])"

definition spend_air :: "'f::comm_ring_1 field_env \<Rightarrow> spend_pi \<Rightarrow> 'f air" where
  "spend_air E pi = \<lparr>air_transition = spend_transition E pi,
     air_periodic = poseidon_periodic_128 E @ spend_masks, air_assertions = spend_assertions E pi\<rparr>"

text \<open>
  \<open>winter_verifier::verify\<close> on the parsed proof is the argument \<open>stark\<close>: proof bytes and circuit to
  the verdict, \<open>False\<close> for bytes that do not parse.
\<close>

definition verify_spend_v2 ::
  "'f::comm_ring_1 field_env \<Rightarrow> (bytes \<Rightarrow> 'f air \<Rightarrow> bool) \<Rightarrow> bytes \<Rightarrow> h256 \<Rightarrow> h256 \<Rightarrow> h256 \<Rightarrow> u64 \<Rightarrow> h256 \<Rightarrow>
     h256 \<Rightarrow> bool \<Rightarrow> bool" where
  "verify_spend_v2 E stark proof rt nf pkd amount change_leaf change_pkd purchase_mode =
     stark proof (spend_air E \<lparr>pi_root = rt, pi_nf = nf, pi_pkd = pkd, price_or_amount = amount,
       pi_change_leaf = change_leaf, pi_change_pkd = change_pkd, mode = (if purchase_mode then 1 else 0)\<rparr>)"

definition zero_change_leaf :: "'f::comm_ring_1 field_env \<Rightarrow> h256" where
  "zero_change_leaf E = note_hash E 0 0 0"

section \<open>The masks at a step\<close>

definition merkle_link :: "nat \<Rightarrow> bool" where "merkle_link i \<longleftrightarrow> (\<exists>d < 20. i = 384 + 256 * d)"
definition merkle_absorb :: "nat \<Rightarrow> bool" where "merkle_absorb i \<longleftrightarrow> (\<exists>d < 20. i = 512 + 256 * d)"

lemma spend_masks_at:
  assumes "i < 8192"
  shows "periodic_at spend_masks i =
    [of_bool (i < 5760 \<and> 1 \<le> i mod 128 \<and> i mod 128 < 65),
     of_bool (i = 0 \<or> i < 5760 \<and> 65 \<le> i mod 128), of_bool (i = 128), of_bool (i = 256),
     of_bool (merkle_link i), of_bool (merkle_absorb i), of_bool (i = 5504), of_bool (i = 5632),
     of_bool (i < 63 \<or> 64 \<le> i \<and> i < 127), of_bool (i = 63), of_bool (i = 127), of_bool (i = 0),
     of_bool (\<not> merkle_link i \<and> i \<noteq> 5504),
     of_bool (384 \<le> i \<and> i < 5504 \<and> (i - 384) mod 256 \<noteq> 0), of_bool (\<not> merkle_link i)]"
proof -
  let ?z = "replicate 8192 0 :: 'a list"
  let ?o = "replicate 8192 1 :: 'a list"
  have z: "i < length ?z" "?z ! i = 0" "i < length ?o" "?o ! i = 1" using assms by simp_all
  have im: "i mod 8192 = i" using assms by simp
  have m: "i mod 128 < 128" by simp
  have ifb: "(if P then 1 else 0) = (of_bool P :: 'a)" "(if P then 0 else 1) = (of_bool (\<not> P) :: 'a)" for P
    by simp_all
  have link: "i \<in> (\<lambda>d. 384 + 256 * d) ` {0..<20} \<longleftrightarrow> merkle_link i"
    and absorb: "i \<in> (\<lambda>d. 384 + 256 * d + 128) ` {0..<20} \<longleftrightarrow> merkle_absorb i"
    by (auto simp: merkle_link_def merkle_absorb_def)
  have upd: "?z[k := 1] ! i = of_bool (i = k)" if "k < 8192" for k
    using z that by (simp add: nth_list_update)
  have rnd: "fold (\<lambda>b. fill (map (\<lambda>s. b * 128 + s) [1..<65]) 1) [0..<45] ?z ! i =
      of_bool (i < 5760 \<and> 1 \<le> i mod 128 \<and> i mod 128 < 65)"
    unfolding nth_fold_fill [OF z(1)] z(2) set_map set_upt ifb using in_blocks [of 1 65 45 i] by simp
  have frz: "(fold (\<lambda>b. fill (map (\<lambda>s. b * 128 + s) [65..<128]) 1) [0..<45] ?z)[0 := 1] ! i =
      of_bool (i = 0 \<or> i < 5760 \<and> 65 \<le> i mod 128)"
  proof -
    have l: "0 < length (fold (\<lambda>b. fill (map (\<lambda>s. b * 128 + s) [65..<128]) 1) [0..<45] ?z)"
      unfolding length_fold_fill by simp
    have "fold (\<lambda>b. fill (map (\<lambda>s. b * 128 + s) [65..<128]) 1) [0..<45] ?z ! i =
        of_bool (i < 5760 \<and> 65 \<le> i mod 128)"
      unfolding nth_fold_fill [OF z(1)] z(2) set_map set_upt ifb using in_blocks [of 65 128 45 i] m by simp
    then show ?thesis unfolding nth_list_update [OF l] by (cases "i = 0") auto
  qed
  have lmrk: "fold (\<lambda>d m. m[384 + 256 * d := 1]) [0..<20] ?z ! i = of_bool (merkle_link i)"
    "fold (\<lambda>d m. m[384 + 256 * d := 0]) [0..<20] ?o ! i = of_bool (\<not> merkle_link i)"
    unfolding nth_fold_upd [OF z(1)] nth_fold_upd [OF z(3)] z(2,4) set_upt link ifb by (rule refl)+
  have amrk: "fold (\<lambda>d m. m[384 + 256 * d + 128 := 1]) [0..<20] ?z ! i = of_bool (merkle_absorb i)"
    unfolding nth_fold_upd [OF z(1)] z(2) set_upt absorb ifb by (rule refl)
  have auxfrz: "(fold (\<lambda>d m. m[384 + 256 * d := 0]) [0..<20] ?o)[5504 := 0] ! i =
      of_bool (\<not> merkle_link i \<and> i \<noteq> 5504)"
  proof -
    have l: "5504 < length (fold (\<lambda>d m. m[384 + 256 * d := 0]) [0..<20] ?o)"
      unfolding length_fold_upd by simp
    show ?thesis unfolding nth_list_update [OF l] lmrk by auto
  qed
  have rstep: "fill [64..<127] 1 (fill [0..<63] 1 ?z) ! i = of_bool (i < 63 \<or> 64 \<le> i \<and> i < 127)"
  proof -
    have l: "i < length (fill [0..<63] 1 ?z)" unfolding length_fill by (rule z(1))
    show ?thesis unfolding nth_fill_upt [OF l] nth_fill_upt [OF z(1)] z(2) by auto
  qed
  have bitfrz: "fold (\<lambda>s m. if (s - 384) mod 256 \<noteq> 0 then m[s := 1] else m) [384..<5504] ?z ! i =
      of_bool (384 \<le> i \<and> i < 5504 \<and> (i - 384) mod 256 \<noteq> 0)"
    unfolding nth_fold_cond [OF z(1)] z(2) set_upt ifb atLeastLessThan_iff conj_assoc by (rule refl)
  show ?thesis
    unfolding spend_masks_def Let_def layout periodic_at_cons length_list_update length_fold_fill
      length_fold_upd length_fold_cond length_fill length_replicate im rnd frz lmrk amrk auxfrz rstep bitfrz
    by (simp add: upd)
qed

section \<open>What an accepted trace satisfies at each step\<close>

definition spend_steps :: "'f::comm_ring_1 field_env \<Rightarrow> spend_pi \<Rightarrow> nat \<Rightarrow> (nat \<Rightarrow> 'f row) \<Rightarrow> bool" where
  "spend_steps E pi n tr \<longleftrightarrow> (\<forall>i < n - 1. list_all (\<lambda>x. x = 0) (spend_transition E pi (tr i) (tr (Suc i))
     (periodic_at (poseidon_periodic_128 E) i @ periodic_at spend_masks i)))"

lemma spend_air_steps: "air_accepts (spend_air E pi) n tr \<Longrightarrow> spend_steps E pi n tr"
  by (simp add: air_accepts_def spend_air_def spend_steps_def periodic_at_append)

lemma spend_step:
  assumes "spend_steps E pi n tr" and "i < 5697" and "5697 < n"
  shows "list_all (\<lambda>x. x = 0) (spend_transition E pi (tr i) (tr (Suc i))
     (periodic_at (poseidon_periodic_128 E) i @ periodic_at spend_masks i))"
  using assms by (simp add: spend_steps_def)

lemma off_block:
  assumes "i mod 128 \<noteq> 0"
  shows "\<not> merkle_link i \<and> \<not> merkle_absorb i \<and> i \<noteq> 0 \<and> i \<noteq> 128 \<and> i \<noteq> 256 \<and> i \<noteq> 5504 \<and> i \<noteq> 5632"
proof -
  have "(384 + 256 * d) mod 128 = 0" "(512 + 256 * d) mod 128 = (0::nat)" for d :: nat
    by presburger+
  then show ?thesis using assms by (auto simp: merkle_link_def merkle_absorb_def)
qed

lemma spend_round:
  assumes st: "spend_steps E pi n tr" "5697 < n" and i: "i < 5697" "i mod 128 = Suc r" "r < 64"
  shows "state4 (tr (Suc i)) = poseidon_eval_round_base E r (state4 (tr i))"
proof -
  have "i < 8192" "i < 5760" using i by simp_all
  then show ?thesis
    using spend_step [OF st(1) i(1) st(2)] off_block [of i] i(2,3)
    by (simp add: spend_masks_at periodic_128 spend_transition_def Let_def case_prod_beta state4_def prod_eq_iff)
qed

lemma spend_freeze:
  assumes st: "spend_steps E pi n tr" "5697 < n" and i: "i < 5697" "i = 0 \<or> 65 \<le> i mod 128"
  shows "state4 (tr (Suc i)) = state4 (tr i)"
proof -
  have "i < 8192" "i < 5760" using i by simp_all
  moreover have "i = 0 \<or> i mod 128 \<noteq> 0 \<and> \<not> i mod 128 < 65" using i(2) by auto
  moreover have "\<not> merkle_link 0 \<and> \<not> merkle_absorb 0" by (simp add: merkle_link_def merkle_absorb_def)
  moreover obtain r0 r1 r2 r3 fl where "periodic_at (poseidon_periodic_128 E) i = [r0, r1, r2, r3, fl]"
    by (rule rcs_split)
  ultimately show ?thesis
    using spend_step [OF st(1) i(1) st(2)] off_block [of i] i(2)
    by (auto simp: spend_masks_at spend_transition_def Let_def case_prod_beta state4_def prod_eq_iff)
qed

lemma merkle_link_iff: "merkle_link i \<longleftrightarrow> 384 \<le> i \<and> i < 5504 \<and> i mod 256 = 128"
proof
  assume "merkle_link i"
  then obtain d where "d < 20" "i = 128 + 256 * (d + 1)" by (auto simp: merkle_link_def)
  then show "384 \<le> i \<and> i < 5504 \<and> i mod 256 = 128" by (simp only: mod_mult_self2) simp
next
  assume i: "384 \<le> i \<and> i < 5504 \<and> i mod 256 = 128"
  define q where "q = i div 256"
  have e: "i = 256 * q + 128" using mult_div_mod_eq [of 256 i] i by (simp add: q_def)
  then have "1 \<le> q" "q < 21" using i by linarith+
  then have "i = 384 + 256 * (q - 1)" "q - 1 < 20" using e by linarith+
  then show "merkle_link i" unfolding merkle_link_def by blast
qed

lemma merkle_absorb_iff: "merkle_absorb i \<longleftrightarrow> 512 \<le> i \<and> i < 5504 \<and> i mod 256 = 0"
proof
  assume "merkle_absorb i"
  then obtain d where "d < 20" "i = 0 + 256 * (d + 2)" by (auto simp: merkle_absorb_def)
  then show "512 \<le> i \<and> i < 5504 \<and> i mod 256 = 0" by (simp only: mod_mult_self2) simp
next
  assume i: "512 \<le> i \<and> i < 5504 \<and> i mod 256 = 0"
  define q where "q = i div 256"
  have e: "i = 256 * q" using mult_div_mod_eq [of 256 i] i by (simp add: q_def)
  then have "2 \<le> q" "q < 22" using i by linarith+
  then have "i = 512 + 256 * (q - 2)" "q - 2 < 20" using e by linarith+
  then show "merkle_absorb i" unfolding merkle_absorb_def by blast
qed

lemmas merkle_steps = merkle_link_iff merkle_absorb_iff

text \<open>The boundary steps.\<close>

lemma spend_boundaries:
  assumes st: "spend_steps E pi n tr" "5697 < n"
  shows "state4 (tr 129) = (note_iv E, tr 128 ! 12, tr 128 ! 7, tr 128 ! 8)"
    and "state4 (tr 257) = add4 (state4 (tr 256)) (fst (unpack E (pi_pkd pi))) (snd (unpack E (pi_pkd pi)))"
    and "state4 (tr 5505) = (note_iv E, tr 5504 ! 13, tr 5505 ! 9, tr 5505 ! 10)"
    and "state4 (tr 5633) =
      add4 (state4 (tr 5632)) (fst (unpack E (pi_change_pkd pi))) (snd (unpack E (pi_change_pkd pi)))"
proof -
  obtain r0 r1 r2 r3 fl where "periodic_at (poseidon_periodic_128 E) 128 = [r0, r1, r2, r3, fl]"
    by (rule rcs_split)
  then show "state4 (tr 129) = (note_iv E, tr 128 ! 12, tr 128 ! 7, tr 128 ! 8)"
    using spend_step [OF st(1) _ st(2), of 128]
    by (simp add: spend_masks_at spend_transition_def Let_def case_prod_beta state4_def merkle_steps)
next
  obtain r0 r1 r2 r3 fl where "periodic_at (poseidon_periodic_128 E) 256 = [r0, r1, r2, r3, fl]"
    by (rule rcs_split)
  then show "state4 (tr 257) = add4 (state4 (tr 256)) (fst (unpack E (pi_pkd pi))) (snd (unpack E (pi_pkd pi)))"
    using spend_step [OF st(1) _ st(2), of 256]
    by (simp add: spend_masks_at spend_transition_def Let_def case_prod_beta state4_def merkle_steps add4_def
        algebra_simps)
next
  obtain r0 r1 r2 r3 fl where "periodic_at (poseidon_periodic_128 E) 5504 = [r0, r1, r2, r3, fl]"
    by (rule rcs_split)
  then show "state4 (tr 5505) = (note_iv E, tr 5504 ! 13, tr 5505 ! 9, tr 5505 ! 10)"
    using spend_step [OF st(1) _ st(2), of 5504]
    by (simp add: spend_masks_at spend_transition_def Let_def case_prod_beta state4_def merkle_steps)
next
  obtain r0 r1 r2 r3 fl where "periodic_at (poseidon_periodic_128 E) 5632 = [r0, r1, r2, r3, fl]"
    by (rule rcs_split)
  then show "state4 (tr 5633) =
      add4 (state4 (tr 5632)) (fst (unpack E (pi_change_pkd pi))) (snd (unpack E (pi_change_pkd pi)))"
    using spend_step [OF st(1) _ st(2), of 5632]
    by (simp add: spend_masks_at spend_transition_def Let_def case_prod_beta state4_def merkle_steps add4_def
        algebra_simps)
qed

text \<open>The link of a Merkle level and its absorption; \<open>mux\<close> orders the node and its sibling.\<close>

definition mux :: "'f::comm_ring_1 \<Rightarrow> 'f \<Rightarrow> 'f \<Rightarrow> 'f" where
  "mux b x y = b * x + (1 - b) * y"

lemma spend_link:
  assumes st: "spend_steps E pi n tr" "5697 < n" and i: "merkle_link i"
  defines "b \<equiv> tr (Suc i) ! 4"
  shows "state4 (tr (Suc i)) = (merkle_iv E, mux b (tr (Suc i) ! 9) (tr i ! 1), mux b (tr (Suc i) ! 10) (tr i ! 2),
      mux b (tr i ! 1) (tr (Suc i) ! 9))"
    and "tr (Suc i) ! 11 = mux b (tr i ! 2) (tr (Suc i) ! 10)"
proof -
  have b: "384 \<le> i" "i < 5504" "i mod 256 = 128" using i by (simp_all add: merkle_link_iff)
  have "i mod 128 = i mod 256 mod 128" by (rule mod_mod_cancel [symmetric]) simp
  then have c: "i mod 128 = 0" "\<not> merkle_absorb i" "i \<noteq> 0" "i \<noteq> 128" "i \<noteq> 256" "i \<noteq> 5504" "i \<noteq> 5632" "i < 8192"
    "i < 5697" "\<not> i < 63" "i \<noteq> 63" "\<not> i < 127" "i \<noteq> 127"
    using b by (auto simp: merkle_absorb_iff)
  obtain r0 r1 r2 r3 fl where p: "periodic_at (poseidon_periodic_128 E) i = [r0, r1, r2, r3, fl]"
    by (rule rcs_split)
  note z = spend_step [OF st(1) c(9) st(2)]
  show "state4 (tr (Suc i)) = (merkle_iv E, mux b (tr (Suc i) ! 9) (tr i ! 1), mux b (tr (Suc i) ! 10) (tr i ! 2),
      mux b (tr i ! 1) (tr (Suc i) ! 9))"
    and "tr (Suc i) ! 11 = mux b (tr i ! 2) (tr (Suc i) ! 10)"
    using z i p c
    by (simp_all add: spend_masks_at spend_transition_def Let_def case_prod_beta state4_def mux_def b_def)
qed

lemma spend_merkle_absorb:
  assumes st: "spend_steps E pi n tr" "5697 < n" and i: "merkle_absorb i"
  shows "state4 (tr (Suc i)) = add4 (state4 (tr i)) (tr i ! 11) 0"
proof -
  have b: "512 \<le> i" "i < 5504" "i mod 256 = 0" using i by (simp_all add: merkle_absorb_iff)
  have "i mod 128 = i mod 256 mod 128" by (rule mod_mod_cancel [symmetric]) simp
  then have c: "i mod 128 = 0" "\<not> merkle_link i" "i \<noteq> 0" "i \<noteq> 128" "i \<noteq> 256" "i \<noteq> 5504" "i \<noteq> 5632" "i < 8192"
    "i < 5697"
    using b by (auto simp: merkle_link_iff)
  obtain r0 r1 r2 r3 fl where p: "periodic_at (poseidon_periodic_128 E) i = [r0, r1, r2, r3, fl]"
    by (rule rcs_split)
  show ?thesis
    using spend_step [OF st(1) c(9) st(2)] i p c
    by (simp add: spend_masks_at spend_transition_def Let_def case_prod_beta state4_def add4_def algebra_simps)
qed

text \<open>The other columns.\<close>

lemma spend_columns:
  assumes st: "spend_steps E pi n tr" "5697 < n" and i: "i < 5697"
  shows "tr i ! 4 * (tr i ! 4 - 1) = 0"
    and "tr (Suc i) ! 7 = tr i ! 7" and "tr (Suc i) ! 8 = tr i ! 8"
    and "tr (Suc i) ! 12 = tr i ! 12" and "tr (Suc i) ! 13 = tr i ! 13"
    and "tr i ! 12 = fe_new E (ucast (mode pi)) * tr i ! 13 + fe_new E (ucast (price_or_amount pi))"
    and "(1 - fe_new E (ucast (mode pi))) * tr i ! 13 = 0"
proof -
  obtain r0 r1 r2 r3 fl where p: "periodic_at (poseidon_periodic_128 E) i = [r0, r1, r2, r3, fl]"
    by (rule rcs_split)
  note z = spend_step [OF st(1) i st(2), unfolded p spend_transition_def Let_def case_prod_beta]
  show "tr i ! 4 * (tr i ! 4 - 1) = 0" "tr (Suc i) ! 7 = tr i ! 7" "tr (Suc i) ! 8 = tr i ! 8"
    "tr (Suc i) ! 12 = tr i ! 12" "tr (Suc i) ! 13 = tr i ! 13"
    "(1 - fe_new E (ucast (mode pi))) * tr i ! 13 = 0"
    using z by simp_all
  have "tr i ! 12 - fe_new E (ucast (mode pi)) * tr i ! 13 - fe_new E (ucast (price_or_amount pi)) = 0"
    using z by simp
  then show "tr i ! 12 = fe_new E (ucast (mode pi)) * tr i ! 13 + fe_new E (ucast (price_or_amount pi))"
    by (simp add: algebra_simps)
qed

lemma spend_range_columns:
  assumes st: "spend_steps E pi n tr" "5697 < n"
  shows "i < 63 \<or> 64 \<le> i \<and> i < 127 \<Longrightarrow>
      tr (Suc i) ! 5 = tr i ! 5 + tr i ! 4 * tr i ! 6 \<and> tr (Suc i) ! 6 = 2 * tr i ! 6"
    and "tr 64 ! 5 = 0" and "tr 64 ! 6 = 1"
    and "tr 63 ! 12 = tr 63 ! 5 + tr 63 ! 4 * tr 63 ! 6"
    and "tr 127 ! 13 = tr 127 ! 5 + tr 127 ! 4 * tr 127 ! 6"
    and "state4 (tr 0) = (nullifier_iv E, tr 0 ! 7, tr 0 ! 8, 0)"
proof -
  show "i < 63 \<or> 64 \<le> i \<and> i < 127 \<Longrightarrow>
      tr (Suc i) ! 5 = tr i ! 5 + tr i ! 4 * tr i ! 6 \<and> tr (Suc i) ! 6 = 2 * tr i ! 6"
  proof -
    assume i: "i < 63 \<or> 64 \<le> i \<and> i < 127"
    then have c: "i < 5697" "i < 8192" "i \<noteq> 63" by auto
    obtain r0 r1 r2 r3 fl where p: "periodic_at (poseidon_periodic_128 E) i = [r0, r1, r2, r3, fl]"
      by (rule rcs_split)
    have "tr (Suc i) ! 5 - tr i ! 5 - tr i ! 4 * tr i ! 6 = 0" "tr (Suc i) ! 6 - (tr i ! 6 + tr i ! 6) = 0"
      using spend_step [OF st(1) c(1) st(2), unfolded p spend_transition_def Let_def case_prod_beta] i c
      by (simp_all add: spend_masks_at)
    then show ?thesis by (simp add: algebra_simps)
  qed
next
  obtain r0 r1 r2 r3 fl where p: "periodic_at (poseidon_periodic_128 E) 63 = [r0, r1, r2, r3, fl]"
    by (rule rcs_split)
  note z = spend_step [OF st(1) _ st(2), of 63, unfolded p spend_transition_def Let_def case_prod_beta]
  show "tr 64 ! 5 = 0" "tr 64 ! 6 = 1" "tr 63 ! 12 = tr 63 ! 5 + tr 63 ! 4 * tr 63 ! 6"
    using z by (simp_all add: spend_masks_at)
next
  obtain r0 r1 r2 r3 fl where p: "periodic_at (poseidon_periodic_128 E) 127 = [r0, r1, r2, r3, fl]"
    by (rule rcs_split)
  then show "tr 127 ! 13 = tr 127 ! 5 + tr 127 ! 4 * tr 127 ! 6"
    using spend_step [OF st(1) _ st(2), of 127, unfolded p spend_transition_def Let_def case_prod_beta]
    by (simp add: spend_masks_at)
next
  obtain r0 r1 r2 r3 fl where p: "periodic_at (poseidon_periodic_128 E) 0 = [r0, r1, r2, r3, fl]"
    by (rule rcs_split)
  then show "state4 (tr 0) = (nullifier_iv E, tr 0 ! 7, tr 0 ! 8, 0)"
    using spend_step [OF st(1) _ st(2), of 0, unfolded p spend_transition_def Let_def case_prod_beta]
    by (simp add: spend_masks_at state4_def)
qed

lemma spend_frozen_columns:
  assumes st: "spend_steps E pi n tr" "5697 < n" and i: "i < 5697"
  shows "\<not> merkle_link i \<Longrightarrow> tr (Suc i) ! 11 = tr i ! 11"
proof -
  assume l: "\<not> merkle_link i"
  obtain r0 r1 r2 r3 fl where p: "periodic_at (poseidon_periodic_128 E) i = [r0, r1, r2, r3, fl]"
    by (rule rcs_split)
  show "tr (Suc i) ! 11 = tr i ! 11"
    using spend_step [OF st(1) i st(2), unfolded p spend_transition_def Let_def case_prod_beta] l i
    by (simp add: spend_masks_at)
qed

section \<open>Blocks\<close>

lemma spend_block:
  assumes st: "spend_steps E pi n tr" "5697 < n" and t: "t mod 128 = 0" "t \<le> 5632"
  shows "state4 (tr (t + 65)) = poseidon_perm E (state4 (tr (t + 1)))"
proof -
  have "state4 (tr (t + 1 + 64)) = poseidon_perm E (state4 (tr (t + 1)))"
  proof (rule perm_rows)
    fix k :: nat assume k: "k < 64"
    have "(t + Suc k) mod 128 = (t mod 128 + Suc k) mod 128" by (simp only: mod_add_left_eq)
    then have "(t + 1 + k) mod 128 = Suc k" using t(1) k by simp
    then show "state4 (tr (t + 1 + k + 1)) = poseidon_eval_round_base E k (state4 (tr (t + 1 + k)))"
      using spend_round [OF st, of "t + 1 + k" k] k t by simp
  qed
  moreover have "t + 1 + 64 = t + 65" by simp
  ultimately show ?thesis by (simp only:)
qed

lemma spend_hold:
  assumes st: "spend_steps E pi n tr" "5697 < n" and t: "t mod 128 = 0" "t + 128 \<le> 5632"
  shows "state4 (tr (t + 128)) = state4 (tr (t + 65))"
proof (rule frozen)
  fix i assume i: "t + 65 \<le> i" "i < t + 128"
  then obtain k where k: "i = t + k" "65 \<le> k" "k < 128" using le_Suc_ex by (auto simp: le_iff_add)
  have "(t + k) mod 128 = (t mod 128 + k) mod 128" by (simp only: mod_add_left_eq)
  then have "i mod 128 = k" using k t(1) by simp
  then show "state4 (tr (Suc i)) = state4 (tr i)" using spend_freeze [OF st, of i] i t k by simp
qed simp

text \<open>A two-permutation sponge: link at \<open>t\<close>, absorption at \<open>t + 128\<close>.\<close>

lemma spend_sponge:
  assumes st: "spend_steps E pi n tr" "5697 < n" and t: "t mod 128 = 0" "t + 128 \<le> 5632"
    and ab: "state4 (tr (t + 129)) = add4 (state4 (tr (t + 128))) x y"
  shows "state4 (tr (t + 193)) = poseidon_perm E (add4 (poseidon_perm E (state4 (tr (t + 1)))) x y)"
proof -
  have "(t + 128) mod 128 = 0" using t(1) by simp
  then have "state4 (tr (t + 128 + 65)) = poseidon_perm E (state4 (tr (t + 128 + 1)))"
    using spend_block [OF st, of "t + 128"] t(2) by simp
  moreover have "t + 128 + 65 = t + 193" "t + 128 + 1 = t + 129" by simp_all
  ultimately have "state4 (tr (t + 193)) = poseidon_perm E (state4 (tr (t + 129)))" by (simp only:)
  moreover have "state4 (tr (t + 65)) = poseidon_perm E (state4 (tr (t + 1)))"
    using t(2) by (intro spend_block [OF st t(1)]) simp
  ultimately show ?thesis using ab spend_hold [OF st t] by (simp only:)
qed

section \<open>Membership\<close>

definition node_at :: "(nat \<Rightarrow> 'f row) \<Rightarrow> nat \<Rightarrow> 'f \<times> 'f" where
  "node_at tr d = (tr (384 + 256 * d) ! 1, tr (384 + 256 * d) ! 2)"

definition level_bit :: "(nat \<Rightarrow> 'f::comm_ring_1 row) \<Rightarrow> nat \<Rightarrow> bool" where
  "level_bit tr d = (tr (385 + 256 * d) ! 4 = 1)"

definition level_sibling :: "'f field_env \<Rightarrow> (nat \<Rightarrow> 'f row) \<Rightarrow> nat \<Rightarrow> h256" where
  "level_sibling E tr d = pack E (tr (385 + 256 * d) ! 9) (tr (385 + 256 * d) ! 10)"

lemma spend_level:
  assumes laws: "f128_laws E" and st: "spend_steps E pi n tr" "5697 < n" and d: "d < 20"
    and node: "unpack E x = node_at tr d"
  shows "unpack E (if level_bit tr d then merkle_hash2 E (level_sibling E tr d) x
      else merkle_hash2 E x (level_sibling E tr d)) = node_at tr (Suc d)"
proof -
  define t where "t = 384 + 256 * d"
  note fl = f128_field [OF laws]
  have tm: "t = 128 * (3 + 2 * d)" "t \<le> 5248" using d by (simp_all add: t_def)
  then have t: "t mod 128 = 0" "t + 128 \<le> 5632" by simp_all
  have link: "merkle_link t" using d by (auto simp: merkle_link_def t_def)
  have abs: "merkle_absorb (t + 128)" using d by (auto simp: merkle_absorb_def t_def)
  define b where "b = tr (Suc t) ! 4"
  define lo where "lo = tr (Suc t) ! 9"
  define hi where "hi = tr (Suc t) ! 10"
  have rows: "385 + 256 * d = Suc t" "384 + 256 * d = t" "384 + 256 * Suc d = t + 256"
    by (simp_all add: t_def)
  have bit': "b = of_bool (level_bit tr d)"
    unfolding level_bit_def rows b_def using tm by (intro f128_bit [OF laws spend_columns(1) [OF st]]) simp
  have "tr (t + 128) ! 11 = tr (Suc t) ! 11"
  proof (rule frozen)
    fix i assume i: "Suc t \<le> i" "i < t + 128"
    then obtain k where k: "i = 128 * (3 + 2 * d) + Suc k" "Suc k < 128" using tm(1)
      by (metis add_Suc_right add_less_cancel_left le_Suc_ex add_Suc)
    then have "i mod 128 = Suc k" by (simp only: mod_mult_self4) simp
    then have "\<not> merkle_link i" using off_block [of i] by simp
    then show "tr (Suc i) ! 11 = tr i ! 11" using spend_frozen_columns [OF st, of i] i tm by simp
  qed simp
  then have r_hi: "tr (t + 128) ! 11 = mux b (tr t ! 2) hi"
    using spend_link(2) [OF st link] by (simp add: b_def hi_def)
  have "state4 (tr (t + 193)) = sponge E (state4 (tr (t + 1))) (tr (t + 128) ! 11) 0"
    unfolding sponge_def using spend_merkle_absorb [OF st abs]
    by (intro spend_sponge [OF st t]) (simp add: add.commute [of _ t])
  moreover have "state4 (tr (t + 256)) = state4 (tr (t + 193))"
    using spend_hold [OF st, of "t + 128"] t tm by simp
  moreover have nd: "node_at tr (Suc d) = cells12 (state4 (tr (t + 256)))"
    unfolding node_at_def rows cells12_state4 ..
  ultimately have out: "node_at tr (Suc d) =
      cells12 (sponge E (merkle_iv E, mux b lo (tr t ! 1), mux b hi (tr t ! 2), mux b (tr t ! 1) lo)
        (mux b (tr t ! 2) hi) 0)"
    using spend_link(1) [OF st link] r_hi by (simp add: nd b_def lo_def hi_def)
  have x: "unpack E x = (tr t ! 1, tr t ! 2)" using node by (simp add: node_at_def t_def)
  have s: "unpack E (level_sibling E tr d) = (lo, hi)"
    using fl by (simp add: level_sibling_def rows lo_def hi_def)
  show ?thesis
    unfolding out by (cases "level_bit tr d") (simp_all add: unpack_merkle_hash2 [OF fl] x s bit' mux_def)
qed

lemma word_from_bits: "\<exists>w :: u32. \<forall>d < 20. bit w d = B d"
proof -
  have "\<exists>w :: u32. \<forall>d < m. bit w d = B d" if "m \<le> 20" for m
    using that
  proof (induction m)
    case 0
    then show ?case by simp
  next
    case (Suc m)
    then obtain w :: u32 where w: "\<forall>d < m. bit w d = B d" by auto
    let ?w = "if B m then w OR push_bit m 1 else w AND NOT (push_bit m 1)"
    have "bit ?w d = B d" if "d < Suc m" for d
      using that w Suc.prems by (cases "d = m") (auto simp: bit_simps)
    then show ?case by blast
  qed
  then show ?thesis by blast
qed

lemma spend_path:
  assumes laws: "f128_laws E" and st: "spend_steps E pi n tr" "5697 < n"
    and sibs: "\<forall>d < 20. unpack E (sibs ! d) = unpack E (level_sibling E tr d)" and idx: "\<forall>d < 20. bit (idx :: u32) d = level_bit tr d"
  shows "d + k \<le> 20 \<Longrightarrow> unpack E x = node_at tr d \<Longrightarrow>
    unpack E (fold_path (merkle_hash2 E) [d..<d + k] sibs x (drop_bit d idx)) = node_at tr (d + k)"
proof (induction k arbitrary: d x)
  case 0
  then show ?case by simp
next
  case (Suc k)
  then have d: "d < 20" by simp
  let ?x = "if drop_bit d idx AND 1 = 0 then merkle_hash2 E x (sibs ! d) else merkle_hash2 E (sibs ! d) x"
  have "odd (drop_bit d idx) = level_bit tr d" using idx d by (simp add: bit_iff_odd_drop_bit)
  then have "drop_bit d idx AND 1 = 0 \<longleftrightarrow> \<not> level_bit tr d" by (auto simp: and_one_eq mod2_eq_if)
  then have "unpack E ?x = node_at tr (Suc d)"
    using spend_level [OF laws st d Suc.prems(2)] sibs d
    by (auto simp: unpack_merkle_hash2 [OF f128_field [OF laws]])
  then have "unpack E (fold_path (merkle_hash2 E) [Suc d..<Suc d + k] sibs ?x (drop_bit (Suc d) idx)) =
      node_at tr (Suc d + k)"
    using Suc.prems(1) by (intro Suc.IH) simp_all
  moreover have "[d..<d + Suc k] = d # [Suc d..<Suc d + k]" by (simp add: upt_rec)
  moreover have "drop_bit 1 (drop_bit d idx) = drop_bit (Suc d) idx" by simp
  ultimately show ?case by (simp del: upt_Suc)
qed

text \<open>The carried columns keep the values of row 0.\<close>

lemma spend_carry:
  assumes st: "spend_steps E pi n tr" "5697 < n" and i: "i \<le> 5697"
  shows "tr i ! 7 = tr 0 ! 7" "tr i ! 8 = tr 0 ! 8" "tr i ! 12 = tr 0 ! 12" "tr i ! 13 = tr 0 ! 13"
proof -
  show "tr i ! 7 = tr 0 ! 7"
    by (rule frozen [of 0 i "\<lambda>i. tr i ! 7"]) (use spend_columns(2) [OF st] i in simp_all)
  show "tr i ! 8 = tr 0 ! 8"
    by (rule frozen [of 0 i "\<lambda>i. tr i ! 8"]) (use spend_columns(3) [OF st] i in simp_all)
  show "tr i ! 12 = tr 0 ! 12"
    by (rule frozen [of 0 i "\<lambda>i. tr i ! 12"]) (use spend_columns(4) [OF st] i in simp_all)
  show "tr i ! 13 = tr 0 ! 13"
    by (rule frozen [of 0 i "\<lambda>i. tr i ! 13"]) (use spend_columns(5) [OF st] i in simp_all)
qed

text \<open>The two range checks make the carried values 64-bit numbers.\<close>

lemma spend_range:
  assumes laws: "f128_laws E" and st: "spend_steps E pi n tr" "5697 < n"
    and start: "tr t ! 5 = 0" "tr t ! 6 = 1" and t: "t = 0 \<or> t = 64"
  shows "\<exists>v :: u64. tr (t + 63) ! 5 + tr (t + 63) ! 4 * tr (t + 63) ! 6 = fe_new E (ucast v)"
proof -
  define B where "B k = (tr (t + k) ! 4 = 1)" for k
  have bits: "tr (t + k) ! 4 = of_bool (B k)" if "k < 64" for k
    unfolding B_def using t that by (intro f128_bit [OF laws spend_columns(1) [OF st]]) auto
  have step: "tr (t + k + 1) ! 5 = tr (t + k) ! 5 + tr (t + k) ! 4 * tr (t + k) ! 6 \<and>
      tr (t + k + 1) ! 6 = 2 * tr (t + k) ! 6" if "k < 63" for k
    using spend_range_columns(1) [OF st, of "t + k"] t that by auto
  have "tr (t + 63) ! 5 = of_nat (bits_nat B 63) \<and> tr (t + 63) ! 6 = 2 ^ 63"
    by (rule range_acc [where acc = "\<lambda>i. tr i ! 5" and pow = "\<lambda>i. tr i ! 6" and bit' = "\<lambda>i. tr i ! 4"])
      (use start bits step in simp_all)
  then have "tr (t + 63) ! 5 + tr (t + 63) ! 4 * tr (t + 63) ! 6 = of_nat (bits_nat B (Suc 63))"
    using bits [of 63] unfolding bits_nat_Suc by simp
  then show ?thesis using u64_of_bits [OF laws, of B] by (intro exI [of _ "of_nat (bits_nat B 64)"]) simp
qed

section \<open>Soundness\<close>

lemma node_at_state4: "node_at tr d = cells12 (state4 (tr (384 + 256 * d)))"
  by (simp add: node_at_def cells12_state4)

text \<open>The note, its nullifier and its change note as the carried columns hold them.\<close>

lemma spend_nullifier:
  assumes "spend_steps E pi n tr" "5697 < n"
  shows "cells12 (state4 (tr 65)) = cells12 (poseidon_perm E (nullifier_iv E, tr 0 ! 7, tr 0 ! 8, 0))"
  using spend_block [OF assms, of 0] spend_freeze [OF assms, of 0] spend_range_columns(6) [OF assms] by simp

lemma spend_note:
  assumes st: "spend_steps E pi n tr" "5697 < n"
  shows "node_at tr 0 = cells12 (sponge E (note_iv E, tr 0 ! 12, tr 0 ! 7, tr 0 ! 8)
    (fst (unpack E (pi_pkd pi))) (snd (unpack E (pi_pkd pi))))"
proof -
  have "state4 (tr 321) = sponge E (state4 (tr 129)) (fst (unpack E (pi_pkd pi))) (snd (unpack E (pi_pkd pi)))"
    unfolding sponge_def using spend_sponge [OF st, of 128] spend_boundaries(2) [OF st] by simp
  moreover have "state4 (tr 129) = (note_iv E, tr 0 ! 12, tr 0 ! 7, tr 0 ! 8)"
    using spend_boundaries(1) [OF st] by (simp add: spend_carry [OF st, of 128])
  moreover have "state4 (tr 384) = state4 (tr 321)" using spend_hold [OF st, of 256] by simp
  ultimately show ?thesis by (simp add: node_at_state4)
qed

lemma spend_change:
  assumes st: "spend_steps E pi n tr" "5697 < n"
  shows "state4 (tr 5697) = sponge E (note_iv E, tr 0 ! 13, tr 5505 ! 9, tr 5505 ! 10)
    (fst (unpack E (pi_change_pkd pi))) (snd (unpack E (pi_change_pkd pi)))"
proof -
  have "state4 (tr 5697) =
      sponge E (state4 (tr 5505)) (fst (unpack E (pi_change_pkd pi))) (snd (unpack E (pi_change_pkd pi)))"
    unfolding sponge_def using spend_sponge [OF st, of 5504] spend_boundaries(4) [OF st] by simp
  then show ?thesis using spend_boundaries(3) [OF st] by (simp add: spend_carry [OF st, of 5504])
qed

lemma spend_root:
  assumes "spend_steps E pi n tr" "5697 < n"
  shows "node_at tr 20 = cells12 (state4 (tr 5441))"
  using spend_hold [OF assms, of 5376] by (simp add: node_at_state4)

lemma spend_values:
  assumes laws: "f128_laws E" and st: "spend_steps E pi n tr" "5697 < n"
    and start: "tr 0 ! 5 = 0" "tr 0 ! 6 = 1" and md: "mode pi = 0 \<or> mode pi = 1"
  obtains v cv :: u64 where "tr 0 ! 12 = fe_new E (ucast v)" "tr 0 ! 13 = fe_new E (ucast cv)"
    "if mode pi = 1 then unat v = unat cv + unat (price_or_amount pi) else v = price_or_amount pi \<and> cv = 0"
proof -
  obtain v :: u64 where v: "tr 0 ! 12 = fe_new E (ucast v)"
    using spend_range [OF laws st start] spend_range_columns(4) [OF st] spend_carry(3) [OF st, of 63] by auto
  obtain cv :: u64 where cv: "tr 0 ! 13 = fe_new E (ucast cv)"
    using spend_range [OF laws st spend_range_columns(2,3) [OF st]] spend_range_columns(5) [OF st]
      spend_carry(4) [OF st, of 127] by auto
  have one: "fe_new E 1 = 1" "fe_new E 0 = 0" using f128_new [OF laws, of 1] f128_new [OF laws, of 0] by simp_all
  note sum = spend_columns(6) [OF st, of 0] spend_columns(7) [OF st, of 0]
  have b: "unat v < 2 ^ 64" "unat cv < 2 ^ 64" "unat (price_or_amount pi) < 2 ^ 64"
    using unsigned_less [of v] unsigned_less [of cv] unsigned_less [of "price_or_amount pi"] by simp_all
  have "unat v = unat cv + unat (price_or_amount pi)" if "mode pi = 1"
  proof (rule f128_inj [OF laws])
    show "(of_nat (unat v) :: 'a) = of_nat (unat cv + unat (price_or_amount pi))"
      using sum that v cv by (simp add: f128_new_u64 [OF laws] one)
  qed (use b in simp_all)
  moreover have "v = price_or_amount pi \<and> cv = 0" if "mode pi = 0"
  proof -
    have "unat v = unat (price_or_amount pi)"
      using sum that v cv b by (intro f128_inj [OF laws]) (simp_all add: f128_new_u64 [OF laws] one)
    then have "v = price_or_amount pi" by (rule iffD2 [OF word_unat_eq_iff])
    moreover have "unat cv = 0"
      using sum that v cv b by (intro f128_inj [OF laws]) (simp_all add: f128_new_u64 [OF laws] one)
    ultimately show ?thesis by (simp add: unsigned_eq_0_iff)
  qed
  ultimately show thesis using that v cv md by (cases "mode pi = 1") auto
qed

lemma spend_asserted:
  assumes "air_accepts (spend_air E pi) n tr"
  shows "5697 < n" "tr 0 ! 5 = 0" "tr 0 ! 6 = 1" "unpack E (pi_nf pi) = cells12 (state4 (tr 65))"
    "unpack E (pi_root pi) = cells12 (state4 (tr 5441))" "unpack E (pi_change_leaf pi) = cells12 (state4 (tr 5697))"
  using assms
  by (auto simp: air_accepts_def spend_air_def spend_assertions_def case_prod_beta layout cells12_state4
      prod_eq_iff)

lemma spend_circuit_sound:
  assumes "f128_laws E" and "air_accepts (spend_air E pi) n tr" and "mode pi = 0 \<or> mode pi = 1"
  shows "\<exists>v cv b cb idx sibs. length sibs = MERKLE_DEPTH \<and>
    unpack E (pi_nf pi) = unpack E (nullifier_hash E b) \<and>
    unpack E (pi_root pi) =
      unpack E (fold_path (merkle_hash2 E) [0..<MERKLE_DEPTH] sibs (note_hash E v b (pi_pkd pi)) idx) \<and>
    unpack E (pi_change_leaf pi) = unpack E (note_hash E cv cb (pi_change_pkd pi)) \<and>
    (if mode pi = 1 then unat v = unat cv + unat (price_or_amount pi) else v = price_or_amount pi \<and> cv = 0)"
proof -
  note fl = f128_field [OF assms(1)] and st = spend_air_steps [OF assms(2)] spend_asserted(1) [OF assms(2)]
  obtain v cv :: u64 where vals: "tr 0 ! 12 = fe_new E (ucast v)" "tr 0 ! 13 = fe_new E (ucast cv)"
    "if mode pi = 1 then unat v = unat cv + unat (price_or_amount pi) else v = price_or_amount pi \<and> cv = 0"
    by (rule spend_values [OF assms(1) st spend_asserted(2,3) [OF assms(2)] assms(3)])
  define b where "b = pack E (tr 0 ! 7) (tr 0 ! 8)"
  define cb where "cb = pack E (tr 5505 ! 9) (tr 5505 ! 10)"
  define sibs where "sibs = map (level_sibling E tr) [0..<MERKLE_DEPTH]"
  obtain idx :: u32 where idx: "\<forall>d < 20. bit idx d = level_bit tr d"
    using word_from_bits [of "level_bit tr"] by blast
  have sib: "\<forall>d < 20. unpack E (sibs ! d) = unpack E (level_sibling E tr d)"
    by (simp add: sibs_def MERKLE_DEPTH_def del: upt_rec_numeral)
  have b': "unpack E b = (tr 0 ! 7, tr 0 ! 8)" "unpack E cb = (tr 5505 ! 9, tr 5505 ! 10)"
    using fl by (simp_all add: b_def cb_def)
  have nf: "unpack E (pi_nf pi) = unpack E (nullifier_hash E b)"
    unfolding spend_asserted(4) [OF assms(2)] spend_nullifier [OF st] unpack_nullifier_hash [OF fl] b' by simp
  have leaf: "unpack E (note_hash E v b (pi_pkd pi)) = node_at tr 0"
    unfolding spend_note [OF st] unpack_note_hash [OF fl] b' vals by simp
  have rt: "unpack E (pi_root pi) =
      unpack E (fold_path (merkle_hash2 E) [0..<MERKLE_DEPTH] sibs (note_hash E v b (pi_pkd pi)) idx)"
    using spend_path [OF assms(1) st sib idx, of 0 20, OF _ leaf] spend_root [OF st] spend_asserted(5) [OF assms(2)]
    by (simp add: MERKLE_DEPTH_def del: upt_rec_numeral)
  have cl: "unpack E (pi_change_leaf pi) = unpack E (note_hash E cv cb (pi_change_pkd pi))"
    unfolding spend_asserted(6) [OF assms(2)] spend_change [OF st] unpack_note_hash [OF fl] b' vals by simp
  have "length sibs = MERKLE_DEPTH" by (simp add: sibs_def)
  then show ?thesis using nf rt cl vals(3) by blast
qed

text \<open>
  C4. Soundness of the v2 spend circuit: from any accepted trace of any length one can read off a
  note (value \<open>v\<close>, blinding \<open>b\<close>, the public key digest), a Merkle path from that note's commitment to
  the public root, and a change note, such that the public nullifier is the hash of the note's own
  blinding, the public change leaf is the commitment of the change note, and the values balance over
  the integers: a purchase splits the note into price and change, a withdrawal pays out the
  whole note and leaves change zero.
\<close>

theorem spend_air_sound:
  assumes "f128_laws E" and "air_accepts (spend_air E pi) n tr" and "mode pi = 0 \<or> mode pi = 1"
  shows "\<exists>v cv b cb idx sibs. length sibs = MERKLE_DEPTH \<and>
    unpack E (pi_nf pi) = unpack E (nullifier_hash E b) \<and>
    unpack E (pi_root pi) =
      unpack E (fold_path (merkle_hash2 E) [0..<MERKLE_DEPTH] sibs (note_hash E v b (pi_pkd pi)) idx) \<and>
    unpack E (pi_change_leaf pi) = unpack E (note_hash E cv cb (pi_change_pkd pi)) \<and>
    (if mode pi = 1 then unat v = unat cv + unat (price_or_amount pi) else v = price_or_amount pi \<and> cv = 0)"
  using assms by (rule spend_circuit_sound)

text \<open>With all hashes zero, the trace of zeros with its powers of two is accepted.\<close>

definition zero_pi :: spend_pi where
  "zero_pi = \<lparr>pi_root = 0, pi_nf = 0, pi_pkd = 0, price_or_amount = 0, pi_change_leaf = 0, pi_change_pkd = 0,
     mode = 1\<rparr>"

definition zero_row :: "nat \<Rightarrow> u128 row" where
  "zero_row i = (replicate 14 0)[6 := (if i < 64 then 2 ^ i else if i < 128 then 2 ^ (i - 64) else 0)]"

lemma zero_constants:
  "poseidon_rc (word_env (\<lambda>_. 0)) r j = 0" "note_iv (word_env (\<lambda>_. 0)) = 0" "merkle_iv (word_env (\<lambda>_. 0)) = 0"
  "nullifier_iv (word_env (\<lambda>_. 0)) = 0" "unpack (word_env (\<lambda>_. 0)) 0 = (0, 0)"
  by (simp_all add: poseidon_rc_def note_iv_def merkle_iv_def nullifier_iv_def iv_from_domain_def unpack_def
      word_env_def lo128_def hi128_def)

lemma zero_periodic: "\<exists>fl. periodic_at (poseidon_periodic_128 (word_env (\<lambda>_. 0))) i = [0, 0, 0, 0, fl]"
  by (simp add: poseidon_periodic_128_def Let_def BLOCK_def zero_constants nth_fold_update)

lemma zero_row_nth:
  "zero_row i ! k = (if k = 6 then (if i < 64 then 2 ^ i else if i < 128 then 2 ^ (i - 64) else 0) else 0)" if "k < 14"
  using that by (simp add: zero_row_def nth_list_update)

lemma pow_step: "\<not> i < 64 \<Longrightarrow> (2 :: u128) ^ (i - 63) = 2 * 2 ^ (i - 64)"
proof -
  assume "\<not> i < 64"
  then have "i - 63 = Suc (i - 64)" by simp
  then show ?thesis by (simp only: power_Suc)
qed

lemma zero_trace_accepted: "air_accepts (spend_air (word_env (\<lambda>_. 0)) zero_pi) 8192 zero_row"
  unfolding air_accepts_def
proof (intro conjI allI impI)
  fix i :: nat assume "i < 8192 - 1"
  then have i: "i < 8192" by simp
  obtain fl where "periodic_at (poseidon_periodic_128 (word_env (\<lambda>_. 0))) i = [0, 0, 0, 0, fl]"
    using zero_periodic by blast
  then show "list_all (\<lambda>x. x = 0) (air_transition (spend_air (word_env (\<lambda>_. 0)) zero_pi) (zero_row i)
      (zero_row (i + 1)) (periodic_at (air_periodic (spend_air (word_env (\<lambda>_. 0)) zero_pi)) i))"
    using i
    by (simp add: spend_air_def periodic_at_append spend_masks_at spend_transition_def Let_def zero_constants
        zero_pi_def zero_row_nth round_cols_def) (auto simp: word_env_def pow_step)
next
  show "list_all (\<lambda>(col, step, val). step < 8192 \<and> zero_row step ! col = val)
      (air_assertions (spend_air (word_env (\<lambda>_. 0)) zero_pi))"
    by (simp add: spend_air_def spend_assertions_def zero_constants zero_pi_def layout zero_row_nth)
qed

lemma spend_air_sound_witness:
  "\<exists>v cv b cb idx sibs. length sibs = MERKLE_DEPTH \<and>
    unpack (word_env (\<lambda>_. 0)) (pi_nf zero_pi) = unpack (word_env (\<lambda>_. 0)) (nullifier_hash (word_env (\<lambda>_. 0)) b) \<and>
    unpack (word_env (\<lambda>_. 0)) (pi_root zero_pi) = unpack (word_env (\<lambda>_. 0))
      (fold_path (merkle_hash2 (word_env (\<lambda>_. 0))) [0..<MERKLE_DEPTH] sibs
        (note_hash (word_env (\<lambda>_. 0)) v b (pi_pkd zero_pi)) idx) \<and>
    unpack (word_env (\<lambda>_. 0)) (pi_change_leaf zero_pi) =
      unpack (word_env (\<lambda>_. 0)) (note_hash (word_env (\<lambda>_. 0)) cv cb (pi_change_pkd zero_pi)) \<and>
    (if mode zero_pi = 1 then unat v = unat cv + unat (price_or_amount zero_pi)
     else v = price_or_amount zero_pi \<and> cv = 0)"
  by (rule spend_air_sound [OF word_env_laws zero_trace_accepted]) (simp add: zero_pi_def)

end
