(* ===== verification/TraceTable.thy ===== *)
theory TraceTable
  imports StarkAir
begin

text \<open>
  Execution traces as the provers of \<open>proofhub/verifier/src/lib.rs\<close> build them: a table of columns
  written cell by cell, \<open>run_perm_rows\<close> and \<open>freeze_state_rows\<close> (the two prover modules have the same
  copies of both), and \<open>TraceTable::init\<close>. Both row loops are instances of \<open>fill_rows\<close>, for which the
  theory has the frame lemmas.
\<close>

section \<open>Tables\<close>

type_synonym 'f table = "'f list list"

definition cell :: "'f table \<Rightarrow> nat \<Rightarrow> nat \<Rightarrow> 'f" where
  "cell cols c r = cols ! c ! r"

text \<open>\<open>cols[c][r] = x\<close>\<close>

definition put :: "nat \<Rightarrow> nat \<Rightarrow> 'f \<Rightarrow> 'f table \<Rightarrow> 'f table" where
  "put c r x cols = cols[c := (cols ! c)[r := x]]"

definition put_state :: "nat \<Rightarrow> 'f quad \<Rightarrow> 'f table \<Rightarrow> 'f table" where
  "put_state r q cols = (case q of (a, b, c, d) \<Rightarrow> put 3 r d (put 2 r c (put 1 r b (put 0 r a cols))))"

definition state_at :: "'f table \<Rightarrow> nat \<Rightarrow> 'f quad" where
  "state_at cols r = (cell cols 0 r, cell cols 1 r, cell cols 2 r, cell cols 3 r)"

definition run_perm_rows :: "'f::comm_ring_1 field_env \<Rightarrow> nat \<Rightarrow> 'f table \<Rightarrow> 'f table" where
  "run_perm_rows E start cols =
     fold (\<lambda>k cols. let s = state_at cols (start + k);
                        out = poseidon_eval_round_base E k s
                    in put_state (start + k + 1) out cols) [0..<64] cols"

definition freeze_state_rows :: "nat \<Rightarrow> nat \<Rightarrow> 'f table \<Rightarrow> 'f table" where
  "freeze_state_rows from_row to_row cols =
     fold (\<lambda>r cols. fold (\<lambda>c cols. put c r (cell cols c (r - 1)) cols) [0..<4] cols) [from_row..<to_row + 1] cols"

text \<open>Row \<open>i\<close> of the trace a table holds.\<close>

definition trace_rows :: "'f table \<Rightarrow> nat \<Rightarrow> 'f row" where
  "trace_rows cols i = map (\<lambda>col. col ! i) cols"

definition is_table :: "nat \<Rightarrow> nat \<Rightarrow> 'f table \<Rightarrow> bool" where
  "is_table w n cols \<longleftrightarrow> length cols = w \<and> (\<forall>c < w. length (cols ! c) = n)"

lemma is_table_new [simp]: "is_table w n (replicate w (replicate n x))"
  by (simp add: is_table_def)

lemma cell_new: "c < w \<Longrightarrow> r < n \<Longrightarrow> cell (replicate w (replicate n x)) c r = x"
  by (simp add: cell_def)

lemma is_table_put [simp]: "is_table w n (put c r x cols) \<longleftrightarrow> is_table w n cols"
proof -
  have "length (put c r x cols ! i) = length (cols ! i)" for i
    by (cases "c < length cols"; cases "i = c") (simp_all add: put_def list_update_beyond)
  then show ?thesis by (simp add: is_table_def) (simp add: put_def)
qed

lemma cell_put:
  "is_table w n cols \<Longrightarrow> c' < w \<Longrightarrow> r' < n \<Longrightarrow>
    cell (put c r x cols) c' r' = (if c' = c \<and> r' = r then x else cell cols c' r')"
  by (cases "c = c'"; cases "r = r'") (auto simp: is_table_def cell_def put_def nth_list_update)

lemma cell_put_other [simp]: "c' \<noteq> c \<or> r' \<noteq> r \<Longrightarrow> cell (put c r x cols) c' r' = cell cols c' r'"
  by (cases "c < length cols"; cases "c' = c") (auto simp: cell_def put_def list_update_beyond)

lemma is_table_put_state [simp]: "is_table w n (put_state r q cols) \<longleftrightarrow> is_table w n cols"
  by (cases q) (simp add: put_state_def)

lemma cell_put_state_other [simp]: "4 \<le> c \<or> r' \<noteq> r \<Longrightarrow> cell (put_state r q cols) c r' = cell cols c r'"
  by (cases q) (auto simp: put_state_def)

lemma state_at_put_state_other [simp]: "r' \<noteq> r \<Longrightarrow> state_at (put_state r q cols) r' = state_at cols r'"
  by (simp add: state_at_def)

lemma state_at_put_state:
  "is_table w n cols \<Longrightarrow> 4 \<le> w \<Longrightarrow> r < n \<Longrightarrow> state_at (put_state r q cols) r = q"
  by (cases q) (simp add: state_at_def put_state_def cell_put [of w n])

lemma state_at_put_other [simp]: "4 \<le> c \<or> r' \<noteq> r \<Longrightarrow> state_at (put c r x cols) r' = state_at cols r'"
  by (auto simp: state_at_def)

lemma nth_trace_rows: "is_table w n cols \<Longrightarrow> c < w \<Longrightarrow> trace_rows cols i ! c = cell cols c i"
  by (simp add: is_table_def trace_rows_def cell_def)

lemma state4_trace_rows: "is_table w n cols \<Longrightarrow> 4 \<le> w \<Longrightarrow> state4 (trace_rows cols i) = state_at cols i"
  by (simp add: state4_def state_at_def nth_trace_rows)

section \<open>Loops over rows\<close>

definition fill_rows :: "(nat \<Rightarrow> 'f quad \<Rightarrow> 'f quad) \<Rightarrow> nat \<Rightarrow> nat \<Rightarrow> 'f table \<Rightarrow> 'f table" where
  "fill_rows f s m cols = fold (\<lambda>k cols. put_state (s + k + 1) (f k (state_at cols (s + k))) cols) [0..<m] cols"

lemma run_perm_rows_fill: "run_perm_rows E s cols = fill_rows (poseidon_eval_round_base E) s 64 cols"
  by (simp only: run_perm_rows_def fill_rows_def Let_def)

lemma freeze_row:
  assumes "0 < r"
  shows "fold (\<lambda>c cols. put c r (cell cols c (r - 1)) cols) [0..<4] cols = put_state r (state_at cols (r - 1)) cols"
proof -
  have "[0..<4] = [0, 1, 2, 3 :: nat]" by (simp add: upt_rec)
  then show ?thesis using assms by (simp add: put_state_def state_at_def)
qed

lemma freeze_state_rows_fill: "freeze_state_rows (Suc s) (s + m) cols = fill_rows (\<lambda>k q. q) s m cols"
proof (induction m)
  case 0
  then show ?case by (simp add: freeze_state_rows_def fill_rows_def)
next
  case (Suc m)
  have "freeze_state_rows (Suc s) (s + Suc m) cols =
      put_state (s + m + 1) (state_at (freeze_state_rows (Suc s) (s + m) cols) (s + m))
        (freeze_state_rows (Suc s) (s + m) cols)"
    using freeze_row [of "s + m + 1" "freeze_state_rows (Suc s) (s + m) cols"]
    by (simp add: freeze_state_rows_def)
  then show ?case unfolding Suc.IH by (simp add: fill_rows_def)
qed

lemma fill_rows_frame [simp]:
  "is_table w n (fill_rows f s m cols) \<longleftrightarrow> is_table w n cols"
  "4 \<le> c \<Longrightarrow> cell (fill_rows f s m cols) c r = cell cols c r"
  "r \<le> s \<or> s + m < r \<Longrightarrow> state_at (fill_rows f s m cols) r = state_at cols r"
  by (induction m) (auto simp: fill_rows_def)

lemma fill_rows_step:
  assumes "is_table w n cols" and "4 \<le> w" and "s + m < n"
  shows "k < m \<Longrightarrow> state_at (fill_rows f s m cols) (Suc (s + k)) = f k (state_at (fill_rows f s m cols) (s + k))"
  using assms(3)
proof (induction m)
  case 0
  then show ?case by simp
next
  case (Suc m)
  let ?t = "fill_rows f s m cols"
  have t: "fill_rows f s (Suc m) cols = put_state (Suc (s + m)) (f m (state_at ?t (s + m))) ?t"
    by (simp add: fill_rows_def)
  have "is_table w n ?t" using assms(1) by simp
  then show ?case
    using Suc state_at_put_state [OF _ assms(2), of n ?t "Suc (s + m)"] unfolding t by (cases "k = m") auto
qed

end
