(* ===== verification/DepositAir.thy ===== *)
theory DepositAir
  imports TraceTable MerkleV2
begin

text \<open>
  The v2 deposit circuit, module \<open>deposit_v2\<close> of \<open>proofhub/verifier/src/lib.rs\<close>: masks, transition
  constraints and assertions of \<open>DepositV2Air\<close>, the prover's \<open>build_deposit_trace\<close>, and
  \<open>verify_deposit_v2\<close> and \<open>prove_deposit\<close> over the proof system as a parameter. The theory
  shows that the circuit accepts exactly the leaves that commit to the paid amount.
\<close>

section \<open>The circuit\<close>

definition DEP_TRACE_LEN :: nat where "DEP_TRACE_LEN = 256"
definition DEP_TRACE_WIDTH :: nat where "DEP_TRACE_WIDTH = 6"
definition ROW_LEAF :: nat where "ROW_LEAF = 193"

definition deposit_masks :: "'f::comm_ring_1 list list" where
  "deposit_masks =
     (let n = DEP_TRACE_LEN; z = replicate n 0;
          m_rnd = fold (\<lambda>b. fill (map (\<lambda>s. b * 128 + s) [1..<65]) 1) [0..<2] z;
          m_frz = fold (\<lambda>b. fill (map (\<lambda>s. b * 128 + s) [65..<128]) 1) [0..<2] z;
          m_frz = m_frz[0 := 1];
          m_abs = z[128 := 1]
      in [m_rnd, m_frz, m_abs])"

definition deposit_transition :: "'f::comm_ring_1 row \<Rightarrow> 'f row \<Rightarrow> 'f list \<Rightarrow> 'f list" where
  "deposit_transition c n p =
     (let m_rnd = p ! 5; m_frz = p ! 6; m_abs = p ! 7;
          e = round_cols c (p ! 0) (p ! 1) (p ! 2) (p ! 3) (p ! 4)
      in map (\<lambda>i. let absorb_i = (if i = 1 then c ! 4 else if i = 2 then c ! 5 else 0)
                  in m_rnd * (n ! i - e ! i) + m_frz * (n ! i - c ! i) + m_abs * (n ! i - c ! i - absorb_i))
           [0, 1, 2, 3] @
         [n ! 4 - c ! 4, n ! 5 - c ! 5])"

definition deposit_assertions :: "'f::comm_ring_1 field_env \<Rightarrow> u64 \<Rightarrow> h256 \<Rightarrow> (nat \<times> nat \<times> 'f) list" where
  "deposit_assertions E amount leaf =
     (let (l_lo, l_hi) = unpack E leaf
      in [(0, 0, note_iv E), (1, 0, fe_new E (ucast amount)), (1, ROW_LEAF, l_lo), (2, ROW_LEAF, l_hi)])"

definition deposit_air :: "'f::comm_ring_1 field_env \<Rightarrow> u64 \<Rightarrow> h256 \<Rightarrow> 'f air" where
  "deposit_air E amount leaf = \<lparr>air_transition = deposit_transition,
     air_periodic = poseidon_periodic_128 E @ deposit_masks, air_assertions = deposit_assertions E amount leaf\<rparr>"

definition verify_deposit_v2 ::
  "'f::comm_ring_1 field_env \<Rightarrow> (bytes \<Rightarrow> 'f air \<Rightarrow> bool) \<Rightarrow> bytes \<Rightarrow> u64 \<Rightarrow> h256 \<Rightarrow> bool" where
  "verify_deposit_v2 E stark proof amount leaf = stark proof (deposit_air E amount leaf)"

section \<open>The prover\<close>

definition build_deposit_trace :: "'f::comm_ring_1 field_env \<Rightarrow> u64 \<Rightarrow> h256 \<Rightarrow> h256 \<Rightarrow> 'f table" where
  "build_deposit_trace E v b pkd =
     (let n = DEP_TRACE_LEN;
          cols = replicate DEP_TRACE_WIDTH (replicate n 0);
          (b_lo, b_hi) = unpack E b; (pkd_lo, pkd_hi) = unpack E pkd;
          cols = fold (\<lambda>r cols. put 5 r pkd_hi (put 4 r pkd_lo cols)) [0..<n] cols;
          cols = put_state 0 (note_iv E, fe_new E (ucast v), b_lo, b_hi) cols;
          cols = freeze_state_rows 1 1 cols;
          cols = run_perm_rows E 1 cols;
          cols = freeze_state_rows 66 128 cols;
          cols = put_state 129 (cell cols 0 128, cell cols 1 128 + pkd_lo, cell cols 2 128 + pkd_hi, cell cols 3 128) cols;
          cols = run_perm_rows E 129 cols
      in freeze_state_rows 194 (n - 1) cols)"

text \<open>The leaf and the proof; \<open>prove\<close> is \<open>Prover::prove\<close> on a circuit and a trace.\<close>

definition prove_deposit ::
  "'f::comm_ring_1 field_env \<Rightarrow> ('f air \<Rightarrow> 'f table \<Rightarrow> bytes) \<Rightarrow> u64 \<Rightarrow> h256 \<Rightarrow> h256 \<Rightarrow> h256 \<times> bytes" where
  "prove_deposit E prove v b pkd =
     (let leaf = note_hash E v b pkd
      in (leaf, prove (deposit_air E v leaf) (build_deposit_trace E v b pkd)))"

section \<open>The masks at a step\<close>

lemma deposit_masks_at:
  assumes "i < 256"
  shows "periodic_at deposit_masks i =
    [of_bool (1 \<le> i mod 128 \<and> i mod 128 < 65), of_bool (i = 0 \<or> 65 \<le> i mod 128), of_bool (i = 128)]"
proof -
  let ?z = "replicate 256 0 :: 'a list"
  have z: "i < length ?z" "?z ! i = 0" "i mod 256 = i" using assms by simp_all
  have m: "i mod 128 < 128" by simp
  have ifb: "(if P then 1 else 0) = (of_bool P :: 'a)" for P by simp
  have rnd: "fold (\<lambda>b. fill (map (\<lambda>s. b * 128 + s) [1..<65]) 1) [0..<2] ?z ! i =
      of_bool (1 \<le> i mod 128 \<and> i mod 128 < 65)"
    unfolding nth_fold_fill [OF z(1)] z(2) set_map set_upt ifb using in_blocks [of 1 65 2 i] assms by simp
  have frz: "(fold (\<lambda>b. fill (map (\<lambda>s. b * 128 + s) [65..<128]) 1) [0..<2] ?z)[0 := 1] ! i =
      of_bool (i = 0 \<or> 65 \<le> i mod 128)"
  proof -
    have l: "0 < length (fold (\<lambda>b. fill (map (\<lambda>s. b * 128 + s) [65..<128]) 1) [0..<2] ?z)"
      unfolding length_fold_fill by simp
    have "fold (\<lambda>b. fill (map (\<lambda>s. b * 128 + s) [65..<128]) 1) [0..<2] ?z ! i = of_bool (65 \<le> i mod 128)"
      unfolding nth_fold_fill [OF z(1)] z(2) set_map set_upt ifb using in_blocks [of 65 128 2 i] m assms by simp
    then show ?thesis unfolding nth_list_update [OF l] by (cases "i = 0") auto
  qed
  have abs: "?z[128 := 1] ! i = of_bool (i = 128)" using z by (simp add: nth_list_update)
  show ?thesis
    unfolding deposit_masks_def Let_def DEP_TRACE_LEN_def periodic_at_cons length_list_update length_fold_fill
      length_replicate z(3) rnd frz abs by (simp add: periodic_at_def)
qed

section \<open>What an accepted trace satisfies\<close>

lemma deposit_step:
  assumes "i < 256"
  shows "list_all (\<lambda>x. x = 0) (deposit_transition c n (periodic_at (poseidon_periodic_128 E @ deposit_masks) i)) \<longleftrightarrow>
    (1 \<le> i mod 128 \<and> i mod 128 < 65 \<longrightarrow> state4 n = poseidon_eval_round_base E (i mod 128 - 1) (state4 c)) \<and>
    (i = 0 \<or> 65 \<le> i mod 128 \<longrightarrow> state4 n = state4 c) \<and>
    (i = 128 \<longrightarrow> state4 n = add4 (state4 c) (c ! 4) (c ! 5)) \<and> n ! 4 = c ! 4 \<and> n ! 5 = c ! 5"
proof (cases "1 \<le> i mod 128 \<and> i mod 128 < 65")
  case True
  then obtain r where r: "i mod 128 = Suc r" "r < 64" by (cases "i mod 128") auto
  moreover have "i \<noteq> 0" "i \<noteq> 128" using r by auto
  ultimately show ?thesis
    by (simp add: periodic_at_append deposit_masks_at [OF assms] periodic_128 deposit_transition_def Let_def
        state4_def prod_eq_iff)
next
  case False
  obtain r0 r1 r2 r3 fl where "periodic_at (poseidon_periodic_128 E) i = [r0, r1, r2, r3, fl]"
    by (rule rcs_split)
  then show ?thesis
    using False
    by (auto simp: periodic_at_append deposit_masks_at [OF assms] deposit_transition_def Let_def
        state4_def prod_eq_iff add4_def diff_eq_eq add.commute)
qed

section \<open>The table the prover builds\<close>

lemma carries_loop:
  "is_table w n cols \<Longrightarrow> 6 \<le> w \<Longrightarrow> m \<le> n \<Longrightarrow>
     is_table w n (fold (\<lambda>r cols. put 5 r y (put 4 r x cols)) [0..<m] cols) \<and>
     (\<forall>r < m. cell (fold (\<lambda>r cols. put 5 r y (put 4 r x cols)) [0..<m] cols) 4 r = x \<and>
       cell (fold (\<lambda>r cols. put 5 r y (put 4 r x cols)) [0..<m] cols) 5 r = y)"
  by (induction m) (auto simp: cell_put [of w n] less_Suc_eq)

lemma deposit_table:
  fixes E :: "'f::comm_ring_1 field_env" and v b pkd
  defines "T \<equiv> build_deposit_trace E v b pkd"
  shows "is_table 6 256 T" and "r < 256 \<Longrightarrow> cell T 4 r = fst (unpack E pkd) \<and> cell T 5 r = snd (unpack E pkd)"
    and "state_at T 0 = (note_iv E, fe_new E (ucast v), fst (unpack E b), snd (unpack E b))"
    and "k < 64 \<Longrightarrow> state_at T (Suc (1 + k)) = poseidon_eval_round_base E k (state_at T (1 + k))"
    and "k < 64 \<Longrightarrow> state_at T (Suc (129 + k)) = poseidon_eval_round_base E k (state_at T (129 + k))"
    and "i = 0 \<or> 65 \<le> i \<and> i < 128 \<or> 193 \<le> i \<and> i < 255 \<Longrightarrow> state_at T (Suc i) = state_at T i"
    and "state_at T 129 = add4 (state_at T 128) (fst (unpack E pkd)) (snd (unpack E pkd))"
proof -
  let ?lo = "fst (unpack E pkd)" and ?hi = "snd (unpack E pkd)"
  define C where "C = fold (\<lambda>r cols. put 5 r ?hi (put 4 r ?lo cols)) [0..<256] (replicate 6 (replicate 256 (0 :: 'f)))"
  define A where "A = put_state 0 (note_iv E, fe_new E (ucast v), fst (unpack E b), snd (unpack E b)) C"
  define B where "B = fill_rows (\<lambda>k q. q) 65 63 (fill_rows (poseidon_eval_round_base E) 1 64 (fill_rows (\<lambda>k q. q) 0 1 A))"
  define D where "D = put_state 129 (add4 (state_at B 128) ?lo ?hi) B"
  have C: "is_table 6 256 C" "\<forall>r < 256. cell C 4 r = ?lo \<and> cell C 5 r = ?hi"
    using carries_loop [of 6 256 "replicate 6 (replicate 256 0)" 256 ?hi ?lo] by (simp_all add: C_def)
  have fr: "freeze_state_rows 1 1 X = fill_rows (\<lambda>k q. q) 0 1 X" "freeze_state_rows 66 128 X = fill_rows (\<lambda>k q. q) 65 63 X"
    "freeze_state_rows 194 255 X = fill_rows (\<lambda>k q. q) 193 62 X" for X :: "'f table"
    using freeze_state_rows_fill [of 0 1 X] freeze_state_rows_fill [of 65 63 X] freeze_state_rows_fill [of 193 62 X]
    by simp_all
  have T: "T = fill_rows (\<lambda>k q. q) 193 62 (fill_rows (poseidon_eval_round_base E) 129 64 D)"
    unfolding T_def build_deposit_trace_def Let_def case_prod_beta DEP_TRACE_LEN_def DEP_TRACE_WIDTH_def D_def B_def A_def C_def
    by (simp add: fr fr(1) [unfolded One_nat_def] run_perm_rows_fill add4_def state_at_def)
  have tab: "is_table 6 256 A" "is_table 6 256 B" "is_table 6 256 D" using C by (simp_all add: A_def B_def D_def)
  show "is_table 6 256 T" using tab by (simp add: T)
  show "r < 256 \<Longrightarrow> cell T 4 r = ?lo \<and> cell T 5 r = ?hi" using C(2) by (simp add: T D_def B_def A_def)
  have D_T: "state_at T r = state_at D r" if "r \<le> 129" for r using that by (simp add: T)
  have B_T: "state_at T r = state_at B r" if "r \<le> 128" for r using that by (simp add: D_T D_def)
  show "state_at T 0 = (note_iv E, fe_new E (ucast v), fst (unpack E b), snd (unpack E b))"
    using state_at_put_state [OF C(1), of 0] by (simp add: B_T B_def A_def)
  show "state_at T 129 = add4 (state_at T 128) ?lo ?hi"
    unfolding B_T [of 128, simplified] D_T [of 129, simplified] D_def
    by (rule state_at_put_state [OF tab(2)]) simp_all
  show "state_at T (Suc (1 + k)) = poseidon_eval_round_base E k (state_at T (1 + k))" if "k < 64" for k
    using that fill_rows_step [of 6 256 "fill_rows (\<lambda>k q. q) 0 1 A" 1 64 k "poseidon_eval_round_base E"] tab(1)
    by (simp add: B_T B_def)
  show "state_at T (Suc (129 + k)) = poseidon_eval_round_base E k (state_at T (129 + k))" if "k < 64" for k
    using that fill_rows_step [of 6 256 D 129 64 k "poseidon_eval_round_base E"] tab(3)
    by (simp add: T)
  show "i = 0 \<or> 65 \<le> i \<and> i < 128 \<or> 193 \<le> i \<and> i < 255 \<Longrightarrow> state_at T (Suc i) = state_at T i"
  proof (elim disjE conjE)
    assume "i = 0"
    then show ?thesis using fill_rows_step [of 6 256 A 0 1 0 "\<lambda>k q. q"] tab(1) by (simp add: B_T B_def)
  next
    assume i: "65 \<le> i" "i < 128"
    then obtain k where "i = 65 + k" "k < 63" using le_Suc_ex by auto
    then show ?thesis
      using fill_rows_step [of 6 256 "fill_rows (poseidon_eval_round_base E) 1 64 (fill_rows (\<lambda>k q. q) 0 1 A)" 65 63 k
          "\<lambda>k q. q"] tab(1)
      by (simp add: B_T B_def)
  next
    assume i: "193 \<le> i" "i < 255"
    then obtain k where "i = 193 + k" "k < 62" using le_Suc_ex by auto
    then show ?thesis
      using fill_rows_step [of 6 256 "fill_rows (poseidon_eval_round_base E) 129 64 D" 193 62 k "\<lambda>k q. q"] tab(3)
      by (simp add: T)
  qed
qed

section \<open>The circuit accepts exactly the leaves of the amount\<close>

lemma deposit_accepts_iff:
  "air_accepts (deposit_air E a leaf) 256 tr \<longleftrightarrow>
    (\<forall>i < 255. (1 \<le> i mod 128 \<and> i mod 128 < 65 \<longrightarrow>
        state4 (tr (Suc i)) = poseidon_eval_round_base E (i mod 128 - 1) (state4 (tr i))) \<and>
      (i = 0 \<or> 65 \<le> i mod 128 \<longrightarrow> state4 (tr (Suc i)) = state4 (tr i)) \<and>
      (i = 128 \<longrightarrow> state4 (tr (Suc i)) = add4 (state4 (tr i)) (tr i ! 4) (tr i ! 5)) \<and>
      tr (Suc i) ! 4 = tr i ! 4 \<and> tr (Suc i) ! 5 = tr i ! 5) \<and>
    tr 0 ! 0 = note_iv E \<and> tr 0 ! 1 = fe_new E (ucast a) \<and> unpack E leaf = cells12 (state4 (tr 193))"
  unfolding air_accepts_def
  by (auto simp: deposit_air_def deposit_step deposit_assertions_def case_prod_beta ROW_LEAF_def
      cells12_state4 prod_eq_iff)

lemma deposit_extract:
  assumes laws: "field_laws E" and acc: "air_accepts (deposit_air E a leaf) 256 tr"
  shows "unpack E leaf = unpack E (note_hash E a (pack E (tr 0 ! 2) (tr 0 ! 3)) (pack E (tr 0 ! 4) (tr 0 ! 5)))"
proof -
  note st = conjunct1 [OF iffD1 [OF deposit_accepts_iff acc], rule_format]
  have round: "state4 (tr (t + 65)) = poseidon_perm E (state4 (tr (t + 1)))" if t: "t = 0 \<or> t = 128" for t
  proof -
    have "state4 (tr (t + 1 + 64)) = poseidon_perm E (state4 (tr (t + 1)))"
    proof (rule perm_rows)
      fix k :: nat assume k: "k < 64"
      have "(t + 1 + k) mod 128 = Suc k" using t k mod_add_self1 [of 128 "Suc k"] by auto
      then show "state4 (tr (t + 1 + k + 1)) = poseidon_eval_round_base E k (state4 (tr (t + 1 + k)))"
        using st [of "t + 1 + k"] k t by auto
    qed
    moreover have "t + 1 + 64 = t + 65" by simp
    ultimately show ?thesis by (simp only:)
  qed
  have hold: "state4 (tr 128) = state4 (tr 65)"
    by (rule frozen [of 65 128 "\<lambda>i. state4 (tr i)"]) (use st in simp_all)
  have carry: "tr 128 ! 4 = tr 0 ! 4" "tr 128 ! 5 = tr 0 ! 5"
    by (rule frozen [of 0 128 "\<lambda>i. tr i ! 4"], use st in simp_all)
      (rule frozen [of 0 128 "\<lambda>i. tr i ! 5"], use st in simp_all)
  have "state4 (tr 1) = state4 (tr 0)" using st [of 0] by simp
  moreover have "state4 (tr 0) = (note_iv E, fe_new E (ucast a), tr 0 ! 2, tr 0 ! 3)"
    using iffD1 [OF deposit_accepts_iff acc] by (simp add: state4_def)
  moreover have "state4 (tr 129) = add4 (state4 (tr 128)) (tr 0 ! 4) (tr 0 ! 5)"
    using st [of 128] carry by simp
  ultimately have "state4 (tr 193) = sponge E (note_iv E, fe_new E (ucast a), tr 0 ! 2, tr 0 ! 3) (tr 0 ! 4) (tr 0 ! 5)"
    using round [of 0] round [of 128] hold by (simp add: sponge_def)
  then show ?thesis
    using iffD1 [OF deposit_accepts_iff acc] laws by (simp add: unpack_note_hash)
qed

lemma deposit_trace_accepted:
  assumes laws: "field_laws E" and leaf: "unpack E leaf = unpack E (note_hash E v b pkd)"
  shows "air_accepts (deposit_air E v leaf) 256 (trace_rows (build_deposit_trace E v b pkd))"
proof -
  define T where "T = build_deposit_trace E v b pkd"
  define tr where "tr = trace_rows T"
  note d = deposit_table [where E = E and v = v and b = b and pkd = pkd, folded T_def]
  have s4: "state4 (tr i) = state_at T i" for i
    unfolding tr_def by (rule state4_trace_rows [OF d(1)]) simp
  have cells: "tr i ! c = cell T c i" if "c < 6" for i c
    unfolding tr_def by (rule nth_trace_rows [OF d(1) that])
  have steps: "(1 \<le> i mod 128 \<and> i mod 128 < 65 \<longrightarrow>
        state4 (tr (Suc i)) = poseidon_eval_round_base E (i mod 128 - 1) (state4 (tr i))) \<and>
      (i = 0 \<or> 65 \<le> i mod 128 \<longrightarrow> state4 (tr (Suc i)) = state4 (tr i)) \<and>
      (i = 128 \<longrightarrow> state4 (tr (Suc i)) = add4 (state4 (tr i)) (tr i ! 4) (tr i ! 5)) \<and>
      tr (Suc i) ! 4 = tr i ! 4 \<and> tr (Suc i) ! 5 = tr i ! 5" if i: "i < 255" for i
  proof -
    consider "i = 0" | "1 \<le> i" "i < 65" | "65 \<le> i" "i < 128" | "i = 128" | "129 \<le> i" "i < 193" | "193 \<le> i"
      using i by linarith
    then show ?thesis
    proof cases
      case 2
      then obtain k where k: "i = Suc k" "k < 64" by (cases i) auto
      then show ?thesis using d(2) [of i] d(2) [of "Suc i"] d(4) [of k] by (simp add: s4 cells)
    next
      case 5
      then obtain k where k: "i = 129 + k" "k < 64" using le_Suc_ex by auto
      moreover have "i mod 128 = Suc k" using k mod_add_self1 [of 128 "Suc k"] by simp
      ultimately show ?thesis using d(2) [of i] d(2) [of "Suc i"] d(5) [of k] by (simp add: s4 cells)
    next
      case 6
      then obtain k where k: "i = 128 + k" "65 \<le> k" "k < 127" using i le_Suc_ex [of 193 i] by auto
      then have "i mod 128 = k" using mod_add_self1 [of 128 k] by simp
      then show ?thesis using d(2) [of i] d(2) [of "Suc i"] d(6) [of i] k by (simp add: s4 cells)
    qed (use i d(2) d(6) [of i] d(7) in \<open>simp_all add: s4 cells\<close>)
  qed
  have "state4 (tr 193) = sponge E (state4 (tr 1)) (fst (unpack E pkd)) (snd (unpack E pkd))"
  proof -
    have "state4 (tr (1 + 64)) = poseidon_perm E (state4 (tr 1))"
      by (rule perm_rows [of "\<lambda>i. state4 (tr i)"]) (use d(4) in \<open>simp add: s4\<close>)
    moreover have "state4 (tr (129 + 64)) = poseidon_perm E (state4 (tr 129))"
      by (rule perm_rows [of "\<lambda>i. state4 (tr i)"]) (use d(5) in \<open>simp add: s4\<close>)
    moreover have "state4 (tr 128) = state4 (tr 65)"
      by (rule frozen [of 65 128 "\<lambda>i. state4 (tr i)"]) (use d(6) in \<open>simp_all add: s4\<close>)
    ultimately show ?thesis using d(7) by (simp add: sponge_def s4)
  qed
  moreover have "state4 (tr 1) = (note_iv E, fe_new E (ucast v), fst (unpack E b), snd (unpack E b))"
    using d(3) d(6) [of 0] by (simp add: s4)
  ultimately have out: "unpack E leaf = cells12 (state4 (tr 193))"
    unfolding leaf unpack_note_hash [OF laws] by simp
  moreover have "tr 0 ! 0 = note_iv E" "tr 0 ! 1 = fe_new E (ucast v)"
    using d(3) by (simp_all add: cells state_at_def)
  ultimately show ?thesis
    unfolding deposit_accepts_iff tr_def [symmetric] T_def [symmetric] using steps by simp
qed

text \<open>
  C26. The v2 deposit circuit is exact: a trace of its 256 rows is accepted for an amount and a leaf
  if and only if the leaf is the commitment of a note of that amount, for some blinding and some
  public key digest (as pairs of field elements). The trace that \<open>build_deposit_trace\<close> fills is
  such a trace for the note it is given.
\<close>

theorem deposit_air_exact:
  assumes "field_laws E"
  shows "((\<exists>tr. air_accepts (deposit_air E a leaf) 256 tr) \<longleftrightarrow>
      (\<exists>b pkd. unpack E leaf = unpack E (note_hash E a b pkd))) \<and>
    air_accepts (deposit_air E v (note_hash E v b pkd)) 256 (trace_rows (build_deposit_trace E v b pkd))"
  using deposit_extract [OF assms] deposit_trace_accepted [OF assms] by blast

lemma deposit_air_exact_witness:
  "((\<exists>tr. air_accepts (deposit_air (word_env (\<lambda>_. 3)) 5 7) 256 tr) \<longleftrightarrow>
      (\<exists>b pkd. unpack (word_env (\<lambda>_. 3)) 7 = unpack (word_env (\<lambda>_. 3)) (note_hash (word_env (\<lambda>_. 3)) 5 b pkd))) \<and>
    air_accepts (deposit_air (word_env (\<lambda>_. 3)) 5 (note_hash (word_env (\<lambda>_. 3)) 5 1 2)) 256
      (trace_rows (build_deposit_trace (word_env (\<lambda>_. 3)) 5 1 2))"
  by (rule deposit_air_exact [OF f128_field [OF word_env_laws]])

end
