(* ===== verification/StarkV1.thy ===== *)
theory StarkV1
  imports StarkAir
begin

text \<open>
  The v1 circuits of \<open>proofhub/verifier/src/lib.rs\<close>: \<open>RangeAir\<close>, \<open>DepositCommitAir\<close> and
  \<open>PurchaseAir\<close>, with the wire format of \<open>verify_range_proof\<close>. The theory shows what the last two
  leave open: the deposit circuit does not fix the initial value of the sponge, and the purchase
  circuit does not tie the change note to the value that was spent.
\<close>

section \<open>The circuits\<close>

definition RANGE_BITS :: nat where "RANGE_BITS = 64"

definition range_air :: "'f::comm_ring_1 field_env \<Rightarrow> u64 \<Rightarrow> 'f air" where
  "range_air E v = \<lparr>
     air_transition = (\<lambda>c n p.
       [c ! 0 * (c ! 0 - 1),
        n ! 1 - (c ! 1 + c ! 0 * c ! 2),
        n ! 2 - (c ! 2 + c ! 2)]),
     air_periodic = [],
     air_assertions = [(1, 0, 0), (2, 0, 1), (1, RANGE_BITS, fe_new E (ucast v))]\<rparr>"

definition deposit_commit_air :: "'f::comm_ring_1 field_env \<Rightarrow> u64 \<Rightarrow> h256 \<Rightarrow> 'f air" where
  "deposit_commit_air E v rp = \<lparr>
     air_transition = (\<lambda>c n p.
       let e = round_cols c (p ! 0) (p ! 1) (p ! 2) (p ! 3) (p ! 4)
       in [n ! 0 - e ! 0, n ! 1 - e ! 1, n ! 2 - e ! 2, n ! 3 - e ! 3]),
     air_periodic = poseidon_periodic E,
     air_assertions = [(1, 0, fe_new E (ucast v)), (1, POSEIDON_ROUNDS, fe_new E (lo128 rp)),
       (2, POSEIDON_ROUNDS, fe_new E (hi128 rp))]\<rparr>"

definition PURCHASE_RANGE_ROWS :: nat where "PURCHASE_RANGE_ROWS = RANGE_BITS"
definition PURCHASE_POSEIDON_ROWS :: nat where "PURCHASE_POSEIDON_ROWS = POSEIDON_ROUNDS"
definition PURCHASE_BRIDGE_STEP :: nat where
  "PURCHASE_BRIDGE_STEP = PURCHASE_RANGE_ROWS + 2 * PURCHASE_POSEIDON_ROWS - 1"

definition purchase_periodic :: "'f::comm_ring_1 field_env \<Rightarrow> 'f list list" where
  "purchase_periodic E =
     (let z = replicate 512 0;
          change_pos_start = PURCHASE_BRIDGE_STEP + 1;
          is_rng = fill [0..<PURCHASE_RANGE_ROWS] 1 z;
          is_pos = fill [PURCHASE_RANGE_ROWS..<PURCHASE_RANGE_ROWS + PURCHASE_POSEIDON_ROWS] 1 z;
          is_bridge = z[PURCHASE_BRIDGE_STEP := 1];
          is_pos = fill [change_pos_start..<change_pos_start + PURCHASE_POSEIDON_ROWS] 1 is_pos;
          is_lnk = (if PURCHASE_RANGE_ROWS > 0 then z[PURCHASE_RANGE_ROWS - 1 := 1] else z)
      in [is_pos, is_rng, is_lnk, is_bridge] @ poseidon_periodic E)"

definition purchase_transition ::
  "'f::comm_ring_1 field_env \<Rightarrow> u64 \<Rightarrow> 'f row \<Rightarrow> 'f row \<Rightarrow> 'f list \<Rightarrow> 'f list" where
  "purchase_transition E price c n p =
     (let is_pos = p ! 0; is_rng = p ! 1; is_lnk = p ! 2; is_bridge = p ! 3;
          price_f = fe_new E (ucast price);
          e = round_cols c (p ! 4) (p ! 5) (p ! 6) (p ! 7) (p ! 8);
          raw0 = (n ! 0 - c ! 0) + is_pos * (c ! 0 - e ! 0);
          freeze1 = n ! 1 - c ! 1;
          link1 = n ! 1 - n ! 5 - price_f;
          non_pos1 = (1 - is_lnk) * freeze1 + is_lnk * link1;
          raw1 = is_pos * (n ! 1 - e ! 1) + (1 - is_pos) * non_pos1;
          raw2 = (n ! 2 - c ! 2) + is_pos * (c ! 2 - e ! 2);
          raw3 = (n ! 3 - c ! 3) + is_pos * (c ! 3 - e ! 3);
          bt = c ! 4;
          raw4 = is_rng * (bt * (bt - 1)) + (1 - is_rng) * (n ! 4 - c ! 4);
          raw5 = is_rng * (n ! 5 - (c ! 5 + c ! 4 * c ! 6)) + (1 - is_rng) * (n ! 5 - c ! 5);
          raw6 = is_rng * (n ! 6 - (c ! 6 + c ! 6)) + (1 - is_rng) * (n ! 6 - c ! 6);
          ena = 1 - is_bridge
      in [ena * raw0, ena * raw1, ena * raw2, ena * raw3, ena * raw4, ena * raw5, ena * raw6])"

definition purchase_assertions ::
  "'f::comm_ring_1 field_env \<Rightarrow> h256 \<Rightarrow> h256 \<Rightarrow> (nat \<times> nat \<times> 'f) list" where
  "purchase_assertions E rp change_rp =
     (let iv = poseidon_iv E;
          bridge_row = PURCHASE_RANGE_ROWS + PURCHASE_POSEIDON_ROWS;
          change_start_row = PURCHASE_BRIDGE_STEP + 1;
          change_out_row = change_start_row + PURCHASE_POSEIDON_ROWS;
          crp = (if change_rp = 0 then poseidon_hash E 0 0 else change_rp)
      in [(5, 0, 0), (6, 0, 1), (0, PURCHASE_RANGE_ROWS, iv),
          (1, bridge_row, fe_new E (lo128 rp)), (2, bridge_row, fe_new E (hi128 rp)),
          (0, change_start_row, iv),
          (1, change_out_row, fe_new E (lo128 crp)), (2, change_out_row, fe_new E (hi128 crp))])"

definition purchase_air :: "'f::comm_ring_1 field_env \<Rightarrow> h256 \<Rightarrow> h256 \<Rightarrow> u64 \<Rightarrow> 'f air" where
  "purchase_air E rp change_rp price = \<lparr>air_transition = purchase_transition E price,
     air_periodic = purchase_periodic E, air_assertions = purchase_assertions E rp change_rp\<rparr>"

section \<open>Poseidon states\<close>

text \<open>The state after \<open>k\<close> rounds, frozen after the last.\<close>

definition rounds :: "'f::comm_ring_1 field_env \<Rightarrow> 'f quad \<Rightarrow> nat \<Rightarrow> 'f quad" where
  "rounds E s k = fold (poseidon_eval_round_base E) [0..<min k 64] s"

lemma rounds_simps [simp]:
  "rounds E s 0 = s" "k < 64 \<Longrightarrow> rounds E s (Suc k) = poseidon_eval_round_base E k (rounds E s k)"
  "64 \<le> k \<Longrightarrow> rounds E s k = poseidon_perm E s"
  by (simp_all add: rounds_def poseidon_perm_def POSEIDON_ROUNDS_64 min_def Suc_le_eq)

definition cols_of :: "'f quad \<Rightarrow> 'f list" where
  "cols_of s = (case s of (a, b, c, d) \<Rightarrow> [a, b, c, d])"

lemma cols_of_nth [simp]:
  "cols_of s ! 0 = fst s" "cols_of s ! Suc 0 = fst (snd s)" "cols_of s ! 2 = fst (snd (snd s))"
  "cols_of s ! 3 = snd (snd (snd s))" "length (cols_of s) = 4"
  by (cases s; simp add: cols_of_def)+

lemma state4_append [simp]: "state4 (cols_of s @ xs) = s"
  by (cases s) (simp add: cols_of_def state4_def)

lemma cols_of_append_nth [simp]:
  "(cols_of s @ xs) ! 0 = fst s" "(cols_of s @ xs) ! Suc 0 = fst (snd s)" "(cols_of s @ xs) ! 2 = fst (snd (snd s))"
  "(cols_of s @ xs) ! 3 = snd (snd (snd s))" "(cols_of s @ xs) ! 4 = xs ! 0" "(cols_of s @ xs) ! 5 = xs ! 1"
  "(cols_of s @ xs) ! 6 = xs ! 2"
  by (cases s; simp add: cols_of_def)+

lemma quad_eqI:
  "fst s = fst t \<Longrightarrow> fst (snd s) = fst (snd t) \<Longrightarrow> fst (snd (snd s)) = fst (snd (snd t)) \<Longrightarrow>
     snd (snd (snd s)) = snd (snd (snd t)) \<Longrightarrow> s = (t :: 'f quad)"
  by (simp add: prod_eq_iff)

lemma state4_cols_of [simp]: "state4 (cols_of s) = s"
  using state4_append [of s "[]"] by simp

lemma state4_proj:
  "fst (state4 c) = c ! 0" "fst (snd (state4 c)) = c ! 1" "fst (snd (snd (state4 c))) = c ! 2"
  "snd (snd (snd (state4 c))) = c ! 3"
  by (simp_all add: state4_def)

section \<open>The deposit circuit\<close>

lemma deposit_commit_step:
  "list_all (\<lambda>x. x = 0) (air_transition (deposit_commit_air E v rp) c n
      (periodic_at (air_periodic (deposit_commit_air E v rp)) i)) \<longleftrightarrow>
    state4 n = poseidon_eval_round_base E (i mod 64) (state4 c)"
  by (simp add: deposit_commit_air_def periodic_64 Let_def state4_proj prod_eq_iff)

lemma deposit_commit_assertions:
  "list_all (\<lambda>(col, step, val). step < n \<and> tr step ! col = val) (air_assertions (deposit_commit_air E v rp)) \<longleftrightarrow>
    64 < n \<and> tr 0 ! 1 = fe_new E (ucast v) \<and> tr 64 ! 1 = fe_new E (lo128 rp) \<and> tr 64 ! 2 = fe_new E (hi128 rp)"
  by (auto simp: deposit_commit_air_def POSEIDON_ROUNDS_64)

text \<open>
  The v1 deposit circuit leaves the initial sponge state open: a trace of 65 or more rows is
  accepted for the value \<open>v\<close> and the commitment \<open>rp\<close> exactly when some permutation input with \<open>v\<close> in
  its second cell has the two halves of \<open>rp\<close> in the second and third cell of its output. The first
  cell is not fixed to \<open>poseidon_iv\<close>, nor the last two to a blinding of 32 bytes.
\<close>

theorem deposit_commit_iv_open:
  "(\<exists>tr. air_accepts (deposit_commit_air E v rp) (65 + m) tr) \<longleftrightarrow>
   (\<exists>s0 s2 s3 t0 t3. poseidon_perm E (s0, fe_new E (ucast v), s2, s3) =
      (t0, fe_new E (lo128 rp), fe_new E (hi128 rp), t3))"
proof
  assume "\<exists>tr. air_accepts (deposit_commit_air E v rp) (65 + m) tr"
  then obtain tr where acc: "air_accepts (deposit_commit_air E v rp) (65 + m) tr" ..
  have "state4 (tr (0 + 64)) = poseidon_perm E (state4 (tr 0))"
  proof (rule perm_rows)
    fix k :: nat assume "k < 64"
    then show "state4 (tr (0 + k + 1)) = poseidon_eval_round_base E k (state4 (tr (0 + k)))"
      using air_accepts_step [OF acc, of k] by (simp add: deposit_commit_step)
  qed
  moreover have "tr 0 ! 1 = fe_new E (ucast v)" "tr 64 ! 1 = fe_new E (lo128 rp)" "tr 64 ! 2 = fe_new E (hi128 rp)"
    using acc by (simp_all add: air_accepts_def deposit_commit_assertions)
  ultimately have "poseidon_perm E (tr 0 ! 0, fe_new E (ucast v), tr 0 ! 2, tr 0 ! 3) =
      (tr 64 ! 0, fe_new E (lo128 rp), fe_new E (hi128 rp), tr 64 ! 3)"
    by (simp add: state4_def)
  then show "\<exists>s0 s2 s3 t0 t3. poseidon_perm E (s0, fe_new E (ucast v), s2, s3) =
      (t0, fe_new E (lo128 rp), fe_new E (hi128 rp), t3)" by blast
next
  assume "\<exists>s0 s2 s3 t0 t3. poseidon_perm E (s0, fe_new E (ucast v), s2, s3) =
      (t0, fe_new E (lo128 rp), fe_new E (hi128 rp), t3)"
  then obtain s0 s2 s3 t0 t3 where p: "poseidon_perm E (s0, fe_new E (ucast v), s2, s3) =
      (t0, fe_new E (lo128 rp), fe_new E (hi128 rp), t3)" by blast
  define st where "st i = fold (\<lambda>j. poseidon_eval_round_base E (j mod 64)) [0..<i] (s0, fe_new E (ucast v), s2, s3)" for i
  have "st 64 = poseidon_perm E (s0, fe_new E (ucast v), s2, s3)"
    unfolding st_def poseidon_perm_def POSEIDON_ROUNDS_64 by (rule fold_cong) auto
  then have "st 64 = (t0, fe_new E (lo128 rp), fe_new E (hi128 rp), t3)" by (simp add: p)
  then have "air_accepts (deposit_commit_air E v rp) (65 + m) (\<lambda>i. cols_of (st i) @ [])"
    unfolding air_accepts_def deposit_commit_step deposit_commit_assertions by (simp add: st_def)
  then show "\<exists>tr. air_accepts (deposit_commit_air E v rp) (65 + m) tr" by blast
qed

section \<open>The purchase circuit\<close>

lemma purchase_masks:
  assumes "i < 512"
  shows "periodic_at (purchase_periodic E) i =
    [of_bool (64 \<le> i \<and> i < 128 \<or> 192 \<le> i \<and> i < 256), of_bool (i < 64), of_bool (i = 63), of_bool (i = 191)] @
    periodic_at (poseidon_periodic E) i"
  using assms
proof -
  have c: "PURCHASE_BRIDGE_STEP = 191" "PURCHASE_RANGE_ROWS = 64" "PURCHASE_POSEIDON_ROWS = 64"
    by (simp_all add: PURCHASE_BRIDGE_STEP_def PURCHASE_RANGE_ROWS_def PURCHASE_POSEIDON_ROWS_def
        RANGE_BITS_def POSEIDON_ROUNDS_64)
  show ?thesis
    using assms
    by (simp add: purchase_periodic_def periodic_at_append Let_def nth_fill_upt nth_list_update
        del: upt_Suc)
      (auto simp: c)
qed

text \<open>
  A trace for a note of value \<open>d + price\<close> and a change note of any value: the range rows hold the
  bits of \<open>d\<close>, the rest the two Poseidon states.
\<close>

definition commit_state :: "'f::comm_ring_1 field_env \<Rightarrow> u64 \<Rightarrow> h256 \<Rightarrow> 'f quad" where
  "commit_state E v b = (poseidon_iv E, fe_new E (ucast v), fe_new E (lo128 b), fe_new E (hi128 b))"

lemma poseidon_hash_state:
  "poseidon_hash E v b =
     pack E (fst (snd (poseidon_perm E (commit_state E v b)))) (fst (snd (snd (poseidon_perm E (commit_state E v b)))))"
  by (simp add: poseidon_hash_def commit_state_def case_prod_beta)

definition purchase_trace ::
  "'f::comm_ring_1 field_env \<Rightarrow> nat \<Rightarrow> 'f quad \<Rightarrow> 'f quad \<Rightarrow> nat \<Rightarrow> 'f row" where
  "purchase_trace E d s t i =
     (if i < 64 then cols_of (fst s, 0, snd (snd s)) @ [of_bool (bit d i), of_nat (bits_nat (bit d) i), 2 ^ i]
      else if i < 192 then cols_of (rounds E s (i - 64)) @ [0, of_nat d, 2 ^ 64]
      else cols_of (rounds E t (i - 192)) @ [0, of_nat d, 2 ^ 64])"

lemma purchase_transition_at:
  assumes "i < 512"
  shows "list_all (\<lambda>x. x = 0) (purchase_transition E price c n (periodic_at (purchase_periodic E) i)) \<longleftrightarrow>
    (i = 191 \<or>
     ((if 64 \<le> i \<and> i < 128 \<or> 192 \<le> i \<and> i < 256 then state4 n = poseidon_eval_round_base E (i mod 64) (state4 c)
       else n ! 0 = c ! 0 \<and> n ! 2 = c ! 2 \<and> n ! 3 = c ! 3 \<and>
         (if i = 63 then n ! 1 = n ! 5 + fe_new E (ucast price) else n ! 1 = c ! 1)) \<and>
      (if i < 64 then c ! 4 * (c ! 4 - 1) = 0 \<and> n ! 5 = c ! 5 + c ! 4 * c ! 6 \<and> n ! 6 = c ! 6 + c ! 6
       else n ! 4 = c ! 4 \<and> n ! 5 = c ! 5 \<and> n ! 6 = c ! 6)))"
  using assms
  by (simp add: purchase_transition_def purchase_masks periodic_64 Let_def state4_def prod_eq_iff nth_append
      algebra_simps eq_diff_eq) auto

lemma purchase_trace_step:
  assumes "i < 511" and "d < 2 ^ 64" and "fst (snd s) = of_nat d + fe_new E (ucast price)"
  shows "list_all (\<lambda>x. x = 0) (purchase_transition E price (purchase_trace E d s t i)
    (purchase_trace E d s t (Suc i)) (periodic_at (purchase_periodic E) i))"
proof -
  have i: "i < 512" using assms(1) by simp
  consider "i < 63" | "i = 63" | "64 \<le> i" "i < 128" | "128 \<le> i" "i < 191" | "i = 191"
    | "192 \<le> i" "i < 256" | "256 \<le> i" by linarith
  then show ?thesis
  proof cases
    case 1
    then show ?thesis
      unfolding purchase_transition_at [OF i] by (simp add: purchase_trace_def bits_nat_def)
  next
    case 2
    have "of_nat d = (of_nat (bits_nat (bit d) 63) + of_bool (bit d 63) * 2 ^ 63 :: 'a)"
    proof -
      have "bits_nat (bit d) (Suc 63) = d" using bits_nat_bit [OF assms(2)] by simp
      then have "d = bits_nat (bit d) 63 + of_bool (bit d 63) * 2 ^ 63" unfolding bits_nat_Suc by simp
      then have "of_nat d = (of_nat (bits_nat (bit d) 63 + of_bool (bit d 63) * 2 ^ 63) :: 'a)" by (rule arg_cong)
      then show ?thesis by simp
    qed
    then show ?thesis using assms(3) 2 unfolding purchase_transition_at [OF i]
      by (simp add: purchase_trace_def)
  next
    case 3
    then obtain k where "i = 64 + k" "k < 64" using le_Suc_ex by auto
    then show ?thesis unfolding purchase_transition_at [OF i] by (simp add: purchase_trace_def Suc_diff_le)
  next
    case 4
    then show ?thesis unfolding purchase_transition_at [OF i] by (simp add: purchase_trace_def)
  next
    case 5
    then show ?thesis unfolding purchase_transition_at [OF i] by simp
  next
    case 6
    then obtain k where k: "i = 192 + k" "k < 64" using le_Suc_ex by auto
    then have "i = k + 64 * 3" by simp
    then have "i mod 64 = k mod 64" by (simp only: mod_mult_self2)
    then have m: "i mod 64 = k" using k by simp
    have "purchase_trace E d s t i = cols_of (rounds E t k) @ [0, of_nat d, 2 ^ 64]"
      "purchase_trace E d s t (Suc i) = cols_of (poseidon_eval_round_base E k (rounds E t k)) @ [0, of_nat d, 2 ^ 64]"
      using k by (simp_all add: purchase_trace_def Suc_diff_le)
    then show ?thesis using 6 unfolding purchase_transition_at [OF i] m by simp
  next
    case 7
    then show ?thesis unfolding purchase_transition_at [OF i] by (simp add: purchase_trace_def)
  qed
qed

text \<open>
  C27. The v1 purchase circuit does not tie the change to the value spent: for every note of value at
  least the price and every change note of any value and blinding whatsoever there is an accepted
  trace of 512 rows for their two commitments, so a purchase can mint change. With change value and
  blinding zero, and so for the \<open>[0; 32]\<close> that stands for no change, this holds for every \<open>v \<ge> price\<close>
  too, not only for \<open>v = price\<close>.
\<close>

theorem purchase_change_unbound:
  assumes "f128_laws E" and "price \<le> v"
    and "crp = poseidon_hash E cv cb \<and> crp \<noteq> 0 \<or> crp = 0 \<and> cv = 0 \<and> cb = 0"
  shows "\<exists>tr. air_accepts (purchase_air E (poseidon_hash E v b) crp price) 512 tr"
proof -
  define d where "d = unat v - unat price"
  let ?s = "commit_state E v b" and ?t = "commit_state E cv cb"
  let ?tr = "purchase_trace E d ?s ?t"
  have le: "unat price \<le> unat v" using assms(2) by (simp add: word_le_nat_alt)
  have "unat v < 2 ^ 64" using unsigned_less [of v] by simp
  then have d: "d < 2 ^ 64" by (simp add: d_def)
  have "of_nat d + (of_nat (unat price) :: 'a) = of_nat (unat v)"
    unfolding d_def using le by (simp flip: of_nat_add)
  then have s1: "fst (snd ?s) = of_nat d + fe_new E (ucast price)"
    using assms(1) by (simp add: commit_state_def f128_new_u64)
  have fl: "fe_new E (fe_int E x) = x" for x using f128_field [OF assms(1)] by (simp add: field_laws_def)
  have out: "fe_new E (lo128 (poseidon_hash E w c)) = fst (snd (poseidon_perm E (commit_state E w c)))"
    "fe_new E (hi128 (poseidon_hash E w c)) = fst (snd (snd (poseidon_perm E (commit_state E w c))))" for w c
    by (simp_all add: poseidon_hash_state pack_def fl)
  have crp: "(if crp = 0 then poseidon_hash E 0 0 else crp) = poseidon_hash E cv cb" using assms(3) by auto
  have rows: "PURCHASE_BRIDGE_STEP = 191" "PURCHASE_RANGE_ROWS = 64" "PURCHASE_POSEIDON_ROWS = 64"
    by (simp_all add: PURCHASE_BRIDGE_STEP_def PURCHASE_RANGE_ROWS_def PURCHASE_POSEIDON_ROWS_def
        RANGE_BITS_def POSEIDON_ROUNDS_64)
  have "air_accepts (purchase_air E (poseidon_hash E v b) crp price) 512 ?tr"
    unfolding air_accepts_def
  proof (intro conjI allI impI)
    fix i :: nat assume "i < 512 - 1"
    then show "list_all (\<lambda>x. x = 0) (air_transition (purchase_air E (poseidon_hash E v b) crp price)
        (?tr i) (?tr (i + 1)) (periodic_at (air_periodic (purchase_air E (poseidon_hash E v b) crp price)) i))"
      using purchase_trace_step [OF _ d s1, of i] by (simp add: purchase_air_def)
  next
    show "list_all (\<lambda>(col, step, val). step < 512 \<and> ?tr step ! col = val)
        (air_assertions (purchase_air E (poseidon_hash E v b) crp price))"
      unfolding purchase_air_def purchase_assertions_def Let_def crp rows out air.simps
      by (simp add: purchase_trace_def commit_state_def bits_nat_def)
  qed
  then show ?thesis by blast
qed

lemma purchase_change_unbound_witness:
  "\<exists>tr. air_accepts (purchase_air (word_env (\<lambda>_. 3)) (poseidon_hash (word_env (\<lambda>_. 3)) 7 1) 0 5) 512 tr"
  by (rule purchase_change_unbound [OF word_env_laws, of 5 7 0 "\<lambda>_. 3" 0 0]) simp_all

end
