(* ===== verification/Transcripts.thy ===== *)
theory Transcripts
  imports SpendAir DepositAir StarkV1
begin

text \<open>
  What the five circuits hand to the proof system beside their constraints: the public inputs as field
  elements, which the verifier hashes into its first challenge (\<open>ToElements\<close>), and the declared degrees
  and number of assertions (\<open>Air::new\<close>).
\<close>

section \<open>Public inputs as field elements\<close>

definition range_elements :: "'f field_env \<Rightarrow> u64 \<Rightarrow> 'f list" where
  "range_elements E v = [fe_new E (ucast v)]"

definition deposit_commit_elements :: "'f field_env \<Rightarrow> u64 \<Rightarrow> h256 \<Rightarrow> 'f list" where
  "deposit_commit_elements E v rp = [fe_new E (ucast v), fe_new E (lo128 rp), fe_new E (hi128 rp)]"

definition purchase_elements :: "'f field_env \<Rightarrow> h256 \<Rightarrow> h256 \<Rightarrow> u64 \<Rightarrow> 'f list" where
  "purchase_elements E rp change_rp price =
     [fe_new E (lo128 rp), fe_new E (hi128 rp), fe_new E (lo128 change_rp), fe_new E (hi128 change_rp),
      fe_new E (ucast price)]"

definition spend_elements :: "'f field_env \<Rightarrow> spend_pi \<Rightarrow> 'f list" where
  "spend_elements E pi =
     (let (r_lo, r_hi) = unpack E (pi_root pi); (n_lo, n_hi) = unpack E (pi_nf pi);
          (p_lo, p_hi) = unpack E (pi_pkd pi); (cl_lo, cl_hi) = unpack E (pi_change_leaf pi);
          (cp_lo, cp_hi) = unpack E (pi_change_pkd pi)
      in [r_lo, r_hi, n_lo, n_hi, p_lo, p_hi, fe_new E (ucast (price_or_amount pi)),
          cl_lo, cl_hi, cp_lo, cp_hi, fe_new E (ucast (mode pi))])"

definition deposit_elements :: "'f field_env \<Rightarrow> u64 \<Rightarrow> h256 \<Rightarrow> 'f list" where
  "deposit_elements E amount leaf =
     (let (l_lo, l_hi) = unpack E leaf in [fe_new E (ucast amount), l_lo, l_hi])"

section \<open>Declared degrees and assertions\<close>

text \<open>A degree is the degree in the trace columns and the cycles of the periodic columns multiplied in.\<close>

record air_context =
  ctx_degrees :: "(nat \<times> nat list) list"
  ctx_assertions :: nat

definition range_context :: air_context where
  "range_context = \<lparr>ctx_degrees = [(2, []), (2, []), (1, [])], ctx_assertions = 3\<rparr>"

definition deposit_commit_context :: air_context where
  "deposit_commit_context = \<lparr>ctx_degrees = [(3, [64]), (3, [64]), (3, [64]), (3, [64])], ctx_assertions = 3\<rparr>"

definition purchase_context :: air_context where
  "purchase_context = \<lparr>ctx_degrees =
     [(3, [64, 512, 512]), (3, [64, 512, 512]), (3, [64, 512, 512]), (3, [64, 512, 512]),
      (2, [512, 512]), (2, [512, 512]), (1, [512, 512])], ctx_assertions = 8\<rparr>"

definition spend_context :: air_context where
  "spend_context = \<lparr>ctx_degrees =
     [(3, [BLOCK, TRACE_LEN]), (3, [BLOCK, TRACE_LEN]), (3, [BLOCK, TRACE_LEN]), (3, [BLOCK, TRACE_LEN]),
      (2, []), (2, [TRACE_LEN]), (1, [TRACE_LEN]), (2, [TRACE_LEN]),
      (1, []), (1, []), (1, []), (1, []),
      (1, [TRACE_LEN]), (1, [TRACE_LEN]), (1, [TRACE_LEN]), (2, [TRACE_LEN]),
      (1, []), (1, []),
      (1, [TRACE_LEN]), (1, [TRACE_LEN]), (1, [TRACE_LEN]), (1, [TRACE_LEN])], ctx_assertions = 8\<rparr>"

definition deposit_context :: air_context where
  "deposit_context = \<lparr>ctx_degrees =
     [(3, [128, DEP_TRACE_LEN]), (3, [128, DEP_TRACE_LEN]), (3, [128, DEP_TRACE_LEN]), (3, [128, DEP_TRACE_LEN]),
      (1, []), (1, [])], ctx_assertions = 4\<rparr>"

text \<open>The proof system rejects a circuit whose numbers of constraints or assertions are not the declared ones.\<close>

definition context_fits :: "air_context \<Rightarrow> 'f air \<Rightarrow> bool" where
  "context_fits ctx a \<longleftrightarrow> ctx_assertions ctx = length (air_assertions a) \<and>
     (\<forall>c n p. length (air_transition a c n p) = length (ctx_degrees ctx))"

lemma contexts_fit:
  "context_fits range_context (range_air E v)"
  "context_fits deposit_commit_context (deposit_commit_air E v rp)"
  "context_fits purchase_context (purchase_air E rp crp price)"
  "context_fits spend_context (spend_air E pi)"
  "context_fits deposit_context (deposit_air E amount leaf)"
  by (simp_all add: context_fits_def range_context_def range_air_def deposit_commit_context_def
      deposit_commit_air_def purchase_context_def purchase_air_def purchase_transition_def
      purchase_assertions_def spend_context_def spend_air_def spend_transition_def spend_assertions_def
      deposit_context_def deposit_air_def deposit_transition_def deposit_assertions_def Let_def case_prod_beta)

section \<open>The transcript determines the statement\<close>

text \<open>
  The representatives that \<open>as_int\<close> returns; another 32-byte string unpacks to the same elements as one
  of them.
\<close>

definition canonical :: "'f field_env \<Rightarrow> h256 \<Rightarrow> bool" where
  "canonical E w \<longleftrightarrow> fe_int E (fe_new E (lo128 w)) = lo128 w \<and> fe_int E (fe_new E (hi128 w)) = hi128 w"

lemma unpack_canonical:
  assumes "unpack E v = unpack E w" and "canonical E v" and "canonical E w"
  shows "v = w"
  using assms unfolding unpack_def canonical_def by (metis h256_eqI prod.inject)

lemma f128_u64:
  assumes "f128_laws (E :: 'f::comm_ring_1 field_env)" and "fe_new E (ucast (a :: u64)) = fe_new E (ucast (b :: u64))"
  shows "a = b"
proof -
  have "unat x < 2 ^ 127" for x :: u64
    using unsigned_less [of x] by (rule order_less_trans) simp
  then have "unat a = unat b"
    using assms f128_inj [OF assms(1), of "unat a" "unat b"] by (simp add: f128_new_u64 [OF assms(1)])
  then show ?thesis by (simp add: word_unat_eq_iff)
qed

lemma f128_inj_u64: "f128_laws (E :: 'f::comm_ring_1 field_env) \<Longrightarrow> inj (\<lambda>a :: u64. fe_new E (ucast a))"
  by (rule injI) (rule f128_u64)

lemma spend_elements_eq:
  assumes "spend_elements E p = spend_elements E q"
  shows "unpack E (pi_root p) = unpack E (pi_root q)" "unpack E (pi_nf p) = unpack E (pi_nf q)"
    "unpack E (pi_pkd p) = unpack E (pi_pkd q)" "unpack E (pi_change_leaf p) = unpack E (pi_change_leaf q)"
    "unpack E (pi_change_pkd p) = unpack E (pi_change_pkd q)"
    "fe_new E (ucast (price_or_amount p)) = fe_new E (ucast (price_or_amount q))"
    "fe_new E (ucast (mode p)) = fe_new E (ucast (mode q))"
  using assms by (simp_all add: spend_elements_def unpack_def)

text \<open>
  C36. The first challenge of a v2 spend commits to the whole statement: public inputs with the same
  elements pose the same constraints and assertions, and among canonical encodings (of the root,
  the nullifier, the digests and the change leaf) they are the same inputs. The hypothesis follows from
  the field laws (\<open>f128_inj_u64\<close>).
\<close>

theorem spend_transcript_exact:
  assumes "inj (\<lambda>a :: u64. fe_new E (ucast a))"
  shows "(spend_elements E p = spend_elements E q \<longrightarrow> spend_air E p = spend_air E q) \<and>
    (list_all (canonical E) [pi_root p, pi_nf p, pi_pkd p, pi_change_leaf p, pi_change_pkd p,
        pi_root q, pi_nf q, pi_pkd q, pi_change_leaf q, pi_change_pkd q] \<longrightarrow>
     spend_elements E p = spend_elements E q \<longrightarrow> p = q)"
proof (intro conjI impI)
  assume e: "spend_elements E p = spend_elements E q"
  have "spend_transition E p = spend_transition E q"
    by (intro ext) (simp only: spend_transition_def spend_elements_eq [OF e])
  moreover have "spend_assertions E p = spend_assertions E q"
    by (simp only: spend_assertions_def spend_elements_eq [OF e])
  ultimately show "spend_air E p = spend_air E q" by (simp only: spend_air_def)
next
  assume e: "spend_elements E p = spend_elements E q"
    and c: "list_all (canonical E) [pi_root p, pi_nf p, pi_pkd p, pi_change_leaf p, pi_change_pkd p,
        pi_root q, pi_nf q, pi_pkd q, pi_change_leaf q, pi_change_pkd q]"
  show "p = q"
    using spend_elements_eq [OF e] unpack_canonical [of E] injD [OF assms] c by (intro spend_pi.equality) auto
qed

text \<open>For the witness, a field in which 100 bits of a limb count: two nullifiers alias, two others do not.\<close>

definition alias_env :: "u128 field_env" where
  "alias_env = \<lparr>fe_new = (\<lambda>w. take_bit 100 w), fe_int = (\<lambda>w. w), fe_blake3 = (\<lambda>_. 0)\<rparr>"

lemma spend_transcript_exact_witness:
  "spend_air alias_env zero_pi = spend_air alias_env (zero_pi\<lparr>pi_nf := 2 ^ 100\<rparr>) \<and>
   spend_elements alias_env zero_pi \<noteq> spend_elements alias_env (zero_pi\<lparr>pi_nf := 1\<rparr>)"
proof -
  have inj: "inj (\<lambda>a :: u64. fe_new alias_env (ucast a))"
  proof (rule injI)
    fix a b :: u64
    assume "fe_new alias_env (ucast a) = fe_new alias_env (ucast b)"
    then have e: "take_bit 100 (ucast a :: u128) = take_bit 100 (ucast b)" by (simp add: alias_env_def)
    show "a = b"
    proof (rule bit_word_eqI)
      fix n assume "n < LENGTH(64)"
      then show "bit a n = bit b n" using arg_cong [OF e, of "\<lambda>w. bit w n"] by (simp add: bit_simps)
    qed
  qed
  have limbs: "lo128 1267650600228229401496703205376 = 1267650600228229401496703205376"
    "hi128 1267650600228229401496703205376 = 0" "lo128 0 = 0" "hi128 0 = 0" "lo128 1 = 1" "hi128 1 = 0"
    by (simp_all add: lo128_def hi128_def)
  have e: "spend_elements alias_env zero_pi = spend_elements alias_env (zero_pi\<lparr>pi_nf := 2 ^ 100\<rparr>)"
    by (simp add: spend_elements_def zero_pi_def unpack_def alias_env_def limbs)
  have c: "canonical alias_env 0" "canonical alias_env 1"
    by (simp_all add: canonical_def alias_env_def limbs)
  have "zero_pi \<noteq> zero_pi\<lparr>pi_nf := 1\<rparr>" by (simp add: zero_pi_def)
  then show ?thesis
    using spend_transcript_exact [OF inj, of zero_pi "zero_pi\<lparr>pi_nf := 2 ^ 100\<rparr>"] e c
      spend_transcript_exact [OF inj, of zero_pi "zero_pi\<lparr>pi_nf := 1\<rparr>"]
    by (auto simp: zero_pi_def)
qed

text \<open>The same for the other circuits.\<close>

lemma deposit_transcript:
  "deposit_elements E a l = deposit_elements E b m \<Longrightarrow> deposit_air E a l = deposit_air E b m"
  by (auto simp: deposit_elements_def deposit_air_def deposit_assertions_def unpack_def)

lemma range_transcript: "range_elements E v = range_elements E w \<Longrightarrow> range_air E v = range_air E w"
  by (simp add: range_elements_def range_air_def)

lemma deposit_commit_transcript:
  "deposit_commit_elements E v r = deposit_commit_elements E w s \<Longrightarrow> deposit_commit_air E v r = deposit_commit_air E w s"
  by (simp add: deposit_commit_elements_def deposit_commit_air_def)

text \<open>
  The purchase circuit of the v1 lane treats a change commitment of 32 zero bytes apart, so its
  statement is determined by the elements and whether the change is that one.
\<close>

lemma purchase_transcript:
  assumes "purchase_elements E r c x = purchase_elements E r' c' x'" and "c = 0 \<longleftrightarrow> c' = 0"
  shows "purchase_air E r c x = purchase_air E r' c' x'"
proof -
  have "purchase_transition E x = purchase_transition E x'"
    using assms(1) by (intro ext) (simp add: purchase_elements_def purchase_transition_def)
  then show ?thesis
    using assms by (simp add: purchase_elements_def purchase_air_def purchase_assertions_def)
qed

end
