(* ===== verification/ProofHubPool.thy ===== *)
theory ProofHubPool
  imports ProofHubLane
begin

text \<open>
  Value in the v2 lane of the ProofHub pallet: the pool account always holds what the unspent notes
  are worth, under the laws of the balances pallet and the soundness of the proof verifier on the
  states of the run. \<open>val\<close> and \<open>nul\<close> are the value and the nullifier of the note behind a leaf.
\<close>

section \<open>What the code relies on\<close>

text \<open>
  \<open>Currency::transfer\<close>: the amount moves; what is left below the existential deposit \<open>ed\<close> may be
  removed as dust when the sender is allowed to die; a transfer to oneself changes nothing.
\<close>

definition currency_laws :: "nat \<Rightarrow> ('ccy \<Rightarrow> 'acct \<Rightarrow> nat) \<Rightarrow> ('acct, 'ccy) ph_config \<Rightarrow> bool" where
  "currency_laws ed bal cfg \<longleftrightarrow> (\<forall>a b x ex c c'. transfer cfg a b x ex c = Inr c' \<longrightarrow>
     (if a = b then bal c' a = bal c a
      else unat x \<le> bal c a \<and> bal c' b = bal c b + unat x \<and>
        (bal c' a = bal c a - unat x \<or> bal c' a = 0 \<and> bal c a - unat x < ed) \<and>
        (\<forall>z. z \<noteq> a \<longrightarrow> z \<noteq> b \<longrightarrow> bal c' z = bal c z)))"

text \<open>A payment of at least the existential deposit that leaves as much behind succeeds.\<close>

definition currency_live :: "nat \<Rightarrow> ('ccy \<Rightarrow> 'acct \<Rightarrow> nat) \<Rightarrow> ('acct, 'ccy) ph_config \<Rightarrow> bool" where
  "currency_live ed bal cfg \<longleftrightarrow> (\<forall>a b x c. unat x + ed \<le> bal c a \<longrightarrow> ed \<le> unat x \<longrightarrow>
     (\<exists>c'. transfer cfg a b x AllowDeath c = Inr c'))"

definition deposit_sound :: "(h256 \<Rightarrow> nat) \<Rightarrow> ('acct, 'ccy) ph_config \<Rightarrow> bool" where
  "deposit_sound val cfg \<longleftrightarrow>
     (\<forall>p a l. pv_verify_deposit_v2 (ProofVerifier cfg) p a l \<longrightarrow> val l = unat a)"

text \<open>
  Soundness of the spend proof in a state: an accepted proof against an anchored root is about a
  leaf that has been inserted, reveals the nullifier of its note and balances its value.
\<close>

definition spend_sound ::
  "(h256 \<Rightarrow> nat) \<Rightarrow> (h256 \<Rightarrow> h256) \<Rightarrow> ('acct, 'ccy) ph_config \<Rightarrow> 'ccy ph_state \<Rightarrow> bool" where
  "spend_sound val nul cfg s \<longleftrightarrow> (\<forall>p rt nf pkd a cl cpkd m.
     pv_verify_spend_v2 (ProofVerifier cfg) p rt nf pkd a cl cpkd m \<longrightarrow> v2_root_anchored s rt \<longrightarrow>
     (\<exists>l \<in> dom (LeafIndexV2 s). nul l = nf \<and> val l = unat a + (if m then val cl else 0)))"

section \<open>Liabilities\<close>

definition unspent :: "(h256 \<Rightarrow> h256) \<Rightarrow> 'ccy ph_state \<Rightarrow> h256 set" where
  "unspent nul s = {l \<in> dom (LeafIndexV2 s). \<not> NullifierUsed s (nul l)}"

definition liabilities :: "(h256 \<Rightarrow> nat) \<Rightarrow> (h256 \<Rightarrow> h256) \<Rightarrow> 'ccy ph_state \<Rightarrow> nat" where
  "liabilities val nul s = (\<Sum>l \<in> unspent nul s. val l)"

lemma finite_unspent [simp]: "finite (unspent nul s)"
  by (rule finite_subset [OF subset_UNIV]) simp

lemma liabilities_cong:
  "LeafIndexV2 s' = LeafIndexV2 s \<Longrightarrow> NullifierUsed s' = NullifierUsed s \<Longrightarrow>
   liabilities val nul s' = liabilities val nul s"
  by (simp add: liabilities_def unspent_def)

text \<open>Inserting a leaf adds at most its value.\<close>

lemma liabilities_insert:
  assumes "LeafIndexV2 s' = (LeafIndexV2 s)(l \<mapsto> i)" and "NullifierUsed s' = NullifierUsed s"
  shows "liabilities val nul s' \<le> liabilities val nul s + val l"
proof -
  have "unspent nul s' \<subseteq> insert l (unspent nul s)" using assms by (auto simp: unspent_def)
  then have "liabilities val nul s' \<le> sum val (insert l (unspent nul s))"
    unfolding liabilities_def by (intro sum_mono2) auto
  also have "\<dots> \<le> liabilities val nul s + val l"
    by (cases "l \<in> unspent nul s") (simp_all add: liabilities_def insert_absorb)
  finally show ?thesis .
qed

text \<open>Revealing the nullifier of an unspent leaf removes its value.\<close>

lemma liabilities_spend:
  assumes "LeafIndexV2 s' = LeafIndexV2 s" and "NullifierUsed s' = (NullifierUsed s)(nul l := True)"
    and l: "l \<in> unspent nul s"
  shows "liabilities val nul s' + val l \<le> liabilities val nul s"
proof -
  have "unspent nul s' \<subseteq> unspent nul s - {l}" using assms by (auto simp: unspent_def split: if_splits)
  then have "liabilities val nul s' \<le> sum val (unspent nul s - {l})"
    unfolding liabilities_def by (intro sum_mono2) auto
  then show ?thesis
    using l sum.remove [of "unspent nul s" l val] by (simp add: liabilities_def)
qed

lemma spent_leaf_unspent:
  assumes "spend_sound val nul cfg s" and "pv_verify_spend_v2 (ProofVerifier cfg) p rt nf pkd a cl cpkd m"
    and "v2_root_anchored s rt" and "\<not> NullifierUsed s nf"
  obtains l where "l \<in> unspent nul s" and "nul l = nf" and "val l = unat a + (if m then val cl else 0)"
  using assms by (auto simp: spend_sound_def unspent_def) blast

section \<open>One extrinsic\<close>

definition pool_inv :: "nat \<Rightarrow> ('ccy \<Rightarrow> 'acct \<Rightarrow> nat) \<Rightarrow> (h256 \<Rightarrow> nat) \<Rightarrow> (h256 \<Rightarrow> h256) \<Rightarrow>
    ('acct, 'ccy) ph_config \<Rightarrow> 'ccy ph_state \<Rightarrow> bool" where
  "pool_inv ed bal val nul cfg s \<longleftrightarrow>
     v1_empty s \<and> liabilities val nul s + ed \<le> bal (ccy s) (PoolAccount cfg)"

lemma unat_u128 [simp]: "unat (ucast (a :: u64) :: u128) = unat a"
  by (rule unat_ucast_up) simp

lemma currency_transfer_effect:
  assumes "currency_laws ed bal cfg" and "transfer cfg a b (ucast (x :: u64)) ex c = Inr c'"
  shows "if a = b then bal c' a = bal c a
    else unat x \<le> bal c a \<and> bal c' b = bal c b + unat x \<and>
      (bal c' a = bal c a - unat x \<or> bal c' a = 0 \<and> bal c a - unat x < ed)"
  using assms(1) [unfolded currency_laws_def, rule_format, OF assms(2)]
  by (auto split: if_splits)

lemma pool_pays:
  assumes laws: "currency_laws ed bal cfg"
    and tr: "transfer cfg (PoolAccount cfg) dest (ucast (a :: u64)) ex c = Inr c'"
    and "L + unat a + ed \<le> bal c (PoolAccount cfg)"
  shows "L + ed \<le> bal c' (PoolAccount cfg)"
  using currency_transfer_effect [OF laws tr] assms(3) by (auto split: if_splits)

lemma pool_receives:
  assumes laws: "currency_laws ed bal cfg" and "who \<noteq> PoolAccount cfg"
    and tr: "transfer cfg who (PoolAccount cfg) (ucast (a :: u64)) ex c = Inr c'"
  shows "bal c' (PoolAccount cfg) = bal c (PoolAccount cfg) + unat a"
  using currency_transfer_effect [OF laws tr] assms(2) by simp

lemma after_insert_fields [simp]:
  "LeafIndexV2 (after_insert l ns c rt s) = (LeafIndexV2 s)(l \<mapsto> LeafCountV2 s)"
  "NullifierUsed (after_insert l ns c rt s) = NullifierUsed s"
  "Leaves (after_insert l ns c rt s) = Leaves s" "CurrentRoot (after_insert l ns c rt s) = CurrentRoot s"
  by (simp_all add: after_insert_def)

text \<open>What the pool theorem needs of an accepted spend.\<close>

lemma purchase_rwa_v2_effect:
  assumes "purchase_rwa_v2 cfg orig au pin p s = Inr s'"
  shows "\<exists>i::spend_public_v2. v2_spend_guards cfg (sp_merkle_root i) (sp_nullifier i) au pin False s \<and>
    pv_verify_spend_v2 (ProofVerifier cfg) p (sp_merkle_root i) (sp_nullifier i)
      (compute_pk_digest cfg (take 1312 au)) (RwaPrices s (sp_rwa_id i)) (sp_change_leaf i) (sp_change_pkd i) True \<and>
    LeafIndexV2 s' = (LeafIndexV2 s)(sp_change_leaf i \<mapsto> LeafCountV2 s) \<and>
    NullifierUsed s' = (NullifierUsed s)(sp_nullifier i := True) \<and> ccy s' = ccy s"
  using purchase_rwa_v2_accepted [OF assms]
  by (elim exE conjE) (intro exI conjI, assumption, assumption, simp_all)

lemma purchase_access_v2_effect:
  assumes "purchase_access_v2 cfg orig au pin p s = Inr s'"
  shows "\<exists>(i::spend_public_v2) (app::app_config) dest. v2_spend_guards cfg (sp_merkle_root i) (sp_nullifier i) au pin False s \<and>
    pv_verify_spend_v2 (ProofVerifier cfg) p (sp_merkle_root i) (sp_nullifier i)
      (compute_pk_digest cfg (take 1312 au)) (ac_price app) (sp_change_leaf i) (sp_change_pkd i) True \<and>
    transfer cfg (PoolAccount cfg) dest (ucast (ac_price app)) AllowDeath (ccy s) = Inr (ccy s') \<and>
    LeafIndexV2 s' = (LeafIndexV2 s)(sp_change_leaf i \<mapsto> LeafCountV2 s) \<and>
    NullifierUsed s' = (NullifierUsed s)(sp_nullifier i := True)"
  using purchase_access_v2_accepted [OF assms]
  by (elim exE conjE) (intro exI conjI, assumption, assumption, simp_all)

lemma withdraw_v2_effect:
  assumes "withdraw_v2 cfg orig au pin p s = Inr s'"
  shows "\<exists>(i::withdraw_public_v2) dest. v2_spend_guards cfg (wp_merkle_root i) (wp_nullifier i) au pin True s \<and>
    pv_verify_spend_v2 (ProofVerifier cfg) p (wp_merkle_root i) (wp_nullifier i)
      (compute_pk_digest cfg (take 1312 au)) (wp_amount i) (pv_v2_zero_change_leaf (ProofVerifier cfg)) 0 False \<and>
    transfer cfg (PoolAccount cfg) dest (ucast (wp_amount i)) AllowDeath (ccy s) = Inr (ccy s') \<and>
    LeafIndexV2 s' = LeafIndexV2 s \<and> NullifierUsed s' = (NullifierUsed s)(wp_nullifier i := True)"
  using withdraw_v2_accepted [OF assms]
  by (elim exE conjE) (intro exI conjI, assumption, assumption, simp_all)

lemma pool_step:
  assumes laws: "currency_laws ed bal cfg" and dep: "deposit_sound val cfg"
    and spend: "spend_sound val nul cfg s" and signer: "orig \<noteq> Signed (PoolAccount cfg)"
    and acc: "ph_dispatch cfg orig call s = Inr s'" and inv: "pool_inv ed bal val nul cfg s"
  shows "liabilities val nul s' + ed \<le> bal (ccy s') (PoolAccount cfg)"
proof -
  let ?L = "liabilities val nul" and ?P = "\<lambda>t. bal (ccy t) (PoolAccount cfg)"
  have solv: "?L s + ed \<le> ?P s" and v1: "v1_empty s" using inv by (simp_all add: pool_inv_def)
  have nv1: "\<not> v1_call call" using v1_refused [OF _ v1, of call cfg orig] acc by auto
  show ?thesis
  proof (cases call)
    case (call_deposit_v2 l a p h)
    then obtain who b ns c rt where d: "orig = Signed who" "pv_verify_deposit_v2 (ProofVerifier cfg) p a l"
      "transfer cfg who (PoolAccount cfg) (ucast a) KeepAlive (ccy s) = Inr b"
      "s' = deposit_event (DepositV2Accepted l (LeafCountV2 s) rt h) (after_insert l ns c rt (s\<lparr>ccy := b\<rparr>))"
      using acc by (auto simp: ph_dispatch_def dest!: deposit_v2_accepted)
    have "?L s' \<le> ?L s + val l" by (rule liabilities_insert) (simp_all add: d)
    moreover have "val l = unat a" using dep d by (simp add: deposit_sound_def)
    moreover have "?P s' = ?P s + unat a"
      using pool_receives [OF laws _ d(3)] signer d by simp
    ultimately show ?thesis using solv by simp
  next
    case (call_purchase_rwa_v2 au pin p)
    then have "purchase_rwa_v2 cfg orig au pin p s = Inr s'" using acc by (simp add: ph_dispatch_def)
    from purchase_rwa_v2_effect [OF this] obtain i :: spend_public_v2 where d: "v2_spend_guards cfg (sp_merkle_root i) (sp_nullifier i) au pin False s"
      "pv_verify_spend_v2 (ProofVerifier cfg) p (sp_merkle_root i) (sp_nullifier i)
        (compute_pk_digest cfg (take 1312 au)) (RwaPrices s (sp_rwa_id i)) (sp_change_leaf i) (sp_change_pkd i) True"
      and s': "LeafIndexV2 s' = (LeafIndexV2 s)(sp_change_leaf i \<mapsto> LeafCountV2 s)"
        "NullifierUsed s' = (NullifierUsed s)(sp_nullifier i := True)" "ccy s' = ccy s"
      by blast
    obtain l where l: "l \<in> unspent nul s" "nul l = sp_nullifier i"
      "val l = unat (RwaPrices s (sp_rwa_id i)) + val (sp_change_leaf i)"
      using spent_leaf_unspent [OF spend d(2)] d(1) by (auto simp: v2_spend_guards_def)
    let ?t = "s\<lparr>NullifierUsed := (NullifierUsed s)(sp_nullifier i := True)\<rparr>"
    have "?L ?t + val l \<le> ?L s" using l by (intro liabilities_spend) auto
    moreover have "?L s' \<le> ?L ?t + val (sp_change_leaf i)"
      by (rule liabilities_insert) (simp_all add: s')
    ultimately show ?thesis using solv l s' by simp
  next
    case (call_purchase_access_v2 au pin p)
    then have "purchase_access_v2 cfg orig au pin p s = Inr s'" using acc by (simp add: ph_dispatch_def)
    from purchase_access_v2_effect [OF this] obtain i :: spend_public_v2 and app :: app_config and dest where d: "v2_spend_guards cfg (sp_merkle_root i) (sp_nullifier i) au pin False s"
      "pv_verify_spend_v2 (ProofVerifier cfg) p (sp_merkle_root i) (sp_nullifier i)
        (compute_pk_digest cfg (take 1312 au)) (ac_price app) (sp_change_leaf i) (sp_change_pkd i) True"
      "transfer cfg (PoolAccount cfg) dest (ucast (ac_price app)) AllowDeath (ccy s) = Inr (ccy s')"
      and s': "LeafIndexV2 s' = (LeafIndexV2 s)(sp_change_leaf i \<mapsto> LeafCountV2 s)"
        "NullifierUsed s' = (NullifierUsed s)(sp_nullifier i := True)"
      by blast
    obtain l where l: "l \<in> unspent nul s" "nul l = sp_nullifier i"
      "val l = unat (ac_price app) + val (sp_change_leaf i)"
      using spent_leaf_unspent [OF spend d(2)] d(1) by (auto simp: v2_spend_guards_def)
    let ?t = "s\<lparr>NullifierUsed := (NullifierUsed s)(sp_nullifier i := True)\<rparr>"
    have "?L ?t + val l \<le> ?L s" using l by (intro liabilities_spend) auto
    moreover have "?L s' \<le> ?L ?t + val (sp_change_leaf i)"
      by (rule liabilities_insert) (simp_all add: s')
    ultimately have "?L s' + unat (ac_price app) + ed \<le> ?P s" using solv l by simp
    then show ?thesis using pool_pays [OF laws d(3)] s' by simp
  next
    case (call_withdraw_v2 au pin p)
    then have "withdraw_v2 cfg orig au pin p s = Inr s'" using acc by (simp add: ph_dispatch_def)
    from withdraw_v2_effect [OF this] obtain i :: withdraw_public_v2 and dest where d: "v2_spend_guards cfg (wp_merkle_root i) (wp_nullifier i) au pin True s"
      "pv_verify_spend_v2 (ProofVerifier cfg) p (wp_merkle_root i) (wp_nullifier i)
        (compute_pk_digest cfg (take 1312 au)) (wp_amount i) (pv_v2_zero_change_leaf (ProofVerifier cfg)) 0 False"
      "transfer cfg (PoolAccount cfg) dest (ucast (wp_amount i)) AllowDeath (ccy s) = Inr (ccy s')"
      and s': "LeafIndexV2 s' = LeafIndexV2 s"
        "NullifierUsed s' = (NullifierUsed s)(wp_nullifier i := True)"
      by blast
    obtain l where l: "l \<in> unspent nul s" "nul l = wp_nullifier i" "val l = unat (wp_amount i)"
      using spent_leaf_unspent [OF spend d(2)] d(1) by (auto simp: v2_spend_guards_def)
    have "?L s' + val l \<le> ?L s" using l s' by (intro liabilities_spend) auto
    then have "?L s' + unat (wp_amount i) + ed \<le> ?P s" using solv l by simp
    then show ?thesis using pool_pays [OF laws d(3)] s' by simp
  next
    case (call_set_rwa_price r p)
    then show ?thesis using acc solv
      by (auto simp: ph_dispatch_def liabilities_def unspent_def dest!: set_calls_accepted)
  next
    case (call_set_access_config a p acc')
    then show ?thesis using acc solv
      by (auto simp: ph_dispatch_def liabilities_def unspent_def dest!: set_calls_accepted)
  qed (use nv1 in simp_all)
qed

lemma pool_run:
  assumes laws: "currency_laws ed bal cfg" and dep: "deposit_sound val cfg"
    and spend: "\<forall>k \<le> length cs. spend_sound val nul cfg (run (ph_apply cfg) (take k cs) s)"
    and signer: "\<forall>c \<in> set cs. fst c \<noteq> Signed (PoolAccount cfg)" and inv: "pool_inv ed bal val nul cfg s"
  shows "pool_inv ed bal val nul cfg (run (ph_apply cfg) cs s)"
  using spend signer inv
proof (induction cs arbitrary: s)
  case Nil
  then show ?case by simp
next
  case (Cons c cs)
  have now: "spend_sound val nul cfg s" using Cons.prems(1) [rule_format, of 0] by simp
  show ?case
  proof (cases "ph_apply cfg c s")
    case (Inl e)
    have "\<forall>k \<le> length cs. spend_sound val nul cfg (run (ph_apply cfg) (take k cs) s)"
      using Cons.prems(1) Inl by (metis Suc_le_mono length_Cons run.simps(2) sum.simps(5) take_Suc_Cons)
    then show ?thesis using Cons Inl by simp
  next
    case (Inr s')
    have "\<forall>k \<le> length cs. spend_sound val nul cfg (run (ph_apply cfg) (take k cs) s')"
      using Cons.prems(1) Inr by (metis Suc_le_mono length_Cons run.simps(2) sum.simps(6) take_Suc_Cons)
    moreover have d: "ph_dispatch cfg (fst c) (snd c) s = Inr s'"
      using Inr ph_apply_dispatch [of cfg "fst c" "snd c"] by simp
    have "liabilities val nul s' + ed \<le> bal (ccy s') (PoolAccount cfg)"
      using Cons.prems by (intro pool_step [OF laws dep now _ d]) auto
    then have "pool_inv ed bal val nul cfg s'"
      using Cons.prems(3) apply_keeps_v1_empty [OF _ Inr] by (simp add: pool_inv_def)
    ultimately show ?thesis using Cons.IH [of s'] Cons.prems Inr by simp
  qed
qed

section \<open>A configuration to evaluate\<close>

text \<open>
  Balances are a function from account numbers; the verifier accepts a deposit whose leaf is the
  amount and one withdrawal, of the leaf 5; the node hash is the left projection.
\<close>

definition demo_transfer ::
  "nat \<Rightarrow> nat \<Rightarrow> u128 \<Rightarrow> existence_requirement \<Rightarrow> (nat \<Rightarrow> nat) \<Rightarrow> nat + (nat \<Rightarrow> nat)" where
  "demo_transfer a b x ex c =
     (if unat x \<le> c a then Inr (if a = b then c else c(a := c a - unat x, b := c b + unat x)) else Inl 0)"

definition demo_verify :: proof_verify where
  "demo_verify = \<lparr>pv_verify_commitment = (\<lambda>_ _ _. False), pv_verify_purchase = (\<lambda>_ _. False),
     pv_verify_withdrawal = (\<lambda>_ _. False), pv_verify_range_proof = (\<lambda>_ _. False),
     pv_verify_purchase_proof = (\<lambda>_ _ _ _. False), pv_verify_deposit_v2 = (\<lambda>_ a l. l = ucast a),
     pv_verify_spend_v2 = (\<lambda>_ rt nf _ a _ _ m. rt = 5 \<and> nf = 5 \<and> a = 5 \<and> \<not> m),
     pv_verify_spend_auth_v2 = (\<lambda>_ _ _. True), pv_v2_insert_leaf = v2_insert_leaf (\<lambda>a b. a),
     pv_v2_zero_change_leaf = 0\<rparr>"

definition demo_cfg :: "(nat, nat \<Rightarrow> nat) ph_config" where
  "demo_cfg = \<lparr>ph_codec = le_codec, ProofVerifier = demo_verify, transfer = demo_transfer,
     PoolAccount = 0, decode_account = (\<lambda>_. Some 7), blake2_256 = (\<lambda>_. 0), blake3 = (\<lambda>_. 0)\<rparr>"

definition demo_deposit :: "nat origin \<times> ph_call" where
  "demo_deposit = (Signed 1, call_deposit_v2 5 5 [] [])"

definition demo_inputs :: withdraw_public_v2 where
  "demo_inputs = \<lparr>wp_merkle_root = 5, wp_nullifier = 5, wp_amount = 5, wp_destination = 0, wp_tx_id = 0\<rparr>"

definition demo_withdraw :: "nat origin \<times> ph_call" where
  "demo_withdraw = (Unsigned, call_withdraw_v2 (replicate 1312 0) (encode_withdraw_public_v2 le_codec demo_inputs) [])"

lemma subtree_left: "subtree (\<lambda>a b. a) ls d i = (if i * 2 ^ d < length ls then ls ! (i * 2 ^ d) else 0)"
  by (induction d arbitrary: i) (simp_all add: mult.assoc mult.left_commute)

lemma demo_laws: "currency_laws ed (\<lambda>c. c) demo_cfg" "currency_live ed (\<lambda>c. c) demo_cfg"
  by (auto simp: currency_laws_def currency_live_def demo_cfg_def demo_transfer_def split: if_splits)

lemma demo_deposit_sound: "deposit_sound unat demo_cfg"
  by (simp add: deposit_sound_def demo_cfg_def demo_verify_def unat_ucast_up)

lemma demo_step:
  obtains ns c where "ph_apply demo_cfg demo_deposit (ph_genesis (\<lambda>_. 100)) =
    Inr (deposit_event (DepositV2Accepted 5 0 5 [])
      (after_insert 5 ns c 5 ((ph_genesis (\<lambda>_. 100))\<lparr>ccy := (\<lambda>_. 100)(1 := 95, 0 := 105)\<rparr>)))"
proof -
  obtain ns c where "v2_insert_leaf (\<lambda>a b. a) (replicate MERKLE_DEPTH 0) 0 5 =
      Some (ns, c, shown_root (\<lambda>a b. a) [5])"
    using v2.ins_room [OF v2.rep_empty, of "\<lambda>a b. a" 5] by (auto simp: MERKLE_DEPTH_def)
  moreover have "shown_root (\<lambda>a b. a) [5] = 5"
    by (simp add: shown_root_def reference_root_subtree subtree_left MERKLE_DEPTH_def)
  ultimately have i: "v2_insert_leaf (\<lambda>a b. a) (replicate 20 0) 0 5 = Some (ns, c, 5)"
    by (simp add: MERKLE_DEPTH_def)
  show ?thesis
    by (rule that [of ns c])
      (simp add: demo_deposit_def ph_apply_def ph_dispatch_def deposit_v2_def currency_transfer_def
        demo_cfg_def demo_verify_def demo_transfer_def v2_insert_def ph_genesis_def i after_insert_def
        deposit_event_def Let_def)
qed

lemma leaf_kept: "LeafIndexV2 s l \<noteq> None \<Longrightarrow> LeafIndexV2 (run (ph_apply cfg) cs s) l \<noteq> None"
proof (rule run_invariant [where P = "\<lambda>s. LeafIndexV2 s l \<noteq> None"])
  fix c s s'
  assume l: "LeafIndexV2 s l \<noteq> None" and "ph_apply cfg c s = Inr s'"
  then have "ph_dispatch cfg (fst c) (snd c) s = Inr s'"
    using ph_apply_dispatch [of cfg "fst c" "snd c"] by simp
  then show "LeafIndexV2 s' l \<noteq> None"
    using dispatch_tree_effect [of cfg "fst c" "snd c" s s'] l by (auto simp: v2_view_def)
qed auto

lemma demo_spend_sound:
  assumes "k \<le> length [demo_deposit, demo_withdraw]"
  shows "spend_sound unat (\<lambda>l. l) demo_cfg
    (run (ph_apply demo_cfg) (take k [demo_deposit, demo_withdraw]) (ph_genesis (\<lambda>_. 100)))"
proof (cases k)
  case 0
  then show ?thesis
    by (simp add: spend_sound_def demo_cfg_def demo_verify_def v2_root_anchored_def ph_genesis_def)
next
  case (Suc j)
  obtain ns c where st: "ph_apply demo_cfg demo_deposit (ph_genesis (\<lambda>_. 100)) =
    Inr (deposit_event (DepositV2Accepted 5 0 5 [])
      (after_insert 5 ns c 5 ((ph_genesis (\<lambda>_. 100))\<lparr>ccy := (\<lambda>_. 100)(1 := 95, 0 := 105)\<rparr>)))"
    by (rule demo_step)
  then have "LeafIndexV2 (run (ph_apply demo_cfg) (take k [demo_deposit, demo_withdraw])
      (ph_genesis (\<lambda>_. 100))) 5 \<noteq> None"
    unfolding Suc take_Suc_Cons run.simps st sum.case by (intro leaf_kept) simp
  then show ?thesis by (auto simp: spend_sound_def demo_cfg_def demo_verify_def intro!: bexI [of _ 5])
qed

section \<open>Solvency\<close>

text \<open>
  C2. The pool is solvent: from a genesis that endows the pool account with the existential deposit,
  after any extrinsics not signed by the pool account, the pool holds at least the existential
  deposit plus the value of all unspent v2 notes, when transfers obey the laws of the currency and
  the proof verifier is sound on the states of the run.
\<close>

theorem pool_solvent:
  assumes "currency_laws ed bal cfg" and "deposit_sound val cfg"
    and "\<forall>k \<le> length cs. spend_sound val nul cfg (run (ph_apply cfg) (take k cs) (ph_genesis b))"
    and "\<forall>c \<in> set cs. fst c \<noteq> Signed (PoolAccount cfg)" and "ed \<le> bal b (PoolAccount cfg)"
  shows "liabilities val nul (run (ph_apply cfg) cs (ph_genesis b)) + ed
    \<le> bal (ccy (run (ph_apply cfg) cs (ph_genesis b))) (PoolAccount cfg)"
proof -
  have "pool_inv ed bal val nul cfg (ph_genesis b)"
    using assms(5) v1_empty_genesis
    by (simp add: pool_inv_def liabilities_def unspent_def ph_genesis_def)
  from pool_run [OF assms(1-4) this] show ?thesis by (simp add: pool_inv_def)
qed

lemma pool_solvent_witness:
  "liabilities unat (\<lambda>l. l) (run (ph_apply demo_cfg) [demo_deposit, demo_withdraw] (ph_genesis (\<lambda>_. 100))) + 1
    \<le> ccy (run (ph_apply demo_cfg) [demo_deposit, demo_withdraw] (ph_genesis (\<lambda>_. 100))) (PoolAccount demo_cfg)"
  by (rule pool_solvent [OF demo_laws(1) demo_deposit_sound])
    (use demo_spend_sound in \<open>auto simp: demo_deposit_def demo_withdraw_def demo_cfg_def\<close>)

text \<open>
  C8. Withdrawals go through: under the same assumptions, and when a payment of at least the
  existential deposit that leaves as much behind succeeds, an unsigned \<open>withdraw_v2\<close> with a fresh
  nullifier, an anchored root, a valid authorisation and proof, a decodable destination and an amount
  of at least the existential deposit is accepted; the pool never lacks the funds.
\<close>

theorem withdraw_v2_succeeds:
  assumes "currency_laws ed bal cfg" and "currency_live ed bal cfg" and "deposit_sound val cfg"
    and "\<forall>k \<le> length cs. spend_sound val nul cfg (run (ph_apply cfg) (take k cs) (ph_genesis b))"
    and "\<forall>c \<in> set cs. fst c \<noteq> Signed (PoolAccount cfg)" and "ed \<le> bal b (PoolAccount cfg)"
    and dec: "decode_withdraw_public_v2 (ph_codec cfg) pin = Some i"
    and guards: "v2_spend_guards cfg (wp_merkle_root i) (wp_nullifier i) auth pin True
      (run (ph_apply cfg) cs (ph_genesis b))"
    and proven: "pv_verify_spend_v2 (ProofVerifier cfg) p (wp_merkle_root i) (wp_nullifier i)
      (compute_pk_digest cfg (take 1312 auth)) (wp_amount i) (pv_v2_zero_change_leaf (ProofVerifier cfg)) 0 False"
    and dest: "decode_account cfg (le_bytes 32 (wp_destination i)) = Some d" and big: "ed \<le> unat (wp_amount i)"
  shows "\<exists>s'. ph_apply cfg (Unsigned, call_withdraw_v2 auth pin p) (run (ph_apply cfg) cs (ph_genesis b)) = Inr s'"
proof -
  let ?s = "run (ph_apply cfg) cs (ph_genesis b)"
  have inv0: "pool_inv ed bal val nul cfg (ph_genesis b)"
    using assms(6) v1_empty_genesis
    by (simp add: pool_inv_def liabilities_def unspent_def ph_genesis_def)
  have solv: "liabilities val nul ?s + ed \<le> bal (ccy ?s) (PoolAccount cfg)"
    using pool_run [OF assms(1,3,4,5) inv0] by (simp add: pool_inv_def)
  have sound: "spend_sound val nul cfg ?s" using assms(4) [rule_format, of "length cs"] by simp
  obtain l where "l \<in> unspent nul ?s" "val l = unat (wp_amount i)"
    using spent_leaf_unspent [OF sound proven] guards by (auto simp: v2_spend_guards_def)
  then have "unat (wp_amount i) \<le> liabilities val nul ?s"
    unfolding liabilities_def by (metis finite_unspent member_le_sum zero_le)
  then have "unat (wp_amount i) + ed \<le> bal (ccy ?s) (PoolAccount cfg)" using solv by simp
  then obtain c' where "transfer cfg (PoolAccount cfg) d (ucast (wp_amount i)) AllowDeath (ccy ?s) = Inr c'"
    using assms(2) big unfolding currency_live_def by (metis unat_u128)
  then have "\<exists>s'. ph_dispatch cfg Unsigned (call_withdraw_v2 auth pin p) ?s = Inr s'"
    using dec guards proven dest
    by (auto simp: ph_dispatch_def withdraw_v2_def v2_spend_guards_def currency_transfer_def Let_def)
  then show ?thesis
    using dispatch_implies_valid by (fastforce simp: ph_apply_def)
qed

lemma decode_withdraw_public_v2_enc:
  "codec_laws C \<Longrightarrow> decode_withdraw_public_v2 C (encode_withdraw_public_v2 C i @ r) = Some i"
  by (simp add: decode_withdraw_public_v2_def encode_withdraw_public_v2_def dec_then_def)

lemma withdraw_v2_succeeds_witness:
  "\<exists>s'. ph_apply demo_cfg demo_withdraw (run (ph_apply demo_cfg) [demo_deposit] (ph_genesis (\<lambda>_. 100))) = Inr s'"
proof -
  have dec: "decode_withdraw_public_v2 (ph_codec demo_cfg) (encode_withdraw_public_v2 le_codec demo_inputs)
      = Some demo_inputs"
    using decode_withdraw_public_v2_enc [OF le_codec_laws, of demo_inputs "[]"] by (simp add: demo_cfg_def)
  have sound: "\<forall>k \<le> length [demo_deposit]. spend_sound unat (\<lambda>l. l) demo_cfg
      (run (ph_apply demo_cfg) (take k [demo_deposit]) (ph_genesis (\<lambda>_. 100)))"
  proof (intro allI impI)
    fix k assume "k \<le> length [demo_deposit]"
    then show "spend_sound unat (\<lambda>l. l) demo_cfg
        (run (ph_apply demo_cfg) (take k [demo_deposit]) (ph_genesis (\<lambda>_. 100)))"
      using demo_spend_sound [of k] by (cases k) auto
  qed
  obtain ns c where st: "ph_apply demo_cfg demo_deposit (ph_genesis (\<lambda>_. 100)) =
    Inr (deposit_event (DepositV2Accepted 5 0 5 [])
      (after_insert 5 ns c 5 ((ph_genesis (\<lambda>_. 100))\<lparr>ccy := (\<lambda>_. 100)(1 := 95, 0 := 105)\<rparr>)))"
    by (rule demo_step)
  then have guards: "v2_spend_guards demo_cfg (wp_merkle_root demo_inputs) (wp_nullifier demo_inputs)
      (replicate 1312 0) (encode_withdraw_public_v2 le_codec demo_inputs) True
      (run (ph_apply demo_cfg) [demo_deposit] (ph_genesis (\<lambda>_. 100)))"
    by (simp add: v2_spend_guards_def v2_root_anchored_def demo_cfg_def demo_verify_def demo_inputs_def)
      (simp add: after_insert_def deposit_event_def ph_genesis_def)
  show ?thesis
    unfolding demo_withdraw_def
    by (rule withdraw_v2_succeeds [OF demo_laws(1) demo_laws(2) [of 1] demo_deposit_sound sound _ _ dec guards])
      (simp_all add: demo_deposit_def demo_cfg_def demo_verify_def demo_inputs_def)
qed

end
