(* ===== verification/SpendProver.thy ===== *)
theory SpendProver
  imports SpendAir TraceTable
begin

text \<open>
  The prover of the v2 spend circuit, module \<open>spend_v2::prover_impl\<close> of
  \<open>proofhub/verifier/src/lib.rs\<close>: \<open>SpendWitness\<close>, \<open>build_spend_trace\<close> and \<open>prove_spend\<close>, and
  \<open>root_from_path\<close> of module \<open>prover\<close>. \<open>spend_table\<close> collects what the cells of the finished table
  satisfy; \<open>SpendComplete\<close> checks the constraints of the circuit against it.
\<close>

section \<open>The trace\<close>

record spend_witness =
  sw_v :: u64
  sw_b :: h256
  sw_pkd :: h256
  sw_index :: u32
  sw_siblings :: "h256 list"
  sw_cv :: u64
  sw_cb :: h256
  sw_cpkd :: h256

text \<open>Columns 4 to 10, 12 and 13.\<close>

definition acc_step :: "nat \<Rightarrow> 'f::comm_ring_1 table \<Rightarrow> 'f table" where
  "acc_step s cols =
     (let cols = put 5 (s + 1) (cell cols 5 s + cell cols 4 s * cell cols 6 s) cols
      in put 6 (s + 1) (cell cols 6 s + cell cols 6 s) cols)"

definition spend_carries :: "'f::comm_ring_1 field_env \<Rightarrow> spend_witness \<Rightarrow> 'f table \<Rightarrow> 'f table" where
  "spend_carries E w cols =
     (let (b_lo, b_hi) = unpack E (sw_b w);
          vf = fe_new E (ucast (sw_v w)); cvf = fe_new E (ucast (sw_cv w));
          cols = fold (\<lambda>r cols. put 13 r cvf (put 12 r vf (put 8 r b_hi (put 7 r b_lo cols)))) [0..<TRACE_LEN] cols;
          cols = fold (\<lambda>i cols. put 4 (64 + i) (fe_new E (ucast (drop_bit i (sw_cv w) AND 1)))
                   (put 4 i (fe_new E (ucast (drop_bit i (sw_v w) AND 1))) cols)) [0..<64] cols
      in fold (\<lambda>d cols. let bt = fe_new E (ucast (drop_bit d (sw_index w) AND 1))
               in fold (\<lambda>r. put 4 r bt) [385 + 256 * d..<384 + 256 * (d + 1) + 1] cols) [0..<LEVELS] cols)"

definition spend_acc :: "'f::comm_ring_1 table \<Rightarrow> 'f table" where
  "spend_acc cols =
     (let cols = put 6 0 1 (put 5 0 0 cols);
          cols = fold acc_step [0..<63] cols;
          cols = put 6 64 1 (put 5 64 0 cols);
          cols = fold acc_step [64..<127] cols
      in fold (\<lambda>r cols. let cols = put 5 r (cell cols 5 127) cols in put 6 r (cell cols 6 127) cols)
           [128..<TRACE_LEN] cols)"

definition spend_aux :: "'f::comm_ring_1 field_env \<Rightarrow> spend_witness \<Rightarrow> 'f table \<Rightarrow> 'f table" where
  "spend_aux E w cols =
     (let (cb_lo, cb_hi) = unpack E (sw_cb w);
          cols = fold (\<lambda>d cols. let (s_lo, s_hi) = unpack E (sw_siblings w ! d)
                   in fold (\<lambda>r cols. put 10 r s_hi (put 9 r s_lo cols)) [385 + 256 * d..<384 + 256 * (d + 1) + 1] cols)
                 [0..<LEVELS] cols
      in fold (\<lambda>r cols. put 10 r cb_hi (put 9 r cb_lo cols)) [5505..<TRACE_LEN] cols)"

text \<open>The state columns: the nullifier and note blocks, one Merkle level, the change blocks.\<close>

definition spend_note_rows :: "'f::comm_ring_1 field_env \<Rightarrow> spend_witness \<Rightarrow> 'f table \<Rightarrow> 'f table" where
  "spend_note_rows E w cols =
     (let (b_lo, b_hi) = unpack E (sw_b w); (pkd_lo, pkd_hi) = unpack E (sw_pkd w);
          cols = put_state 0 (nullifier_iv E, b_lo, b_hi, 0) cols;
          cols = freeze_state_rows 1 1 cols;
          cols = run_perm_rows E 1 cols;
          cols = freeze_state_rows 66 128 cols;
          cols = put_state 129 (note_iv E, fe_new E (ucast (sw_v w)), b_lo, b_hi) cols;
          cols = run_perm_rows E 129 cols;
          cols = freeze_state_rows 194 256 cols;
          cols = put_state 257 (cell cols 0 256, cell cols 1 256 + pkd_lo, cell cols 2 256 + pkd_hi, cell cols 3 256) cols;
          cols = run_perm_rows E 257 cols
      in freeze_state_rows 322 384 cols)"

definition spend_level_rows :: "'f::comm_ring_1 field_env \<Rightarrow> spend_witness \<Rightarrow> nat \<Rightarrow> 'f table \<Rightarrow> 'f table" where
  "spend_level_rows E w d cols =
     (let base = STEP_MRK_BASE + 256 * d;
          cur1 = cell cols 1 base; cur2 = cell cols 2 base;
          (s_lo, s_hi) = unpack E (sw_siblings w ! d);
          (l_lo, l_hi, r_lo, r_hi) =
            (if drop_bit d (sw_index w) AND 1 = 1 then (s_lo, s_hi, cur1, cur2) else (cur1, cur2, s_lo, s_hi));
          cols = put_state (base + 1) (merkle_iv E, l_lo, l_hi, r_lo) cols;
          rhi_end = min (base + 256) (TRACE_LEN - 1);
          cols = fold (\<lambda>r. put 11 r r_hi) [base + 1..<rhi_end + 1] cols;
          cols = run_perm_rows E (base + 1) cols;
          cols = freeze_state_rows (base + 66) (base + 128) cols;
          cols = put_state (base + 129) (cell cols 0 (base + 128), cell cols 1 (base + 128) + r_hi,
                   cell cols 2 (base + 128), cell cols 3 (base + 128)) cols;
          cols = run_perm_rows E (base + 129) cols;
          cols = freeze_state_rows (base + 194) (base + 256) cols
      in if d = LEVELS - 1 then fold (\<lambda>r. put 11 r r_hi) [base + 257..<TRACE_LEN] cols else cols)"

definition spend_change_rows :: "'f::comm_ring_1 field_env \<Rightarrow> spend_witness \<Rightarrow> 'f table \<Rightarrow> 'f table" where
  "spend_change_rows E w cols =
     (let (cb_lo, cb_hi) = unpack E (sw_cb w); (cpkd_lo, cpkd_hi) = unpack E (sw_cpkd w);
          cols = put_state (STEP_LCHG + 1) (note_iv E, fe_new E (ucast (sw_cv w)), cb_lo, cb_hi) cols;
          cols = run_perm_rows E (STEP_LCHG + 1) cols;
          cols = freeze_state_rows (STEP_LCHG + 66) STEP_ACHG cols;
          cols = put_state (STEP_ACHG + 1) (cell cols 0 STEP_ACHG, cell cols 1 STEP_ACHG + cpkd_lo,
                   cell cols 2 STEP_ACHG + cpkd_hi, cell cols 3 STEP_ACHG) cols;
          cols = run_perm_rows E (STEP_ACHG + 1) cols
      in freeze_state_rows (ROW_CLEAF + 1) (TRACE_LEN - 1) cols)"

definition TRACE_WIDTH :: nat where "TRACE_WIDTH = 14"

definition build_spend_trace :: "'f::comm_ring_1 field_env \<Rightarrow> spend_witness \<Rightarrow> 'f table" where
  "build_spend_trace E w =
     (let cols = replicate TRACE_WIDTH (replicate TRACE_LEN 0);
          cols = spend_aux E w (spend_acc (spend_carries E w cols));
          cols = spend_note_rows E w cols;
          cols = fold (spend_level_rows E w) [0..<LEVELS] cols
      in spend_change_rows E w cols)"

section \<open>The public inputs\<close>

definition root_from_path :: "(h256 \<Rightarrow> h256 \<Rightarrow> h256) \<Rightarrow> h256 \<Rightarrow> u32 \<Rightarrow> h256 list \<Rightarrow> h256" where
  "root_from_path h2 leaf index siblings =
     fst (fold (\<lambda>d (node, idx).
       (if idx AND 1 = 0 then h2 node (siblings ! d) else h2 (siblings ! d) node, drop_bit 1 idx))
       [0..<MERKLE_DEPTH] (leaf, index))"

definition spend_public :: "'f::comm_ring_1 field_env \<Rightarrow> spend_witness \<Rightarrow> u64 \<Rightarrow> u64 \<Rightarrow> spend_pi" where
  "spend_public E w amount md =
     (let note_leaf = note_hash E (sw_v w) (sw_b w) (sw_pkd w);
          rt = root_from_path (merkle_hash2 E) note_leaf (sw_index w) (sw_siblings w);
          nullifier = nullifier_hash E (sw_b w);
          (change_leaf, change_pkd) =
            (if md = 1 then (note_hash E (sw_cv w) (sw_cb w) (sw_cpkd w), sw_cpkd w) else (zero_change_leaf E, 0))
      in \<lparr>pi_root = rt, pi_nf = nullifier, pi_pkd = sw_pkd w, price_or_amount = amount,
          pi_change_leaf = change_leaf, pi_change_pkd = change_pkd, mode = md\<rparr>)"

definition prove_spend ::
  "'f::comm_ring_1 field_env \<Rightarrow> ('f air \<Rightarrow> 'f table \<Rightarrow> bytes) \<Rightarrow> spend_witness \<Rightarrow> u64 \<Rightarrow> u64 \<Rightarrow> bytes" where
  "prove_spend E prove w amount md = prove (spend_air E (spend_public E w amount md)) (build_spend_trace E w)"

section \<open>The columns beside the state\<close>

text \<open>\<open>writes P f\<close>: \<open>f\<close> writes to the cells \<open>P\<close> the values \<open>g\<close> and leaves the others.\<close>

definition writes :: "(nat \<Rightarrow> nat \<Rightarrow> 'f) \<Rightarrow> (nat \<Rightarrow> nat \<Rightarrow> bool) \<Rightarrow> ('f table \<Rightarrow> 'f table) \<Rightarrow> bool" where
  "writes g P f \<longleftrightarrow> (\<forall>cols. is_table 14 8192 cols \<longrightarrow> is_table 14 8192 (f cols) \<and>
     (\<forall>c < 14. \<forall>r < 8192. cell (f cols) c r = (if P c r then g c r else cell cols c r)))"

lemma writesD:
  "writes g P f \<Longrightarrow> is_table 14 8192 cols \<Longrightarrow> is_table 14 8192 (f cols)"
  "writes g P f \<Longrightarrow> is_table 14 8192 cols \<Longrightarrow> c < 14 \<Longrightarrow> r < 8192 \<Longrightarrow>
    cell (f cols) c r = (if P c r then g c r else cell cols c r)"
  by (simp_all add: writes_def)

lemma writes_put: "g c r = x \<Longrightarrow> writes g (\<lambda>c' r'. c' = c \<and> r' = r) (put c r x)"
  by (auto simp: writes_def cell_put [of 14 8192])

lemma writes_comp:
  "writes g P f \<Longrightarrow> writes g Q f' \<Longrightarrow> writes g (\<lambda>c r. P c r \<or> Q c r) (\<lambda>cols. f' (f cols))"
  unfolding writes_def by metis

lemma writes_fold:
  "(\<And>x. x \<in> set xs \<Longrightarrow> writes g (P x) (f x)) \<Longrightarrow> writes g (\<lambda>c r. \<exists>x \<in> set xs. P x c r) (fold f xs)"
proof (induction xs)
  case Nil
  then show ?case by (simp add: writes_def)
next
  case (Cons x xs)
  have "writes g (\<lambda>c r. P x c r \<or> (\<exists>y \<in> set xs. P y c r)) (\<lambda>cols. fold f xs (f x cols))"
    using Cons by (intro writes_comp) auto
  then show ?case by (simp add: fold_Cons o_def)
qed

lemma writes_eq:
  "writes g P f \<Longrightarrow> (\<And>c r. c < 14 \<Longrightarrow> r < 8192 \<Longrightarrow> P c r = Q c r) \<Longrightarrow> writes g Q f"
  by (simp add: writes_def)

lemma level_rows: "(\<exists>d \<in> {0..<20}. r \<in> {385 + 256 * d..<384 + 256 * (d + 1) + 1}) \<longleftrightarrow> 385 \<le> r \<and> r < (5505 :: nat)"
proof
  assume "\<exists>d \<in> {0..<20}. r \<in> {385 + 256 * d..<384 + 256 * (d + 1) + 1}"
  then show "385 \<le> r \<and> r < 5505" by auto
next
  assume r: "385 \<le> r \<and> r < 5505"
  define q where "q = (r - 385) div 256"
  have "r - 385 = 256 * q + (r - 385) mod 256" "(r - 385) mod 256 < 256" by (simp_all add: q_def)
  then have "q < 20" "385 + 256 * q \<le> r" "r < 385 + 256 * q + 256" using r by linarith+
  then show "\<exists>d \<in> {0..<20}. r \<in> {385 + 256 * d..<384 + 256 * (d + 1) + 1}" by (intro bexI [of _ q]) auto
qed

lemma bex_cells:
  "(\<exists>d \<in> A. \<exists>x \<in> S d. c = k \<and> r = x) \<longleftrightarrow> c = k \<and> (\<exists>d \<in> A. r \<in> S d)"
  "(\<exists>d \<in> A. \<exists>x \<in> S d. c = k \<and> r = x \<or> c = l \<and> r = x) \<longleftrightarrow> (c = k \<or> c = l) \<and> (\<exists>d \<in> A. r \<in> S d)"
  "(\<exists>x \<in> A. c = k \<and> r = x \<or> c = l \<and> r = x) \<longleftrightarrow> (c = k \<or> c = l) \<and> r \<in> A"
  by blast+

text \<open>The values of the columns 4, 7 to 10, 12 and 13.\<close>

definition static_cell :: "'f::comm_ring_1 field_env \<Rightarrow> spend_witness \<Rightarrow> nat \<Rightarrow> nat \<Rightarrow> 'f" where
  "static_cell E w c r =
     (if c = 7 then fst (unpack E (sw_b w)) else if c = 8 then snd (unpack E (sw_b w))
      else if c = 12 then fe_new E (ucast (sw_v w)) else if c = 13 then fe_new E (ucast (sw_cv w))
      else if c = 4 then
        (if r < 64 then of_bool (bit (sw_v w) r) else if r < 128 then of_bool (bit (sw_cv w) (r - 64))
         else of_bool (385 \<le> r \<and> r < 5505 \<and> bit (sw_index w) ((r - 385) div 256)))
      else
        let x = (if 385 \<le> r \<and> r < 5505 then sw_siblings w ! ((r - 385) div 256) else sw_cb w)
        in if c = 9 then fst (unpack E x) else snd (unpack E x))"

lemma bit_field:
  assumes "f128_laws E" and "LENGTH('a) \<le> 128"
  shows "fe_new E (ucast (drop_bit i (x :: 'a::len word) AND 1)) = of_bool (bit x i)"
proof -
  have "drop_bit i x AND 1 = of_bool (bit x i)" by (simp add: and_one_eq mod_2_eq_odd bit_iff_odd_drop_bit)
  then show ?thesis using assms by (simp add: f128_new)
qed

lemma level_div: "385 + 256 * d \<le> r \<Longrightarrow> r < 384 + 256 * (d + 1) + 1 \<Longrightarrow> (r - 385) div 256 = (d :: nat)"
  by (rule div_nat_eqI) simp_all

lemma writes_carries:
  assumes "f128_laws E"
  shows "writes (static_cell E w) (\<lambda>c r. c \<in> {7, 8, 12, 13} \<or> c = 4 \<and> (r < 128 \<or> 385 \<le> r \<and> r < 5505)) (spend_carries E w)"
proof -
  let ?g = "static_cell E w"
  note bits = bit_field [OF assms]
  have 1: "writes ?g (\<lambda>c r. \<exists>x \<in> set [0..<8192]. ((c = 7 \<and> r = x \<or> c = 8 \<and> r = x) \<or> c = 12 \<and> r = x) \<or> c = 13 \<and> r = x)
      (fold (\<lambda>r cols. put 13 r (fe_new E (ucast (sw_cv w))) (put 12 r (fe_new E (ucast (sw_v w)))
        (put 8 r (snd (unpack E (sw_b w))) (put 7 r (fst (unpack E (sw_b w))) cols)))) [0..<8192])"
    by (intro writes_fold writes_comp writes_put) (simp_all add: static_cell_def)
  have 2: "writes ?g (\<lambda>c r. \<exists>x \<in> set [0..<64]. c = 4 \<and> r = x \<or> c = 4 \<and> r = 64 + x)
      (fold (\<lambda>i cols. put 4 (64 + i) (fe_new E (ucast (drop_bit i (sw_cv w) AND 1)))
        (put 4 i (fe_new E (ucast (drop_bit i (sw_v w) AND 1))) cols)) [0..<64])"
    by (intro writes_fold writes_comp writes_put) (simp_all add: static_cell_def bits)
  have 3: "writes ?g (\<lambda>c r. \<exists>d \<in> set [0..<20]. \<exists>x \<in> set [385 + 256 * d..<384 + 256 * (d + 1) + 1]. c = 4 \<and> r = x)
      (fold (\<lambda>d cols. fold (\<lambda>r. put 4 r (fe_new E (ucast (drop_bit d (sw_index w) AND 1))))
        [385 + 256 * d..<384 + 256 * (d + 1) + 1] cols) [0..<20])"
    by (intro writes_fold writes_put) (auto simp: static_cell_def bits level_div)
  have 1: "writes ?g (\<lambda>c r. c \<in> {7, 8, 12, 13}) (fold (\<lambda>r cols. put 13 r (fe_new E (ucast (sw_cv w)))
      (put 12 r (fe_new E (ucast (sw_v w)))
        (put 8 r (snd (unpack E (sw_b w))) (put 7 r (fst (unpack E (sw_b w))) cols)))) [0..<8192])"
    by (rule writes_eq [OF 1]) auto
  have 2: "writes ?g (\<lambda>c r. c = 4 \<and> r < 128)
      (fold (\<lambda>i cols. put 4 (64 + i) (fe_new E (ucast (drop_bit i (sw_cv w) AND 1)))
        (put 4 i (fe_new E (ucast (drop_bit i (sw_v w) AND 1))) cols)) [0..<64])"
  proof (rule writes_eq [OF 2])
    fix c r :: nat
    show "(\<exists>x \<in> set [0..<64]. c = 4 \<and> r = x \<or> c = 4 \<and> r = 64 + x) = (c = 4 \<and> r < 128)"
    proof
      assume "c = 4 \<and> r < 128"
      then show "\<exists>x \<in> set [0..<64]. c = 4 \<and> r = x \<or> c = 4 \<and> r = 64 + x"
        by (intro bexI [of _ "if r < 64 then r else r - 64"]) auto
    qed auto
  qed
  have 3: "writes ?g (\<lambda>c r. c = 4 \<and> 385 \<le> r \<and> r < 5505)
      (fold (\<lambda>d cols. fold (\<lambda>r. put 4 r (fe_new E (ucast (drop_bit d (sw_index w) AND 1))))
        [385 + 256 * d..<384 + 256 * (d + 1) + 1] cols) [0..<20])"
    by (rule writes_eq [OF 3]) (simp only: set_upt bex_cells level_rows)
  have "writes ?g (\<lambda>c r. (c \<in> {7, 8, 12, 13} \<or> c = 4 \<and> r < 128) \<or> c = 4 \<and> 385 \<le> r \<and> r < 5505) (spend_carries E w)"
    using writes_comp [OF writes_comp [OF 1 2] 3] unfolding spend_carries_def layout Let_def case_prod_beta by simp
  then show ?thesis by (rule writes_eq) auto
qed

lemma writes_aux:
  "writes (static_cell E w) (\<lambda>c r. (c = 9 \<or> c = 10) \<and> 385 \<le> r) (spend_aux E w)"
proof -
  let ?g = "static_cell E w"
  have 1: "writes ?g (\<lambda>c r. \<exists>d \<in> set [0..<20]. \<exists>x \<in> set [385 + 256 * d..<384 + 256 * (d + 1) + 1].
        c = 9 \<and> r = x \<or> c = 10 \<and> r = x)
      (fold (\<lambda>d cols. fold (\<lambda>r cols. put 10 r (snd (unpack E (sw_siblings w ! d)))
          (put 9 r (fst (unpack E (sw_siblings w ! d))) cols))
        [385 + 256 * d..<384 + 256 * (d + 1) + 1] cols) [0..<20])"
    by (intro writes_fold writes_comp writes_put) (auto simp: static_cell_def level_div Let_def)
  have 2: "writes ?g (\<lambda>c r. \<exists>x \<in> set [5505..<8192]. c = 9 \<and> r = x \<or> c = 10 \<and> r = x)
      (fold (\<lambda>r cols. put 10 r (snd (unpack E (sw_cb w))) (put 9 r (fst (unpack E (sw_cb w))) cols)) [5505..<8192])"
    by (intro writes_fold writes_comp writes_put) (auto simp: static_cell_def simp del: upt_rec_numeral)
  have "writes ?g (\<lambda>c r. (\<exists>d \<in> set [0..<20]. \<exists>x \<in> set [385 + 256 * d..<384 + 256 * (d + 1) + 1].
        c = 9 \<and> r = x \<or> c = 10 \<and> r = x) \<or> (\<exists>x \<in> set [5505..<8192]. c = 9 \<and> r = x \<or> c = 10 \<and> r = x))
      (spend_aux E w)"
    using writes_comp [OF 1 2] unfolding spend_aux_def layout Let_def case_prod_beta by (simp del: upt_rec_numeral)
  then show ?thesis unfolding set_upt bex_cells(2) level_rows unfolding bex_cells(3) by (rule writes_eq) auto
qed

section \<open>The range columns\<close>

lemma acc_step_frame [simp]:
  "is_table k n (acc_step s cols) \<longleftrightarrow> is_table k n cols"
  "c \<noteq> 5 \<Longrightarrow> c \<noteq> 6 \<Longrightarrow> cell (acc_step s cols) c r = cell cols c r"
  "r \<noteq> Suc s \<Longrightarrow> cell (acc_step s cols) c r = cell cols c r"
  by (simp_all add: acc_step_def Let_def)

lemma acc_loop:
  assumes "is_table 14 8192 cols" and "t + m < 8192"
  shows "is_table 14 8192 (fold acc_step [t..<t + m] cols)"
    and "c \<noteq> 5 \<and> c \<noteq> 6 \<or> r \<le> t \<or> t + m < r \<Longrightarrow> cell (fold acc_step [t..<t + m] cols) c r = cell cols c r"
    and "k < m \<Longrightarrow> (let T = fold acc_step [t..<t + m] cols; s = t + k in
      cell T 5 (Suc s) = cell T 5 s + cell T 4 s * cell T 6 s \<and> cell T 6 (Suc s) = cell T 6 s + cell T 6 s)"
proof -
  show "is_table 14 8192 (fold acc_step [t..<t + m] cols)" using assms(1) by (induction m) simp_all
  show "c \<noteq> 5 \<and> c \<noteq> 6 \<or> r \<le> t \<or> t + m < r \<Longrightarrow> cell (fold acc_step [t..<t + m] cols) c r = cell cols c r"
    by (induction m) auto
  show "k < m \<Longrightarrow> (let T = fold acc_step [t..<t + m] cols; s = t + k in
      cell T 5 (Suc s) = cell T 5 s + cell T 4 s * cell T 6 s \<and> cell T 6 (Suc s) = cell T 6 s + cell T 6 s)"
    using assms(2)
  proof (induction m)
    case 0
    then show ?case by simp
  next
    case (Suc m)
    let ?t = "fold acc_step [t..<t + m] cols"
    have f: "fold acc_step [t..<t + Suc m] cols = acc_step (t + m) ?t" by simp
    have "is_table 14 8192 ?t" using assms(1) by (induction m) simp_all
    then have "cell (acc_step (t + m) ?t) 5 (Suc (t + m)) = cell ?t 5 (t + m) + cell ?t 4 (t + m) * cell ?t 6 (t + m)"
      "cell (acc_step (t + m) ?t) 6 (Suc (t + m)) = cell ?t 6 (t + m) + cell ?t 6 (t + m)"
      using Suc.prems by (simp_all add: acc_step_def Let_def cell_put [of 14 8192])
    then show ?case using Suc unfolding f by (cases "k = m") (auto simp: Let_def)
  qed
qed

lemma acc_tail:
  "is_table 14 8192 (fold (\<lambda>r cols. put 6 r (cell (put 5 r (cell cols 5 127) cols) 6 127) (put 5 r (cell cols 5 127) cols)) [128..<m] cols)
     = is_table 14 8192 cols"
  "c \<noteq> 5 \<and> c \<noteq> 6 \<or> r < 128 \<Longrightarrow>
    cell (fold (\<lambda>r cols. put 6 r (cell (put 5 r (cell cols 5 127) cols) 6 127) (put 5 r (cell cols 5 127) cols)) [128..<m] cols) c r
      = cell cols c r"
  by (induction m) auto

lemma acc_columns:
  assumes tab: "is_table 14 8192 cols"
  defines "T \<equiv> spend_acc cols"
  shows "is_table 14 8192 T" and "c \<noteq> 5 \<Longrightarrow> c \<noteq> 6 \<Longrightarrow> cell T c r = cell cols c r"
    and "cell T 5 0 = 0" and "cell T 6 0 = 1" and "cell T 5 64 = 0" and "cell T 6 64 = 1"
    and "s < 63 \<or> 64 \<le> s \<and> s < 127 \<Longrightarrow>
      cell T 5 (Suc s) = cell T 5 s + cell T 4 s * cell T 6 s \<and> cell T 6 (Suc s) = cell T 6 s + cell T 6 s"
proof -
  define A where "A = put 6 0 1 (put 5 0 0 cols)"
  define B where "B = fold acc_step [0..<0 + 63] A"
  define C where "C = put 6 64 1 (put 5 64 0 B)"
  define D where "D = fold acc_step [64..<64 + 63] C"
  have T: "T = fold (\<lambda>r cols. put 6 r (cell (put 5 r (cell cols 5 127) cols) 6 127) (put 5 r (cell cols 5 127) cols)) [128..<8192] D"
    unfolding T_def spend_acc_def Let_def layout D_def C_def B_def A_def by (simp del: upt_rec_numeral)
  have A: "is_table 14 8192 A" "cell A 5 0 = 0" "cell A 6 0 = 1" "\<And>c r. c \<noteq> 5 \<Longrightarrow> c \<noteq> 6 \<Longrightarrow> cell A c r = cell cols c r"
    using tab by (simp_all add: A_def cell_put [of 14 8192])
  have B: "is_table 14 8192 B" unfolding B_def by (rule acc_loop(1) [OF A(1)]) simp
  have C: "is_table 14 8192 C" "cell C 5 64 = 0" "cell C 6 64 = 1" using B by (simp_all add: C_def cell_put [of 14 8192])
  have D: "is_table 14 8192 D" unfolding D_def by (rule acc_loop(1) [OF C(1)]) simp
  note fB = acc_loop(2) [OF A(1), of 0 63, folded B_def] and fD = acc_loop(2) [OF C(1), of 64 63, folded D_def]
  have fC: "cell C c r = cell B c r" if "c \<noteq> 5 \<and> c \<noteq> 6 \<or> r \<noteq> 64" for c r using that by (auto simp: C_def)
  have fT: "cell T c r = cell D c r" if "c \<noteq> 5 \<and> c \<noteq> 6 \<or> r < 128" for c r unfolding T using that by (rule acc_tail(2))
  show "is_table 14 8192 T" using D unfolding T acc_tail(1) .
  show "c \<noteq> 5 \<Longrightarrow> c \<noteq> 6 \<Longrightarrow> cell T c r = cell cols c r" by (simp add: fT fD fC fB A)
  show "cell T 5 0 = 0" "cell T 6 0 = 1" "cell T 5 64 = 0" "cell T 6 64 = 1"
    by (simp_all add: fT fD fC fB A C(2,3))
  show "cell T 5 (Suc s) = cell T 5 s + cell T 4 s * cell T 6 s \<and> cell T 6 (Suc s) = cell T 6 s + cell T 6 s"
    if rng: "s < 63 \<or> 64 \<le> s \<and> s < 127"
  proof (cases "s < 63")
    case True
    then show ?thesis
      using acc_loop(3) [OF A(1), of 0 63 s, folded B_def] by (simp add: fT fD fC Let_def)
  next
    case False
    then obtain k where "s = 64 + k" "k < 63" using rng le_Suc_ex [of 64 s] by auto
    then show ?thesis
      using acc_loop(3) [OF C(1), of 64 63 k, folded D_def] by (simp add: fT Let_def)
  qed
qed

section \<open>The state columns\<close>

lemma freeze_fill: "a = Suc s \<Longrightarrow> b = s + m \<Longrightarrow> freeze_state_rows a b cols = fill_rows (\<lambda>k q. q) s m cols"
  by (simp only: freeze_state_rows_fill)

text \<open>Two permutations with an absorption between them, on the block pair at row \<open>t\<close>.\<close>

definition absorb_rows :: "'f::comm_ring_1 field_env \<Rightarrow> nat \<Rightarrow> 'f \<Rightarrow> 'f \<Rightarrow> 'f table \<Rightarrow> 'f table" where
  "absorb_rows E t x y cols =
     (let cols = fill_rows (\<lambda>k q. q) (t + 65) 63 (fill_rows (poseidon_eval_round_base E) (t + 1) 64 cols)
      in fill_rows (poseidon_eval_round_base E) (t + 129) 64
           (put_state (t + 129) (add4 (state_at cols (t + 128)) x y) cols))"

definition sponge_ok :: "'f::comm_ring_1 field_env \<Rightarrow> nat \<Rightarrow> 'f \<Rightarrow> 'f \<Rightarrow> (nat \<Rightarrow> 'f quad) \<Rightarrow> bool" where
  "sponge_ok E t x y st \<longleftrightarrow>
     (\<forall>k < 64. st (t + 2 + k) = poseidon_eval_round_base E k (st (t + 1 + k)) \<and>
        st (t + 130 + k) = poseidon_eval_round_base E k (st (t + 129 + k))) \<and>
     (\<forall>j < 63. st (t + 66 + j) = st (t + 65 + j)) \<and> st (t + 129) = add4 (st (t + 128)) x y"

lemma sponge_ok_cong:
  "(\<And>r. t < r \<Longrightarrow> r \<le> t + 193 \<Longrightarrow> st' r = st r) \<Longrightarrow> sponge_ok E t x y st' \<longleftrightarrow> sponge_ok E t x y st"
  by (simp add: sponge_ok_def)

lemma absorb_rows_frame [simp]:
  "is_table w n (absorb_rows E t x y cols) \<longleftrightarrow> is_table w n cols"
  "4 \<le> c \<Longrightarrow> cell (absorb_rows E t x y cols) c r = cell cols c r"
  "r \<le> t + 1 \<or> t + 193 < r \<Longrightarrow> state_at (absorb_rows E t x y cols) r = state_at cols r"
  by (auto simp: absorb_rows_def Let_def)

lemma absorb_rows_ok:
  assumes tab: "is_table 14 8192 cols" and t: "t + 193 < 8192"
  shows "sponge_ok E t x y (state_at (absorb_rows E t x y cols))"
proof -
  define A where "A = fill_rows (poseidon_eval_round_base E) (t + 1) 64 cols"
  define B where "B = fill_rows (\<lambda>k q. q) (t + 65) 63 A"
  define C where "C = put_state (t + 129) (add4 (state_at B (t + 128)) x y) B"
  define D where "D = fill_rows (poseidon_eval_round_base E) (t + 129) 64 C"
  have T: "absorb_rows E t x y cols = D" by (simp add: absorb_rows_def Let_def A_def B_def C_def D_def)
  have tabs: "is_table 14 8192 A" "is_table 14 8192 B" "is_table 14 8192 C" using tab by (simp_all add: A_def B_def C_def)
  have DB: "state_at D r = state_at B r" if "r \<le> t + 128" for r using that by (simp add: D_def C_def)
  have BA: "state_at B r = state_at A r" if "r \<le> t + 65" for r using that by (simp add: B_def)
  have "state_at D (t + 2 + k) = poseidon_eval_round_base E k (state_at D (t + 1 + k))" if "k < 64" for k
    using fill_rows_step [OF tab, of "t + 1" 64 k "poseidon_eval_round_base E"] that t by (simp add: DB BA A_def)
  moreover have "state_at D (t + 130 + k) = poseidon_eval_round_base E k (state_at D (t + 129 + k))" if "k < 64" for k
  proof -
    have "t + 130 + k = Suc (t + 129 + k)" by simp
    then show ?thesis
      unfolding D_def by (simp only:) (rule fill_rows_step [OF tabs(3)], use that t in simp_all)
  qed
  moreover have "state_at D (t + 66 + j) = state_at D (t + 65 + j)" if "j < 63" for j
  proof -
    have "t + 66 + j = Suc (t + 65 + j)" by simp
    moreover have "state_at B (Suc (t + 65 + j)) = state_at B (t + 65 + j)"
      unfolding B_def by (rule fill_rows_step [OF tabs(1)]) (use that t in simp_all)
    moreover have "state_at D (t + 66 + j) = state_at B (t + 66 + j)" "state_at D (t + 65 + j) = state_at B (t + 65 + j)"
      using that by (intro DB; simp)+
    ultimately show ?thesis by (simp only:)
  qed
  moreover have "state_at D (t + 129) = add4 (state_at D (t + 128)) x y"
    using state_at_put_state [OF tabs(2), of "t + 129"] t by (simp add: DB) (simp add: D_def C_def)
  ultimately show ?thesis by (simp add: T sponge_ok_def)
qed

lemma put_add4:
  "put_state r (cell cols 0 q, cell cols 1 q + x, cell cols 2 q + y, cell cols 3 q) cols = put_state r (add4 (state_at cols q) x y) cols"
  "put_state r (cell cols 0 q, cell cols 1 q + x, cell cols 2 q, cell cols 3 q) cols = put_state r (add4 (state_at cols q) x 0) cols"
  by (simp_all add: add4_def state_at_def)

text \<open>The nullifier and note blocks.\<close>

lemma note_rows:
  fixes E :: "'f::comm_ring_1 field_env" and w
  assumes tab: "is_table 14 8192 cols"
  defines "T \<equiv> spend_note_rows E w cols"
  shows "is_table 14 8192 T" and "4 \<le> c \<Longrightarrow> cell T c r = cell cols c r"
    and "state_at T 0 = (nullifier_iv E, fst (unpack E (sw_b w)), snd (unpack E (sw_b w)), 0)"
    and "state_at T 129 = (note_iv E, fe_new E (ucast (sw_v w)), fst (unpack E (sw_b w)), snd (unpack E (sw_b w)))"
    and "k < 64 \<Longrightarrow> state_at T (2 + k) = poseidon_eval_round_base E k (state_at T (1 + k))"
    and "i = 0 \<or> 65 \<le> i \<and> i < 128 \<or> 321 \<le> i \<and> i < 384 \<Longrightarrow> state_at T (Suc i) = state_at T i"
    and "sponge_ok E 128 (fst (unpack E (sw_pkd w))) (snd (unpack E (sw_pkd w))) (state_at T)"
proof -
  let ?b = "unpack E (sw_b w)" and ?p = "unpack E (sw_pkd w)"
  define A where "A = put_state 0 (nullifier_iv E, fst ?b, snd ?b, 0) cols"
  define B where "B = fill_rows (\<lambda>k q. q) 0 1 A"
  define C where "C = fill_rows (poseidon_eval_round_base E) 1 64 B"
  define D where "D = fill_rows (\<lambda>k q. q) 65 63 C"
  define F where "F = put_state 129 (note_iv E, fe_new E (ucast (sw_v w)), fst ?b, snd ?b) D"
  define G where "G = absorb_rows E 128 (fst ?p) (snd ?p) F"
  have fr: "freeze_state_rows 1 1 X = fill_rows (\<lambda>k q. q) 0 1 X" "freeze_state_rows 66 128 X = fill_rows (\<lambda>k q. q) 65 63 X"
    "freeze_state_rows 194 256 X = fill_rows (\<lambda>k q. q) 193 63 X" "freeze_state_rows 322 384 X = fill_rows (\<lambda>k q. q) 321 63 X"
    for X :: "'f table" by (rule freeze_fill; simp)+
  have T: "T = fill_rows (\<lambda>k q. q) 321 63 G"
    unfolding T_def spend_note_rows_def Let_def case_prod_beta put_add4 fr run_perm_rows_fill G_def F_def D_def C_def B_def A_def
      absorb_rows_def by simp
  have tabs: "is_table 14 8192 A" "is_table 14 8192 B" "is_table 14 8192 C" "is_table 14 8192 D" "is_table 14 8192 F"
    "is_table 14 8192 G"
    using tab by (simp_all add: A_def B_def C_def D_def F_def G_def)
  show "is_table 14 8192 T" using tabs by (simp add: T)
  show "4 \<le> c \<Longrightarrow> cell T c r = cell cols c r" by (simp add: T G_def F_def D_def C_def B_def A_def)
  have TG: "state_at T r = state_at G r" if "r \<le> 321" for r using that by (simp add: T)
  have TF: "state_at T r = state_at F r" if "r \<le> 129" for r using that by (simp add: TG G_def)
  have TD: "state_at T r = state_at D r" if "r \<le> 128" for r using that by (simp add: TF F_def)
  have TB: "state_at T r = state_at B r" if "r \<le> 1" for r using that by (simp add: TD D_def C_def)
  show "state_at T 0 = (nullifier_iv E, fst ?b, snd ?b, 0)"
    using state_at_put_state [OF tab, of 0] by (simp add: TB B_def A_def)
  show "state_at T 129 = (note_iv E, fe_new E (ucast (sw_v w)), fst ?b, snd ?b)"
    using state_at_put_state [OF tabs(4), of 129] by (simp add: TF F_def)
  show "k < 64 \<Longrightarrow> state_at T (2 + k) = poseidon_eval_round_base E k (state_at T (1 + k))"
    using fill_rows_step [OF tabs(2), of 1 64 k "poseidon_eval_round_base E"] by (simp add: TD D_def C_def)
  show "sponge_ok E 128 (fst ?p) (snd ?p) (state_at T)"
    using absorb_rows_ok [OF tabs(5), of 128 E "fst ?p" "snd ?p"] sponge_ok_cong [of 128 "state_at T" "state_at G"]
    by (simp add: TG G_def)
  show "i = 0 \<or> 65 \<le> i \<and> i < 128 \<or> 321 \<le> i \<and> i < 384 \<Longrightarrow> state_at T (Suc i) = state_at T i"
  proof (elim disjE conjE)
    assume "i = 0"
    then show ?thesis using fill_rows_step [OF tabs(1), of 0 1 0 "\<lambda>k q. q"] by (simp add: TB B_def)
  next
    assume i: "65 \<le> i" "i < 128"
    then obtain k where "i = 65 + k" "k < 63" using le_Suc_ex by auto
    then show ?thesis using fill_rows_step [OF tabs(3), of 65 63 k "\<lambda>k q. q"] by (simp add: TD D_def)
  next
    assume i: "321 \<le> i" "i < 384"
    then obtain k where "i = 321 + k" "k < 63" using le_Suc_ex by auto
    then show ?thesis using fill_rows_step [OF tabs(6), of 321 63 k "\<lambda>k q. q"] by (simp add: T)
  qed
qed

text \<open>One Merkle level: what its rows satisfy, and what it leaves alone.\<close>

definition level_ins :: "'f::comm_ring_1 field_env \<Rightarrow> spend_witness \<Rightarrow> nat \<Rightarrow> 'f quad \<Rightarrow> 'f quad \<times> 'f" where
  "level_ins E w d s =
     (let (s_lo, s_hi) = unpack E (sw_siblings w ! d); cur1 = fst (snd s); cur2 = fst (snd (snd s))
      in if bit (sw_index w) d then ((merkle_iv E, s_lo, s_hi, cur1), cur2)
         else ((merkle_iv E, cur1, cur2, s_lo), s_hi))"

definition level_ok :: "'f::comm_ring_1 field_env \<Rightarrow> spend_witness \<Rightarrow> nat \<Rightarrow> (nat \<Rightarrow> 'f quad) \<Rightarrow> (nat \<Rightarrow> 'f) \<Rightarrow> bool" where
  "level_ok E w d st h \<longleftrightarrow>
     (let t = 384 + 256 * d; (link, r_hi) = level_ins E w d (st t)
      in st (t + 1) = link \<and> sponge_ok E t r_hi 0 st \<and> (\<forall>j < 63. st (t + 194 + j) = st (t + 193 + j)) \<and>
         (\<forall>r. t < r \<and> r \<le> t + 256 \<longrightarrow> h r = r_hi) \<and>
         (\<forall>r. d = 19 \<and> t < r \<and> r < 8192 \<longrightarrow> h r = r_hi))"

lemma level_ok_cong:
  assumes "\<And>r. r \<le> 640 + 256 * d \<Longrightarrow> st' r = st r" and "\<And>r. r \<le> 640 + 256 * d \<or> d = 19 \<Longrightarrow> h' r = h r"
    and "level_ok E w d st h"
  shows "level_ok E w d st' h'"
  using assms(3) sponge_ok_cong [of "384 + 256 * d" st' st E] assms(1,2)
  by (simp add: level_ok_def Let_def case_prod_beta)

lemma col11_loop:
  assumes "is_table 14 8192 cols"
  shows "is_table 14 8192 (fold (\<lambda>r. put 11 r x) rs cols) \<and>
    (\<forall>r < 8192. cell (fold (\<lambda>r. put 11 r x) rs cols) 11 r = (if r \<in> set rs then x else cell cols 11 r)) \<and>
    (\<forall>c r. c \<noteq> 11 \<longrightarrow> cell (fold (\<lambda>r. put 11 r x) rs cols) c r = cell cols c r)"
  using assms by (induction rs arbitrary: cols) (auto simp: cell_put [of 14 8192])

lemma state_at_cong: "(\<And>c. c < 4 \<Longrightarrow> cell T c r = cell T' c r) \<Longrightarrow> state_at T r = state_at T' r"
  by (simp add: state_at_def)

lemma odd_index: "(drop_bit d (x :: 'a::len word) AND 1 = 1) = bit x d"
  by (simp add: and_one_eq mod_2_eq_odd bit_iff_odd_drop_bit)

lemma level_rows_ok:
  fixes E :: "'f::comm_ring_1 field_env" and w
  assumes tab: "is_table 14 8192 cols" and d: "d < 20"
  defines "T \<equiv> spend_level_rows E w d cols"
  shows "is_table 14 8192 T" and "4 \<le> c \<Longrightarrow> c \<noteq> 11 \<Longrightarrow> cell T c r = cell cols c r"
    and "r \<le> 384 + 256 * d \<Longrightarrow> state_at T r = state_at cols r \<and> cell T 11 r = cell cols 11 r"
    and "level_ok E w d (state_at T) (cell T 11)"
proof -
  define t where "t = 384 + 256 * d"
  have t: "t + 256 < 8192" using d by (simp add: t_def)
  obtain x1 x2 x3 rhi where ins: "level_ins E w d (state_at cols t) = ((merkle_iv E, x1, x2, x3), rhi)"
    by (cases "bit (sw_index w) d") (auto simp: level_ins_def Let_def case_prod_beta)
  let ?link = "(merkle_iv E, x1, x2, x3)"
  define A where "A = put_state (t + 1) ?link cols"
  define B where "B = fold (\<lambda>r. put 11 r rhi) [t + 1..<t + 256 + 1] A"
  define C where "C = absorb_rows E t rhi 0 B"
  define D where "D = fill_rows (\<lambda>k q. q) (t + 193) 63 C"
  have fr: "freeze_state_rows (t + 66) (t + 128) X = fill_rows (\<lambda>k q. q) (t + 65) 63 X"
    "freeze_state_rows (t + 194) (t + 256) X = fill_rows (\<lambda>k q. q) (t + 193) 63 X" for X :: "'f table"
    by (rule freeze_fill; simp)+
  have mn: "min (t + 256) 8191 = t + 256" using t by simp
  have ins': "(if drop_bit d (sw_index w) AND 1 = 1
      then (fst (unpack E (sw_siblings w ! d)), snd (unpack E (sw_siblings w ! d)), cell cols 1 t, cell cols 2 t)
      else (cell cols 1 t, cell cols 2 t, fst (unpack E (sw_siblings w ! d)), snd (unpack E (sw_siblings w ! d)))) =
      (x1, x2, x3, rhi)"
    using ins unfolding odd_index by (auto simp: level_ins_def Let_def case_prod_beta state_at_def split: if_splits)
  have T: "T = (if d = 19 then fold (\<lambda>r. put 11 r rhi) [t + 257..<8192] D else D)"
    unfolding T_def spend_level_rows_def layout Let_def t_def [symmetric] case_prod_beta ins' fst_conv snd_conv
      put_add4 run_perm_rows_fill D_def C_def B_def A_def absorb_rows_def
    by (simp add: mn fr del: upt_Suc)
  have tA: "is_table 14 8192 A" using tab by (simp add: A_def)
  note fB = col11_loop [OF tA, of rhi "[t + 1..<t + 256 + 1]", folded B_def]
  have tabs: "is_table 14 8192 B" "is_table 14 8192 C" "is_table 14 8192 D" using fB by (simp_all add: C_def D_def)
  note fT = col11_loop [OF tabs(3), of rhi "[t + 257..<8192]"]
  show "is_table 14 8192 T" using tabs fT by (simp add: T)
  have cT: "cell T c r = cell D c r" if "c \<noteq> 11" for c r using fT that by (simp add: T)
  have c11: "cell D 11 r = cell B 11 r" for r by (simp add: D_def C_def)
  have sT: "state_at T r = state_at D r" for r by (rule state_at_cong) (simp add: cT)
  have sB: "state_at B r = state_at A r" for r by (rule state_at_cong) (use fB in simp)
  show "4 \<le> c \<Longrightarrow> c \<noteq> 11 \<Longrightarrow> cell T c r = cell cols c r" using fB by (simp add: cT D_def C_def A_def)
  have h: "cell T 11 r = rhi" if "t < r" "r \<le> t + 256 \<or> d = 19 \<and> r < 8192" for r
    using that fB fT t by (cases "r \<le> t + 256") (auto simp: T c11)
  have h0: "cell T 11 r = cell cols 11 r" if "r \<le> t" for r
    using that fB fT t by (auto simp: T c11 A_def)
  have s0: "state_at T r = state_at cols r" if "r \<le> t" for r
    using that by (simp add: sT D_def C_def sB A_def)
  show "r \<le> 384 + 256 * d \<Longrightarrow> state_at T r = state_at cols r \<and> cell T 11 r = cell cols 11 r"
    using h0 s0 by (simp add: t_def)
  have "state_at T (t + 1) = ?link"
    using state_at_put_state [OF tab, of "t + 1"] t by (simp add: sT D_def C_def sB A_def)
  moreover have "sponge_ok E t rhi 0 (state_at T)"
    using absorb_rows_ok [OF tabs(1), of t E rhi 0] sponge_ok_cong [of t "state_at T" "state_at C"] t
    by (simp add: sT D_def C_def)
  moreover have "state_at T (t + 194 + j) = state_at T (t + 193 + j)" if "j < 63" for j
  proof -
    have "t + 194 + j = Suc (t + 193 + j)" by simp
    moreover have "state_at D (Suc (t + 193 + j)) = state_at D (t + 193 + j)"
      unfolding D_def by (rule fill_rows_step [OF tabs(2)]) (use that t in simp_all)
    ultimately show ?thesis unfolding sT by (simp only:)
  qed
  ultimately show "level_ok E w d (state_at T) (cell T 11)"
    unfolding level_ok_def Let_def t_def [symmetric] using h s0 [of t] ins by auto
qed

lemma levels_ok:
  fixes E :: "'f::comm_ring_1 field_env" and w
  assumes tab: "is_table 14 8192 cols"
  shows "m \<le> 20 \<Longrightarrow> is_table 14 8192 (fold (spend_level_rows E w) [0..<m] cols) \<and>
    (\<forall>c r. 4 \<le> c \<longrightarrow> c \<noteq> 11 \<longrightarrow> cell (fold (spend_level_rows E w) [0..<m] cols) c r = cell cols c r) \<and>
    (\<forall>r \<le> 384. state_at (fold (spend_level_rows E w) [0..<m] cols) r = state_at cols r \<and>
      cell (fold (spend_level_rows E w) [0..<m] cols) 11 r = cell cols 11 r) \<and>
    (\<forall>d < m. level_ok E w d (state_at (fold (spend_level_rows E w) [0..<m] cols))
      (cell (fold (spend_level_rows E w) [0..<m] cols) 11))"
proof (induction m)
  case 0
  then show ?case using tab by simp
next
  case (Suc m)
  let ?T = "fold (spend_level_rows E w) [0..<m] cols"
  have IH: "is_table 14 8192 ?T" and m: "m < 20" using Suc by simp_all
  have f: "fold (spend_level_rows E w) [0..<Suc m] cols = spend_level_rows E w m ?T" by simp
  note l = level_rows_ok [OF IH m, where E = E and w = w]
  have "level_ok E w d (state_at (spend_level_rows E w m ?T)) (cell (spend_level_rows E w m ?T) 11)" if "d < Suc m" for d
  proof (cases "d = m")
    case True
    then show ?thesis using l(4) by simp
  next
    case False
    then have dm: "d < m" using that by simp
    then have "640 + 256 * d \<le> 384 + 256 * m" by simp
    moreover have "d \<noteq> 19" using dm m by simp
    moreover have "level_ok E w d (state_at ?T) (cell ?T 11)" using Suc dm by simp
    ultimately show ?thesis by (elim level_ok_cong [rotated 2]) (use l(3) in auto)
  qed
  then show ?case unfolding f using Suc l(1-3) by simp
qed

text \<open>The change blocks.\<close>

lemma change_rows:
  fixes E :: "'f::comm_ring_1 field_env" and w
  assumes tab: "is_table 14 8192 cols"
  defines "T \<equiv> spend_change_rows E w cols"
  shows "is_table 14 8192 T" and "4 \<le> c \<Longrightarrow> cell T c r = cell cols c r"
    and "r \<le> 5504 \<Longrightarrow> state_at T r = state_at cols r"
    and "state_at T 5505 = (note_iv E, fe_new E (ucast (sw_cv w)), fst (unpack E (sw_cb w)), snd (unpack E (sw_cb w)))"
    and "sponge_ok E 5504 (fst (unpack E (sw_cpkd w))) (snd (unpack E (sw_cpkd w))) (state_at T)"
    and "5697 \<le> i \<Longrightarrow> i < 8191 \<Longrightarrow> state_at T (Suc i) = state_at T i"
proof -
  let ?b = "unpack E (sw_cb w)" and ?p = "unpack E (sw_cpkd w)"
  define A where "A = put_state 5505 (note_iv E, fe_new E (ucast (sw_cv w)), fst ?b, snd ?b) cols"
  define B where "B = absorb_rows E 5504 (fst ?p) (snd ?p) A"
  have fr: "freeze_state_rows 5570 5632 X = fill_rows (\<lambda>k q. q) 5569 63 X"
    "freeze_state_rows 5698 8191 X = fill_rows (\<lambda>k q. q) 5697 2494 X" for X :: "'f table"
    by (rule freeze_fill; simp)+
  have T: "T = fill_rows (\<lambda>k q. q) 5697 2494 B"
    unfolding T_def spend_change_rows_def layout Let_def case_prod_beta put_add4 run_perm_rows_fill B_def A_def absorb_rows_def
    by (simp add: fr)
  have tabs: "is_table 14 8192 A" "is_table 14 8192 B" using tab by (simp_all add: A_def B_def)
  show "is_table 14 8192 T" using tabs by (simp add: T)
  show "4 \<le> c \<Longrightarrow> cell T c r = cell cols c r" by (simp add: T B_def A_def)
  have TB: "state_at T r = state_at B r" if "r \<le> 5697" for r using that by (simp add: T)
  have TA: "state_at T r = state_at A r" if "r \<le> 5505" for r using that by (simp add: TB B_def)
  show "r \<le> 5504 \<Longrightarrow> state_at T r = state_at cols r" by (simp add: TA A_def)
  show "state_at T 5505 = (note_iv E, fe_new E (ucast (sw_cv w)), fst ?b, snd ?b)"
    using state_at_put_state [OF tab, of 5505] by (simp add: TA A_def)
  show "sponge_ok E 5504 (fst ?p) (snd ?p) (state_at T)"
    using absorb_rows_ok [OF tabs(1), of 5504 E "fst ?p" "snd ?p"] sponge_ok_cong [of 5504 "state_at T" "state_at B"]
    by (simp add: TB B_def)
  show "5697 \<le> i \<Longrightarrow> i < 8191 \<Longrightarrow> state_at T (Suc i) = state_at T i"
  proof -
    assume i: "5697 \<le> i" "i < 8191"
    then obtain k where "i = 5697 + k" "k < 2494" using le_Suc_ex by auto
    then show ?thesis using fill_rows_step [OF tabs(2), of 5697 2494 k "\<lambda>k q. q"] by (simp add: T)
  qed
qed

section \<open>The finished table\<close>

lemma spend_table:
  fixes E :: "'f::comm_ring_1 field_env" and w
  assumes laws: "f128_laws E"
  defines "T \<equiv> build_spend_trace E w"
  shows "is_table 14 8192 T"
    and "c \<in> {4, 7, 8, 12, 13} \<or> c \<in> {9, 10} \<and> 385 \<le> r \<Longrightarrow> r < 8192 \<Longrightarrow> cell T c r = static_cell E w c r"
    and "c \<in> {9, 10, 11} \<Longrightarrow> r \<le> 384 \<Longrightarrow> cell T c r = 0"
    and "cell T 5 0 = 0" "cell T 6 0 = 1" "cell T 5 64 = 0" "cell T 6 64 = 1"
    and "i < 63 \<or> 64 \<le> i \<and> i < 127 \<Longrightarrow>
      cell T 5 (Suc i) = cell T 5 i + cell T 4 i * cell T 6 i \<and> cell T 6 (Suc i) = cell T 6 i + cell T 6 i"
    and "state_at T 0 = (nullifier_iv E, fst (unpack E (sw_b w)), snd (unpack E (sw_b w)), 0)"
    and "state_at T 129 = (note_iv E, fe_new E (ucast (sw_v w)), fst (unpack E (sw_b w)), snd (unpack E (sw_b w)))"
    and "k < 64 \<Longrightarrow> state_at T (2 + k) = poseidon_eval_round_base E k (state_at T (1 + k))"
    and "i = 0 \<or> 65 \<le> i \<and> i < 128 \<or> 321 \<le> i \<and> i < 384 \<or> 5697 \<le> i \<and> i < 8191 \<Longrightarrow> state_at T (Suc i) = state_at T i"
    and "sponge_ok E 128 (fst (unpack E (sw_pkd w))) (snd (unpack E (sw_pkd w))) (state_at T)"
    and "d < 20 \<Longrightarrow> level_ok E w d (state_at T) (cell T 11)"
    and "state_at T 5505 = (note_iv E, fe_new E (ucast (sw_cv w)), fst (unpack E (sw_cb w)), snd (unpack E (sw_cb w)))"
    and "sponge_ok E 5504 (fst (unpack E (sw_cpkd w))) (snd (unpack E (sw_cpkd w))) (state_at T)"
proof -
  define Z where "Z = replicate 14 (replicate 8192 (0 :: 'f))"
  define A where "A = spend_carries E w Z"
  define B where "B = spend_acc A"
  define C where "C = spend_aux E w B"
  define N where "N = spend_note_rows E w C"
  define L where "L = fold (spend_level_rows E w) [0..<20] N"
  have T: "T = spend_change_rows E w L"
    by (simp add: T_def build_spend_trace_def Let_def layout TRACE_WIDTH_def Z_def A_def B_def C_def N_def L_def)
  have Z: "is_table 14 8192 Z" "\<And>c r. c < 14 \<Longrightarrow> r < 8192 \<Longrightarrow> cell Z c r = 0"
    unfolding Z_def by (rule is_table_new) (rule cell_new)
  note wA = writesD [OF writes_carries [OF laws, of w] Z(1), folded A_def]
  note aB = acc_columns [OF wA(1), folded B_def]
  note wC = writesD [OF writes_aux [of E w] aB(1), folded C_def]
  note nN = note_rows [OF wC(1), where E = E and w = w, folded N_def]
  note lL = levels_ok [OF nN(1), where E = E and w = w and m = 20, folded L_def, simplified]
  note cT = change_rows [where E = E and w = w and cols = L, folded T]
  have tL: "is_table 14 8192 L" using lL by simp
  have TL: "state_at T r = state_at L r" if "r \<le> 5504" for r by (rule cT(3) [OF tL that])
  have TN: "state_at T r = state_at N r" if "r \<le> 384" for r using TL [of r] lL that by simp
  have cTC: "cell T c r = cell C c r" if "4 \<le> c" "c \<noteq> 11" for c r using cT(2) [OF tL that(1)] lL nN(2) that by simp
  have cTB: "cell T c r = cell B c r" if "c \<in> {4, 5, 6, 7, 8, 12, 13} \<or> c \<in> {9, 10} \<and> r < 385" "r < 8192" for c r
    using cTC [of c r] wC(2) [of c r] that by auto
  show "is_table 14 8192 T" by (rule cT(1) [OF tL])
  show "c \<in> {4, 7, 8, 12, 13} \<or> c \<in> {9, 10} \<and> 385 \<le> r \<Longrightarrow> r < 8192 \<Longrightarrow> cell T c r = static_cell E w c r"
  proof -
    assume a: "c \<in> {4, 7, 8, 12, 13} \<or> c \<in> {9, 10} \<and> 385 \<le> r" "r < 8192"
    show ?thesis
    proof (cases "c \<in> {9, 10}")
      case True
      then show ?thesis using a wC(2) [of c r] cTC [of c r] by auto
    next
      case False
      then have c: "c \<in> {4, 7, 8, 12, 13}" using a by blast
      then have "cell T c r = cell A c r" using a(2) cTB [of c r] aB(2) [of c r] by auto
      moreover have "c = 4 \<and> \<not> (r < 128 \<or> 385 \<le> r \<and> r < 5505) \<Longrightarrow> static_cell E w c r = 0"
        by (auto simp: static_cell_def)
      moreover have "cell A c r = (if c \<noteq> 4 \<or> r < 128 \<or> 385 \<le> r \<and> r < 5505 then static_cell E w c r else 0)"
        using c a(2) wA(2) [of c r] Z(2) [of c r] by auto
      ultimately show ?thesis by (cases "c \<noteq> 4 \<or> r < 128 \<or> 385 \<le> r \<and> r < 5505") simp_all
    qed
  qed
  show "c \<in> {9, 10, 11} \<Longrightarrow> r \<le> 384 \<Longrightarrow> cell T c r = 0"
  proof -
    assume a: "c \<in> {9, 10, 11}" "r \<le> 384"
    have "cell A c r = 0" using a wA(2) [of c r] Z(2) [of c r] by auto
    moreover have "cell T c r = cell A c r"
      using a cTC [of c r] wC(2) [of c r] aB(2) [of c r] cT(2) [OF tL, of c r] lL nN(2) [of c r] by auto
    ultimately show ?thesis by simp
  qed
  show "cell T 5 0 = 0" "cell T 6 0 = 1" "cell T 5 64 = 0" "cell T 6 64 = 1" using aB(3-6) by (simp_all add: cTB)
  show "i < 63 \<or> 64 \<le> i \<and> i < 127 \<Longrightarrow>
      cell T 5 (Suc i) = cell T 5 i + cell T 4 i * cell T 6 i \<and> cell T 6 (Suc i) = cell T 6 i + cell T 6 i"
    using aB(7) [of i] by (auto simp: cTB)
  show "state_at T 0 = (nullifier_iv E, fst (unpack E (sw_b w)), snd (unpack E (sw_b w)), 0)"
    "state_at T 129 = (note_iv E, fe_new E (ucast (sw_v w)), fst (unpack E (sw_b w)), snd (unpack E (sw_b w)))"
    using nN(3,4) by (simp_all add: TN)
  show "k < 64 \<Longrightarrow> state_at T (2 + k) = poseidon_eval_round_base E k (state_at T (1 + k))"
    using nN(5) [of k] by (simp add: TN)
  show "i = 0 \<or> 65 \<le> i \<and> i < 128 \<or> 321 \<le> i \<and> i < 384 \<or> 5697 \<le> i \<and> i < 8191 \<Longrightarrow> state_at T (Suc i) = state_at T i"
    using nN(6) [of i] cT(6) [OF tL, of i] by (auto simp: TN)
  show "sponge_ok E 128 (fst (unpack E (sw_pkd w))) (snd (unpack E (sw_pkd w))) (state_at T)"
    using nN(7) by (subst sponge_ok_cong [of 128 _ "state_at N"]) (simp_all add: TN)
  show "level_ok E w d (state_at T) (cell T 11)" if d: "d < 20" for d
  proof (rule level_ok_cong)
    show "level_ok E w d (state_at L) (cell L 11)" using lL d by simp
  qed (use TL d cT(2) [OF tL] in auto)
  show "state_at T 5505 = (note_iv E, fe_new E (ucast (sw_cv w)), fst (unpack E (sw_cb w)), snd (unpack E (sw_cb w)))"
    "sponge_ok E 5504 (fst (unpack E (sw_cpkd w))) (snd (unpack E (sw_cpkd w))) (state_at T)"
    using cT(4,5) [OF tL] by simp_all
qed

end
