(* ===== verification/SpendComplete.thy ===== *)
theory SpendComplete
  imports SpendProver
begin

text \<open>
  Completeness of the v2 spend circuit: the constraints of \<open>SpendAir\<close> grouped into those on the state
  columns and those beside them, each group checked on the rows of the prover's table
  (\<open>proofhub/verifier/src/lib.rs\<close>, \<open>spend_v2::prover_impl\<close>).
\<close>

section \<open>The constraints, step by step\<close>

definition state_step :: "'f::comm_ring_1 field_env \<Rightarrow> spend_pi \<Rightarrow> nat \<Rightarrow> 'f row \<Rightarrow> 'f row \<Rightarrow> bool" where
  "state_step E pi i c n \<longleftrightarrow>
     (if i < 5760 \<and> 1 \<le> i mod 128 \<and> i mod 128 < 65 then state4 n = poseidon_eval_round_base E (i mod 128 - 1) (state4 c)
      else if i = 0 \<or> i < 5760 \<and> 65 \<le> i mod 128 then state4 n = state4 c
      else if i = 128 then state4 n = (note_iv E, c ! 12, c ! 7, c ! 8)
      else if i = 256 then state4 n = add4 (state4 c) (fst (unpack E (pi_pkd pi))) (snd (unpack E (pi_pkd pi)))
      else if merkle_link i then
        state4 n = (merkle_iv E, mux (n ! 4) (n ! 9) (c ! 1), mux (n ! 4) (n ! 10) (c ! 2), mux (n ! 4) (c ! 1) (n ! 9))
      else if merkle_absorb i then state4 n = add4 (state4 c) (c ! 11) 0
      else if i = 5504 then state4 n = (note_iv E, c ! 13, n ! 9, n ! 10)
      else if i = 5632 then
        state4 n = add4 (state4 c) (fst (unpack E (pi_change_pkd pi))) (snd (unpack E (pi_change_pkd pi)))
      else True)"

definition beside_step :: "'f::comm_ring_1 field_env \<Rightarrow> spend_pi \<Rightarrow> nat \<Rightarrow> 'f row \<Rightarrow> 'f row \<Rightarrow> bool" where
  "beside_step E pi i c n \<longleftrightarrow>
     c ! 4 * (c ! 4 - 1) = 0 \<and>
     (i < 63 \<or> 64 \<le> i \<and> i < 127 \<longrightarrow> n ! 5 = c ! 5 + c ! 4 * c ! 6 \<and> n ! 6 = c ! 6 + c ! 6) \<and>
     (i = 63 \<longrightarrow> n ! 5 = 0 \<and> n ! 6 = 1 \<and> c ! 5 + c ! 4 * c ! 6 = c ! 12) \<and>
     (i = 127 \<longrightarrow> c ! 5 + c ! 4 * c ! 6 = c ! 13) \<and>
     n ! 7 = c ! 7 \<and> n ! 8 = c ! 8 \<and> n ! 12 = c ! 12 \<and> n ! 13 = c ! 13 \<and>
     (\<not> merkle_link i \<and> i \<noteq> 5504 \<longrightarrow> n ! 9 = c ! 9 \<and> n ! 10 = c ! 10) \<and>
     (384 \<le> i \<and> i < 5504 \<and> (i - 384) mod 256 \<noteq> 0 \<longrightarrow> n ! 4 = c ! 4) \<and>
     n ! 11 = (if merkle_link i then mux (n ! 4) (c ! 2) (n ! 10) else c ! 11) \<and>
     c ! 12 = fe_new E (ucast (mode pi)) * c ! 13 + fe_new E (ucast (price_or_amount pi)) \<and>
     (1 - fe_new E (ucast (mode pi))) * c ! 13 = 0 \<and>
     (i = 0 \<longrightarrow> state4 c = (nullifier_iv E, c ! 7, c ! 8, 0))"

lemma boundary_steps:
  assumes "i mod 128 = 0" and "i \<noteq> 0" and "i < 5760"
  shows "i = 128 \<or> i = 256 \<or> i = 5504 \<or> i = 5632 \<or> merkle_link i \<or> merkle_absorb i"
proof -
  define q where "q = i div 256"
  have e: "i = 256 * q + i mod 256" "i mod 256 < 256" by (simp_all add: q_def)
  have "i mod 256 mod 128 = 0" using assms(1) by (simp add: mod_mod_cancel)
  then have "i mod 256 = 128 * (i mod 256 div 128)" using mult_div_mod_eq [of 128 "i mod 256"] by simp
  moreover have "i mod 256 div 128 = 0 \<or> i mod 256 div 128 = 1" using e(2) by (auto simp: less_Suc_eq_le div_le_mono less_mult_imp_div_less numeral_2_eq_2)
  ultimately have "i mod 256 = 0 \<or> i mod 256 = 128" by auto
  then show ?thesis
  proof
    assume "i mod 256 = 0"
    moreover from this have "i = 256 * q" "1 \<le> q" "q < 23" using assms e by linarith+
    ultimately show ?thesis unfolding merkle_absorb_iff by (cases "q = 1"; cases "q = 22") auto
  next
    assume "i mod 256 = 128"
    moreover from this have "i = 256 * q + 128" "q < 22" using assms e by linarith+
    ultimately show ?thesis unfolding merkle_link_iff by (cases "q = 0"; cases "q = 21") auto
  qed
qed

text \<open>The two groups of constraints, from the masks in the order of \<open>spend_masks\<close>.\<close>

definition state_constraints ::
  "'f::comm_ring_1 field_env \<Rightarrow> spend_pi \<Rightarrow> 'f list \<Rightarrow> 'f list \<Rightarrow> 'f row \<Rightarrow> 'f row \<Rightarrow> 'f list" where
  "state_constraints E pi m e c n =
     (let lnote = [note_iv E, c ! 12, c ! 7, c ! 8];
          lmrk = [merkle_iv E, mux (n ! 4) (n ! 9) (c ! 1), mux (n ! 4) (n ! 10) (c ! 2), mux (n ! 4) (c ! 1) (n ! 9)];
          lchg = [note_iv E, c ! 13, n ! 9, n ! 10];
          abs1 = m ! 3 * fst (unpack E (pi_pkd pi)) + m ! 5 * c ! 11 + m ! 7 * fst (unpack E (pi_change_pkd pi));
          abs2 = m ! 3 * snd (unpack E (pi_pkd pi)) + m ! 7 * snd (unpack E (pi_change_pkd pi))
      in map (\<lambda>i. m ! 0 * (n ! i - e ! i) + m ! 1 * (n ! i - c ! i) + m ! 2 * (n ! i - lnote ! i)
                  + m ! 4 * (n ! i - lmrk ! i) + m ! 6 * (n ! i - lchg ! i) + (m ! 3 + m ! 5 + m ! 7) * (n ! i - c ! i)
                  - (if i = 1 then abs1 else if i = 2 then abs2 else 0)) [0, 1, 2, 3])"

definition beside_constraints ::
  "'f::comm_ring_1 field_env \<Rightarrow> spend_pi \<Rightarrow> 'f list \<Rightarrow> 'f row \<Rightarrow> 'f row \<Rightarrow> 'f list" where
  "beside_constraints E pi m c n =
     (let price = fe_new E (ucast (price_or_amount pi)); md = fe_new E (ucast (mode pi))
      in [c ! 4 * (c ! 4 - 1),
         m ! 8 * (n ! 5 - c ! 5 - c ! 4 * c ! 6) + m ! 9 * n ! 5,
         m ! 8 * (n ! 6 - (c ! 6 + c ! 6)) + m ! 9 * (n ! 6 - 1),
         m ! 9 * (c ! 5 + c ! 4 * c ! 6 - c ! 12) + m ! 10 * (c ! 5 + c ! 4 * c ! 6 - c ! 13),
         n ! 7 - c ! 7, n ! 8 - c ! 8, n ! 12 - c ! 12, n ! 13 - c ! 13,
         m ! 12 * (n ! 9 - c ! 9), m ! 12 * (n ! 10 - c ! 10),
         m ! 13 * (n ! 4 - c ! 4),
         m ! 4 * (n ! 11 - mux (n ! 4) (c ! 2) (n ! 10)) + m ! 14 * (n ! 11 - c ! 11),
         c ! 12 - md * c ! 13 - price,
         (1 - md) * c ! 13,
         m ! 11 * (c ! 0 - nullifier_iv E), m ! 11 * (c ! 1 - c ! 7), m ! 11 * (c ! 2 - c ! 8),
         m ! 11 * c ! 3])"

lemma spend_transition_groups:
  assumes "p = [r0, r1, r2, r3, fl]"
  shows "spend_transition E pi c n (p @ m) =
    state_constraints E pi m (round_cols c r0 r1 r2 r3 fl) c n @ beside_constraints E pi m c n"
  by (simp add: assms spend_transition_def state_constraints_def beside_constraints_def Let_def case_prod_beta mux_def)

lemma beside_constraints_ok:
  assumes i: "i < 8192" and be: "beside_step E pi i c n"
  shows "list_all (\<lambda>x. x = 0) (beside_constraints E pi (periodic_at spend_masks i) c n)"
proof -
  note b = be [unfolded beside_step_def]
  let ?R = "i < 63 \<or> 64 \<le> i \<and> i < 127"
  have acc: "of_bool ?R * (n ! 5 - c ! 5 - c ! 4 * c ! 6) + of_bool (i = 63) * n ! 5 = 0"
    "of_bool ?R * (n ! 6 - (c ! 6 + c ! 6)) + of_bool (i = 63) * (n ! 6 - 1) = 0"
    using b by (cases "i = 63"; cases ?R; simp)+
  have sums: "of_bool (i = 63) * (c ! 5 + c ! 4 * c ! 6 - c ! 12) + of_bool (i = 127) * (c ! 5 + c ! 4 * c ! 6 - c ! 13) = 0"
    using b by (cases "i = 63"; cases "i = 127"; simp)
  have aux: "of_bool (\<not> merkle_link i \<and> i \<noteq> 5504) * (n ! 9 - c ! 9) = 0"
    "of_bool (\<not> merkle_link i \<and> i \<noteq> 5504) * (n ! 10 - c ! 10) = 0"
    "of_bool (384 \<le> i \<and> i < 5504 \<and> (i - 384) mod 256 \<noteq> 0) * (n ! 4 - c ! 4) = 0"
    using b by (auto simp: of_bool_def)
  have hi: "of_bool (merkle_link i) * (n ! 11 - mux (n ! 4) (c ! 2) (n ! 10)) + of_bool (\<not> merkle_link i) * (n ! 11 - c ! 11) = 0"
    using b by (cases "merkle_link i") simp_all
  have z: "of_bool (i = 0) * (c ! 0 - nullifier_iv E) = 0" "of_bool (i = 0) * (c ! 1 - c ! 7) = 0"
    "of_bool (i = 0) * (c ! 2 - c ! 8) = 0" "of_bool (i = 0) * c ! 3 = 0"
    using b by (auto simp: state4_def)
  have vals: "c ! 12 - fe_new E (ucast (mode pi)) * c ! 13 - fe_new E (ucast (price_or_amount pi)) = 0"
    using b by (simp add: algebra_simps)
  show ?thesis
    unfolding beside_constraints_def Let_def spend_masks_at [OF i]
    using acc sums aux hi z vals b by simp
qed

lemma state_constraints_ok:
  assumes i: "i < 8192" and st: "state_step E pi i c n"
    and e: "\<And>r. i mod 128 = Suc r \<Longrightarrow> r < 64 \<Longrightarrow> quad_of e = poseidon_eval_round_base E r (state4 c)"
  shows "list_all (\<lambda>x. x = 0) (state_constraints E pi (periodic_at spend_masks i) e c n)"
proof -
  have md: "i mod 128 < 128" by simp
  consider (rnd) r where "i < 5760" "i mod 128 = Suc r" "r < 64"
    | (frz) "i = 0 \<or> i < 5760 \<and> 65 \<le> i mod 128"
    | (bnd) "i mod 128 = 0" "i \<noteq> 0" "i < 5760" | (pad) "5760 \<le> i"
  proof -
    assume rnd: "\<And>r. i < 5760 \<Longrightarrow> i mod 128 = Suc r \<Longrightarrow> r < 64 \<Longrightarrow> thesis"
      and frz: "i = 0 \<or> i < 5760 \<and> 65 \<le> i mod 128 \<Longrightarrow> thesis"
      and bnd: "i mod 128 = 0 \<Longrightarrow> i \<noteq> 0 \<Longrightarrow> i < 5760 \<Longrightarrow> thesis" and pad: "5760 \<le> i \<Longrightarrow> thesis"
    show thesis
    proof (cases "i mod 128")
      case 0
      then show ?thesis using frz bnd pad by (cases "i = 0"; cases "5760 \<le> i") auto
    next
      case (Suc r)
      then show ?thesis using frz rnd [OF _ Suc] pad by (cases "r < 64"; cases "5760 \<le> i") auto
    qed
  qed
  then show ?thesis
  proof cases
    case rnd
    then have "state4 n = quad_of e" using st e [OF rnd(2,3)] by (simp add: state_step_def)
    moreover have "\<not> merkle_link i \<and> \<not> merkle_absorb i \<and> i \<noteq> 0 \<and> i \<noteq> 128 \<and> i \<noteq> 256 \<and> i \<noteq> 5504 \<and> i \<noteq> 5632"
      using rnd by (intro off_block) simp
    ultimately show ?thesis using rnd
      by (simp add: state_constraints_def spend_masks_at [OF i] state4_def quad_of_def Let_def)
  next
    case frz
    then have f: "state4 n = state4 c" using st by (auto simp: state_step_def)
    have "of_bool (i < 5760 \<and> 1 \<le> i mod 128 \<and> i mod 128 < 65) = (0 :: 'a)"
      "of_bool (i = 0 \<or> i < 5760 \<and> 65 \<le> i mod 128) = (1 :: 'a)" using frz by auto
    moreover have "\<not> merkle_link i \<and> \<not> merkle_absorb i \<and> i \<noteq> 128 \<and> i \<noteq> 256 \<and> i \<noteq> 5504 \<and> i \<noteq> 5632"
      using frz off_block [of i] by (cases "i = 0") (auto simp: merkle_steps)
    ultimately show ?thesis using f
      unfolding spend_masks_at [OF i] by (auto simp: state_constraints_def state4_def Let_def)
  next
    case pad
    then have "\<not> merkle_link i \<and> \<not> merkle_absorb i \<and> i \<noteq> 0 \<and> i \<noteq> 128 \<and> i \<noteq> 256 \<and> i \<noteq> 5504 \<and> i \<noteq> 5632"
      by (auto simp: merkle_steps)
    then show ?thesis using pad by (simp add: state_constraints_def spend_masks_at [OF i] Let_def)
  next
    case bnd
    then consider "i = 128" | "i = 256" | "i = 5504" | "i = 5632" | (link) "merkle_link i" | (absorb) "merkle_absorb i"
      using boundary_steps [OF bnd] by blast
    then show ?thesis
    proof cases
      case 1
      then show ?thesis using st
        by (simp add: spend_masks_at state_constraints_def state_step_def state4_def merkle_steps Let_def)
    next
      case 2
      then show ?thesis using st
        by (simp add: spend_masks_at state_constraints_def state_step_def state4_def merkle_steps Let_def add4_def)
    next
      case 3
      then show ?thesis using st
        by (simp add: spend_masks_at state_constraints_def state_step_def state4_def merkle_steps Let_def)
    next
      case 4
      then show ?thesis using st
        by (simp add: spend_masks_at state_constraints_def state_step_def state4_def merkle_steps Let_def add4_def)
    next
      case link
      then have b: "i \<noteq> 128" "i \<noteq> 256" "i \<noteq> 5504" "i \<noteq> 5632" "\<not> merkle_absorb i" by (auto simp: merkle_steps)
      then show ?thesis using st bnd link
        by (simp add: spend_masks_at [OF i] state_constraints_def state_step_def state4_def Let_def)
    next
      case absorb
      then have b: "i \<noteq> 128" "i \<noteq> 256" "i \<noteq> 5504" "i \<noteq> 5632" "\<not> merkle_link i" by (auto simp: merkle_steps)
      then show ?thesis using st bnd absorb
        by (simp add: spend_masks_at [OF i] state_constraints_def state_step_def state4_def Let_def add4_def)
    qed
  qed
qed

lemma spend_transition_ok:
  assumes i: "i < 8192" and st: "state_step E pi i c n" and be: "beside_step E pi i c n"
  shows "list_all (\<lambda>x. x = 0) (spend_transition E pi c n (periodic_at (poseidon_periodic_128 E) i @ periodic_at spend_masks i))"
proof -
  obtain r0 r1 r2 r3 fl where p: "periodic_at (poseidon_periodic_128 E) i = [r0, r1, r2, r3, fl]"
    by (rule rcs_split)
  have "quad_of (round_cols c r0 r1 r2 r3 fl) = poseidon_eval_round_base E r (state4 c)"
    if "i mod 128 = Suc r" "r < 64" for r
    using periodic_128 [OF that, of E] round_cols_eval [of c E r] by (simp add: p)
  then show ?thesis
    unfolding spend_transition_groups [OF p]
    using state_constraints_ok [OF i st, where e = "round_cols c r0 r1 r2 r3 fl"] beside_constraints_ok [OF i be] by simp
qed

section \<open>Completeness\<close>

text \<open>Blocks: rounds and holds of the finished table, block by block.\<close>

lemma blocks:
  fixes E :: "'f::comm_ring_1 field_env" and w
  assumes laws: "f128_laws E" and q: "q < 45"
  defines "st \<equiv> state_at (build_spend_trace E w)"
  shows "k < 64 \<Longrightarrow> st (128 * q + 2 + k) = poseidon_eval_round_base E k (st (128 * q + 1 + k))"
    and "j < 63 \<Longrightarrow> st (128 * q + 66 + j) = st (128 * q + 65 + j)"
proof -
  note t = spend_table [OF laws, where w = w, folded st_def]
  have sp: "(k < 64 \<longrightarrow> st (t + 2 + k) = poseidon_eval_round_base E k (st (t + 1 + k))) \<and>
      (j < 63 \<longrightarrow> st (t + 66 + j) = st (t + 65 + j)) \<and>
      (k < 64 \<longrightarrow> st (t + 128 + 2 + k) = poseidon_eval_round_base E k (st (t + 128 + 1 + k)))"
    if "sponge_ok E t x y st" for t x y k j
  proof -
    have "t + 128 + 2 + k = t + 130 + k" "t + 128 + 1 + k = t + 129 + k" by simp_all
    then show ?thesis using that unfolding sponge_ok_def by (simp only:) blast
  qed
  define P where "P t \<longleftrightarrow> (\<forall>k < 64. st (t + 2 + k) = poseidon_eval_round_base E k (st (t + 1 + k))) \<and>
      (\<forall>j < 63. st (t + 66 + j) = st (t + 65 + j))" for t
  consider "q = 0" | "q = 1" | "q = 2" | "q = 43" | "q = 44" | d where "d < 20" "q = 3 + 2 * d" | d where "d < 20" "q = 4 + 2 * d"
  proof -
    assume c: "q = 0 \<Longrightarrow> thesis" "q = 1 \<Longrightarrow> thesis" "q = 2 \<Longrightarrow> thesis" "q = 43 \<Longrightarrow> thesis" "q = 44 \<Longrightarrow> thesis"
      "\<And>d. d < 20 \<Longrightarrow> q = 3 + 2 * d \<Longrightarrow> thesis" "\<And>d. d < 20 \<Longrightarrow> q = 4 + 2 * d \<Longrightarrow> thesis"
    obtain h where h: "q = 2 * h \<or> q = 2 * h + 1" by (metis evenE oddE)
    consider "q = 0 \<or> q = 1 \<or> q = 2" | "q = 43 \<or> q = 44" | "3 \<le> q" "q < 43" using q by linarith
    then show thesis
    proof cases
      case 3
      then have "q = 3 + 2 * (h - 1) \<and> h - 1 < 20 \<or> q = 4 + 2 * (h - 2) \<and> h - 2 < 20" using h by auto
      then show thesis using c(6,7) by blast
    qed (use c in blast)+
  qed
  then have "P (128 * q)"
  proof cases
    case 1
    have "st (65 + Suc j) = st (65 + j)" if "j < 63" for j using that t(12) [of "65 + j"] by simp
    then show ?thesis using t(11) by (simp add: P_def 1)
  next
    case 2
    then show ?thesis using sp [OF t(13)] by (simp add: P_def)
  next
    case 3
    have "st (322 + j) = st (321 + j)" if "j < 63" for j using that t(12) [of "321 + j"] by simp
    then show ?thesis using sp [OF t(13)] by (simp add: P_def 3)
  next
    case 4
    then show ?thesis using sp [OF t(16)] by (simp add: P_def)
  next
    case 5
    have "st (5698 + j) = st (5697 + j)" if "j < 63" for j using that t(12) [of "5697 + j"] by simp
    then show ?thesis using sp [OF t(16)] by (simp add: P_def 5)
  next
    case (6 d)
    from t(14) [OF 6(1)] obtain x where "sponge_ok E (384 + 256 * d) x 0 st"
      by (auto simp: level_ok_def Let_def case_prod_beta)
    moreover have "128 * q = 384 + 256 * d" using 6 by simp
    ultimately show ?thesis using sp by (simp only: P_def) blast
  next
    case (7 d)
    from t(14) [OF 7(1)] obtain x where l: "sponge_ok E (384 + 256 * d) x 0 st"
      "\<forall>j < 63. st (384 + 256 * d + 194 + j) = st (384 + 256 * d + 193 + j)"
      by (auto simp: level_ok_def Let_def case_prod_beta)
    have q': "128 * q = 384 + 256 * d + 128" using 7 by simp
    have n: "384 + 256 * d + 128 + 66 + j = 384 + 256 * d + 194 + j" "384 + 256 * d + 128 + 65 + j = 384 + 256 * d + 193 + j" for j
      by simp_all
    show ?thesis unfolding P_def q' n using sp [OF l(1)] l(2) by blast
  qed
  then show "k < 64 \<Longrightarrow> st (128 * q + 2 + k) = poseidon_eval_round_base E k (st (128 * q + 1 + k))"
    "j < 63 \<Longrightarrow> st (128 * q + 66 + j) = st (128 * q + 65 + j)" by (auto simp: P_def)
qed

text \<open>When the values of a witness balance: \<open>prove_spend\<close> for a purchase and for a withdrawal.\<close>

definition balanced :: "spend_witness \<Rightarrow> u64 \<Rightarrow> u64 \<Rightarrow> bool" where
  "balanced w amount md \<longleftrightarrow>
     (if md = 1 then unat (sw_v w) = unat (sw_cv w) + unat amount
      else md = 0 \<and> sw_v w = amount \<and> sw_cv w = 0 \<and> sw_cb w = 0 \<and> sw_cpkd w = 0)"

lemma spend_public_fields:
  "pi_pkd (spend_public E w amount md) = sw_pkd w" "mode (spend_public E w amount md) = md"
  "price_or_amount (spend_public E w amount md) = amount"
  "pi_nf (spend_public E w amount md) = nullifier_hash E (sw_b w)"
  "pi_root (spend_public E w amount md) =
     root_from_path (merkle_hash2 E) (note_hash E (sw_v w) (sw_b w) (sw_pkd w)) (sw_index w) (sw_siblings w)"
  "balanced w amount md \<Longrightarrow> pi_change_leaf (spend_public E w amount md) = note_hash E (sw_cv w) (sw_cb w) (sw_cpkd w)"
  "balanced w amount md \<Longrightarrow> pi_change_pkd (spend_public E w amount md) = sw_cpkd w"
  by (auto simp: spend_public_def Let_def case_prod_beta balanced_def zero_change_leaf_def split: if_splits)

lemma root_from_path_fold:
  "root_from_path h2 leaf index siblings = fold_path h2 [0..<MERKLE_DEPTH] siblings leaf index"
proof -
  have "fst (fold (\<lambda>d (node, idx). (if idx AND 1 = 0 then h2 node (siblings ! d) else h2 (siblings ! d) node, drop_bit 1 idx))
      ds (node, idx)) = fold_path h2 ds siblings node idx" for ds node and idx :: u32
    by (induction ds arbitrary: node idx) simp_all
  then show ?thesis by (simp add: root_from_path_def)
qed

lemma same_level: "\<not> merkle_link i \<Longrightarrow> 385 \<le> i \<Longrightarrow> i < 5504 \<Longrightarrow> (Suc i - 385) div 256 = (i - 385) div 256"
proof -
  assume i: "\<not> merkle_link i" "385 \<le> i" "i < 5504"
  have "Suc (i - 385) mod 256 \<noteq> 0"
  proof
    assume "Suc (i - 385) mod 256 = 0"
    then have "256 dvd Suc (i - 385)" by (rule mod_0_imp_dvd)
    then obtain k where k: "Suc (i - 385) = 256 * k" by (elim dvdE)
    then have "i = 384 + 256 * k" "k < 20" using i by linarith+
    then show False using i(1) by (auto simp: merkle_link_def)
  qed
  moreover have "Suc i - 385 = Suc (i - 385)" using i by simp
  ultimately show ?thesis by (simp add: div_Suc)
qed

lemma level_of:
  assumes "385 \<le> r" and "r < (5505 :: nat)"
  obtains d where "d < 20" "384 + 256 * d < r" "r \<le> 640 + 256 * d" "(r - 385) div 256 = d"
proof -
  obtain d where d: "d < 20" "r \<in> {385 + 256 * d..<384 + 256 * (d + 1) + 1}" using level_rows assms by auto
  then show thesis using that [of d] level_div [of d r] by simp
qed

text \<open>The rows of the finished table.\<close>

lemma spend_rows:
  fixes E :: "'f::comm_ring_1 field_env" and w
  assumes laws: "f128_laws E"
  defines "T \<equiv> build_spend_trace E w"
  shows "state4 (trace_rows T i) = state_at T i" and "c < 14 \<Longrightarrow> trace_rows T i ! c = cell T c i"
proof -
  note tab = spend_table(1) [OF laws, where w = w, folded T_def]
  show "state4 (trace_rows T i) = state_at T i" by (rule state4_trace_rows [OF tab]) simp
  show "c < 14 \<Longrightarrow> trace_rows T i ! c = cell T c i" by (rule nth_trace_rows [OF tab])
qed

text \<open>The columns 4, 9, 10 and 11 of one Merkle level.\<close>

lemma level_cells:
  fixes E :: "'f::comm_ring_1 field_env" and w
  assumes laws: "f128_laws E" and d: "d < 20" "384 + 256 * d < r" "r \<le> 640 + 256 * d"
  defines "T \<equiv> build_spend_trace E w"
  shows "cell T 4 r = of_bool (bit (sw_index w) d)" and "cell T 9 r = fst (unpack E (sw_siblings w ! d))"
    and "cell T 10 r = snd (unpack E (sw_siblings w ! d))"
    and "cell T 11 r = snd (level_ins E w d (state_at T (384 + 256 * d)))"
proof -
  have r: "385 \<le> r" "r < 5505" "(r - 385) div 256 = d" using d level_div [of d r] by auto
  note t = spend_table(2) [OF laws, where w = w and r = r, folded T_def]
  show "cell T 4 r = of_bool (bit (sw_index w) d)" "cell T 9 r = fst (unpack E (sw_siblings w ! d))"
    "cell T 10 r = snd (unpack E (sw_siblings w ! d))"
    using t [of 4] t [of 9] t [of 10] r by (simp_all add: static_cell_def)
  show "cell T 11 r = snd (level_ins E w d (state_at T (384 + 256 * d)))"
    using spend_table(14) [OF laws d(1), where w = w, folded T_def] d(2,3)
    by (simp add: level_ok_def Let_def case_prod_beta)
qed

lemma level_ins_mux:
  "level_ins E w d s = (let b = of_bool (bit (sw_index w) d); (lo, hi) = unpack E (sw_siblings w ! d) in
     ((merkle_iv E, mux b lo (fst (snd s)), mux b hi (fst (snd (snd s))), mux b (fst (snd s)) lo),
      mux b (fst (snd (snd s))) hi))"
  by (cases "bit (sw_index w) d") (simp_all add: level_ins_def mux_def Let_def case_prod_beta)

lemma trace_state_step:
  assumes laws: "f128_laws E" and bal: "balanced w amount md" and i: "i < 8191"
  shows "state_step E (spend_public E w amount md) i (trace_rows (build_spend_trace E w) i)
    (trace_rows (build_spend_trace E w) (Suc i))"
proof -
  let ?pi = "spend_public E w amount md"
  define T where "T = build_spend_trace E w"
  define tr where "tr = trace_rows T"
  note t = spend_table [OF laws, where w = w, folded T_def]
  note s4 = spend_rows(1) [OF laws, where w = w, folded T_def, folded tr_def]
  note cl = spend_rows(2) [OF laws, where w = w, folded T_def, folded tr_def]
  note pf = spend_public_fields [where E = E and w = w and amount = amount and md = md]
  have md: "i mod 128 < 128" "i = 128 * (i div 128) + i mod 128" by simp_all
  have "state_step E ?pi i (tr i) (tr (Suc i))"
  proof (cases "i < 5760 \<and> i mod 128 \<noteq> 0 \<or> i = 0 \<or> 5760 \<le> i")
    case True
    then consider (rnd) "i < 5760" "1 \<le> i mod 128" "i mod 128 < 65" | (frz) "i < 5760" "65 \<le> i mod 128" | "i = 0"
      | (pad) "5760 \<le> i" by linarith
    then show ?thesis
    proof cases
      case rnd
      then have q: "i div 128 < 45" by (simp add: less_mult_imp_div_less)
      have k: "i mod 128 - 1 < 64" "128 * (i div 128) + 2 + (i mod 128 - 1) = Suc i"
        "128 * (i div 128) + 1 + (i mod 128 - 1) = i" using rnd md by linarith+
      show ?thesis
        using blocks(1) [OF laws q k(1), where w = w, folded T_def] rnd unfolding k(2,3) by (simp add: state_step_def s4)
    next
      case frz
      then have q: "i div 128 < 45" by (simp add: less_mult_imp_div_less)
      have j: "i mod 128 - 65 < 63" "128 * (i div 128) + 66 + (i mod 128 - 65) = Suc i"
        "128 * (i div 128) + 65 + (i mod 128 - 65) = i" using frz md by linarith+
      show ?thesis
        using blocks(2) [OF laws q j(1), where w = w, folded T_def] frz unfolding j(2,3) by (simp add: state_step_def s4)
    next
      case 3
      then show ?thesis using t(12) [of 0] by (simp add: state_step_def s4)
    next
      case pad
      then have "\<not> merkle_link i" "\<not> merkle_absorb i" by (auto simp: merkle_steps)
      then show ?thesis using pad by (simp add: state_step_def)
    qed
  next
    case False
    then have b: "i mod 128 = 0" "i \<noteq> 0" "i < 5760" by auto
    then consider "i = 128" | "i = 256" | "i = 5504" | "i = 5632" | (link) "merkle_link i" | (absorb) "merkle_absorb i"
      using boundary_steps [OF b] by blast
    then show ?thesis
    proof cases
      case 1
      then show ?thesis
        using t(10) t(2) [of 12 128] t(2) [of 7 128] t(2) [of 8 128] by (simp add: state_step_def s4 cl static_cell_def)
    next
      case 2
      then show ?thesis using t(13) by (simp add: state_step_def s4 pf sponge_ok_def)
    next
      case 3
      then have "\<not> merkle_link i" "\<not> merkle_absorb i" by (auto simp: merkle_steps)
      then show ?thesis
        using 3 t(15) t(2) [of 13 5504] t(2) [of 9 5505] t(2) [of 10 5505]
        by (simp add: state_step_def s4 cl static_cell_def)
    next
      case 4
      then have "\<not> merkle_link i" "\<not> merkle_absorb i" by (auto simp: merkle_steps)
      then show ?thesis using 4 t(16) bal by (simp add: state_step_def s4 pf sponge_ok_def)
    next
      case link
      then obtain d where d: "d < 20" "i = 384 + 256 * d" by (auto simp: merkle_link_def)
      have "384 + 256 * d < Suc i" "Suc i \<le> 640 + 256 * d" using d by simp_all
      note c = level_cells [OF laws d(1) this, where w = w, folded T_def]
      have "state_at T (Suc i) = fst (level_ins E w d (state_at T i))"
        using t(14) [OF d(1)] by (simp add: level_ok_def Let_def case_prod_beta d(2))
      then have "state4 (tr (Suc i)) = (merkle_iv E, mux (tr (Suc i) ! 4) (tr (Suc i) ! 9) (tr i ! 1),
          mux (tr (Suc i) ! 4) (tr (Suc i) ! 10) (tr i ! 2), mux (tr (Suc i) ! 4) (tr i ! 1) (tr (Suc i) ! 9))"
        by (simp add: s4 cl c level_ins_mux Let_def case_prod_beta state_at_def)
      moreover have "i \<noteq> 128" "i \<noteq> 256" using d by auto
      ultimately show ?thesis using b link by (simp add: state_step_def)
    next
      case absorb
      then obtain d where d: "d < 20" "i = 384 + 256 * d + 128" by (auto simp: merkle_absorb_def)
      have "384 + 256 * d < i" "i \<le> 640 + 256 * d" using d by simp_all
      note c = level_cells(4) [OF laws d(1) this, where w = w, folded T_def]
      have "Suc i = 384 + 256 * d + 129" using d by simp
      moreover have "state_at T (384 + 256 * d + 129) =
          add4 (state_at T (384 + 256 * d + 128)) (snd (level_ins E w d (state_at T (384 + 256 * d)))) 0"
        using t(14) [OF d(1)] by (simp only: level_ok_def sponge_ok_def Let_def case_prod_beta)
      ultimately have "state_at T (Suc i) = add4 (state_at T i) (cell T 11 i) 0" using c d(2) by (simp only:)
      then have "state4 (tr (Suc i)) = add4 (state4 (tr i)) (tr i ! 11) 0" by (simp add: s4 cl)
      moreover have "i \<noteq> 128" "i \<noteq> 256" "\<not> merkle_link i" using absorb by (auto simp: merkle_steps)
      ultimately show ?thesis using b absorb by (simp add: state_step_def)
    qed
  qed
  then show ?thesis by (simp only: tr_def T_def)
qed

text \<open>The accumulator of the 64 bits of a value.\<close>

lemma acc_value:
  fixes E :: "'f::comm_ring_1 field_env" and w
  assumes laws: "f128_laws E"
  defines "T \<equiv> build_spend_trace E w"
  shows "cell T 5 63 + cell T 4 63 * cell T 6 63 = fe_new E (ucast (sw_v w))"
    and "cell T 5 127 + cell T 4 127 * cell T 6 127 = fe_new E (ucast (sw_cv w))"
proof -
  note t = spend_table [OF laws, where w = w, folded T_def]
  have acc: "cell T 5 (s + 63) + cell T 4 (s + 63) * cell T 6 (s + 63) = fe_new E (ucast x)"
    if s: "s = 0 \<or> s = 64" and bits: "\<And>k. k < 64 \<Longrightarrow> cell T 4 (s + k) = of_bool (bit x k)" for s and x :: u64
  proof -
    have "cell T 5 (s + 63) = of_nat (bits_nat (bit x) 63) \<and> cell T 6 (s + 63) = 2 ^ 63"
    proof (rule range_acc [where acc = "cell T 5" and pow = "cell T 6" and bit' = "cell T 4"])
      show "cell T 5 s = 0" by (rule disjE [OF s]) (simp_all add: t(4,6))
      show "cell T 6 s = 1" by (rule disjE [OF s]) (simp_all add: t(5,7))
    next
      fix k :: nat assume k: "k < 63"
      have "s + k < 63 \<or> 64 \<le> s + k \<and> s + k < 127" using k s by auto
      from t(8) [OF this] show "cell T 5 (s + k + 1) = cell T 5 (s + k) + cell T 4 (s + k) * cell T 6 (s + k)"
        "cell T 6 (s + k + 1) = 2 * cell T 6 (s + k)" by (simp_all only: mult_2 Suc_eq_plus1)
    qed (use bits in simp)
    then have "cell T 5 (s + 63) + cell T 4 (s + 63) * cell T 6 (s + 63) = of_nat (bits_nat (bit x) (Suc 63))"
      using bits [of 63] unfolding bits_nat_Suc by simp
    then show ?thesis using bits_nat_word [of x] by (simp add: f128_new_u64 [OF laws])
  qed
  show "cell T 5 63 + cell T 4 63 * cell T 6 63 = fe_new E (ucast (sw_v w))"
    using acc [of 0 "sw_v w"] t(2) by (simp add: static_cell_def)
  show "cell T 5 127 + cell T 4 127 * cell T 6 127 = fe_new E (ucast (sw_cv w))"
    using acc [of 64 "sw_cv w"] t(2) by (simp add: static_cell_def)
qed

lemma balanced_field:
  assumes laws: "f128_laws E" and bal: "balanced w amount md"
  shows "fe_new E (ucast (sw_v w)) = fe_new E (ucast md) * fe_new E (ucast (sw_cv w)) + fe_new E (ucast amount)"
    and "(1 - fe_new E (ucast md)) * fe_new E (ucast (sw_cv w)) = 0"
proof -
  have "unat (sw_v w) = unat md * unat (sw_cv w) + unat amount \<and> (md = 1 \<or> sw_cv w = 0)"
    using bal by (auto simp: balanced_def split: if_splits)
  then have v: "unat (sw_v w) = unat md * unat (sw_cv w) + unat amount" and m: "md = 1 \<or> sw_cv w = 0" by simp_all
  have "of_nat (unat (sw_v w)) = (of_nat (unat md * unat (sw_cv w) + unat amount) :: 'a)" by (simp only: v)
  then show "fe_new E (ucast (sw_v w)) = fe_new E (ucast md) * fe_new E (ucast (sw_cv w)) + fe_new E (ucast amount)"
    by (simp add: f128_new_u64 [OF laws])
  show "(1 - fe_new E (ucast md)) * fe_new E (ucast (sw_cv w)) = 0"
    using m by (auto simp: f128_new_u64 [OF laws] f128_new [OF laws])
qed

text \<open>Columns 9 and 10 change at the links only, column 4 within no level, column 11 at the Merkle links.\<close>

lemma aux_cells:
  fixes E :: "'f::comm_ring_1 field_env" and w
  assumes laws: "f128_laws E" and i: "i < 8191"
  defines "T \<equiv> build_spend_trace E w"
  shows "\<not> merkle_link i \<Longrightarrow> i \<noteq> 5504 \<Longrightarrow> cell T 9 (Suc i) = cell T 9 i \<and> cell T 10 (Suc i) = cell T 10 i"
    and "\<not> merkle_link i \<Longrightarrow> 384 \<le> i \<Longrightarrow> i < 5504 \<Longrightarrow> cell T 4 (Suc i) = cell T 4 i"
    and "\<not> merkle_link i \<Longrightarrow> cell T 11 (Suc i) = cell T 11 i"
proof -
  note t = spend_table [OF laws, where w = w, folded T_def]
  note stat = t(2) [of _ i] t(2) [of _ "Suc i"]
  have l384: "merkle_link 384" by (simp add: merkle_steps)
  show "\<not> merkle_link i \<Longrightarrow> i \<noteq> 5504 \<Longrightarrow> cell T 9 (Suc i) = cell T 9 i \<and> cell T 10 (Suc i) = cell T 10 i"
  proof -
    assume a: "\<not> merkle_link i" "i \<noteq> 5504"
    have "i \<noteq> 384" using a l384 by auto
    then consider "i < 384" | "385 \<le> i" "i < 5504" | "5505 \<le> i" using a(2) by linarith
    then show ?thesis
    proof cases
      case 1
      then show ?thesis using t(3) [of 9 i] t(3) [of 10 i] t(3) [of 9 "Suc i"] t(3) [of 10 "Suc i"] by simp
    next
      case 2
      then show ?thesis
        using i stat [of 9] stat [of 10] same_level [OF a(1) 2] by (simp add: static_cell_def)
    next
      case 3
      then show ?thesis using i stat [of 9] stat [of 10] by (simp add: static_cell_def)
    qed
  qed
  show "\<not> merkle_link i \<Longrightarrow> 384 \<le> i \<Longrightarrow> i < 5504 \<Longrightarrow> cell T 4 (Suc i) = cell T 4 i"
  proof -
    assume a: "\<not> merkle_link i" "384 \<le> i" "i < 5504"
    then have "385 \<le> i" using l384 by (cases "i = 384") auto
    then show ?thesis using i a stat [of 4] same_level [OF a(1) _ a(3)] by (simp add: static_cell_def)
  qed
  show "\<not> merkle_link i \<Longrightarrow> cell T 11 (Suc i) = cell T 11 i"
  proof -
    assume a: "\<not> merkle_link i"
    have "i \<noteq> 384" using a l384 by auto
    then consider "i < 384" | "385 \<le> i" "i < 5504" | "5504 \<le> i" by linarith
    then show ?thesis
    proof cases
      case 1
      then show ?thesis using t(3) [of 11 i] t(3) [of 11 "Suc i"] by simp
    next
      case 2
      obtain d where d: "d < 20" "384 + 256 * d < i" "i \<le> 640 + 256 * d" "(i - 385) div 256 = d"
        by (rule level_of [of i]) (use 2 in simp_all)
      obtain d' where d': "d' < 20" "384 + 256 * d' < Suc i" "Suc i \<le> 640 + 256 * d'" "(Suc i - 385) div 256 = d'"
        by (rule level_of [of "Suc i"]) (use 2 in simp_all)
      have "d' = d" using same_level [OF a 2] d(4) d'(4) by simp
      then show ?thesis
        using level_cells(4) [OF laws d(1-3), where w = w, folded T_def] level_cells(4) [OF laws d'(1-3), where w = w, folded T_def]
        by simp
    next
      case 3
      have "\<forall>r. 5248 < r \<and> r < 8192 \<longrightarrow> cell T 11 r = snd (level_ins E w 19 (state_at T 5248))"
        using t(14) [of 19] by (simp add: level_ok_def Let_def case_prod_beta)
      then show ?thesis using 3 i by simp
    qed
  qed
qed

lemma trace_beside_step:
  assumes laws: "f128_laws E" and bal: "balanced w amount md" and i: "i < 8191"
  shows "beside_step E (spend_public E w amount md) i (trace_rows (build_spend_trace E w) i)
    (trace_rows (build_spend_trace E w) (Suc i))"
proof -
  let ?pi = "spend_public E w amount md"
  define T where "T = build_spend_trace E w"
  define tr where "tr = trace_rows T"
  note t = spend_table [OF laws, where w = w, folded T_def]
  note s4 = spend_rows(1) [OF laws, where w = w, folded T_def, folded tr_def]
  note cl = spend_rows(2) [OF laws, where w = w, folded T_def, folded tr_def]
  note pf = spend_public_fields [where E = E and w = w and amount = amount and md = md]
  note ac = acc_value [OF laws, where w = w, folded T_def]
  note ax = aux_cells [OF laws i, where w = w, folded T_def]
  note bf = balanced_field [OF laws bal]
  have st: "cell T c r = static_cell E w c r" if "c \<in> {4, 7, 8, 12, 13}" "r < 8192" for c r using t(2) that by blast
  have carries: "cell T 7 (Suc i) = cell T 7 i" "cell T 8 (Suc i) = cell T 8 i" "cell T 12 (Suc i) = cell T 12 i"
    "cell T 13 (Suc i) = cell T 13 i" using i by (simp_all add: st static_cell_def)
  have vals: "cell T 12 i = fe_new E (ucast (sw_v w))" "cell T 13 i = fe_new E (ucast (sw_cv w))"
    using i by (simp_all add: st static_cell_def)
  have bit01: "cell T 4 i * (cell T 4 i - 1) = 0" using i by (simp add: st static_cell_def)
  have r0: "i = 0 \<longrightarrow> state_at T i = (nullifier_iv E, cell T 7 i, cell T 8 i, 0)"
    using t(9) st [of 7 0] st [of 8 0] by (simp add: static_cell_def)
  have rst: "i = 63 \<longrightarrow> cell T 5 (Suc i) = 0 \<and> cell T 6 (Suc i) = 1 \<and> cell T 5 i + cell T 4 i * cell T 6 i = cell T 12 i"
    "i = 127 \<longrightarrow> cell T 5 i + cell T 4 i * cell T 6 i = cell T 13 i"
    using t(6,7) ac vals by auto
  have nl: "384 \<le> i \<and> i < 5504 \<and> (i - 384) mod 256 \<noteq> 0 \<longrightarrow> \<not> merkle_link i" by (auto simp: merkle_link_def)
  have hi: "cell T 11 (Suc i) = (if merkle_link i then mux (cell T 4 (Suc i)) (cell T 2 i) (cell T 10 (Suc i)) else cell T 11 i)"
  proof (cases "merkle_link i")
    case True
    then obtain d where d: "d < 20" "i = 384 + 256 * d" by (auto simp: merkle_link_def)
    have "384 + 256 * d < Suc i" "Suc i \<le> 640 + 256 * d" using d by simp_all
    note c = level_cells [OF laws d(1) this, where w = w, folded T_def]
    show ?thesis using True unfolding c level_ins_mux by (simp add: Let_def case_prod_beta state_at_def d(2))
  qed (use ax(3) in simp)
  have "beside_step E ?pi i (tr i) (tr (Suc i))"
    unfolding beside_step_def pf s4 using bit01 t(8) [of i] rst carries ax(1,2) nl hi vals bf r0 by (simp add: cl)
  then show ?thesis by (simp only: tr_def T_def)
qed

text \<open>
  C9. Completeness of the v2 spend circuit: for every witness whose values balance, the trace that
  \<open>build_spend_trace\<close> fills satisfies all constraints and assertions of the circuit for the public
  inputs that \<open>prove_spend\<close> computes, in purchase mode and in withdrawal mode. A withdrawal has to
  come with change value, blinding and key digest zero, as the change leaf of its public inputs is fixed.
\<close>

theorem spend_prover_complete:
  assumes laws: "f128_laws E" and bal: "balanced w amount md"
  shows "air_accepts (spend_air E (spend_public E w amount md)) TRACE_LEN (trace_rows (build_spend_trace E w))"
proof -
  let ?pi = "spend_public E w amount md" and ?tr = "trace_rows (build_spend_trace E w)"
  note fl = f128_field [OF laws] and pf = spend_public_fields [where E = E and w = w and amount = amount and md = md]
  note t = spend_table [OF laws, where w = w] and rows = spend_rows [OF laws, where w = w]
  have st: "spend_steps E ?pi 8192 ?tr" "5697 < (8192 :: nat)"
    using trace_state_step [OF laws bal] trace_beside_step [OF laws bal] by (auto simp: spend_steps_def intro!: spend_transition_ok)
  have c0: "?tr 0 ! 7 = fst (unpack E (sw_b w))" "?tr 0 ! 8 = snd (unpack E (sw_b w))"
    "?tr 0 ! 12 = fe_new E (ucast (sw_v w))" "?tr 0 ! 13 = fe_new E (ucast (sw_cv w))"
    "?tr 5505 ! 9 = fst (unpack E (sw_cb w))" "?tr 5505 ! 10 = snd (unpack E (sw_cb w))"
    using t(2) [of 7 0] t(2) [of 8 0] t(2) [of 12 0] t(2) [of 13 0] t(2) [of 9 5505] t(2) [of 10 5505]
    by (simp_all add: rows static_cell_def)
  have nf: "unpack E (pi_nf ?pi) = cells12 (state4 (?tr 65))"
    unfolding spend_nullifier [OF st] unpack_nullifier_hash [OF fl] pf c0 by (rule refl)
  have leaf: "unpack E (note_hash E (sw_v w) (sw_b w) (sw_pkd w)) = node_at ?tr 0"
    unfolding spend_note [OF st] unpack_note_hash [OF fl] pf c0 by (rule refl)
  have lv: "\<forall>d < 20. bit (sw_index w) d = level_bit ?tr d" "\<forall>d < 20. unpack E (sw_siblings w ! d) = unpack E (level_sibling E ?tr d)"
    using level_cells(1-3) [OF laws, where w = w] fl by (simp_all add: level_bit_def level_sibling_def rows prod_eq_iff)
  have rt: "unpack E (pi_root ?pi) = cells12 (state4 (?tr 5441))"
    using spend_path [OF laws st lv(2,1), of 0 20, OF _ leaf] spend_root [OF st]
    by (simp add: pf root_from_path_fold MERKLE_DEPTH_def del: upt_rec_numeral)
  have cl: "unpack E (pi_change_leaf ?pi) = cells12 (state4 (?tr 5697))"
    unfolding spend_change [OF st] pf(6,7) [OF bal] unpack_note_hash [OF fl] c0 by (rule refl)
  have start: "?tr 0 ! 5 = 0" "?tr 0 ! 6 = 1" using t(4,5) by (simp_all add: rows)
  have "list_all (\<lambda>(col, step, val). step < 8192 \<and> ?tr step ! col = val) (spend_assertions E ?pi)"
    using nf rt cl start by (simp add: spend_assertions_def case_prod_beta layout cells12_state4)
  then show ?thesis using st(1) by (simp add: air_accepts_def spend_air_def spend_steps_def periodic_at_append layout)
qed

lemma spend_prover_complete_witness:
  "air_accepts (spend_air (word_env (\<lambda>_. 3)) (spend_public (word_env (\<lambda>_. 3))
      \<lparr>sw_v = 7, sw_b = 1, sw_pkd = 2, sw_index = 5, sw_siblings = replicate 20 9, sw_cv = 3, sw_cb = 4, sw_cpkd = 6\<rparr> 4 1))
    TRACE_LEN (trace_rows (build_spend_trace (word_env (\<lambda>_. 3))
      \<lparr>sw_v = 7, sw_b = 1, sw_pkd = 2, sw_index = 5, sw_siblings = replicate 20 9, sw_cv = 3, sw_cb = 4, sw_cpkd = 6\<rparr>))"
  by (rule spend_prover_complete [OF word_env_laws]) (simp add: balanced_def)

end
