(* ===== verification/Verifier.thy ===== *)
theory Verifier
  imports StarkV1 DepositAir SpendComplete ProofHubLane
begin

text \<open>
  The entry points of \<open>proofhub/verifier/src/lib.rs\<close>: the hash commitments, the ML-DSA-44 signature
  checks of both lanes, and the STARK verifications of the v1 lane with their wire formats. The
  proof system (\<open>winter_verifier\<close>) is the parameter \<open>stark\<close>, which is given the circuit of the
  public inputs; \<open>fips204\<close> is \<open>ml_dsa\<close>; BLAKE3 comes with the field in \<open>field_env\<close>.
\<close>

section \<open>Commitments\<close>

definition blake3_commitment :: "'f field_env \<Rightarrow> u64 \<Rightarrow> h256 \<Rightarrow> h256" where
  "blake3_commitment E val blinding =
     fe_blake3 E (ascii ''nulla_commitment_v1'' @ le_bytes 8 val @ le_bytes 32 blinding)"

definition ownership_commitment :: "'f field_env \<Rightarrow> h256 \<Rightarrow> h256 \<Rightarrow> h256" where
  "ownership_commitment E rwa_id blinding =
     fe_blake3 E (ascii ''nulla_rwa_ownership_v1'' @ le_bytes 32 rwa_id @ le_bytes 32 blinding)"

definition verify_commitment :: "'f field_env \<Rightarrow> u64 \<Rightarrow> h256 \<Rightarrow> h256 \<Rightarrow> bool" where
  "verify_commitment E val blinding commitment \<longleftrightarrow> blake3_commitment E val blinding = commitment"

section \<open>Signatures\<close>

record ml_dsa =
  pk_try_from_bytes :: "bytes \<Rightarrow> bytes option"
  pk_verify :: "bytes \<Rightarrow> bytes \<Rightarrow> bytes \<Rightarrow> bytes \<Rightarrow> bool"

definition DILITHIUM_PK_LEN :: nat where "DILITHIUM_PK_LEN = 1312"
definition DILITHIUM_SIG_LEN :: nat where "DILITHIUM_SIG_LEN = 2420"

text \<open>The end of every signature check: the key, the first 1312 bytes, signs the hashed message.\<close>

definition check_signature :: "ml_dsa \<Rightarrow> bytes \<Rightarrow> h256 \<Rightarrow> bool" where
  "check_signature M prf message =
     (let pk_arr = take DILITHIUM_PK_LEN prf;
          sig_arr = drop DILITHIUM_PK_LEN prf
      in case pk_try_from_bytes M pk_arr of
           Some pk \<Rightarrow> pk_verify M pk (le_bytes 32 message) sig_arr []
         | None \<Rightarrow> False)"

record proof_public_inputs =
  pp_merkle_root :: h256
  pp_new_merkle_root :: h256
  pp_input_commitments :: "h256 list"
  pp_input_indices :: "u32 list"
  pp_input_paths :: "h256 list list"
  pp_nullifiers :: "h256 list"
  pp_new_commitments :: "h256 list"
  pp_fee_commitment :: h256
  pp_fee_nullifier :: h256
  pp_tx_id :: h128

definition decode_proof_public_inputs :: "codec \<Rightarrow> bytes \<Rightarrow> proof_public_inputs option" where
  "decode_proof_public_inputs C bs =
     dec_then (f_h256 C) bs (\<lambda>mr bs. dec_then (f_h256 C) bs (\<lambda>nmr bs.
     dec_then (f_h256s C) bs (\<lambda>ics bs. dec_then (f_u32s C) bs (\<lambda>iis bs.
     dec_then (f_h256ss C) bs (\<lambda>ips bs. dec_then (f_h256s C) bs (\<lambda>nfs bs.
     dec_then (f_h256s C) bs (\<lambda>ncs bs. dec_then (f_h256 C) bs (\<lambda>fc bs.
     dec_then (f_h256 C) bs (\<lambda>fn bs. dec_then (f_h128 C) bs (\<lambda>tx bs.
       Some \<lparr>pp_merkle_root = mr, pp_new_merkle_root = nmr, pp_input_commitments = ics,
         pp_input_indices = iis, pp_input_paths = ips, pp_nullifiers = nfs, pp_new_commitments = ncs,
         pp_fee_commitment = fc, pp_fee_nullifier = fn, pp_tx_id = tx\<rparr>))))))))))"

definition verify_bytes :: "'f field_env \<Rightarrow> codec \<Rightarrow> ml_dsa \<Rightarrow> bytes \<Rightarrow> bytes \<Rightarrow> bool" where
  "verify_bytes E C M prf public_inputs =
     (if length prf \<noteq> DILITHIUM_PK_LEN + DILITHIUM_SIG_LEN then False
      else if decode_proof_public_inputs C public_inputs = None then False
      else
        let message = fe_blake3 E (ascii ''nulla_balance_v1'' @ public_inputs)
        in check_signature M prf message)"

definition verify_purchase :: "'f field_env \<Rightarrow> ml_dsa \<Rightarrow> bytes \<Rightarrow> bytes \<Rightarrow> bool" where
  "verify_purchase E M prf public_inputs =
     (if length prf \<noteq> DILITHIUM_PK_LEN + DILITHIUM_SIG_LEN then False
      else if length public_inputs < 32 then False
      else
        let derived_tag = fe_blake3 E (ascii ''nulla_spend_tag_v1'' @ take DILITHIUM_PK_LEN prf)
        in if le_bytes 32 derived_tag \<noteq> take 32 public_inputs then False
      else
        let message = fe_blake3 E (ascii ''nulla_purchase_v1'' @ public_inputs)
        in check_signature M prf message)"

definition verify_withdrawal :: "'f field_env \<Rightarrow> ml_dsa \<Rightarrow> bytes \<Rightarrow> bytes \<Rightarrow> bool" where
  "verify_withdrawal E M prf public_inputs =
     (if length prf \<noteq> DILITHIUM_PK_LEN + DILITHIUM_SIG_LEN then False
      else if length public_inputs < 32 then False
      else
        let derived_tag = fe_blake3 E (ascii ''nulla_spend_tag_v1'' @ take DILITHIUM_PK_LEN prf)
        in if le_bytes 32 derived_tag \<noteq> take 32 public_inputs then False
      else
        let message = fe_blake3 E (ascii ''nulla_withdrawal_v1'' @ public_inputs)
        in check_signature M prf message)"

definition verify_spend_auth_v2 :: "'f field_env \<Rightarrow> ml_dsa \<Rightarrow> bytes \<Rightarrow> bytes \<Rightarrow> bool \<Rightarrow> bool" where
  "verify_spend_auth_v2 E M auth public_inputs withdraw =
     (if length auth \<noteq> DILITHIUM_PK_LEN + DILITHIUM_SIG_LEN then False
      else
        let domain = (if withdraw then ascii ''nulla_withdraw_auth_v2'' else ascii ''nulla_spend_auth_v2'');
            message = fe_blake3 E (domain @ public_inputs)
        in check_signature M auth message)"

definition assemble_auth :: "bytes \<Rightarrow> bytes \<Rightarrow> bytes" where
  "assemble_auth pk_bytes sig_bytes = pk_bytes @ sig_bytes"

section \<open>The proofs of the v1 lane\<close>

definition verify_stark_range ::
  "'f::comm_ring_1 field_env \<Rightarrow> (bytes \<Rightarrow> 'f air \<Rightarrow> bool) \<Rightarrow> bytes \<Rightarrow> u64 \<Rightarrow> bool" where
  "verify_stark_range E stark proof_bytes val = stark proof_bytes (range_air E val)"

definition verify_stark_deposit_commit ::
  "'f::comm_ring_1 field_env \<Rightarrow> (bytes \<Rightarrow> 'f air \<Rightarrow> bool) \<Rightarrow> bytes \<Rightarrow> u64 \<Rightarrow> h256 \<Rightarrow> bool" where
  "verify_stark_deposit_commit E stark proof_bytes v rp_commitment =
     stark proof_bytes (deposit_commit_air E v rp_commitment)"

definition verify_stark_purchase ::
  "'f::comm_ring_1 field_env \<Rightarrow> (bytes \<Rightarrow> 'f air \<Rightarrow> bool) \<Rightarrow> bytes \<Rightarrow> h256 \<Rightarrow> h256 \<Rightarrow> u64 \<Rightarrow> bool" where
  "verify_stark_purchase E stark proof_bytes rp_commitment change_rp_commitment price =
     stark proof_bytes (purchase_air E rp_commitment change_rp_commitment price)"

definition verify_purchase_proof ::
  "'f::comm_ring_1 field_env \<Rightarrow> (bytes \<Rightarrow> 'f air \<Rightarrow> bool) \<Rightarrow> bytes \<Rightarrow> h256 \<Rightarrow> h256 \<Rightarrow> u64 \<Rightarrow> bool" where
  "verify_purchase_proof E stark prf rp_commitment change_rp_commitment price =
     verify_stark_purchase E stark prf rp_commitment change_rp_commitment price"

text \<open>
  \<open>verify_range_proof\<close> with the offsets in \<open>usize\<close>, which is 32 bits wide in the runtime: an addition
  wraps, and a slice whose end lies before its start traps. \<open>None\<close> is the trap.
\<close>

definition slice_to :: "bytes \<Rightarrow> u32 \<Rightarrow> u32 \<Rightarrow> bytes option" where
  "slice_to bs a b =
     (if a \<le> b \<and> unat b \<le> length bs then Some (take (unat b - unat a) (drop (unat a) bs)) else None)"

definition verify_range_proof ::
  "'f::comm_ring_1 field_env \<Rightarrow> (bytes \<Rightarrow> 'f air \<Rightarrow> bool) \<Rightarrow> bytes \<Rightarrow> h256 \<Rightarrow> bool option" where
  "verify_range_proof E stark range_proof rp_commitment =
     (if range_proof = [] then Some False
      else if range_proof ! 0 \<noteq> 1 then Some False
      else
        let len = of_nat (length range_proof);
            off = 1
        in if off + 4 > len then Some False else
        case slice_to range_proof off (off + 4) of None \<Rightarrow> None | Some rl \<Rightarrow>
        let rlen = of_le_bytes rl;
            off = off + 4
        in if off + rlen > len then Some False else
        case slice_to range_proof off (off + rlen) of None \<Rightarrow> None | Some range_bytes \<Rightarrow>
        let off = off + rlen
        in if off + 8 > len then Some False else
        case slice_to range_proof off (off + 8) of None \<Rightarrow> None | Some vb \<Rightarrow>
        let val = of_le_bytes vb;
            off = off + 8
        in if off + 4 > len then Some False else
        case slice_to range_proof off (off + 4) of None \<Rightarrow> None | Some cl \<Rightarrow>
        let clen = of_le_bytes cl;
            off = off + 4
        in if off + clen > len then Some False else
        case slice_to range_proof off (off + clen) of None \<Rightarrow> None | Some commit_bytes \<Rightarrow>
        if \<not> verify_stark_range E stark range_bytes val then Some False else
        if \<not> verify_stark_deposit_commit E stark commit_bytes val rp_commitment then Some False else
        Some True)"

text \<open>Slices of a concatenation.\<close>

lemma slice_to_at:
  assumes "unat a = length p" and "unat b = length p + length q"
  shows "slice_to (p @ q @ r) a b = Some q"
  using assms by (simp add: slice_to_def word_le_nat_alt)

lemma slice_to_SomeD:
  assumes "slice_to bs a b = Some q"
  shows "unat b = unat a + length q \<and> (\<exists>r. drop (unat a) bs = q @ r \<and> drop (unat b) bs = r) \<and>
    unat b \<le> length bs"
proof -
  have ab: "unat a \<le> unat b" "unat b \<le> length bs" and q: "q = take (unat b - unat a) (drop (unat a) bs)"
    using assms by (auto simp: slice_to_def word_le_nat_alt split: if_splits)
  have "drop (unat a) bs = q @ drop (unat b) bs"
    unfolding q by (metis ab(1) append_take_drop_id drop_drop le_add_diff_inverse2)
  then show ?thesis using ab q by auto
qed

lemma slice_to_word: "slice_to bs a (a + x) = Some q \<Longrightarrow> x = of_nat (length q)"
proof -
  assume "slice_to bs a (a + x) = Some q"
  from slice_to_SomeD [OF this] have "unat (a + x) = unat (a + of_nat (length q))"
    using unsigned_less [of "a + x", where 'a = nat] by (simp add: unat_word_ariths unat_of_nat)
  then have "a + x = a + of_nat (length q)" by (simp only: word_unat_eq_iff)
  then show "x = of_nat (length q)" by simp
qed

lemma slice_to_length: "slice_to bs a (a + x) = Some q \<Longrightarrow> length q = unat x"
proof -
  assume q: "slice_to bs a (a + x) = Some q"
  have "length q < 2 ^ LENGTH(32)"
    using slice_to_SomeD [OF q] unsigned_less [of "a + x", where 'a = nat] by simp
  then show "length q = unat x" unfolding slice_to_word [OF q] by (simp only: unat_of_nat_small)
qed

text \<open>
  The v1 range-proof wire format. Below \<open>2 ^ 32\<close> bytes, \<open>verify_range_proof\<close> accepts exactly the
  byte strings made of the byte 1, a length and a range proof, the value, a length and a commitment
  proof, and an ignored rest, for which both STARKs verify for that value and the given commitment.
\<close>
theorem range_proof_wire_exact:
  assumes "length rp < 2 ^ 32"
  shows "verify_range_proof E stark rp c = Some True \<longleftrightarrow>
    (\<exists>rng v cmt rest. rp = [1] @ le_bytes 4 (of_nat (length rng) :: u32) @ rng @ le_bytes 8 v @
        le_bytes 4 (of_nat (length cmt) :: u32) @ cmt @ rest \<and>
      stark rng (range_air E v) \<and> stark cmt (deposit_commit_air E v c))"
    (is "?acc \<longleftrightarrow> ?wire")
proof
  assume ?wire
  then obtain rng v cmt rest where
    rp: "rp = [1] @ le_bytes 4 (of_nat (length rng) :: u32) @ rng @ le_bytes 8 v @
      le_bytes 4 (of_nat (length cmt) :: u32) @ cmt @ rest"
    and st: "stark rng (range_air E v)" "stark cmt (deposit_commit_air E v c)" by blast
  let ?r = "of_nat (length rng) :: u32" and ?c = "of_nat (length cmt) :: u32"
  have len: "length rp = 17 + length rng + length cmt + length rest" by (simp add: rp)
  have u: "unat ?r = length rng" "unat ?c = length cmt" "unat (5 + ?r) = 5 + length rng"
    "unat (5 + ?r + 8) = 13 + length rng" "unat (5 + ?r + 8 + 4) = 17 + length rng"
    "unat (5 + ?r + 8 + 4 + ?c) = 17 + length rng + length cmt"
    "unat (of_nat (length rp) :: u32) = length rp"
    using assms len by (simp_all add: unat_of_nat unat_word_ariths)
  have s: "slice_to rp 1 (1 + 4) = Some (le_bytes 4 ?r)"
    "slice_to rp 5 (5 + ?r) = Some rng"
    "slice_to rp (5 + ?r) (5 + ?r + 8) = Some (le_bytes 8 v)"
    "slice_to rp (5 + ?r + 8) (5 + ?r + 8 + 4) = Some (le_bytes 4 ?c)"
    "slice_to rp (5 + ?r + 8 + 4) (5 + ?r + 8 + 4 + ?c) = Some cmt"
    using slice_to_at [of 1 "[1]" "1 + 4" "le_bytes 4 ?r" "rng @ le_bytes 8 v @ le_bytes 4 ?c @ cmt @ rest"]
      slice_to_at [of 5 "[1] @ le_bytes 4 ?r" "5 + ?r" rng "le_bytes 8 v @ le_bytes 4 ?c @ cmt @ rest"]
      slice_to_at [of "5 + ?r" "[1] @ le_bytes 4 ?r @ rng" "5 + ?r + 8" "le_bytes 8 v" "le_bytes 4 ?c @ cmt @ rest"]
      slice_to_at [of "5 + ?r + 8" "[1] @ le_bytes 4 ?r @ rng @ le_bytes 8 v" "5 + ?r + 8 + 4" "le_bytes 4 ?c" "cmt @ rest"]
      slice_to_at [of "5 + ?r + 8 + 4" "[1] @ le_bytes 4 ?r @ rng @ le_bytes 8 v @ le_bytes 4 ?c"
        "5 + ?r + 8 + 4 + ?c" cmt rest] u
    by (simp_all add: rp)
  show ?acc
    using s u len st
    by (simp add: verify_range_proof_def Let_def word_less_nat_alt of_le_bytes_le_bytes rp
        verify_stark_range_def verify_stark_deposit_commit_def)
next
  assume ?acc
  then obtain rl rng vb cl cmt where h: "rp \<noteq> []" "rp ! 0 = 1" and
    s: "slice_to rp 1 (1 + 4) = Some rl"
      "slice_to rp (1 + 4) (1 + 4 + of_le_bytes rl) = Some rng"
      "slice_to rp (1 + 4 + of_le_bytes rl) (1 + 4 + of_le_bytes rl + 8) = Some vb"
      "slice_to rp (1 + 4 + of_le_bytes rl + 8) (1 + 4 + of_le_bytes rl + 8 + 4) = Some cl"
      "slice_to rp (1 + 4 + of_le_bytes rl + 8 + 4) (1 + 4 + of_le_bytes rl + 8 + 4 + of_le_bytes cl) = Some cmt"
    and st: "stark rng (range_air E (of_le_bytes vb))" "stark cmt (deposit_commit_air E (of_le_bytes vb) c)"
    by (auto simp: verify_range_proof_def Let_def verify_stark_range_def verify_stark_deposit_commit_def
        split: if_splits option.splits)
  note w = s [THEN slice_to_word]
  have len: "length rl = 4" "length vb = 8" "length cl = 4"
    using s(1,3,4) [THEN slice_to_length] by simp_all
  have next_slice: "drop (unat a) rp = q @ drop (unat b) rp" if "slice_to rp a b = Some q" for a b q
    using slice_to_SomeD [OF that] by auto
  have "rp = [1] @ drop (unat (1 :: u32)) rp" using h by (cases rp) auto
  then have rp: "rp = [1] @ rl @ rng @ vb @ cl @ cmt @ drop (unat (1 + 4 + of_le_bytes rl + 8 + 4 + of_le_bytes cl :: u32)) rp"
    unfolding s [THEN next_slice] .
  have "rl = le_bytes 4 (of_nat (length rng) :: u32)" "cl = le_bytes 4 (of_nat (length cmt) :: u32)"
    "vb = le_bytes 8 (of_le_bytes vb :: u64)"
    using len w(2,5) le_bytes_of_le_bytes [of rl 4, where 'a = 32] le_bytes_of_le_bytes [of cl 4, where 'a = 32]
      le_bytes_of_le_bytes [of vb 8, where 'a = 64] by simp_all
  then show ?wire using rp st by metis
qed

theorem range_proof_wire_exact_witness:
  "verify_range_proof (word_env (\<lambda>_. 3)) (\<lambda>p _. length p = 3)
     ([1] @ le_bytes 4 (3 :: u32) @ [7, 8, 9] @ le_bytes 8 (5 :: u64) @ le_bytes 4 (3 :: u32) @ [4, 5, 6] @ [0]) 2 =
   Some True"
proof -
  let ?rp = "[1] @ le_bytes 4 (3 :: u32) @ [7, 8, 9] @ le_bytes 8 (5 :: u64) @ le_bytes 4 (3 :: u32) @ [4, 5, 6] @ [0]"
  have "?rp = [1] @ le_bytes 4 (of_nat (length [7, 8, 9 :: u8]) :: u32) @ [7, 8, 9] @ le_bytes 8 (5 :: u64) @
      le_bytes 4 (of_nat (length [4, 5, 6 :: u8]) :: u32) @ [4, 5, 6] @ [0]" by simp
  moreover have "length ?rp < 2 ^ 32" by simp
  moreover have "length [7, 8, 9 :: u8] = 3" "length [4, 5, 6 :: u8] = 3" by simp_all
  ultimately show ?thesis
    using range_proof_wire_exact [of ?rp "word_env (\<lambda>_. 3)" "\<lambda>p _. length p = 3" 2] by blast
qed

end
