(* ===== verification/ProofHubNode.thy ===== *)
theory ProofHubNode
  imports Verifier ProofHubPool
begin

text \<open>
  The ProofHub pallet with \<open>RuntimeProofVerifier\<close> of \<open>proofhub/runtime/src/configs/mod.rs\<close>, which wires
  it to the verifier crate, and what the parts prove together: a spend the chain accepts from genesis
  spends a note of the tree.
\<close>

section \<open>The verifier of the runtime\<close>

text \<open>A trap in the v1 range-proof parser aborts the extrinsic, like a refused proof.\<close>

definition RuntimeProofVerifier ::
  "'f::comm_ring_1 field_env \<Rightarrow> ml_dsa \<Rightarrow> (bytes \<Rightarrow> 'f air \<Rightarrow> bool) \<Rightarrow> proof_verify" where
  "RuntimeProofVerifier E M stark =
     \<lparr>pv_verify_commitment = verify_commitment E,
      pv_verify_purchase = verify_purchase E M,
      pv_verify_withdrawal = verify_withdrawal E M,
      pv_verify_range_proof = (\<lambda>rp c. verify_range_proof E stark rp c = Some True),
      pv_verify_purchase_proof = verify_purchase_proof E stark,
      pv_verify_deposit_v2 = verify_deposit_v2 E stark,
      pv_verify_spend_v2 = verify_spend_v2 E stark,
      pv_verify_spend_auth_v2 = verify_spend_auth_v2 E M,
      pv_v2_insert_leaf = v2_insert_leaf (merkle_hash2 E),
      pv_v2_zero_change_leaf = zero_change_leaf E\<rparr>"

text \<open>
  The proof system is sound: a proof is accepted only for a circuit that some trace satisfies. A
  concrete proof system has this up to its security level; here it is a hypothesis on \<open>stark\<close>.
\<close>

definition stark_sound :: "(bytes \<Rightarrow> 'f::comm_ring_1 air \<Rightarrow> bool) \<Rightarrow> bool" where
  "stark_sound stark \<longleftrightarrow> (\<forall>p air. stark p air \<longrightarrow> (\<exists>n tr. air_accepts air n tr))"

section \<open>Paths in the tree of the pallet\<close>

lemma double_add_eq:
  fixes a b c d :: nat
  assumes "2 * a + b mod 2 = 2 * c + d mod 2"
  shows "a = c \<and> b mod 2 = d mod 2"
  using assms by (cases "b mod 2 = 0"; cases "d mod 2 = 0") (simp_all add: mod_2_eq_odd, presburger+)

lemma fold_path_mod:
  assumes "unat idx mod 2 ^ length ds = unat idx' mod 2 ^ length ds"
  shows "fold_path h2 ds sibs node idx = fold_path h2 ds sibs node idx'"
    and "path_pairs h2 ds sibs node idx = path_pairs h2 ds sibs node idx'"
proof -
  have "fold_path h2 ds sibs node idx = fold_path h2 ds sibs node idx' \<and>
    path_pairs h2 ds sibs node idx = path_pairs h2 ds sibs node idx'"
    using assms
  proof (induction ds arbitrary: node idx idx')
    case (Cons d ds)
    have "unat idx mod (2 * 2 ^ length ds) = unat idx' mod (2 * 2 ^ length ds)"
      using Cons.prems by simp
    then have "2 * (unat idx div 2 mod 2 ^ length ds) + unat idx mod 2 =
        2 * (unat idx' div 2 mod 2 ^ length ds) + unat idx' mod 2"
      unfolding mod_mult2_eq .
    from double_add_eq [OF this] have "unat idx div 2 mod 2 ^ length ds = unat idx' div 2 mod 2 ^ length ds"
      "unat idx mod 2 = unat idx' mod 2"
      by simp_all
    then have bits: "odd (unat idx) = odd (unat idx')" and
      up: "unat (drop_bit 1 idx) mod 2 ^ length ds = unat (drop_bit 1 idx') mod 2 ^ length ds"
      by (simp_all only: odd_iff_mod_2_eq_one unat_shift)
    show ?case using Cons.IH [OF up] bits by (simp add: and_1_word)
  qed simp
  then show "fold_path h2 ds sibs node idx = fold_path h2 ds sibs node idx'"
    and "path_pairs h2 ds sibs node idx = path_pairs h2 ds sibs node idx'" by simp_all
qed

lemma fold_path_hash: "ds \<noteq> [] \<Longrightarrow> \<exists>a b. fold_path h2 ds sibs node idx = h2 a b"
proof (induction ds arbitrary: node idx)
  case (Cons d ds)
  then show ?case by (cases "ds = []") (auto simp del: fold_path.simps(2) simp: fold_path.simps)
qed simp

lemma subtree_hash: "0 < d \<Longrightarrow> \<exists>a b. subtree h2 ls d i = h2 a b"
  by (cases d) auto

lemma merkle_hash2_pack: "\<exists>x y. merkle_hash2 E a b = pack E x y"
  by (auto simp: merkle_hash2_def Let_def split: prod.splits)

lemma unpack_hash_eq:
  assumes "field_laws E" and "unpack E (merkle_hash2 E a b) = unpack E (merkle_hash2 E a' b')"
  shows "merkle_hash2 E a b = merkle_hash2 E a' b'"
  using assms merkle_hash2_pack [of E a b] merkle_hash2_pack [of E a' b'] by auto

text \<open>
  A path that ends in the root of the leaves \<open>ls\<close> starts at the leaf its index names - one of \<open>ls\<close>, or
  the zero leaf - or meets the path of that leaf in two different pairs of nodes with one hash.
\<close>

lemma path_to_root:
  assumes "fold_path h2 [0..<MERKLE_DEPTH] sibs leaf idx = subtree h2 ls MERKLE_DEPTH 0"
  shows "leaf \<in> set ls \<or> leaf = 0 \<or> (\<exists>node j. \<exists>k < MERKLE_DEPTH.
    path_pairs h2 [0..<MERKLE_DEPTH] sibs leaf idx ! k \<noteq>
      path_pairs h2 [0..<MERKLE_DEPTH] (sibling_path h2 ls j) node idx ! k \<and>
    case_prod h2 (path_pairs h2 [0..<MERKLE_DEPTH] sibs leaf idx ! k) =
      case_prod h2 (path_pairs h2 [0..<MERKLE_DEPTH] (sibling_path h2 ls j) node idx ! k))"
proof -
  define j where "j = unat idx mod 2 ^ MERKLE_DEPTH"
  define node where "node = subtree h2 ls 0 j"
  have j: "j < 2 ^ MERKLE_DEPTH" by (simp add: j_def)
  then have u: "unat (of_nat j :: u32) = j" by (simp add: unat_of_nat MERKLE_DEPTH_def)
  have "fold_path h2 [0..<MERKLE_DEPTH] (sibling_path h2 ls j) node idx =
      fold_path h2 [0..<MERKLE_DEPTH] (sibling_path h2 ls j) node (of_nat j)"
    using u by (intro fold_path_mod) (simp add: j_def)
  also have "\<dots> = subtree h2 ls MERKLE_DEPTH 0"
    using fold_path_subtree [of 0 "of_nat j" j h2 ls] u j by (simp add: node_def del: subtree.simps)
  finally have eq: "fold_path h2 [0..<MERKLE_DEPTH] sibs leaf idx =
      fold_path h2 [0..<MERKLE_DEPTH] (sibling_path h2 ls j) node idx"
    using assms by simp
  show ?thesis
  proof (cases "leaf = node")
    case True
    then show ?thesis by (auto simp: node_def)
  next
    case False
    from fold_path_binding [OF this eq] show ?thesis by auto
  qed
qed

section \<open>Spends of the v2 lane\<close>

text \<open>
  What an extrinsic of the v2 lane spends: the root, the nullifier, the digest of the signing key, the
  price or amount, the change leaf with its key digest, and whether it is a purchase.
\<close>

definition v2_spend :: "('acct, 'ccy) ph_config \<Rightarrow> 'f::comm_ring_1 field_env \<Rightarrow> 'ccy ph_state \<Rightarrow> ph_call \<Rightarrow> spend_pi option" where
  "v2_spend cfg E s call = (case call of
     call_withdraw_v2 auth pin _ \<Rightarrow>
       map_option (\<lambda>i. \<lparr>pi_root = wp_merkle_root i, pi_nf = wp_nullifier i, pi_pkd = pk_digest E (take 1312 auth),
         price_or_amount = wp_amount i, pi_change_leaf = zero_change_leaf E, pi_change_pkd = 0, mode = 0\<rparr>)
         (decode_withdraw_public_v2 (ph_codec cfg) pin)
   | call_purchase_rwa_v2 auth pin _ \<Rightarrow>
       map_option (\<lambda>i. \<lparr>pi_root = sp_merkle_root i, pi_nf = sp_nullifier i, pi_pkd = pk_digest E (take 1312 auth),
         price_or_amount = RwaPrices s (sp_rwa_id i), pi_change_leaf = sp_change_leaf i,
         pi_change_pkd = sp_change_pkd i, mode = 1\<rparr>)
         (decode_spend_public_v2 (ph_codec cfg) pin)
   | call_purchase_access_v2 auth pin _ \<Rightarrow>
       Option.bind (decode_spend_public_v2 (ph_codec cfg) pin) (\<lambda>i. map_option (\<lambda>app.
         \<lparr>pi_root = sp_merkle_root i, pi_nf = sp_nullifier i, pi_pkd = pk_digest E (take 1312 auth),
         price_or_amount = ac_price app, pi_change_leaf = sp_change_leaf i,
         pi_change_pkd = sp_change_pkd i, mode = 1\<rparr>) (AccessKeyConfigs s (sp_rwa_id i)))
   | _ \<Rightarrow> None)"

text \<open>An accepted extrinsic has checked the proof of its spend against an anchored root.\<close>

lemma accepted_spend_checked:
  assumes "ph_apply cfg (orig, call) s = Inr s'" and "v2_spend cfg E s call = Some sp"
    and v: "ProofVerifier cfg = RuntimeProofVerifier E M stark" and b: "blake3 cfg = fe_blake3 E"
  shows "v2_root_anchored s (pi_root sp) \<and> (\<exists>p. stark p (spend_air E sp)) \<and> (mode sp = 0 \<or> mode sp = 1)"
proof -
  have d: "ph_dispatch cfg orig call s = Inr s'" using assms(1) by (rule ph_apply_dispatch)
  have pkd: "compute_pk_digest cfg pk = pk_digest E pk" for pk
    by (simp add: compute_pk_digest_def pk_digest_def b)
  have pv: "pv_verify_spend_v2 (ProofVerifier cfg) = verify_spend_v2 E stark"
    "pv_v2_zero_change_leaf (ProofVerifier cfg) = zero_change_leaf E"
    by (simp_all add: v RuntimeProofVerifier_def)
  show ?thesis
  proof (cases call)
    case (call_withdraw_v2 auth pin pr)
    with d have "withdraw_v2 cfg orig auth pin pr s = Inr s'" by (simp add: ph_dispatch_def)
    from withdraw_v2_accepted [OF this] show ?thesis
      using assms(2) call_withdraw_v2
      by (auto simp: v2_spend_def v2_spend_guards_def pv pkd verify_spend_v2_def)
  next
    case (call_purchase_rwa_v2 auth pin pr)
    with d have "purchase_rwa_v2 cfg orig auth pin pr s = Inr s'" by (simp add: ph_dispatch_def)
    from purchase_rwa_v2_accepted [OF this] show ?thesis
      using assms(2) call_purchase_rwa_v2
      by (auto simp: v2_spend_def v2_spend_guards_def pv pkd verify_spend_v2_def)
  next
    case (call_purchase_access_v2 auth pin pr)
    with d have "purchase_access_v2 cfg orig auth pin pr s = Inr s'" by (simp add: ph_dispatch_def)
    from purchase_access_v2_accepted [OF this] show ?thesis
      using assms(2) call_purchase_access_v2
      by (auto simp: v2_spend_def v2_spend_guards_def pv pkd verify_spend_v2_def)
  qed (use assms(2) in \<open>simp_all add: v2_spend_def\<close>)
qed

text \<open>The roots a spend may name, over the leaves of the tree.\<close>

lemma anchored_root:
  assumes "lane_v2 tr ls s" and "v2_root_anchored s rt"
  shows "(ls = [] \<and> rt = 0) \<or> (\<exists>k. rt = tr (take k ls))"
proof (cases "rt = CurrentRootV2 s")
  case True
  then show ?thesis using assms(1) by (cases "ls = []") (auto simp: lane_v2_def intro: exI [of _ "length ls"])
next
  case False
  then show ?thesis using assms by (auto simp: lane_v2_def v2_root_anchored_def recent_window_def)
qed

text \<open>
  A path from a leaf to a root, in a tree whose leaves at positions of \<open>ls\<close> are those of \<open>ls\<close> and else
  zero, that is not the path of the leaf its index names: it shows two pairs of nodes with one hash.
\<close>

definition forged_path :: "(h256 \<Rightarrow> h256 \<Rightarrow> h256) \<Rightarrow> h256 list \<Rightarrow> h256 list \<Rightarrow> h256 \<Rightarrow> u32 \<Rightarrow> bool" where
  "forged_path h2 ls sibs leaf idx \<longleftrightarrow>
     (\<exists>node j. \<exists>k < MERKLE_DEPTH.
        path_pairs h2 [0..<MERKLE_DEPTH] sibs leaf idx ! k \<noteq>
          path_pairs h2 [0..<MERKLE_DEPTH] (sibling_path h2 ls j) node idx ! k \<and>
        case_prod h2 (path_pairs h2 [0..<MERKLE_DEPTH] sibs leaf idx ! k) =
          case_prod h2 (path_pairs h2 [0..<MERKLE_DEPTH] (sibling_path h2 ls j) node idx ! k))"

text \<open>
  C1. What the chain pays out against. With a sound proof system, in every state reached from genesis,
  an accepted v2 withdrawal, purchase or access purchase comes with a note of the tree: the note is
  held by the key whose signature authorises the call, its nullifier is the one the call consumes, and
  its value is exactly the amount paid out, or the price plus the value of the change note that the
  call inserts - as integers, without wrap-around. The note is one of the inserted leaves, at the end
  of a path to a root the tree has shown; otherwise the path itself exhibits two pairs of nodes with
  one Merkle hash, or the note hashes to the all-zero leaf, or the tree is empty and the path ends in
  the all-zero root.
\<close>
theorem spends_are_backed:
  fixes E :: "'f::comm_ring_1 field_env"
  assumes "f128_laws E" and "stark_sound stark"
    and "ProofVerifier cfg = RuntimeProofVerifier E M stark" and "blake3 cfg = fe_blake3 E"
    and "ph_apply cfg (orig, call) (run (ph_apply cfg) cs (ph_genesis bal)) = Inr s'"
    and "v2_spend cfg E (run (ph_apply cfg) cs (ph_genesis bal)) call = Some sp"
  shows "\<exists>v cv b cb idx sibs.
    unpack E (pi_nf sp) = unpack E (nullifier_hash E b) \<and>
    unpack E (pi_change_leaf sp) = unpack E (note_hash E cv cb (pi_change_pkd sp)) \<and>
    (if mode sp = 1 then unat v = unat cv + unat (price_or_amount sp) else v = price_or_amount sp \<and> cv = 0) \<and>
    unpack E (pi_root sp) =
      unpack E (fold_path (merkle_hash2 E) [0..<MERKLE_DEPTH] sibs (note_hash E v b (pi_pkd sp)) idx) \<and>
    (LeafIndexV2 (run (ph_apply cfg) cs (ph_genesis bal)) (note_hash E v b (pi_pkd sp)) \<noteq> None \<or>
     (\<exists>ls. set ls \<subseteq> dom (LeafIndexV2 (run (ph_apply cfg) cs (ph_genesis bal))) \<and>
        forged_path (merkle_hash2 E) ls sibs (note_hash E v b (pi_pkd sp)) idx) \<or>
     note_hash E v b (pi_pkd sp) = 0 \<or>
     LeafIndexV2 (run (ph_apply cfg) cs (ph_genesis bal)) = Map.empty \<and> pi_root sp = 0)"
proof -
  let ?s = "run (ph_apply cfg) cs (ph_genesis bal)" and ?h = "merkle_hash2 E"
  have fl: "field_laws E" using assms(1) by (simp add: f128_laws_def)
  obtain p where anch: "v2_root_anchored ?s (pi_root sp)" and p: "stark p (spend_air E sp)"
    and md: "mode sp = 0 \<or> mode sp = 1"
    using accepted_spend_checked [OF assms(5,6,3,4)] by blast
  obtain n tr where "air_accepts (spend_air E sp) n tr" using p assms(2) unfolding stark_sound_def by blast
  from spend_circuit_sound [OF assms(1) this md] obtain v cv b cb idx sibs where
    nf: "unpack E (pi_nf sp) = unpack E (nullifier_hash E b)" and
    rt: "unpack E (pi_root sp) =
      unpack E (fold_path ?h [0..<MERKLE_DEPTH] sibs (note_hash E v b (pi_pkd sp)) idx)" and
    cl: "unpack E (pi_change_leaf sp) = unpack E (note_hash E cv cb (pi_change_pkd sp))" and
    val: "if mode sp = 1 then unat v = unat cv + unat (price_or_amount sp) else v = price_or_amount sp \<and> cv = 0"
    by blast
  let ?leaf = "note_hash E v b (pi_pkd sp)"
  have "pv_v2_insert_leaf (ProofVerifier cfg) = v2_insert_leaf ?h"
    by (simp add: assms(3) RuntimeProofVerifier_def)
  from v2.tree_inv_from_genesis [OF this, of cs bal] obtain ls where ls: "lane_v2 (shown_root ?h) ls ?s"
    by (auto simp: v2.tree_inv_def)
  then have dom: "LeafIndexV2 ?s = index_map ls" by (simp add: lane_v2_def)
  have "LeafIndexV2 ?s ?leaf \<noteq> None \<or>
     (\<exists>ls. set ls \<subseteq> dom (LeafIndexV2 ?s) \<and> forged_path ?h ls sibs ?leaf idx) \<or> ?leaf = 0 \<or>
     LeafIndexV2 ?s = Map.empty \<and> pi_root sp = 0"
    using anchored_root [OF ls anch]
  proof (elim disjE exE)
    assume "ls = [] \<and> pi_root sp = 0"
    then show ?thesis by (simp add: dom index_map_def)
  next
    fix k assume "pi_root sp = shown_root ?h (take k ls)"
    then obtain ks where ks: "pi_root sp = subtree ?h ks MERKLE_DEPTH 0" "set ks \<subseteq> set ls"
      by (auto simp: shown_root_def reference_root_subtree set_take_subset split: if_splits)
    have "\<exists>a b. subtree ?h ks MERKLE_DEPTH 0 = ?h a b"
      by (rule subtree_hash) (simp add: MERKLE_DEPTH_def)
    moreover have "\<exists>a b. fold_path ?h [0..<MERKLE_DEPTH] sibs ?leaf idx = ?h a b"
      by (rule fold_path_hash) (simp add: MERKLE_DEPTH_def)
    ultimately have "fold_path ?h [0..<MERKLE_DEPTH] sibs ?leaf idx = subtree ?h ks MERKLE_DEPTH 0"
      using rt unpack_hash_eq [OF fl] unfolding ks(1) by metis
    from path_to_root [OF this, folded forged_path_def] show ?thesis
    proof (elim disjE)
      assume "?leaf \<in> set ks"
      then have "LeafIndexV2 ?s ?leaf \<noteq> None" using ks(2) by (auto simp: dom index_map_None)
      then show ?thesis by (rule disjI1)
    next
      assume f: "forged_path ?h ks sibs ?leaf idx"
      have "set ks \<subseteq> dom (LeafIndexV2 ?s)" using ks(2) by (simp add: dom)
      with f show ?thesis by blast
    qed simp
  qed
  with nf rt cl val show ?thesis by blast
qed

section \<open>A concrete chain\<close>

text \<open>All hashes are zero, the proof system accepts exactly the satisfiable circuits.\<close>

abbreviation zero_env :: "u128 field_env" where
  "zero_env \<equiv> word_env (\<lambda>_. 0)"

definition any_dsa :: ml_dsa where
  "any_dsa = \<lparr>pk_try_from_bytes = Some, pk_verify = (\<lambda>_ _ _ _. True)\<rparr>"

definition ideal_stark :: "bytes \<Rightarrow> u128 air \<Rightarrow> bool" where
  "ideal_stark p air = (\<exists>n tr. air_accepts air n tr)"

lemma ideal_stark_sound: "stark_sound ideal_stark"
  by (simp add: stark_sound_def ideal_stark_def)

lemma zero_env_fields: "fe_new zero_env w = w" "fe_blake3 zero_env = (\<lambda>_. 0)"
  by (simp_all add: word_env_def)

lemma zero_perm: "poseidon_perm zero_env (0, 0, 0, 0) = (0, 0, 0, 0)"
proof -
  have "poseidon_eval_round_base zero_env r (0, 0, 0, 0) = (0, 0, 0, 0)" for r
    by (simp add: poseidon_eval_round_base_def zero_constants Let_def)
  then have "fold (poseidon_eval_round_base zero_env) xs (0, 0, 0, 0) = (0, 0, 0, 0)" for xs
    by (induction xs) simp_all
  then show ?thesis by (simp add: poseidon_perm_def)
qed

lemma zero_leaf: "zero_change_leaf zero_env = 0"
proof -
  have "pack zero_env 0 0 = 0" by (simp add: pack_def join128_def word_env_def)
  then show ?thesis
    by (simp add: zero_change_leaf_def note_hash_def zero_constants zero_perm zero_env_fields)
qed

lemma zero_withdrawal_accepted: "air_accepts (spend_air zero_env (zero_pi\<lparr>mode := 0\<rparr>)) 8192 zero_row"
  unfolding air_accepts_def
proof (intro conjI allI impI)
  fix i :: nat assume "i < 8192 - 1"
  then have i: "i < 8192" by simp
  obtain fl where "periodic_at (poseidon_periodic_128 zero_env) i = [0, 0, 0, 0, fl]"
    using zero_periodic by blast
  then show "list_all (\<lambda>x. x = 0) (air_transition (spend_air zero_env (zero_pi\<lparr>mode := 0\<rparr>)) (zero_row i)
      (zero_row (i + 1)) (periodic_at (air_periodic (spend_air zero_env (zero_pi\<lparr>mode := 0\<rparr>))) i))"
    using i
    by (simp add: spend_air_def periodic_at_append spend_masks_at spend_transition_def Let_def zero_constants
        zero_pi_def zero_row_nth round_cols_def) (auto simp: word_env_def pow_step)
next
  show "list_all (\<lambda>(col, step, val). step < 8192 \<and> zero_row step ! col = val)
      (air_assertions (spend_air zero_env (zero_pi\<lparr>mode := 0\<rparr>)))"
    by (simp add: spend_air_def spend_assertions_def zero_constants zero_pi_def layout zero_row_nth)
qed

definition zero_cfg :: "(nat, nat \<Rightarrow> nat) ph_config" where
  "zero_cfg = demo_cfg\<lparr>ProofVerifier := RuntimeProofVerifier zero_env any_dsa ideal_stark\<rparr>"

definition zero_withdraw :: ph_call where
  "zero_withdraw = call_withdraw_v2 (replicate 3732 0) (encode_withdraw_public_v2 le_codec
     \<lparr>wp_merkle_root = 0, wp_nullifier = 0, wp_amount = 0, wp_destination = 0, wp_tx_id = 0\<rparr>) []"

lemma zero_spend: "v2_spend zero_cfg zero_env s zero_withdraw = Some (zero_pi\<lparr>mode := 0\<rparr>)"
  using decode_withdraw_public_v2_enc [OF le_codec_laws, of _ "[]"]
  by (simp add: v2_spend_def zero_withdraw_def zero_cfg_def demo_cfg_def zero_pi_def zero_leaf pk_digest_def
      zero_env_fields)

lemma zero_withdraw_applies:
  "\<exists>s'. ph_apply zero_cfg (Unsigned, zero_withdraw) (ph_genesis (\<lambda>_. 100)) = Inr s'"
proof -
  have "verify_spend_v2 zero_env ideal_stark p 0 0 0 0 0 0 False" for p
    using zero_withdrawal_accepted unfolding verify_spend_v2_def ideal_stark_def zero_pi_def by auto
  then show ?thesis
    using decode_withdraw_public_v2_enc [OF le_codec_laws, of _ "[]"]
    by (simp add: ph_apply_def zero_withdraw_def validate_unsigned_def ph_dispatch_def withdraw_v2_def
        zero_cfg_def demo_cfg_def RuntimeProofVerifier_def ph_genesis_def v2_root_anchored_def
        ValidTransaction_def verify_spend_auth_v2_def check_signature_def any_dsa_def DILITHIUM_PK_LEN_def
        DILITHIUM_SIG_LEN_def compute_pk_digest_def zero_leaf currency_transfer_def demo_transfer_def Let_def
        del: replicate.simps)
qed

theorem spends_are_backed_witness:
  "\<exists>v cv b cb idx sibs.
    unpack zero_env 0 = unpack zero_env (nullifier_hash zero_env b) \<and>
    unpack zero_env 0 = unpack zero_env (note_hash zero_env cv cb 0) \<and> v = 0 \<and> cv = 0 \<and>
    unpack zero_env 0 =
      unpack zero_env (fold_path (merkle_hash2 zero_env) [0..<MERKLE_DEPTH] sibs (note_hash zero_env v b 0) idx)"
proof -
  obtain s' where "ph_apply zero_cfg (Unsigned, zero_withdraw)
      (run (ph_apply zero_cfg) [] (ph_genesis (\<lambda>_. 100))) = Inr s'"
    using zero_withdraw_applies by auto
  note spends_are_backed [OF word_env_laws ideal_stark_sound _ _ this zero_spend, of any_dsa]
  moreover have "ProofVerifier zero_cfg = RuntimeProofVerifier zero_env any_dsa ideal_stark"
    "blake3 zero_cfg = fe_blake3 zero_env"
    by (simp_all add: zero_cfg_def demo_cfg_def zero_env_fields)
  ultimately obtain v cv b cb idx sibs where
    "unpack zero_env (pi_nf (zero_pi\<lparr>mode := 0\<rparr>)) = unpack zero_env (nullifier_hash zero_env b)"
    "unpack zero_env (pi_change_leaf (zero_pi\<lparr>mode := 0\<rparr>)) =
      unpack zero_env (note_hash zero_env cv cb (pi_change_pkd (zero_pi\<lparr>mode := 0\<rparr>)))"
    "if mode (zero_pi\<lparr>mode := 0\<rparr>) = 1 then unat v = unat cv + unat (price_or_amount (zero_pi\<lparr>mode := 0\<rparr>))
     else v = price_or_amount (zero_pi\<lparr>mode := 0\<rparr>) \<and> cv = 0"
    "unpack zero_env (pi_root (zero_pi\<lparr>mode := 0\<rparr>)) = unpack zero_env (fold_path (merkle_hash2 zero_env)
      [0..<MERKLE_DEPTH] sibs (note_hash zero_env v b (pi_pkd (zero_pi\<lparr>mode := 0\<rparr>))) idx)"
    by blast
  then show ?thesis unfolding zero_pi_def by (intro exI [of _ v] exI [of _ cv] exI [of _ b] exI [of _ cb] exI [of _ idx] exI [of _ sibs])
      (simp_all del: upt_rec_numeral)
qed

end
