(* ===== verification/Curve.thy ===== *)
theory Curve
  imports Codec
begin

text \<open>
  What \<open>scanproof/verifier/src/lib.rs\<close> uses of its cryptographic crates, and its deterministic
  random generator. The group of \<open>curve25519_dalek\<close> (Ristretto points and scalars), the hashes of
  \<open>sha2\<close> and \<open>blake2\<close>, the transcripts of \<open>merlin\<close> and the range proofs of \<open>bulletproofs\<close> are not part
  of the repository: they are the fields of \<open>curve\<close>, an argument of every definition that calls
  them. Points are an additive group \<open>'g\<close> and scalars a commutative ring \<open>'k\<close>, so that \<open>+\<close>, \<open>-\<close> and
  \<open>*\<close> of the source are those of the type; \<open>smul s P\<close> is \<open>s * P\<close>. \<open>curve_laws\<close> states what the crates
  document: scalar multiplication is linear, compression and the scalar encoding are inverted by
  their decoders, reducing bytes reads them as a number modulo the group order, and the all-zero
  encoding is the identity. That the group order is prime is not among them and is never used; because
  it is, every point of the real group has some opening for every amount, so that the
  properties about openings name the scalars that an extractor computes. \<open>toy_curve\<close> is a concrete instance.
\<close>

section \<open>The crates\<close>

text \<open>One \<open>append_message(label, bytes)\<close> or \<open>append_u64(label, x)\<close> of a transcript.\<close>

datatype tmsg = Msg string bytes | MsgU64 string u64

text \<open>The state of \<open>DeterministicRng\<close>: \<open>buf\<close> holds 64 bytes, \<open>idx\<close> of them already handed out.\<close>

record rng =
  rng_seed :: h256
  rng_ctr :: u64
  rng_buf :: bytes
  rng_idx :: nat

record ('g, 'k) curve =
  smul :: "'k \<Rightarrow> 'g \<Rightarrow> 'g"
  basepoint :: 'g
  compress :: "'g \<Rightarrow> h256"
  decompress :: "h256 \<Rightarrow> 'g option"
  from_uniform_bytes :: "bytes \<Rightarrow> 'g"
  from_bytes_mod_order :: "h256 \<Rightarrow> 'k"
  from_bytes_mod_order_wide :: "bytes \<Rightarrow> 'k"
  from_canonical_bytes :: "h256 \<Rightarrow> 'k option"
  scalar_bytes :: "'k \<Rightarrow> h256"
  group_order :: nat
  sha512 :: "bytes \<Rightarrow> bytes"
  blake2b512 :: "bytes \<Rightarrow> bytes"
  challenge_bytes :: "string \<Rightarrow> tmsg list \<Rightarrow> string \<Rightarrow> bytes"
  range_from_bytes :: "bytes \<Rightarrow> bytes option"
  verify_multiple_with_rng ::
    "bytes \<Rightarrow> nat \<times> nat \<Rightarrow> 'g \<times> 'g \<Rightarrow> string \<times> tmsg list \<Rightarrow> h256 list \<Rightarrow> nat \<Rightarrow> rng \<Rightarrow> bool"

definition curve_laws :: "('g::ab_group_add, 'k::comm_ring_1) curve \<Rightarrow> bool" where
  "curve_laws c \<longleftrightarrow>
     (\<forall>a b P. smul c (a + b) P = smul c a P + smul c b P) \<and>
     (\<forall>a P Q. smul c a (P + Q) = smul c a P + smul c a Q) \<and>
     (\<forall>a b P. smul c (a * b) P = smul c a (smul c b P)) \<and>
     (\<forall>P. smul c 1 P = P) \<and>
     (\<forall>P. decompress c (compress c P) = Some P) \<and> decompress c 0 = Some 0 \<and>
     (\<forall>s. from_canonical_bytes c (scalar_bytes c s) = Some s) \<and>
     (\<forall>w. from_bytes_mod_order c w = of_nat (unat w)) \<and>
     (\<forall>s. from_bytes_mod_order c (scalar_bytes c s) = s) \<and>
     of_nat (group_order c) = (0 :: 'k) \<and>
     (\<forall>bs. length (blake2b512 c bs) = 64)"

lemma curve_lawsD:
  assumes "curve_laws (c :: ('g::ab_group_add, 'k::comm_ring_1) curve)"
  shows smul_add_left: "smul c (a + b) P = smul c a P + smul c b P"
    and smul_add_right: "smul c a (P + Q) = smul c a P + smul c a Q"
    and smul_mult: "smul c (a * b) P = smul c a (smul c b P)"
    and smul_one: "smul c 1 P = P"
    and decompress_compress: "decompress c (compress c P) = Some P"
    and decompress_zero: "decompress c 0 = Some 0"
    and from_canonical_scalar_bytes: "from_canonical_bytes c (scalar_bytes c a) = Some a"
    and from_bytes_mod_order_nat: "from_bytes_mod_order c w = of_nat (unat w)"
    and from_bytes_scalar_bytes: "from_bytes_mod_order c (scalar_bytes c a) = a"
    and of_nat_group_order: "of_nat (group_order c) = (0 :: 'k)"
    and length_blake2b512: "length (blake2b512 c bs) = 64"
  using assms unfolding curve_laws_def by blast+

lemma smul_zero_left: "curve_laws c \<Longrightarrow> smul c 0 P = 0"
  using smul_add_left [of c 0 0 P] by simp

lemma smul_zero_right: "curve_laws c \<Longrightarrow> smul c a 0 = 0"
  using smul_add_right [of c a 0 0] by simp

lemma smul_minus_left: "curve_laws c \<Longrightarrow> smul c (- a) P = - smul c a P"
  using smul_add_left [of c "- a" a P] by (simp add: smul_zero_left eq_neg_iff_add_eq_0)

lemma smul_minus_right: "curve_laws c \<Longrightarrow> smul c a (- P) = - smul c a P"
  using smul_add_right [of c a "- P" P] by (simp add: smul_zero_right eq_neg_iff_add_eq_0)

lemma smul_diff_left: "curve_laws c \<Longrightarrow> smul c (a - b) P = smul c a P - smul c b P"
  using smul_add_left [of c a "- b" P] by (simp add: smul_minus_left)

lemma smul_diff_right: "curve_laws c \<Longrightarrow> smul c a (P - Q) = smul c a P - smul c a Q"
  using smul_add_right [of c a P "- Q"] by (simp add: smul_minus_right)

lemmas smul_laws = smul_add_left smul_add_right smul_mult smul_one smul_zero_left smul_zero_right
  smul_minus_left smul_minus_right smul_diff_left smul_diff_right

lemma smul_left_commute: "curve_laws c \<Longrightarrow> smul c a (smul c b P) = smul c b (smul c a P)"
  by (metis smul_mult mult.commute)

lemma smul_sum_right: "curve_laws c \<Longrightarrow> smul c a (\<Sum>i\<in>A. P i) = (\<Sum>i\<in>A. smul c a (P i))"
  by (induction A rule: infinite_finite_induct) (simp_all add: smul_laws)

lemma smul_sum_left: "curve_laws c \<Longrightarrow> smul c (\<Sum>i\<in>A. f i) P = (\<Sum>i\<in>A. smul c (f i) P)"
  by (induction A rule: infinite_finite_induct) (simp_all add: smul_laws)

text \<open>\<open>Scalar::from(u64)\<close>, and the multiscalar multiplication over two iterators of equal length.\<close>

definition scalar_from_u64 :: "u64 \<Rightarrow> 'k::comm_ring_1" where
  "scalar_from_u64 v = of_nat (unat v)"

definition vartime_multiscalar_mul :: "('g::ab_group_add, 'k) curve \<Rightarrow> 'k list \<Rightarrow> 'g list \<Rightarrow> 'g" where
  "vartime_multiscalar_mul c scalars points = (\<Sum>(s, p)\<leftarrow>zip scalars points. smul c s p)"

lemma multiscalar_mul_append:
  "length ss = length ps \<Longrightarrow> vartime_multiscalar_mul c (ss @ ss') (ps @ ps') =
     vartime_multiscalar_mul c ss ps + vartime_multiscalar_mul c ss' ps'"
  by (simp add: vartime_multiscalar_mul_def)

lemma multiscalar_mul_sum:
  assumes "length ss = n" and "length ps = n"
  shows "vartime_multiscalar_mul c ss ps = (\<Sum>i<n. smul c (ss ! i) (ps ! i))"
proof -
  have "zip ss ps = map (\<lambda>i. (ss ! i, ps ! i)) [0..<n]"
    using assms by (auto intro: nth_equalityI)
  then show ?thesis
    by (simp add: vartime_multiscalar_mul_def o_def interv_sum_list_conv_sum_set_nat atLeast0LessThan)
qed

text \<open>\<open>copy_from_slice(&bs[off..off + 32])\<close> into a 32-byte array.\<close>

definition h256_at :: "bytes \<Rightarrow> nat \<Rightarrow> h256" where
  "h256_at bs off = of_le_bytes (take 32 (drop off bs))"

lemma h256_at_le_bytes: "h256_at (le_bytes 32 w @ r) 0 = w"
  by (simp add: h256_at_def of_le_bytes_le_bytes)

lemma h256_at_skip: "length p \<le> off \<Longrightarrow> h256_at (p @ bs) off = h256_at bs (off - length p)"
  by (simp add: h256_at_def)

lemma h256_at_concat:
  "i < length ws \<Longrightarrow> h256_at (concat (map (le_bytes 32) ws) @ r) (32 * i) = ws ! i"
proof (induction ws arbitrary: i)
  case (Cons w ws)
  then show ?case
    by (cases i) (simp_all add: h256_at_le_bytes h256_at_skip)
qed simp

section \<open>The deterministic random generator\<close>

definition rng_new :: "h256 \<Rightarrow> rng" where
  "rng_new seed32 = \<lparr>rng_seed = seed32, rng_ctr = 0, rng_buf = replicate 64 0, rng_idx = 64\<rparr>"

definition refill :: "('g, 'k) curve \<Rightarrow> rng \<Rightarrow> rng" where
  "refill c r =
     (let data = le_bytes 32 (rng_seed r) @ le_bytes 8 (rng_ctr r);
          out = blake2b512 c data
      in r\<lparr>rng_buf := take 64 out, rng_idx := 0, rng_ctr := rng_ctr r + 1\<rparr>)"

lemma splice_le:
  "written + need \<le> length dest \<Longrightarrow>
     length (take written dest @ take need xs @ drop (written + need) dest) \<le> length dest"
  by simp

text \<open>
  The \<open>while\<close> loop of \<open>fill_bytes\<close>: the first \<open>written\<close> bytes of \<open>dest\<close> are done. \<open>buf\<close> is a
  \<open>[u8; 64]\<close>, so \<open>buf.len()\<close> is 64 and every turn writes at least one byte.
\<close>

function fill_loop :: "('g, 'k) curve \<Rightarrow> bytes \<Rightarrow> nat \<Rightarrow> rng \<Rightarrow> bytes \<times> rng" where
  "fill_loop c dest written r =
     (if written < length dest
      then
        let r = (if rng_idx r \<ge> 64 then refill c r else r);
            avail = 64 - rng_idx r;
            need = min avail (length dest - written);
            dest = take written dest @ take need (drop (rng_idx r) (rng_buf r)) @ drop (written + need) dest;
            r = r\<lparr>rng_idx := rng_idx r + need\<rparr>;
            written = written + need
        in fill_loop c dest written r
      else (dest, r))"
  by pat_completeness auto
termination
proof (relation "measure (\<lambda>(c, dest, written, r). length dest - written)")
  fix c :: "('g, 'k) curve" and dest dest' written written' avail need and r r' r'' :: rng
  assume w: "written < length dest" and r': "r' = (if 64 \<le> rng_idx r then refill c r else r)"
    and avail: "avail = 64 - rng_idx r'" and need: "need = min avail (length dest - written)"
    and dest': "dest' = take written dest @ take need (drop (rng_idx r') (rng_buf r')) @
      drop (written + need) dest"
    and written': "written' = written + need"
  have "rng_idx r' < 64" by (simp add: r' refill_def Let_def)
  then have "0 < need" using w by (simp add: need avail)
  moreover have "length dest' \<le> length dest"
    unfolding dest' using w by (intro splice_le) (simp add: need)
  ultimately show "((c, dest', written', r''), c, dest, written, r) \<in>
      measure (\<lambda>(c, dest, written, r). length dest - written)"
    using w by (simp add: written')
qed simp

declare fill_loop.simps [simp del]

definition fill_bytes :: "('g, 'k) curve \<Rightarrow> bytes \<Rightarrow> rng \<Rightarrow> bytes \<times> rng" where
  "fill_bytes c dest r = fill_loop c dest 0 r"

text \<open>
  The stream the generator stands for: the hash of the seed and of each counter value, one after the
  other. \<open>rng_at c r n\<close> says that \<open>n\<close> bytes of the stream have been handed out.
\<close>

definition rng_block :: "('g, 'k) curve \<Rightarrow> h256 \<Rightarrow> nat \<Rightarrow> bytes" where
  "rng_block c seed32 k = blake2b512 c (le_bytes 32 seed32 @ le_bytes 8 (of_nat k :: u64))"

definition rng_stream :: "('g, 'k) curve \<Rightarrow> h256 \<Rightarrow> nat \<Rightarrow> u8" where
  "rng_stream c seed32 n = rng_block c seed32 (n div 64) ! (n mod 64)"

definition rng_at :: "('g, 'k) curve \<Rightarrow> rng \<Rightarrow> nat \<Rightarrow> bool" where
  "rng_at c r n \<longleftrightarrow>
     (\<exists>k. length (rng_buf r) = 64 \<and> rng_idx r \<le> 64 \<and> rng_ctr r = of_nat k \<and>
        n + 64 = 64 * k + rng_idx r \<and> (k = 0 \<longrightarrow> rng_idx r = 64) \<and>
        (0 < k \<longrightarrow> rng_buf r = rng_block c (rng_seed r) (k - 1)))"

lemma rng_new_at: "rng_at c (rng_new s) 0"
  by (auto simp: rng_at_def rng_new_def intro!: exI [of _ 0])

lemma rng_new_seed [simp]: "rng_seed (rng_new s) = s"
  by (simp add: rng_new_def)

lemma refill_seed [simp]: "rng_seed (refill c r) = rng_seed r"
  by (simp add: refill_def Let_def)

lemma refill_at:
  assumes "curve_laws c" and "rng_at c r n"
  defines "r' \<equiv> if rng_idx r \<ge> 64 then refill c r else r"
  shows "rng_at c r' n \<and> rng_seed r' = rng_seed r \<and> rng_idx r' < 64 \<and> rng_idx r' = n mod 64 \<and>
    rng_buf r' = rng_block c (rng_seed r) (n div 64)"
proof -
  from assms(2) obtain k where k: "length (rng_buf r) = 64" "rng_idx r \<le> 64" "rng_ctr r = of_nat k"
    "n + 64 = 64 * k + rng_idx r" "k = 0 \<Longrightarrow> rng_idx r = 64"
    "0 < k \<Longrightarrow> rng_buf r = rng_block c (rng_seed r) (k - 1)"
    by (auto simp: rng_at_def)
  show ?thesis
  proof (cases "rng_idx r = 64")
    case True
    then have n: "n = 64 * k" using k(4) by simp
    have r': "r' = refill c r" using True by (simp add: r'_def)
    have len: "length (rng_block c (rng_seed r) k) = 64"
      using length_blake2b512 [OF assms(1)] by (simp add: rng_block_def)
    have buf: "rng_buf r' = rng_block c (rng_seed r) k"
      using len by (simp add: r' refill_def Let_def rng_block_def k(3))
    have idx: "rng_idx r' = 0" "rng_ctr r' = of_nat (Suc k)" "rng_seed r' = rng_seed r"
      by (simp_all add: r' refill_def Let_def k(3))
    have "rng_at c r' n"
      unfolding rng_at_def using buf idx len n by (intro exI [of _ "Suc k"]) simp
    with buf idx n show ?thesis by simp
  next
    case False
    then have k0: "0 < k" and i: "rng_idx r < 64" using k by (auto intro: gr0I)
    have r': "r' = r" using i by (simp add: r'_def)
    have "n = 64 * (k - 1) + rng_idx r" using k(4) k0 by (cases k) auto
    then have "n div 64 = k - 1" "n mod 64 = rng_idx r" using i by simp_all
    with k(6) [OF k0] i r' assms(2) show ?thesis by simp
  qed
qed

lemma rng_at_advance:
  assumes "rng_at c r n" and "rng_idx r + need \<le> 64"
  shows "rng_at c (r\<lparr>rng_idx := rng_idx r + need\<rparr>) (n + need)"
proof -
  from assms(1) obtain k where "length (rng_buf r) = 64" "rng_ctr r = of_nat k"
    "n + 64 = 64 * k + rng_idx r" "k = 0 \<longrightarrow> rng_idx r = 64"
    "0 < k \<longrightarrow> rng_buf r = rng_block c (rng_seed r) (k - 1)"
    by (auto simp: rng_at_def)
  then show ?thesis unfolding rng_at_def using assms(2) by (intro exI [of _ k]) auto
qed

lemma within_block:
  fixes n b i :: nat
  assumes "n mod b + i < b"
  shows "(n + i) div b = n div b" and "(n + i) mod b = n mod b + i"
proof -
  define q where "q = n div b"
  have n: "n = b * q + n mod b" by (simp add: q_def)
  have "n + i = b * q + (n mod b + i)" using n by linarith
  then have "b * q \<le> n + i" "n + i < b * Suc q" using assms by simp_all
  then show q: "(n + i) div b = n div b" by (intro div_nat_eqI) (simp_all add: q_def mult.commute)
  have "b * q + (n + i) mod b = n + i"
    using mult_div_mod_eq [of b "n + i"] by (simp only: q q_def)
  then show "(n + i) mod b = n mod b + i" using n by linarith
qed

lemma fill_loop_stream:
  assumes "curve_laws c" and "rng_at c r n" and "written \<le> length dest"
    and "fill_loop c dest written r = (out, r')"
  shows "out = take written dest @ map (rng_stream c (rng_seed r)) [n..<n + (length dest - written)] \<and>
    rng_seed r' = rng_seed r \<and> rng_at c r' (n + (length dest - written))"
  using assms
proof (induction c dest written r arbitrary: n out r' rule: fill_loop.induct)
  case (1 c dest written r)
  define r1 where "r1 = (if 64 \<le> rng_idx r then refill c r else r)"
  define need where "need = min (64 - rng_idx r1) (length dest - written)"
  define dest1 where
    "dest1 = take written dest @ take need (drop (rng_idx r1) (rng_buf r1)) @ drop (written + need) dest"
  show ?case
  proof (cases "written < length dest")
    case False
    then have "out = dest" "r' = r" using 1(5) by (simp_all add: fill_loop.simps [of c dest written r])
    with False 1(3,4) show ?thesis by simp
  next
    case True
    note r1 = refill_at [OF 1(2) 1(3), folded r1_def]
    have need: "0 < need" "need \<le> length dest - written" "rng_idx r1 + need \<le> 64"
      using True r1 by (auto simp: need_def)
    have call: "fill_loop c dest1 (written + need) (r1\<lparr>rng_idx := rng_idx r1 + need\<rparr>) = (out, r')"
      using 1(5) True
      by (simp add: fill_loop.simps [of c dest written r] r1_def need_def dest1_def Let_def)
    have blk: "length (rng_block c (rng_seed r) (n div 64)) = 64"
      using length_blake2b512 [OF 1(2)] by (simp add: rng_block_def)
    have chunk: "take need (drop (rng_idx r1) (rng_buf r1)) = map (rng_stream c (rng_seed r)) [n..<n + need]"
    proof (rule nth_equalityI)
      fix i assume "i < length (take need (drop (rng_idx r1) (rng_buf r1)))"
      then have i: "i < need" by simp
      have "(n + i) div 64 = n div 64" "(n + i) mod 64 = n mod 64 + i"
        using within_block [of n 64 i] i need(3) r1 by simp_all
      with i need(3) r1 blk show "take need (drop (rng_idx r1) (rng_buf r1)) ! i =
          map (rng_stream c (rng_seed r)) [n..<n + need] ! i"
        by (simp add: rng_stream_def)
    qed (use need(3) r1 blk in simp)
    have len1: "length dest1 = length dest"
      using need True r1 blk by (simp add: dest1_def)
    have IH: "out = take (written + need) dest1 @
        map (rng_stream c (rng_seed r)) [n + need..<n + need + (length dest1 - (written + need))] \<and>
        rng_seed r' = rng_seed r \<and> rng_at c r' (n + need + (length dest1 - (written + need)))"
      using "1.IH" [OF True r1_def refl need_def dest1_def refl refl 1(2), of "n + need" out r']
        rng_at_advance [of c r1 n need] call need r1 len1 True by simp
    have "take (written + need) dest1 = take written dest @ map (rng_stream c (rng_seed r)) [n..<n + need]"
      using need True r1 blk chunk by (simp add: dest1_def)
    moreover have "[n..<n + (length dest - written)] =
        [n..<n + need] @ [n + need..<n + (length dest - written)]"
      using upt_add_eq_append [of n "n + need" "length dest - (written + need)"] need(2) True
        add_diff_inverse_nat [of "written + need" "length dest"]
      by (metis add.assoc add_diff_cancel_left' le_add_diff_inverse le_add1 le_diff_conv2 less_imp_le_nat diff_diff_left)
    ultimately show ?thesis using IH len1 need(2) True by simp
  qed
qed

text \<open>Several buffers filled one after the other.\<close>

fun fill_all :: "('g, 'k) curve \<Rightarrow> bytes list \<Rightarrow> rng \<Rightarrow> bytes list \<times> rng" where
  "fill_all c [] r = ([], r)"
| "fill_all c (dest # dests) r =
     (let (out, r) = fill_bytes c dest r; (outs, r) = fill_all c dests r in (out # outs, r))"

lemma fill_all_stream:
  assumes "curve_laws c" and "rng_at c r n" and "fill_all c dests r = (outs, r')"
  shows "concat outs = map (rng_stream c (rng_seed r)) [n..<n + sum_list (map length dests)] \<and>
    map length outs = map length dests \<and> rng_seed r' = rng_seed r"
  using assms(2-)
proof (induction dests arbitrary: r n outs r')
  case (Cons dest dests)
  obtain out r1 outs1 where f: "fill_bytes c dest r = (out, r1)" "fill_all c dests r1 = (outs1, r')"
    and outs: "outs = out # outs1"
    using Cons.prems(2) by (auto simp: Let_def split: prod.splits)
  have "out = map (rng_stream c (rng_seed r)) [n..<n + length dest] \<and>
      rng_seed r1 = rng_seed r \<and> rng_at c r1 (n + length dest)"
    using fill_loop_stream [OF assms(1) Cons.prems(1), of 0 dest out r1] f(1)
    by (simp add: fill_bytes_def)
  then have out: "out = map (rng_stream c (rng_seed r)) [n..<n + length dest]"
    and seed: "rng_seed r1 = rng_seed r" and r1: "rng_at c r1 (n + length dest)"
    by simp_all
  have app: "[n..<n + (length dest + k)] = [n..<n + length dest] @ [n + length dest..<n + length dest + k]"
    for k
    using upt_add_eq_append [of n "n + length dest" k] by (simp only: add.assoc le_add1)
  have len: "length out = length dest" unfolding out by simp
  show ?case
    using Cons.IH [OF r1 f(2)]
    by (simp only: outs seed concat.simps list.map sum_list.Cons app map_append out [symmetric] len)
qed simp

text \<open>
  C38. However its bytes are asked for - one buffer of any length or many - the deterministic
  generator of the prover hands out the consecutive bytes of one stream, the 64-byte hashes of the
  seed with the counters 0, 1, 2, ...: the loop of \<open>fill_bytes\<close> ends, fills every byte of the buffer,
  never repeats a byte of the stream and never skips one, across refills and across calls.
\<close>
theorem rng_hands_out_stream:
  assumes "curve_laws c"
  shows "concat (fst (fill_all c dests (rng_new seed32))) =
      map (rng_stream c seed32) [0..<sum_list (map length dests)] \<and>
    map length (fst (fill_all c dests (rng_new seed32))) = map length dests"
  using fill_all_stream [OF assms rng_new_at [of c seed32]]
  by (metis add_0 prod.collapse rng_new_seed)

section \<open>A concrete instance\<close>

definition toy_curve :: "(8 word, 8 word) curve" where
  "toy_curve =
     \<lparr>smul = (*), basepoint = 1, compress = ucast, decompress = (\<lambda>w. Some (ucast w)),
      from_uniform_bytes = (\<lambda>bs. of_nat (length bs)), from_bytes_mod_order = ucast,
      from_bytes_mod_order_wide = (\<lambda>bs. bs ! 0),
      from_canonical_bytes = (\<lambda>w. if unat w < 256 then Some (ucast w) else None), scalar_bytes = ucast,
      group_order = 256, sha512 = (\<lambda>_. replicate 64 0), blake2b512 = (\<lambda>_. replicate 64 0),
      challenge_bytes = (\<lambda>_ ms _. replicate 64 (of_nat (length ms))),
      range_from_bytes = (\<lambda>_. None), verify_multiple_with_rng = (\<lambda>_ _ _ _ _ _ _. False)\<rparr>"

lemma toy_curve_laws: "curve_laws toy_curve"
proof -
  have "unat (ucast (x :: 8 word) :: h256) < 256" for x
    using unsigned_less [of x, where 'a = nat] by (simp add: unat_ucast_up)
  then show ?thesis
    by (simp add: curve_laws_def toy_curve_def distrib_left distrib_right mult.assoc)
qed

theorem rng_hands_out_stream_witness:
  "map length (fst (fill_all toy_curve [replicate 5 0, replicate 100 0] (rng_new 7))) = [5, 100]"
  using rng_hands_out_stream [OF toy_curve_laws, of "[replicate 5 0, replicate 100 0]" 7] by simp

end
