(* ===== verification/OneOfMany.thy ===== *)
theory OneOfMany
  imports Curve
begin

text \<open>
  The module \<open>one_of_many\<close> of \<open>scanproof/verifier/src/lib.rs\<close>: coins, the Groth-Kohlweiss
  one-of-many proof over a group of coins (prover and verifier), the two knowledge proofs for
  deposits and change coins, and the padding of a partial group. Points on the wire are 32-byte
  arrays; \<open>prove\<close> and \<open>verify\<close> of the source are \<open>one_of_many_prove\<close> and \<open>one_of_many_verify\<close>.
\<close>

section \<open>Generators and commitments\<close>

definition generator_h :: "('g, 'k) curve \<Rightarrow> 'g" where
  "generator_h c = from_uniform_bytes c (sha512 c (ascii ''VERIFIER_H_GENERATOR''))"

definition generator_g1 :: "('g, 'k) curve \<Rightarrow> 'g" where
  "generator_g1 c = from_uniform_bytes c (sha512 c (ascii ''NULLA_SERIAL_GENERATOR''))"

definition coin_commit :: "('g::ab_group_add, 'k::comm_ring_1) curve \<Rightarrow> h256 \<Rightarrow> u64 \<Rightarrow> h256 \<Rightarrow> h256" where
  "coin_commit c serial val blinding =
     (let s = from_bytes_mod_order c serial;
          v = scalar_from_u64 val;
          r = from_bytes_mod_order c blinding
      in compress c (smul c s (generator_g1 c) + smul c v (basepoint c) + smul c r (generator_h c)))"

definition pedersen_commit :: "('g::ab_group_add, 'k::comm_ring_1) curve \<Rightarrow> u64 \<Rightarrow> h256 \<Rightarrow> h256" where
  "pedersen_commit c val blinding =
     (let v = scalar_from_u64 val;
          r = from_bytes_mod_order c blinding
      in compress c (smul c v (basepoint c) + smul c r (generator_h c)))"

definition blinding_sub :: "('g, 'k::comm_ring_1) curve \<Rightarrow> h256 \<Rightarrow> h256 \<Rightarrow> h256" where
  "blinding_sub c r r_prime =
     scalar_bytes c (from_bytes_mod_order c r - from_bytes_mod_order c r_prime)"

definition group_hash :: "('g, 'k) curve \<Rightarrow> h256 list \<Rightarrow> h256" where
  "group_hash c coins = h256_at (blake2b512 c (concat (map (le_bytes 32) coins))) 0"

definition point_msgs :: "('g, 'k) curve \<Rightarrow> string \<Rightarrow> 'g list \<Rightarrow> tmsg list" where
  "point_msgs c label ps = map (\<lambda>p. Msg label (le_bytes 32 (compress c p))) ps"

definition fs_challenge ::
  "('g, 'k) curve \<Rightarrow> h256 \<Rightarrow> h256 \<Rightarrow> u64 \<Rightarrow> h256 \<Rightarrow> bytes \<Rightarrow>
     'g list \<Rightarrow> 'g list \<Rightarrow> 'g list \<Rightarrow> 'g list \<Rightarrow> 'k" where
  "fs_challenge c ghash serial price change ctx cl ca cb gk =
     (let t = [Msg ''group'' (le_bytes 32 ghash), Msg ''serial'' (le_bytes 32 serial),
               MsgU64 ''price'' price, Msg ''change'' (le_bytes 32 change), Msg ''ctx'' ctx];
          t = t @ point_msgs c ''cl'' cl;
          t = t @ point_msgs c ''ca'' ca;
          t = t @ point_msgs c ''cb'' cb;
          t = t @ point_msgs c ''gk'' gk
      in from_bytes_mod_order_wide c (challenge_bytes c ''NULLA_ONE_OF_MANY'' t ''x''))"

definition scalar_from_rng :: "('g, 'k) curve \<Rightarrow> rng \<Rightarrow> 'k \<times> rng" where
  "scalar_from_rng c r =
     (let (w, r) = fill_bytes c (replicate 64 0) r in (from_bytes_mod_order_wide c w, r))"

definition d_set ::
  "('g::ab_group_add, 'k::comm_ring_1) curve \<Rightarrow> h256 list \<Rightarrow> h256 \<Rightarrow> u64 \<Rightarrow> h256 \<Rightarrow> 'g list option" where
  "d_set c coins serial price change =
     (case decompress c change of
        None \<Rightarrow> None
      | Some change_pt \<Rightarrow>
          (let offset = smul c (from_bytes_mod_order c serial) (generator_g1 c) +
                 smul c (scalar_from_u64 price) (basepoint c) + change_pt
           in case those (map (decompress c) coins) of
                None \<Rightarrow> None
              | Some ps \<Rightarrow> Some (map (\<lambda>p. p - offset) ps)))"

section \<open>Powers of two\<close>

definition is_power_of_two :: "nat \<Rightarrow> bool" where
  "is_power_of_two n \<longleftrightarrow> n \<noteq> 0 \<and> n AND (n - 1) = 0"

function trailing_zeros :: "nat \<Rightarrow> nat" where
  "trailing_zeros n = (if n = 0 \<or> odd n then 0 else Suc (trailing_zeros (n div 2)))"
  by pat_completeness auto
termination by (relation "measure id") auto

declare trailing_zeros.simps [simp del]

section \<open>The prover\<close>

text \<open>The five blinding scalars of each bit, drawn bit by bit: \<open>(r, a, s, t, \<rho>)\<close>.\<close>

fun draw_blindings :: "('g, 'k) curve \<Rightarrow> nat \<Rightarrow> rng \<Rightarrow> ('k \<times> 'k \<times> 'k \<times> 'k \<times> 'k) list \<times> rng" where
  "draw_blindings c 0 g = ([], g)"
| "draw_blindings c (Suc m) g =
     (let (r, g) = scalar_from_rng c g;
          (a, g) = scalar_from_rng c g;
          (s, g) = scalar_from_rng c g;
          (t, g) = scalar_from_rng c g;
          (rho, g) = scalar_from_rng c g;
          (bs, g) = draw_blindings c m g
      in ((r, a, s, t, rho) # bs, g))"

text \<open>One factor \<open>c1 x + c0\<close> multiplied into the coefficients of a polynomial of degree \<open>deg\<close>.\<close>

definition poly_factor :: "nat \<Rightarrow> 'k::comm_ring_1 \<Rightarrow> 'k \<Rightarrow> nat \<Rightarrow> 'k list \<Rightarrow> 'k list" where
  "poly_factor m c1 c0 deg coeffs =
     fold (\<lambda>k nxt.
         let nxt = nxt[k := nxt ! k + coeffs ! k * c0]
         in nxt[k + 1 := nxt ! (k + 1) + coeffs ! k * c1])
       [0..<deg + 1] (replicate (m + 1) 0)"

definition poly_coeffs :: "nat \<Rightarrow> nat list \<Rightarrow> 'k::comm_ring_1 list \<Rightarrow> nat \<Rightarrow> 'k list" where
  "poly_coeffs m bits aj i =
     fst (fold (\<lambda>j (coeffs, deg).
         let ij = drop_bit j i AND 1;
             lj = of_nat (bits ! j);
             (c1, c0) = (if ij = 1 then (lj, aj ! j) else (1 - lj, - (aj ! j)))
         in (poly_factor m c1 c0 deg coeffs, deg + 1))
       [0..<m] ((replicate (m + 1) 0)[0 := 1], 0))"

text \<open>The serialised proof: \<open>m\<close>, the four lists of points, the three lists of scalars, \<open>z_d\<close>.\<close>

definition encode_points :: "('g, 'k) curve \<Rightarrow> 'g list \<Rightarrow> bytes" where
  "encode_points c ps = concat (map (\<lambda>p. le_bytes 32 (compress c p)) ps)"

definition encode_scalars :: "('g, 'k) curve \<Rightarrow> 'k list \<Rightarrow> bytes" where
  "encode_scalars c ss = concat (map (\<lambda>s. le_bytes 32 (scalar_bytes c s)) ss)"

definition one_of_many_prove ::
  "('g::ab_group_add, 'k::comm_ring_1) curve \<Rightarrow> h256 list \<Rightarrow> nat \<Rightarrow> h256 \<Rightarrow> u64 \<Rightarrow> h256 \<Rightarrow> h256 \<Rightarrow>
     bytes \<Rightarrow> h256 \<Rightarrow> bytes option" where
  "one_of_many_prove c coins index serial price change blinding ctx seed =
     (let n = length coins
      in if n < 2 \<or> \<not> is_power_of_two n \<or> index \<ge> n then None
      else
        let m = trailing_zeros n
        in case d_set c coins serial price change of
             None \<Rightarrow> None
           | Some d \<Rightarrow>
        let h = generator_h c;
            r = from_bytes_mod_order c blinding
        in if d ! index \<noteq> smul c r h then None
      else
        let ghash = group_hash c coins;
            bits = map (\<lambda>j. drop_bit j index AND 1) [0..<m];
            bs = fst (draw_blindings c m (rng_new seed));
            rj = map (\<lambda>(r, a, s, t, rho). r) bs;
            aj = map (\<lambda>(r, a, s, t, rho). a) bs;
            sj = map (\<lambda>(r, a, s, t, rho). s) bs;
            tj = map (\<lambda>(r, a, s, t, rho). t) bs;
            rho = map (\<lambda>(r, a, s, t, rho). rho) bs;
            cl = map (\<lambda>j. smul c (of_nat (bits ! j)) (basepoint c) + smul c (rj ! j) h) [0..<m];
            ca = map (\<lambda>j. smul c (aj ! j) (basepoint c) + smul c (sj ! j) h) [0..<m];
            cb = map (\<lambda>j. smul c (of_nat (bits ! j) * aj ! j) (basepoint c) + smul c (tj ! j) h) [0..<m];
            p = map (poly_coeffs m bits aj) [0..<n];
            gk = map (\<lambda>k. vartime_multiscalar_mul c (map (\<lambda>i. p ! i ! k) [0..<n] @ [rho ! k]) (d @ [h])) [0..<m];
            x = fs_challenge c ghash serial price change ctx cl ca cb gk;
            fj = map (\<lambda>j. of_nat (bits ! j) * x + aj ! j) [0..<m];
            zaj = map (\<lambda>j. rj ! j * x + sj ! j) [0..<m];
            zbj = map (\<lambda>j. rj ! j * (x - fj ! j) + tj ! j) [0..<m];
            xm = fold (\<lambda>_ xm. xm * x) [0..<m] 1;
            zd = fst (fold (\<lambda>k (zd, xk). (zd - rho ! k * xk, xk * x)) [0..<m] (r * xm, 1))
        in Some ([of_nat m] @ encode_points c cl @ encode_points c ca @ encode_points c cb @
             encode_points c gk @ encode_scalars c fj @ encode_scalars c zaj @ encode_scalars c zbj @
             le_bytes 32 (scalar_bytes c zd)))"

section \<open>The verifier\<close>

text \<open>\<open>m\<close> points, or \<open>m\<close> scalars, read one after the other from offset \<open>off\<close>.\<close>

definition read_points :: "('g, 'k) curve \<Rightarrow> bytes \<Rightarrow> nat \<Rightarrow> nat \<Rightarrow> 'g list option" where
  "read_points c prf off m = those (map (\<lambda>i. decompress c (h256_at prf (off + 32 * i))) [0..<m])"

definition read_scalars :: "('g, 'k) curve \<Rightarrow> bytes \<Rightarrow> nat \<Rightarrow> nat \<Rightarrow> 'k list option" where
  "read_scalars c prf off m =
     those (map (\<lambda>i. from_canonical_bytes c (h256_at prf (off + 32 * i))) [0..<m])"

text \<open>The table of the exponents: one bit of the index doubles the part of the table in use.\<close>

definition expand_exps :: "'k::comm_ring_1 \<Rightarrow> 'k \<Rightarrow> nat \<Rightarrow> 'k list \<Rightarrow> 'k list" where
  "expand_exps f1 f0 width exps =
     fold (\<lambda>i exps. let exps = exps[i + width := exps ! i * f1] in exps[i := exps ! i * f0])
       (rev [0..<width]) exps"

definition exponents :: "nat \<Rightarrow> nat \<Rightarrow> 'k::comm_ring_1 \<Rightarrow> 'k list \<Rightarrow> 'k list" where
  "exponents n m x fj =
     fst (fold (\<lambda>j (exps, width).
         let f1 = fj ! j;
             f0 = x - fj ! j
         in (expand_exps f1 f0 width exps, 2 * width))
       [0..<m] (replicate n 1, 1))"

text \<open>\<open>x^0, ..., x^(m-1)\<close> as the loop computes them.\<close>

definition powers :: "nat \<Rightarrow> 'k::comm_ring_1 \<Rightarrow> 'k list" where
  "powers m x = fst (fold (\<lambda>_ (xs, xk). (xs @ [xk], xk * x)) [0..<m] ([], 1))"

definition check_bits ::
  "('g::ab_group_add, 'k::comm_ring_1) curve \<Rightarrow> nat \<Rightarrow> 'k \<Rightarrow>
     'g list \<times> 'g list \<times> 'g list \<Rightarrow> 'k list \<times> 'k list \<times> 'k list \<Rightarrow> bool" where
  "check_bits c m x pts scs =
     (case pts of (cl, ca, cb) \<Rightarrow> case scs of (fj, zaj, zbj) \<Rightarrow>
      list_all (\<lambda>j.
        smul c x (cl ! j) + ca ! j = smul c (fj ! j) (basepoint c) + smul c (zaj ! j) (generator_h c) \<and>
        smul c (x - fj ! j) (cl ! j) + cb ! j = smul c (zbj ! j) (generator_h c)) [0..<m])"

definition check_membership ::
  "('g::ab_group_add, 'k::comm_ring_1) curve \<Rightarrow> nat \<Rightarrow> nat \<Rightarrow> 'k \<Rightarrow> 'k list \<Rightarrow> 'g list \<Rightarrow> 'g list \<Rightarrow> 'k \<Rightarrow> bool" where
  "check_membership c n m x fj d gk zd =
     (let exps = exponents n m x fj;
          xs = powers m x;
          lhs = vartime_multiscalar_mul c (exps @ map uminus xs) (d @ gk)
      in lhs = smul c zd (generator_h c))"

definition one_of_many_verify ::
  "('g::ab_group_add, 'k::comm_ring_1) curve \<Rightarrow> bytes \<Rightarrow> h256 list \<Rightarrow> h256 \<Rightarrow> u64 \<Rightarrow> h256 \<Rightarrow> bytes \<Rightarrow> bool" where
  "one_of_many_verify c prf coins serial price change ctx =
     (let n = length coins
      in if n < 2 \<or> \<not> is_power_of_two n then False
      else
        let m = trailing_zeros n
        in if length prf \<noteq> 1 + (7 * m + 1) * 32 then False
      else if unat (prf ! 0) \<noteq> m then False
      else
        case read_points c prf 1 m of None \<Rightarrow> False | Some cl \<Rightarrow>
        case read_points c prf (1 + 32 * m) m of None \<Rightarrow> False | Some ca \<Rightarrow>
        case read_points c prf (1 + 64 * m) m of None \<Rightarrow> False | Some cb \<Rightarrow>
        case read_points c prf (1 + 96 * m) m of None \<Rightarrow> False | Some gk \<Rightarrow>
        case read_scalars c prf (1 + 128 * m) m of None \<Rightarrow> False | Some fj \<Rightarrow>
        case read_scalars c prf (1 + 160 * m) m of None \<Rightarrow> False | Some zaj \<Rightarrow>
        case read_scalars c prf (1 + 192 * m) m of None \<Rightarrow> False | Some zbj \<Rightarrow>
        case from_canonical_bytes c (h256_at prf (1 + 224 * m)) of None \<Rightarrow> False | Some zd \<Rightarrow>
        case d_set c coins serial price change of None \<Rightarrow> False | Some d \<Rightarrow>
        let ghash = group_hash c coins;
            x = fs_challenge c ghash serial price change ctx cl ca cb gk
        in check_bits c m x (cl, ca, cb) (fj, zaj, zbj) \<and> check_membership c n m x fj d gk zd)"

end
