(* ===== verification/OneOfManyPoly.thy ===== *)
theory OneOfManyPoly
  imports OneOfMany MerkleV1
begin

text \<open>
  The tables of the one-of-many proof of theory OneOfMany: the coefficient lists the prover
  multiplies up are those of \<open>\<Prod>\<^sub>j f\<^sub>j\<close>, their leading coefficient selects the spent coin, the
  verifier's doubling table holds the products of the responses, and the proof bytes read back.
\<close>

section \<open>Powers of two\<close>

lemma trailing_zeros_exp: "trailing_zeros (2 ^ k) = k"
proof (induction k)
  case 0
  then show ?case by (subst trailing_zeros.simps) simp
next
  case (Suc k)
  then show ?case by (subst trailing_zeros.simps) simp
qed

lemma power_of_twoD:
  assumes "is_power_of_two n"
  shows "n = 2 ^ trailing_zeros n"
proof -
  have "n = 2 ^ ceillog2 n"
    using assms by (intro and_pred_0D) (simp_all add: is_power_of_two_def)
  then show ?thesis using trailing_zeros_exp by metis
qed

lemma is_power_of_two_exp: "is_power_of_two (2 ^ k)"
  using pow2_and_pred [of k] by (simp add: is_power_of_two_def)

section \<open>Coefficient lists\<close>

definition poly_eval :: "'k::comm_ring_1 list \<Rightarrow> 'k \<Rightarrow> 'k" where
  "poly_eval cs x = (\<Sum>k<length cs. cs ! k * x ^ k)"

lemma poly_eval_upd:
  assumes "k < length cs"
  shows "poly_eval (cs[k := cs ! k + d]) x = poly_eval cs x + d * x ^ k"
proof -
  have "poly_eval (cs[k := cs ! k + d]) x = (\<Sum>i<length cs. cs ! i * x ^ i + (if i = k then d * x ^ k else 0))"
    unfolding poly_eval_def by (auto simp: nth_list_update distrib_right intro!: sum.cong)
  also have "\<dots> = poly_eval cs x + d * x ^ k"
    using assms by (simp add: sum.distrib poly_eval_def)
  finally show ?thesis .
qed

lemma poly_eval_zero: "poly_eval (replicate n 0) x = 0"
  by (simp add: poly_eval_def)

lemma poly_factor_run:
  fixes coeffs :: "'k::comm_ring_1 list" and c1 c0 :: 'k
  assumes "t \<le> m"
  defines "nxt \<equiv> fold (\<lambda>k nxt.
         let nxt = nxt[k := nxt ! k + coeffs ! k * c0]
         in nxt[k + 1 := nxt ! (k + 1) + coeffs ! k * c1]) [0..<t] (replicate (m + 1) 0)"
  shows "length nxt = m + 1 \<and> poly_eval nxt x = (c1 * x + c0) * (\<Sum>k<t. coeffs ! k * x ^ k) \<and>
    (\<forall>k\<le>m. t < k \<longrightarrow> nxt ! k = 0) \<and> (0 < t \<longrightarrow> nxt ! t = coeffs ! (t - 1) * c1)"
  using assms(1) unfolding nxt_def
proof (induction t)
  case 0
  then show ?case by (simp add: poly_eval_zero del: replicate.simps)
next
  case (Suc t)
  define old where "old = fold (\<lambda>k nxt.
         let nxt = nxt[k := nxt ! k + coeffs ! k * c0]
         in nxt[k + 1 := nxt ! (k + 1) + coeffs ! k * c1]) [0..<t] (replicate (m + 1) 0)"
  have old: "length old = m + 1" "poly_eval old x = (c1 * x + c0) * (\<Sum>k<t. coeffs ! k * x ^ k)"
    "\<forall>k\<le>m. t < k \<longrightarrow> old ! k = 0"
    using Suc by (simp_all add: old_def)
  define mid where "mid = old[t := old ! t + coeffs ! t * c0]"
  have mid: "length mid = m + 1" "poly_eval mid x = poly_eval old x + coeffs ! t * c0 * x ^ t"
    using old(1) Suc.prems poly_eval_upd [of t old] by (simp_all add: mid_def)
  have new: "fold (\<lambda>k nxt.
         let nxt = nxt[k := nxt ! k + coeffs ! k * c0]
         in nxt[k + 1 := nxt ! (k + 1) + coeffs ! k * c1]) [0..<Suc t] (replicate (m + 1) 0) =
      mid[t + 1 := mid ! (t + 1) + coeffs ! t * c1]"
    by (simp add: old_def mid_def Let_def)
  show ?case
    unfolding new using old mid Suc.prems poly_eval_upd [of "t + 1" mid "coeffs ! t * c1" x]
    by (auto simp: mid_def nth_list_update algebra_simps)
qed

lemma poly_factor_spec:
  fixes coeffs :: "'k::comm_ring_1 list"
  assumes "length coeffs = m + 1" and "deg < m" and "\<And>k. deg < k \<Longrightarrow> k \<le> m \<Longrightarrow> coeffs ! k = 0"
  shows "length (poly_factor m c1 c0 deg coeffs) = m + 1 \<and>
    poly_eval (poly_factor m c1 c0 deg coeffs) x = (c1 * x + c0) * poly_eval coeffs x \<and>
    (\<forall>k\<le>m. deg + 1 < k \<longrightarrow> poly_factor m c1 c0 deg coeffs ! k = 0) \<and>
    poly_factor m c1 c0 deg coeffs ! (deg + 1) = coeffs ! deg * c1"
proof -
  have "poly_eval coeffs x = (\<Sum>k<deg + 1. coeffs ! k * x ^ k)"
    unfolding poly_eval_def using assms by (intro sum.mono_neutral_right) auto
  then show ?thesis
    using poly_factor_run [of "deg + 1" m coeffs c0 c1 x] assms(2) by (simp add: poly_factor_def)
qed

text \<open>The linear factor of bit \<open>j\<close> in the polynomial of coin \<open>i\<close>.\<close>

definition lin1 :: "nat list \<Rightarrow> nat \<Rightarrow> nat \<Rightarrow> 'k::comm_ring_1" where
  "lin1 bits i j = (if bit i j then of_nat (bits ! j) else 1 - of_nat (bits ! j))"

definition lin0 :: "'k::comm_ring_1 list \<Rightarrow> nat \<Rightarrow> nat \<Rightarrow> 'k" where
  "lin0 aj i j = (if bit i j then aj ! j else - (aj ! j))"

lemma drop_bit_mod_2: "drop_bit j (i::nat) mod 2 = of_bool (bit i j)"
  by (simp add: bit_iff_odd_drop_bit mod_2_eq_odd)

lemma drop_bit_and_1: "drop_bit j (i::nat) AND 1 = of_bool (bit i j)"
  by (simp add: and_one_eq drop_bit_mod_2)

lemma poly_coeffs_spec:
  fixes aj :: "'k::comm_ring_1 list"
  shows "length (poly_coeffs m bits aj i) = m + 1 \<and>
    poly_eval (poly_coeffs m bits aj i) x = (\<Prod>j<m. lin1 bits i j * x + lin0 aj i j) \<and>
    poly_coeffs m bits aj i ! m = (\<Prod>j<m. lin1 bits i j)"
proof -
  define step where "step = (\<lambda>j (coeffs :: 'k list, deg).
         let ij = drop_bit j i AND 1;
             lj = of_nat (bits ! j);
             (c1, c0) = (if ij = 1 then (lj, aj ! j) else (1 - lj, - (aj ! j)))
         in (poly_factor m c1 c0 deg coeffs, deg + 1))"
  have step: "step j (cs, deg) = (poly_factor m (lin1 bits i j) (lin0 aj i j) deg cs, deg + 1)" for j cs deg
    by (simp add: step_def drop_bit_mod_2 lin1_def lin0_def Let_def)
  have "t \<le> m \<Longrightarrow> (\<exists>cs. fold step [0..<t] ((replicate (m + 1) 0)[0 := 1], 0) = (cs, t) \<and>
      length cs = m + 1 \<and> poly_eval cs x = (\<Prod>j<t. lin1 bits i j * x + lin0 aj i j) \<and>
      (\<forall>k\<le>m. t < k \<longrightarrow> cs ! k = 0) \<and> cs ! t = (\<Prod>j<t. lin1 bits i j))" for t
  proof (induction t)
    case 0
    have "(replicate (m + 1) (0 :: 'k)) ! 0 = 0" by simp
    then have "poly_eval ((replicate (m + 1) (0 :: 'k))[0 := 1]) x = 1"
      using poly_eval_upd [of 0 "replicate (m + 1) (0 :: 'k)" 1 x] poly_eval_zero [of "m + 1" x] by simp
    then show ?case by (auto simp: nth_list_update nth_Cons')
  next
    case (Suc t)
    then obtain cs where cs: "fold step [0..<t] ((replicate (m + 1) 0)[0 := 1], 0) = (cs, t)"
      "length cs = m + 1" "poly_eval cs x = (\<Prod>j<t. lin1 bits i j * x + lin0 aj i j)"
      "\<forall>k\<le>m. t < k \<longrightarrow> cs ! k = 0" "cs ! t = (\<Prod>j<t. lin1 bits i j)"
      by (meson Suc_leD)
    have "fold step [0..<Suc t] ((replicate (m + 1) 0)[0 := 1], 0) =
        (poly_factor m (lin1 bits i t) (lin0 aj i t) t cs, Suc t)"
      using cs(1) step [of t cs t] by simp
    then show ?case
      using poly_factor_spec [of cs m t "lin1 bits i t" "lin0 aj i t" x] cs Suc.prems
      by (auto simp: mult.commute)
  qed
  from this [of m] obtain cs where "fold step [0..<m] ((replicate (m + 1) 0)[0 := 1], 0) = (cs, m)"
    "length cs = m + 1" "poly_eval cs x = (\<Prod>j<m. lin1 bits i j * x + lin0 aj i j)"
    "cs ! m = (\<Prod>j<m. lin1 bits i j)"
    by auto
  moreover have "poly_coeffs m bits aj i = fst (fold step [0..<m] ((replicate (m + 1) 0)[0 := 1], 0))"
    by (simp only: poly_coeffs_def step_def)
  ultimately show ?thesis by simp
qed

lemma bits_differ:
  fixes i l :: nat
  assumes "i < 2 ^ m" and "l < 2 ^ m" and "i \<noteq> l"
  shows "\<exists>j<m. bit i j \<noteq> bit l j"
proof (rule ccontr)
  assume "\<not> ?thesis"
  then have "take_bit m i = take_bit m l" by (auto simp: bit_eq_iff bit_take_bit_iff)
  then show False using assms by (simp add: take_bit_nat_eq_self_iff [THEN iffD2])
qed

lemma leading_coeff:
  assumes "i < 2 ^ m" and "l < 2 ^ m"
  shows "(\<Prod>j<m. lin1 (map (\<lambda>j. drop_bit j l AND 1) [0..<m]) i j) = (of_bool (i = l) :: 'k::comm_ring_1)"
proof (cases "i = l")
  case True
  then show ?thesis by (auto simp: lin1_def drop_bit_mod_2 intro!: prod.neutral)
next
  case False
  then obtain j where "j < m" "bit i j \<noteq> bit l j" using bits_differ assms by blast
  then have "lin1 (map (\<lambda>j. drop_bit j l AND 1) [0..<m]) i j = (0 :: 'k)"
    by (auto simp: lin1_def drop_bit_mod_2)
  then show ?thesis using False \<open>j < m\<close> by (auto intro!: prod_zero)
qed

section \<open>The doubling table\<close>

lemma expand_exps_spec:
  fixes exps :: "'k::comm_ring_1 list"
  assumes "2 * width \<le> length exps"
  shows "length (expand_exps f1 f0 width exps) = length exps \<and>
    (\<forall>i<width. expand_exps f1 f0 width exps ! i = exps ! i * f0 \<and>
       expand_exps f1 f0 width exps ! (i + width) = exps ! i * f1) \<and>
    (\<forall>i. 2 * width \<le> i \<longrightarrow> expand_exps f1 f0 width exps ! i = exps ! i)"
proof -
  define step where "step = (\<lambda>i (exps :: 'k list).
    let exps = exps[i + width := exps ! i * f1] in exps[i := exps ! i * f0])"
  have "t \<le> width \<Longrightarrow> length (fold step (rev [width - t..<width]) exps) = length exps \<and>
    (\<forall>i<width - t. fold step (rev [width - t..<width]) exps ! i = exps ! i) \<and>
    (\<forall>i<width. width - t \<le> i \<longrightarrow> fold step (rev [width - t..<width]) exps ! i = exps ! i * f0 \<and>
       fold step (rev [width - t..<width]) exps ! (i + width) = exps ! i * f1) \<and>
    (\<forall>i. 2 * width \<le> i \<longrightarrow> fold step (rev [width - t..<width]) exps ! i = exps ! i)" for t
  proof (induction t)
    case (Suc t)
    define old where "old = fold step (rev [width - t..<width]) exps"
    define q where "q = width - Suc t"
    have q: "width - t = Suc q" "q < width" using Suc.prems by (auto simp: q_def)
    have "[q..<width] = q # [width - t..<width]"
      using q by (simp add: upt_conv_Cons)
    then have new: "fold step (rev [q..<width]) exps = step q old"
      by (simp add: old_def)
    have IH: "length old = length exps" "\<And>i. i < Suc q \<Longrightarrow> old ! i = exps ! i"
      "\<And>i. i < width \<Longrightarrow> Suc q \<le> i \<Longrightarrow> old ! i = exps ! i * f0 \<and> old ! (i + width) = exps ! i * f1"
      "\<And>i. 2 * width \<le> i \<Longrightarrow> old ! i = exps ! i"
      using Suc unfolding q(1) old_def by simp_all
    have "i = q \<or> Suc q \<le> i" if "q \<le> i" for i using that by auto
    then show ?case
      unfolding q_def [symmetric] new
      using IH q assms by (auto simp: step_def Let_def nth_list_update)
  qed simp
  from this [of width] show ?thesis
    unfolding expand_exps_def step_def by simp
qed

lemma exponents_spec:
  fixes fj :: "'k::comm_ring_1 list"
  assumes "n = 2 ^ m"
  shows "length (exponents n m x fj) = n \<and>
    (\<forall>i<n. exponents n m x fj ! i = (\<Prod>j<m. if bit i j then fj ! j else x - fj ! j))"
proof -
  define step where "step = (\<lambda>j (exps :: 'k list, width).
         let f1 = fj ! j; f0 = x - fj ! j in (expand_exps f1 f0 width exps, 2 * width))"
  have "t \<le> m \<Longrightarrow> (\<exists>exps. fold step [0..<t] (replicate n 1, 1) = (exps, 2 ^ t) \<and> length exps = n \<and>
    (\<forall>i<2 ^ t. exps ! i = (\<Prod>j<t. if bit i j then fj ! j else x - fj ! j)))" for t
  proof (induction t)
    case (Suc t)
    then obtain exps where e: "fold step [0..<t] (replicate n 1, 1) = (exps, 2 ^ t)" "length exps = n"
      "\<And>i. i < 2 ^ t \<Longrightarrow> exps ! i = (\<Prod>j<t. if bit i j then fj ! j else x - fj ! j)"
      by (meson Suc_leD)
    define new where "new = expand_exps (fj ! t) (x - fj ! t) (2 ^ t) exps"
    have le: "2 * 2 ^ t \<le> length exps"
      using Suc.prems power_increasing [of "Suc t" m "2::nat"] e(2) assms by simp
    note ex = expand_exps_spec [OF le, of "fj ! t" "x - fj ! t", folded new_def]
    have run: "fold step [0..<Suc t] (replicate n 1, 1) = (new, 2 ^ Suc t)"
      using e(1) by (simp add: step_def new_def Let_def)
    have "new ! i = (\<Prod>j<Suc t. if bit i j then fj ! j else x - fj ! j)" if i: "i < 2 ^ Suc t" for i
    proof (cases "i < 2 ^ t")
      case True
      then have "\<not> bit i t" by (simp add: bit_iff_odd)
      then show ?thesis using ex e(3) True by simp
    next
      case False
      define k where "k = i - 2 ^ t"
      have k: "i = k + 2 ^ t" "k < 2 ^ t" using False i by (simp_all add: k_def)
      have "bit i t" using k by (simp add: bit_iff_odd)
      moreover have "bit i j = bit k j" if "j < t" for j
      proof -
        have "take_bit t i = take_bit t k" by (simp add: k(1) take_bit_eq_mod)
        then show ?thesis using that by (metis bit_take_bit_iff)
      qed
      then have "(\<Prod>j<t. if bit i j then fj ! j else x - fj ! j) = exps ! k"
        using e(3) [OF k(2)] by simp
      ultimately show ?thesis using ex k by simp
    qed
    with run ex e(2) show ?case by blast
  qed (simp add: assms)
  from this [of m] show ?thesis
    using assms by (auto simp: exponents_def step_def)
qed

lemma powers_eq: "powers m x = map (\<lambda>k. x ^ k) [0..<m]"
proof -
  have "fold (\<lambda>_ (xs, xk). (xs @ [xk], xk * x)) [0..<m] ([], 1) = (map (\<lambda>k. x ^ k) [0..<m], x ^ m)"
    by (induction m) (simp_all add: mult.commute)
  then show ?thesis by (simp add: powers_def)
qed

lemma fold_power: "fold (\<lambda>_ xm. xm * (x :: 'k::comm_ring_1)) [0..<m] 1 = x ^ m"
  by (induction m) (simp_all add: mult.commute)

lemma fold_zd:
  fixes x :: "'k::comm_ring_1"
  shows "fold (\<lambda>k (zd, xk). (zd - rho ! k * xk, xk * x)) [0..<m] (z, 1) = (z - (\<Sum>k<m. rho ! k * x ^ k), x ^ m)"
  by (induction m) (simp_all add: algebra_simps)

section \<open>Reading the proof back\<close>

lemma those_map_Some: "those (map (\<lambda>x. Some (f x)) xs) = Some (map f xs)"
  by (induction xs) simp_all

lemma h256_at_encode:
  assumes "length p = off" and "i < length ws"
  shows "h256_at (p @ concat (map (le_bytes 32) ws) @ r) (off + 32 * i) = ws ! i"
  using assms h256_at_concat [of i ws r] by (simp add: h256_at_skip)

lemma read_points_encode:
  assumes "curve_laws c" and "length p = off"
  shows "read_points c (p @ encode_points c ps @ r) off (length ps) = Some ps"
proof -
  have "encode_points c ps = concat (map (le_bytes 32) (map (compress c) ps))"
    by (simp add: encode_points_def o_def)
  then have "map (\<lambda>i. decompress c (h256_at (p @ encode_points c ps @ r) (off + 32 * i))) [0..<length ps] =
      map (\<lambda>i. Some (ps ! i)) [0..<length ps]"
    using h256_at_encode [OF assms(2), of _ "map (compress c) ps" r] decompress_compress [OF assms(1)]
    by simp
  then show ?thesis by (simp only: read_points_def those_map_Some map_nth)
qed

lemma read_scalars_encode:
  assumes "curve_laws c" and "length p = off"
  shows "read_scalars c (p @ encode_scalars c ss @ r) off (length ss) = Some ss"
proof -
  have "encode_scalars c ss = concat (map (le_bytes 32) (map (scalar_bytes c) ss))"
    by (simp add: encode_scalars_def o_def)
  then have "map (\<lambda>i. from_canonical_bytes c (h256_at (p @ encode_scalars c ss @ r) (off + 32 * i)))
        [0..<length ss] = map (\<lambda>i. Some (ss ! i)) [0..<length ss]"
    using h256_at_encode [OF assms(2), of _ "map (scalar_bytes c) ss" r]
      from_canonical_scalar_bytes [OF assms(1)] by simp
  then show ?thesis by (simp only: read_scalars_def those_map_Some map_nth)
qed

lemma length_encode [simp]:
  "length (encode_points c ps) = 32 * length ps" "length (encode_scalars c ss) = 32 * length ss"
  by (simp_all add: encode_points_def encode_scalars_def length_concat o_def sum_list_triv)

end
