(* ===== verification/OneOfManyComplete.thy ===== *)
theory OneOfManyComplete
  imports OneOfManyPoly
begin

text \<open>
  Completeness of the one-of-many proof of theory OneOfMany: every proof the prover returns is
  accepted by the verifier, and the prover returns one whenever its witness holds.
\<close>

section \<open>The two equations of a bit\<close>

lemma bit_equations:
  fixes b r a s t x :: "'k::comm_ring_1" and G H :: "'g::ab_group_add"
  assumes c: "curve_laws c" and b: "b * b = b"
  defines "cl \<equiv> smul c b G + smul c r H" and "ca \<equiv> smul c a G + smul c s H"
    and "cb \<equiv> smul c (b * a) G + smul c t H" and "f \<equiv> b * x + a"
  shows "smul c x cl + ca = smul c f G + smul c (r * x + s) H"
    and "smul c (x - f) cl + cb = smul c (r * (x - f) + t) H"
proof -
  show "smul c x cl + ca = smul c f G + smul c (r * x + s) H"
    unfolding cl_def ca_def f_def by (simp add: smul_laws [OF c] smul_left_commute [OF c] algebra_simps)
  have "smul c (x - f) cl + cb = smul c ((x - f) * b + b * a) G + smul c ((x - f) * r + t) H"
    unfolding cl_def cb_def by (simp add: smul_laws [OF c] smul_left_commute [OF c] algebra_simps)
  also have "(x - f) * b + b * a = 0"
  proof -
    have "(x - f) * b + b * a = x * (b - b * b)" by (simp add: f_def algebra_simps)
    then show ?thesis by (simp add: b)
  qed
  finally show "smul c (x - f) cl + cb = smul c (r * (x - f) + t) H"
    by (simp only: smul_zero_left [OF c] add_0 mult.commute)
qed

section \<open>The membership equation\<close>

text \<open>An exponent of the doubling table is the polynomial of its coin, apart from the coin's leading term.\<close>

lemma exponents_poly:
  fixes x :: "'k::comm_ring_1"
  assumes n: "n = 2 ^ m" and l: "l < n" and i: "i < n"
    and bits: "bits = map (\<lambda>j. drop_bit j l AND 1) [0..<m]"
    and fj: "\<And>j. j < m \<Longrightarrow> fj ! j = of_nat (bits ! j) * x + aj ! j"
  shows "exponents n m x fj ! i = (\<Sum>k<m. poly_coeffs m bits aj i ! k * x ^ k) + of_bool (i = l) * x ^ m"
proof -
  have "exponents n m x fj ! i = (\<Prod>j<m. if bit i j then fj ! j else x - fj ! j)"
    using exponents_spec [OF n] i by blast
  also have "\<dots> = (\<Prod>j<m. lin1 bits i j * x + lin0 aj i j)"
    by (rule prod.cong) (simp_all add: fj lin1_def lin0_def algebra_simps)
  also have "\<dots> = poly_eval (poly_coeffs m bits aj i) x"
    using poly_coeffs_spec by metis
  also have "\<dots> = (\<Sum>k<m. poly_coeffs m bits aj i ! k * x ^ k) + poly_coeffs m bits aj i ! m * x ^ m"
    using poly_coeffs_spec [of m bits aj i x] by (simp add: poly_eval_def)
  also have "poly_coeffs m bits aj i ! m = of_bool (i = l)"
    using poly_coeffs_spec [of m bits aj i x] leading_coeff [of i m l] i l n by (simp add: bits)
  finally show ?thesis .
qed

lemma exponents_sum:
  fixes x :: "'k::comm_ring_1" and n l :: nat
  assumes c: "curve_laws c" and l: "l < n"
    and ex: "\<And>i. i < n \<Longrightarrow> e i = (\<Sum>k<m. p i k * x ^ k) + of_bool (i = l) * x ^ m"
  shows "(\<Sum>i<n. smul c (e i) (P i)) = (\<Sum>i<n. \<Sum>k<m. smul c (p i k * x ^ k) (P i)) + smul c (x ^ m) (P l)"
proof -
  have "(\<Sum>i<n. smul c (e i) (P i)) =
      (\<Sum>i<n. (\<Sum>k<m. smul c (p i k * x ^ k) (P i)) + smul c (of_bool (i = l) * x ^ m) (P i))"
    by (rule sum.cong) (simp_all add: ex smul_add_left [OF c] smul_sum_left [OF c])
  also have "\<dots> = (\<Sum>i<n. \<Sum>k<m. smul c (p i k * x ^ k) (P i)) + (\<Sum>i<n. if i = l then smul c (x ^ m) (P l) else 0)"
    by (simp only: sum.distrib) (intro arg_cong2 [where f = "(+)"] refl sum.cong, simp add: smul_laws [OF c])
  finally show ?thesis using l by simp
qed

lemma membership_equation:
  fixes x :: "'k::comm_ring_1" and d :: "'g::ab_group_add list"
  assumes c: "curve_laws c" and n: "n = 2 ^ m" and l: "l < n" and d: "length d = n"
    and bits: "bits = map (\<lambda>j. drop_bit j l AND 1) [0..<m]"
    and fj: "fj = map (\<lambda>j. of_nat (bits ! j) * x + aj ! j) [0..<m]"
    and gk: "gk = map (\<lambda>k. vartime_multiscalar_mul c
        (map (\<lambda>i. map (poly_coeffs m bits aj) [0..<n] ! i ! k) [0..<n] @ [rho ! k]) (d @ [h])) [0..<m]"
    and dl: "d ! l = smul c r h"
  shows "vartime_multiscalar_mul c (exponents n m x fj @ map uminus (powers m x)) (d @ gk) =
    smul c (r * x ^ m - (\<Sum>k<m. rho ! k * x ^ k)) h"
proof -
  define p where "p i k = poly_coeffs m bits aj i ! k" for i k
  have gk_nth: "gk ! k = (\<Sum>i<n. smul c (p i k) (d ! i)) + smul c (rho ! k) h" if "k < m" for k
    using that d by (simp add: gk multiscalar_mul_append p_def multiscalar_mul_sum [of _ n] cong: sum.cong)
      (simp add: vartime_multiscalar_mul_def)
  have ex: "exponents n m x fj ! i = (\<Sum>k<m. p i k * x ^ k) + of_bool (i = l) * x ^ m" if i: "i < n" for i
    unfolding p_def by (rule exponents_poly [OF n l i bits]) (simp add: fj)
  have "vartime_multiscalar_mul c (exponents n m x fj @ map uminus (powers m x)) (d @ gk) =
      (\<Sum>i<n. smul c (exponents n m x fj ! i) (d ! i)) + (\<Sum>k<m. smul c (- (x ^ k)) (gk ! k))"
    using exponents_spec [OF n, of x fj] d
    by (simp add: multiscalar_mul_append multiscalar_mul_sum [of _ n] powers_eq gk
        multiscalar_mul_sum [of _ m])
  also have "(\<Sum>i<n. smul c (exponents n m x fj ! i) (d ! i)) =
      (\<Sum>i<n. \<Sum>k<m. smul c (p i k * x ^ k) (d ! i)) + smul c (x ^ m) (d ! l)"
    by (rule exponents_sum [OF c l ex])
  also have "(\<Sum>k<m. smul c (- (x ^ k)) (gk ! k)) =
      - (\<Sum>k<m. \<Sum>i<n. smul c (p i k * x ^ k) (d ! i)) - smul c (\<Sum>k<m. rho ! k * x ^ k) h"
    by (simp add: gk_nth smul_add_right [OF c] smul_minus_left [OF c] smul_sum_right [OF c]
        smul_sum_left [OF c] sum.distrib sum_negf sum_subtractf smul_mult [OF c, symmetric] mult.commute)
  finally show ?thesis
    using sum.swap [of "\<lambda>i k. smul c (p i k * x ^ k) (d ! i)" "{..<m}" "{..<n}"]
    by (simp add: dl smul_diff_left [OF c] smul_mult [OF c, symmetric] mult.commute)
qed

section \<open>Completeness\<close>

lemma draw_blindings_length: "length (fst (draw_blindings c m g)) = m"
  by (induction m arbitrary: g) (simp_all add: Let_def case_prod_beta)

lemma those_SomeD:
  "those xs = Some ys \<Longrightarrow> length ys = length xs \<and> (\<forall>i<length xs. xs ! i = Some (ys ! i))"
proof (induction xs arbitrary: ys)
  case (Cons x xs)
  then show ?case by (auto simp: less_Suc_eq_0_disj split: option.splits)
qed simp

lemma d_set_length: "d_set c coins serial price change = Some d \<Longrightarrow> length d = length coins"
  by (fastforce simp: d_set_def Let_def split: option.splits dest: those_SomeD)

lemma trailing_zeros_bounds:
  assumes "is_power_of_two n" and "2 \<le> n" and "n < 2 ^ 64"
  shows "0 < trailing_zeros n" and "trailing_zeros n < 64"
proof -
  have n: "n = 2 ^ trailing_zeros n" using assms(1) by (rule power_of_twoD)
  show "0 < trailing_zeros n" using n assms(2) by (cases "trailing_zeros n") auto
  have "(2::nat) ^ trailing_zeros n < 2 ^ 64" using n assms(3) by simp
  then show "trailing_zeros n < 64" by (simp only: power_strict_increasing_iff)
qed

text \<open>The bytes of a proof with \<open>m\<close> levels, as the verifier takes them apart.\<close>

lemma reads_encoded:
  assumes c: "curve_laws c"
    and lens: "length cl = m" "length ca = m" "length cb = m" "length gk = m"
      "length fj = m" "length zaj = m" "length zbj = m"
    and p: "p = [of_nat m] @ encode_points c cl @ encode_points c ca @ encode_points c cb @
             encode_points c gk @ encode_scalars c fj @ encode_scalars c zaj @ encode_scalars c zbj @
             le_bytes 32 (scalar_bytes c zd)"
  shows "length p = 1 + (7 * m + 1) * 32"
    and "read_points c p 1 m = Some cl" and "read_points c p (1 + 32 * m) m = Some ca"
    and "read_points c p (1 + 64 * m) m = Some cb" and "read_points c p (1 + 96 * m) m = Some gk"
    and "read_scalars c p (1 + 128 * m) m = Some fj" and "read_scalars c p (1 + 160 * m) m = Some zaj"
    and "read_scalars c p (1 + 192 * m) m = Some zbj"
    and "from_canonical_bytes c (h256_at p (1 + 224 * m)) = Some zd"
proof -
  show "length p = 1 + (7 * m + 1) * 32" using lens by (simp add: p)
  show "read_points c p 1 m = Some cl"
    using read_points_encode [OF c, of "[of_nat m]" 1 cl] lens by (simp add: p)
  show "read_points c p (1 + 32 * m) m = Some ca"
    using read_points_encode [OF c, of "[of_nat m] @ encode_points c cl" "1 + 32 * m" ca] lens
    by (simp add: p)
  show "read_points c p (1 + 64 * m) m = Some cb"
    using read_points_encode [OF c, of "[of_nat m] @ encode_points c cl @ encode_points c ca"
        "1 + 64 * m" cb] lens
    by (simp add: p)
  show "read_points c p (1 + 96 * m) m = Some gk"
    using read_points_encode [OF c, of "[of_nat m] @ encode_points c cl @ encode_points c ca @
        encode_points c cb" "1 + 96 * m" gk] lens
    by (simp add: p)
  show "read_scalars c p (1 + 128 * m) m = Some fj"
    using read_scalars_encode [OF c, of "[of_nat m] @ encode_points c cl @ encode_points c ca @
        encode_points c cb @ encode_points c gk" "1 + 128 * m" fj] lens
    by (simp add: p)
  show "read_scalars c p (1 + 160 * m) m = Some zaj"
    using read_scalars_encode [OF c, of "[of_nat m] @ encode_points c cl @ encode_points c ca @
        encode_points c cb @ encode_points c gk @ encode_scalars c fj" "1 + 160 * m" zaj] lens
    by (simp add: p)
  show "read_scalars c p (1 + 192 * m) m = Some zbj"
    using read_scalars_encode [OF c, of "[of_nat m] @ encode_points c cl @ encode_points c ca @
        encode_points c cb @ encode_points c gk @ encode_scalars c fj @ encode_scalars c zaj"
        "1 + 192 * m" zbj] lens
    by (simp add: p)
  have "h256_at p (1 + 224 * m) = scalar_bytes c zd"
    using h256_at_le_bytes [of "scalar_bytes c zd" "[]"] lens by (simp add: p h256_at_skip h256_at_def)
  then show "from_canonical_bytes c (h256_at p (1 + 224 * m)) = Some zd"
    using from_canonical_scalar_bytes [OF c] by simp
qed

lemma verify_encoded:
  assumes c: "curve_laws c" and n: "length coins = n" "2 \<le> n" "is_power_of_two n" "n < 2 ^ 64"
    and m: "m = trailing_zeros n"
    and lens: "length cl = m" "length ca = m" "length cb = m" "length gk = m"
      "length fj = m" "length zaj = m" "length zbj = m"
    and p: "p = [of_nat m] @ encode_points c cl @ encode_points c ca @ encode_points c cb @
             encode_points c gk @ encode_scalars c fj @ encode_scalars c zaj @ encode_scalars c zbj @
             le_bytes 32 (scalar_bytes c zd)"
    and d: "d_set c coins serial price change = Some d"
  shows "one_of_many_verify c p coins serial price change ctx \<longleftrightarrow>
    (let x = fs_challenge c (group_hash c coins) serial price change ctx cl ca cb gk
     in check_bits c m x (cl, ca, cb) (fj, zaj, zbj) \<and> check_membership c n m x fj d gk zd)"
proof -
  have m64: "m < 64" using trailing_zeros_bounds n m by blast
  have hd: "unat (p ! 0) = m" using m64 by (simp add: p unat_of_nat_small)
  show ?thesis
    using reads_encoded [OF c lens p] hd n m d by (simp add: one_of_many_verify_def Let_def del: One_nat_def)
qed

text \<open>When the prover returns a proof.\<close>

lemma one_of_many_prove_returns:
  "(\<exists>p. one_of_many_prove c coins index serial price change blinding ctx seed = Some p) \<longleftrightarrow>
    2 \<le> length coins \<and> is_power_of_two (length coins) \<and> index < length coins \<and>
    (\<exists>d. d_set c coins serial price change = Some d \<and>
         d ! index = smul c (from_bytes_mod_order c blinding) (generator_h c))"
  by (auto simp: one_of_many_prove_def Let_def split: if_splits option.splits)

lemma one_of_many_prove_total:
  assumes "2 \<le> length coins" and "is_power_of_two (length coins)" and "index < length coins"
    and "d_set c coins serial price change = Some d"
    and "d ! index = smul c (from_bytes_mod_order c blinding) (generator_h c)"
  shows "\<exists>p. one_of_many_prove c coins index serial price change blinding ctx seed = Some p"
  using assms one_of_many_prove_returns by blast

text \<open>What it returns is accepted.\<close>

lemma one_of_many_prove_verifies:
  assumes "curve_laws c" and "length coins < 2 ^ 64"
    and "one_of_many_prove c coins index serial price change blinding ctx seed = Some prf"
  shows "one_of_many_verify c prf coins serial price change ctx"
proof -
  define n where "n = length coins"
  define m where "m = trailing_zeros n"
  define h where "h = generator_h c"
  define r where "r = from_bytes_mod_order c blinding"
  define bits where "bits = map (\<lambda>j. drop_bit j index AND 1) [0..<m]"
  define bs where "bs = fst (draw_blindings c m (rng_new seed))"
  define rj where "rj = map (\<lambda>(r, a, s, t, rho). r) bs"
  define aj where "aj = map (\<lambda>(r, a, s, t, rho). a) bs"
  define sj where "sj = map (\<lambda>(r, a, s, t, rho). s) bs"
  define tj where "tj = map (\<lambda>(r, a, s, t, rho). t) bs"
  define rho where "rho = map (\<lambda>(r, a, s, t, rho). rho) bs"
  define cl where "cl = map (\<lambda>j. smul c (of_nat (bits ! j)) (basepoint c) + smul c (rj ! j) h) [0..<m]"
  define ca where "ca = map (\<lambda>j. smul c (aj ! j) (basepoint c) + smul c (sj ! j) h) [0..<m]"
  define cb where "cb = map (\<lambda>j. smul c (of_nat (bits ! j) * aj ! j) (basepoint c) + smul c (tj ! j) h) [0..<m]"
  obtain d where d: "d_set c coins serial price change = Some d"
    and n: "2 \<le> n" "is_power_of_two n" "index < n" and dl: "d ! index = smul c r h"
    using assms(3) by (auto simp: one_of_many_prove_def Let_def n_def r_def h_def split: if_splits option.splits)
  define gk where "gk = map (\<lambda>k. vartime_multiscalar_mul c
     (map (\<lambda>i. map (poly_coeffs m bits aj) [0..<n] ! i ! k) [0..<n] @ [rho ! k]) (d @ [h])) [0..<m]"
  define x where "x = fs_challenge c (group_hash c coins) serial price change ctx cl ca cb gk"
  define fj where "fj = map (\<lambda>j. of_nat (bits ! j) * x + aj ! j) [0..<m]"
  define zaj where "zaj = map (\<lambda>j. rj ! j * x + sj ! j) [0..<m]"
  define zbj where "zbj = map (\<lambda>j. rj ! j * (x - fj ! j) + tj ! j) [0..<m]"
  define zd where "zd = r * x ^ m - (\<Sum>k<m. rho ! k * x ^ k)"
  note defs = n_def m_def h_def r_def bits_def bs_def rj_def aj_def sj_def tj_def rho_def cl_def ca_def
    cb_def gk_def x_def fj_def zaj_def zbj_def zd_def
  have enc: "prf = [of_nat m] @ encode_points c cl @ encode_points c ca @ encode_points c cb @
             encode_points c gk @ encode_scalars c fj @ encode_scalars c zaj @ encode_scalars c zbj @
             le_bytes 32 (scalar_bytes c zd)"
    using assms(3) n dl unfolding defs one_of_many_prove_def Let_def fold_zd fold_power d
    by (simp add: d del: append.simps)
  have n2: "n = 2 ^ m" using n(2) power_of_twoD by (simp add: m_def)
  have bit: "of_nat (bits ! j) * of_nat (bits ! j) = (of_nat (bits ! j) :: 'b)" if "j < m" for j
    using that by (simp add: bits_def drop_bit_mod_2)
  have "check_bits c m x (cl, ca, cb) (fj, zaj, zbj)"
    using bit_equations [OF assms(1) bit] unfolding check_bits_def
    by (simp add: list_all_iff cl_def ca_def cb_def fj_def zaj_def zbj_def h_def)
  moreover have "check_membership c n m x fj d gk zd"
    using membership_equation [OF assms(1) n2 n(3) _ bits_def fj_def gk_def dl] d_set_length [OF d]
    by (simp add: check_membership_def Let_def zd_def h_def n_def)
  ultimately show ?thesis
    using verify_encoded [OF assms(1) n_def [symmetric] n(1,2) _ m_def _ _ _ _ _ _ _ enc d] assms(2)
    by (simp add: cl_def ca_def cb_def gk_def fj_def zaj_def zbj_def n_def x_def Let_def)
qed

text \<open>
  C10. Completeness of the one-of-many proof: the prover returns a proof whenever the group has a
  power of two of at least two coins and its witness opens the coin at the index; and whatever proof it
  returns - for any price, with or without a change commitment, whatever its random seed - the
  verifier accepts for the same group, serial, price, change and context. This covers the wire format both
  sides use, the coefficient lists of the prover and the doubling table of the verifier.
\<close>
theorem one_of_many_complete:
  assumes "curve_laws c" and "length coins < 2 ^ 64"
  shows "case one_of_many_prove c coins index serial price change blinding ctx seed of
      Some p \<Rightarrow> one_of_many_verify c p coins serial price change ctx
    | None \<Rightarrow> \<not> (2 \<le> length coins \<and> is_power_of_two (length coins) \<and> index < length coins \<and>
        (\<exists>d. d_set c coins serial price change = Some d \<and>
             d ! index = smul c (from_bytes_mod_order c blinding) (generator_h c)))"
proof (cases "one_of_many_prove c coins index serial price change blinding ctx seed")
  case None
  then show ?thesis using one_of_many_prove_returns [of c coins index serial price change blinding ctx seed] by simp
next
  case (Some p)
  then show ?thesis using one_of_many_prove_verifies [OF assms] by simp
qed

end
