(* ===== verification/CoinProofs.thy ===== *)
theory CoinProofs
  imports OneOfManyComplete
begin

text \<open>
  The rest of the module \<open>one_of_many\<close> of \<open>scanproof/verifier/src/lib.rs\<close>: the Schnorr proofs of a
  deposit opening and of the serial part of a change coin (prover and verifier), and the padding of
  a partial group; and the Pedersen verifiers of the same file that do not use coins (balance,
  opening, opening knowledge, subtraction, range). A prover that stops at \<open>expect\<close> returns \<open>None\<close>.
\<close>

section \<open>Deposit openings\<close>

definition deposit_open_challenge ::
  "('g, 'k) curve \<Rightarrow> h256 \<Rightarrow> u64 \<Rightarrow> bytes \<Rightarrow> 'g \<Rightarrow> 'g \<Rightarrow> 'k" where
  "deposit_open_challenge c coin amount ctx r_pt a_pt =
     from_bytes_mod_order_wide c (challenge_bytes c ''NULLA_COIN_DEPOSIT_OPEN''
       [Msg ''coin'' (le_bytes 32 coin), MsgU64 ''amount'' amount, Msg ''ctx'' ctx,
        Msg ''R'' (le_bytes 32 (compress c r_pt)), Msg ''A'' (le_bytes 32 (compress c a_pt))] ''c'')"

definition verify_deposit_open ::
  "('g::ab_group_add, 'k::comm_ring_1) curve \<Rightarrow> h256 \<Rightarrow> u64 \<Rightarrow> bytes \<Rightarrow> bytes \<Rightarrow> bool" where
  "verify_deposit_open c coin amount prf ctx =
     (if length prf \<noteq> 96 then False else
      case decompress c coin of None \<Rightarrow> False | Some c_pt \<Rightarrow>
      let a_pt = c_pt - smul c (scalar_from_u64 amount) (basepoint c) in
      case decompress c (h256_at prf 0) of None \<Rightarrow> False | Some r_pt \<Rightarrow>
      case from_canonical_bytes c (h256_at prf 32) of None \<Rightarrow> False | Some zs \<Rightarrow>
      case from_canonical_bytes c (h256_at prf 64) of None \<Rightarrow> False | Some zr \<Rightarrow>
      let ch = deposit_open_challenge c coin amount ctx r_pt a_pt in
      smul c zs (generator_g1 c) + smul c zr (generator_h c) = r_pt + smul c ch a_pt)"

definition prove_deposit_open ::
  "('g::ab_group_add, 'k::comm_ring_1) curve \<Rightarrow> h256 \<Rightarrow> u64 \<Rightarrow> h256 \<Rightarrow> h256 \<Rightarrow> bytes \<Rightarrow> h256 \<Rightarrow> bytes option" where
  "prove_deposit_open c coin amount serial blinding ctx seed =
     (let s = from_bytes_mod_order c serial;
          r = from_bytes_mod_order c blinding;
          (ks, g) = scalar_from_rng c (rng_new seed);
          (kr, g) = scalar_from_rng c g;
          r_pt = smul c ks (generator_g1 c) + smul c kr (generator_h c)
      in case decompress c coin of None \<Rightarrow> None | Some c_pt \<Rightarrow>
      let a_pt = c_pt - smul c (scalar_from_u64 amount) (basepoint c);
          ch = deposit_open_challenge c coin amount ctx r_pt a_pt;
          zs = ks + ch * s;
          zr = kr + ch * r
      in Some (le_bytes 32 (compress c r_pt) @ le_bytes 32 (scalar_bytes c zs) @
           le_bytes 32 (scalar_bytes c zr)))"

section \<open>Change coins\<close>

definition g1_pok_challenge ::
  "('g, 'k) curve \<Rightarrow> h256 \<Rightarrow> h256 \<Rightarrow> bytes \<Rightarrow> 'g \<Rightarrow> 'g \<Rightarrow> 'k" where
  "g1_pok_challenge c new_coin change ctx r_pt a_pt =
     from_bytes_mod_order_wide c (challenge_bytes c ''NULLA_COIN_G1_POK''
       [Msg ''new_coin'' (le_bytes 32 new_coin), Msg ''change'' (le_bytes 32 change), Msg ''ctx'' ctx,
        Msg ''R'' (le_bytes 32 (compress c r_pt)), Msg ''A'' (le_bytes 32 (compress c a_pt))] ''c'')"

definition verify_g1_pok ::
  "('g::ab_group_add, 'k::comm_ring_1) curve \<Rightarrow> h256 \<Rightarrow> h256 \<Rightarrow> bytes \<Rightarrow> bytes \<Rightarrow> bool" where
  "verify_g1_pok c new_coin change prf ctx =
     (if length prf \<noteq> 64 then False else
      case decompress c new_coin of None \<Rightarrow> False | Some nc \<Rightarrow>
      case decompress c change of None \<Rightarrow> False | Some ch_pt \<Rightarrow>
      let a_pt = nc - ch_pt in
      case decompress c (h256_at prf 0) of None \<Rightarrow> False | Some r_pt \<Rightarrow>
      case from_canonical_bytes c (h256_at prf 32) of None \<Rightarrow> False | Some z \<Rightarrow>
      let ch = g1_pok_challenge c new_coin change ctx r_pt a_pt in
      smul c z (generator_g1 c) = r_pt + smul c ch a_pt)"

definition prove_g1_pok ::
  "('g::ab_group_add, 'k::comm_ring_1) curve \<Rightarrow> h256 \<Rightarrow> h256 \<Rightarrow> h256 \<Rightarrow> bytes \<Rightarrow> h256 \<Rightarrow> bytes option" where
  "prove_g1_pok c new_coin change new_serial ctx seed =
     (let s = from_bytes_mod_order c new_serial;
          k = fst (scalar_from_rng c (rng_new seed));
          r_pt = smul c k (generator_g1 c)
      in case decompress c new_coin of None \<Rightarrow> None | Some nc \<Rightarrow>
      case decompress c change of None \<Rightarrow> None | Some ch_pt \<Rightarrow>
      let a_pt = nc - ch_pt;
          ch = g1_pok_challenge c new_coin change ctx r_pt a_pt;
          z = k + ch * s
      in Some (le_bytes 32 (compress c r_pt) @ le_bytes 32 (scalar_bytes c z)))"

section \<open>Padding of a partial group\<close>

definition pad_coin :: "('g, 'k) curve \<Rightarrow> u32 \<Rightarrow> u32 \<Rightarrow> h256" where
  "pad_coin c group_id i =
     compress c (from_uniform_bytes c
       (sha512 c (ascii ''NULLA_GROUP_PAD'' @ le_bytes 4 group_id @ le_bytes 4 i)))"

text \<open>\<open>usize::next_power_of_two\<close>: the least power of two that is not below its argument.\<close>

function next_power_of_two :: "nat \<Rightarrow> nat" where
  "next_power_of_two n = (if n \<le> 1 then 1 else 2 * next_power_of_two ((n + 1) div 2))"
  by pat_completeness auto
termination by (relation "measure id") auto

declare next_power_of_two.simps [simp del]

function pad_loop :: "('g, 'k) curve \<Rightarrow> u32 \<Rightarrow> nat \<Rightarrow> h256 list \<Rightarrow> u32 \<Rightarrow> h256 list" where
  "pad_loop c group_id n out i =
     (if length out < n then pad_loop c group_id n (out @ [pad_coin c group_id i]) (i + 1) else out)"
  by pat_completeness auto
termination by (relation "measure (\<lambda>(c, g, n, out, i). n - length out)") auto

declare pad_loop.simps [simp del]

definition pad_group :: "('g, 'k) curve \<Rightarrow> h256 list \<Rightarrow> u32 \<Rightarrow> h256 list" where
  "pad_group c coins group_id =
     (let n = next_power_of_two (max (length coins) 2)
      in pad_loop c group_id n coins (of_nat (length coins)))"

section \<open>Completeness\<close>

lemma verify_deposit_open_intro:
  assumes c: "curve_laws c" and P: "decompress c coin = Some P"
    and A: "P - smul c (scalar_from_u64 amount) (basepoint c) = smul c s (generator_g1 c) + smul c r (generator_h c)"
    and R: "R = smul c ks (generator_g1 c) + smul c kr (generator_h c)"
    and ch: "ch = deposit_open_challenge c coin amount ctx R (P - smul c (scalar_from_u64 amount) (basepoint c))"
  shows "verify_deposit_open c coin amount (le_bytes 32 (compress c R) @
    le_bytes 32 (scalar_bytes c (ks + ch * s)) @ le_bytes 32 (scalar_bytes c (kr + ch * r))) ctx"
proof -
  let ?p = "le_bytes 32 (compress c R) @ le_bytes 32 (scalar_bytes c (ks + ch * s)) @
    le_bytes 32 (scalar_bytes c (kr + ch * r))"
  have at: "h256_at ?p 0 = compress c R" "h256_at ?p 32 = scalar_bytes c (ks + ch * s)"
    "h256_at ?p 64 = scalar_bytes c (kr + ch * r)"
    using h256_at_le_bytes [of "scalar_bytes c (kr + ch * r)" "[]"]
    by (simp_all add: h256_at_le_bytes h256_at_skip)
  have eq: "smul c (ks + ch * s) (generator_g1 c) + smul c (kr + ch * r) (generator_h c) =
      R + smul c ch (P - smul c (scalar_from_u64 amount) (basepoint c))"
    unfolding A R by (simp add: smul_laws [OF c] algebra_simps)
  show ?thesis
    using eq by (simp add: verify_deposit_open_def at P Let_def ch [symmetric]
        decompress_compress [OF c] from_canonical_scalar_bytes [OF c])
qed

lemma prove_deposit_open_accepted:
  assumes c: "curve_laws c" and P: "decompress c coin = Some P"
    and A: "P - smul c (scalar_from_u64 amount) (basepoint c) =
      smul c (from_bytes_mod_order c serial) (generator_g1 c) +
      smul c (from_bytes_mod_order c blinding) (generator_h c)"
  shows "\<exists>p. prove_deposit_open c coin amount serial blinding ctx seed = Some p \<and>
    verify_deposit_open c coin amount p ctx"
proof -
  obtain ks g where ks: "scalar_from_rng c (rng_new seed) = (ks, g)" by fastforce
  obtain kr g' where kr: "scalar_from_rng c g = (kr, g')" by fastforce
  show ?thesis
    using verify_deposit_open_intro [OF c P A refl refl, of ks kr ctx]
    by (simp add: prove_deposit_open_def Let_def ks kr P)
qed

lemma coin_commit_opens:
  assumes c: "curve_laws c"
  shows "\<exists>P. decompress c (coin_commit c serial val blinding) = Some P \<and>
    P = smul c (from_bytes_mod_order c serial) (generator_g1 c) +
        smul c (scalar_from_u64 val) (basepoint c) + smul c (from_bytes_mod_order c blinding) (generator_h c)"
  by (simp add: coin_commit_def Let_def decompress_compress [OF c])

lemma verify_g1_pok_intro:
  assumes c: "curve_laws c" and P: "decompress c new_coin = Some P" and Q: "decompress c change = Some Q"
    and A: "P - Q = smul c s (generator_g1 c)" and R: "R = smul c k (generator_g1 c)"
    and ch: "ch = g1_pok_challenge c new_coin change ctx R (P - Q)"
  shows "verify_g1_pok c new_coin change
    (le_bytes 32 (compress c R) @ le_bytes 32 (scalar_bytes c (k + ch * s))) ctx"
proof -
  let ?p = "le_bytes 32 (compress c R) @ le_bytes 32 (scalar_bytes c (k + ch * s))"
  have at: "h256_at ?p 0 = compress c R" "h256_at ?p 32 = scalar_bytes c (k + ch * s)"
    using h256_at_le_bytes [of "scalar_bytes c (k + ch * s)" "[]"]
    by (simp_all add: h256_at_le_bytes h256_at_skip)
  have eq: "smul c (k + ch * s) (generator_g1 c) = R + smul c ch (P - Q)"
    unfolding A R by (simp add: smul_laws [OF c])
  show ?thesis
    using eq by (simp add: verify_g1_pok_def at P Q Let_def ch [symmetric]
        decompress_compress [OF c] from_canonical_scalar_bytes [OF c])
qed

lemma prove_g1_pok_accepted:
  assumes c: "curve_laws c" and P: "decompress c new_coin = Some P" and Q: "decompress c change = Some Q"
    and A: "P - Q = smul c (from_bytes_mod_order c serial) (generator_g1 c)"
  shows "\<exists>p. prove_g1_pok c new_coin change serial ctx seed = Some p \<and> verify_g1_pok c new_coin change p ctx"
  using verify_g1_pok_intro [OF c P Q A refl refl, of "fst (scalar_from_rng c (rng_new seed))" ctx]
  by (simp add: prove_g1_pok_def Let_def P Q)

section \<open>Special soundness\<close>

text \<open>Two answers to different challenges for the same first message give an opening.\<close>

lemma schnorr_extract:
  fixes A R :: "'g::ab_group_add" and e e' u :: "'k::comm_ring_1"
  assumes c: "curve_laws c" and u: "u * (e - e') = 1"
    and "Z = R + smul c e A" and "Z' = R + smul c e' A"
  shows "A = smul c u (Z - Z')"
proof -
  have "Z - Z' = smul c (e - e') A" using assms(3,4) by (simp add: smul_laws [OF c])
  then show ?thesis using u by (simp add: smul_mult [OF c, symmetric] smul_one [OF c])
qed

text \<open>The same crates with another transcript function: the second run of a rewound prover.\<close>

definition rewound :: "(string \<Rightarrow> tmsg list \<Rightarrow> string \<Rightarrow> bytes) \<Rightarrow> ('g, 'k) curve \<Rightarrow> ('g, 'k) curve" where
  "rewound T c = c\<lparr>challenge_bytes := T\<rparr>"

lemma rewound_simps [simp]:
  "smul (rewound T c) = smul c" "decompress (rewound T c) = decompress c"
  "compress (rewound T c) = compress c" "basepoint (rewound T c) = basepoint c"
  "generator_g1 (rewound T c) = generator_g1 c" "generator_h (rewound T c) = generator_h c"
  "from_canonical_bytes (rewound T c) = from_canonical_bytes c"
  "from_bytes_mod_order (rewound T c) = from_bytes_mod_order c"
  by (simp_all add: rewound_def generator_g1_def generator_h_def)

text \<open>
  What a proof answers: the challenge that the verifier computes for it and the responses it reads from
  it.
\<close>

definition deposit_answer ::
  "('g::ab_group_add, 'k::comm_ring_1) curve \<Rightarrow> h256 \<Rightarrow> u64 \<Rightarrow> bytes \<Rightarrow> bytes \<Rightarrow> 'k \<times> 'k \<times> 'k" where
  "deposit_answer c coin amount ctx p =
     (deposit_open_challenge c coin amount ctx (the (decompress c (h256_at p 0)))
        (the (decompress c coin) - smul c (scalar_from_u64 amount) (basepoint c)),
      the (from_canonical_bytes c (h256_at p 32)), the (from_canonical_bytes c (h256_at p 64)))"

definition g1_pok_answer ::
  "('g::ab_group_add, 'k::comm_ring_1) curve \<Rightarrow> h256 \<Rightarrow> h256 \<Rightarrow> bytes \<Rightarrow> bytes \<Rightarrow> 'k \<times> 'k" where
  "g1_pok_answer c coin change ctx p =
     (g1_pok_challenge c coin change ctx (the (decompress c (h256_at p 0)))
        (the (decompress c coin) - the (decompress c change)),
      the (from_canonical_bytes c (h256_at p 32)))"

text \<open>
  Two runs of a prover for one coin: a proof for the transcript function of \<open>c\<close> and one, with the same
  first message, for \<open>T\<close>; \<open>u\<close> is the inverse of the difference of the challenges.
\<close>

type_synonym 'k two_runs = "(string \<Rightarrow> tmsg list \<Rightarrow> string \<Rightarrow> bytes) \<times> bytes \<times> bytes \<times> bytes \<times> 'k"

fun deposit_runs ::
  "('g::ab_group_add, 'k::comm_ring_1) curve \<Rightarrow> h256 \<Rightarrow> u64 \<Rightarrow> 'k two_runs \<Rightarrow> bool" where
  "deposit_runs c coin amount (T, ctx, p, p', u) \<longleftrightarrow>
     verify_deposit_open c coin amount p ctx \<and> verify_deposit_open (rewound T c) coin amount p' ctx \<and>
     h256_at p 0 = h256_at p' 0 \<and>
     u * (fst (deposit_answer c coin amount ctx p) - fst (deposit_answer (rewound T c) coin amount ctx p')) = 1"

fun g1_pok_runs ::
  "('g::ab_group_add, 'k::comm_ring_1) curve \<Rightarrow> h256 \<Rightarrow> h256 \<Rightarrow> 'k two_runs \<Rightarrow> bool" where
  "g1_pok_runs c coin change (T, ctx, p, p', u) \<longleftrightarrow>
     verify_g1_pok c coin change p ctx \<and> verify_g1_pok (rewound T c) coin change p' ctx \<and>
     h256_at p 0 = h256_at p' 0 \<and>
     u * (fst (g1_pok_answer c coin change ctx p) - fst (g1_pok_answer (rewound T c) coin change ctx p')) = 1"

text \<open>The extractors: a serial and a blinding from two deposit openings, a serial from two change proofs.\<close>

fun deposit_serial :: "('g::ab_group_add, 'k::comm_ring_1) curve \<Rightarrow> h256 \<Rightarrow> u64 \<Rightarrow> 'k two_runs \<Rightarrow> 'k" where
  "deposit_serial c coin amount (T, ctx, p, p', u) =
     u * (fst (snd (deposit_answer c coin amount ctx p)) - fst (snd (deposit_answer c coin amount ctx p')))"

fun deposit_blinding :: "('g::ab_group_add, 'k::comm_ring_1) curve \<Rightarrow> h256 \<Rightarrow> u64 \<Rightarrow> 'k two_runs \<Rightarrow> 'k" where
  "deposit_blinding c coin amount (T, ctx, p, p', u) =
     u * (snd (snd (deposit_answer c coin amount ctx p)) - snd (snd (deposit_answer c coin amount ctx p')))"

fun change_serial :: "('g::ab_group_add, 'k::comm_ring_1) curve \<Rightarrow> h256 \<Rightarrow> h256 \<Rightarrow> 'k two_runs \<Rightarrow> 'k" where
  "change_serial c coin change (T, ctx, p, p', u) =
     u * (snd (g1_pok_answer c coin change ctx p) - snd (g1_pok_answer c coin change ctx p'))"

lemma verify_deposit_openD:
  assumes "verify_deposit_open c coin amount p ctx" and "deposit_answer c coin amount ctx p = (e, zs, zr)"
  shows "\<exists>P R. decompress c coin = Some P \<and> decompress c (h256_at p 0) = Some R \<and>
    smul c zs (generator_g1 c) + smul c zr (generator_h c) =
      R + smul c e (P - smul c (scalar_from_u64 amount) (basepoint c))"
  using assms by (auto simp: verify_deposit_open_def deposit_answer_def Let_def split: if_splits option.splits)

lemma verify_g1_pokD:
  assumes "verify_g1_pok c coin change p ctx" and "g1_pok_answer c coin change ctx p = (e, z)"
  shows "\<exists>P Q R. decompress c coin = Some P \<and> decompress c change = Some Q \<and>
    decompress c (h256_at p 0) = Some R \<and> smul c z (generator_g1 c) = R + smul c e (P - Q)"
  using assms by (auto simp: verify_g1_pok_def g1_pok_answer_def Let_def split: if_splits option.splits)

lemma deposit_runs_open:
  assumes c: "curve_laws c" and runs: "deposit_runs c coin amount D"
  shows "decompress c coin = Some (smul c (deposit_serial c coin amount D) (generator_g1 c) +
    smul c (scalar_from_u64 amount) (basepoint c) + smul c (deposit_blinding c coin amount D) (generator_h c))"
proof -
  obtain T ctx p p' u where D: "D = (T, ctx, p, p', u)" by (cases D)
  obtain e zs zr where e: "deposit_answer c coin amount ctx p = (e, zs, zr)" by (cases "deposit_answer c coin amount ctx p")
  obtain e' zs' zr' where e': "deposit_answer (rewound T c) coin amount ctx p' = (e', zs', zr')"
    by (cases "deposit_answer (rewound T c) coin amount ctx p'")
  have acc: "verify_deposit_open c coin amount p ctx" "verify_deposit_open (rewound T c) coin amount p' ctx"
    "h256_at p 0 = h256_at p' 0" and u: "u * (e - e') = 1"
    using runs by (simp_all add: D e e')
  have z: "snd (deposit_answer c coin amount ctx p') = (zs', zr')"
    using e' by (simp add: deposit_answer_def)
  let ?v = "smul c (scalar_from_u64 amount :: 'b) (basepoint c)"
  obtain P R where 1: "decompress c coin = Some P" "decompress c (h256_at p 0) = Some R"
    "smul c zs (generator_g1 c) + smul c zr (generator_h c) = R + smul c e (P - ?v)"
    using verify_deposit_openD [OF acc(1) e] by blast
  have "smul c zs' (generator_g1 c) + smul c zr' (generator_h c) = R + smul c e' (P - ?v)"
    using verify_deposit_openD [OF acc(2) e'] 1(1,2) acc(3) by auto
  from schnorr_extract [OF c u 1(3) this]
  have "P = smul c (u * (zs - zs')) (generator_g1 c) + ?v + smul c (u * (zr - zr')) (generator_h c)"
    by (simp add: smul_laws [OF c] algebra_simps)
  with 1(1) show ?thesis by (simp add: D e z)
qed

lemma g1_pok_runs_open:
  assumes c: "curve_laws c" and runs: "g1_pok_runs c coin change D"
  shows "\<exists>Q. decompress c change = Some Q \<and>
    decompress c coin = Some (smul c (change_serial c coin change D) (generator_g1 c) + Q)"
proof -
  obtain T ctx p p' u where D: "D = (T, ctx, p, p', u)" by (cases D)
  obtain e z where e: "g1_pok_answer c coin change ctx p = (e, z)" by (cases "g1_pok_answer c coin change ctx p")
  obtain e' z' where e': "g1_pok_answer (rewound T c) coin change ctx p' = (e', z')"
    by (cases "g1_pok_answer (rewound T c) coin change ctx p'")
  have acc: "verify_g1_pok c coin change p ctx" "verify_g1_pok (rewound T c) coin change p' ctx"
    "h256_at p 0 = h256_at p' 0" and u: "u * (e - e') = 1"
    using runs by (simp_all add: D e e')
  have z: "snd (g1_pok_answer c coin change ctx p') = z'"
    using e' by (simp add: g1_pok_answer_def)
  obtain P Q R where 1: "decompress c coin = Some P" "decompress c change = Some Q"
    "decompress c (h256_at p 0) = Some R" "smul c z (generator_g1 c) = R + smul c e (P - Q)"
    using verify_g1_pokD [OF acc(1) e] by blast
  have "smul c z' (generator_g1 c) = R + smul c e' (P - Q)"
    using verify_g1_pokD [OF acc(2) e'] 1(1-3) acc(3) by auto
  from schnorr_extract [OF c u 1(4) this]
  have "P = smul c (u * (z - z')) (generator_g1 c) + Q"
    by (simp add: smul_laws [OF c] algebra_simps)
  with 1(1,2) show ?thesis by (simp add: D e z)
qed

text \<open>
  C24. What accepted deposit openings and change proofs prove, by special soundness, with extractors that
  compute it. From two accepted openings of a coin with one first message and challenges whose
  difference has the inverse \<open>u\<close>, the extractor reads a serial and a blinding with which the coin opens to exactly the
  amount. A depositor who passes it for two amounts thereby hands out the coefficients of a relation
  between the three generators, in which the base point has the difference of the amounts. From two
  accepted proofs for a change coin it reads the serial that the coin adds to the change commitment:
  whatever value and blinding open the change, the coin opens to that serial and the same two.
\<close>
theorem coin_proofs_extract:
  fixes c :: "('g::ab_group_add, 'k::comm_ring_1) curve"
  assumes c: "curve_laws c"
  shows "(deposit_runs c coin amount D \<longrightarrow>
      decompress c coin = Some (smul c (deposit_serial c coin amount D) (generator_g1 c) +
        smul c (scalar_from_u64 amount) (basepoint c) +
        smul c (deposit_blinding c coin amount D) (generator_h c))) \<and>
    (deposit_runs c coin amount D \<and> deposit_runs c coin amount' D' \<longrightarrow>
      smul c (deposit_serial c coin amount D - deposit_serial c coin amount' D') (generator_g1 c) +
        smul c (scalar_from_u64 amount - scalar_from_u64 amount') (basepoint c) +
        smul c (deposit_blinding c coin amount D - deposit_blinding c coin amount' D') (generator_h c) = 0) \<and>
    (g1_pok_runs c coin change E \<longrightarrow>
      (\<forall>v b. decompress c change = Some (smul c v (basepoint c) + smul c b (generator_h c)) \<longrightarrow>
        decompress c coin = Some (smul c (change_serial c coin change E) (generator_g1 c) +
          (smul c v (basepoint c) + smul c b (generator_h c)))))"
proof (intro conjI impI)
  show "decompress c coin = Some (smul c (deposit_serial c coin amount D) (generator_g1 c) +
      smul c (scalar_from_u64 amount) (basepoint c) + smul c (deposit_blinding c coin amount D) (generator_h c))"
    if "deposit_runs c coin amount D" using deposit_runs_open [OF c that] .
  show "smul c (deposit_serial c coin amount D - deposit_serial c coin amount' D') (generator_g1 c) +
      smul c (scalar_from_u64 amount - scalar_from_u64 amount') (basepoint c) +
      smul c (deposit_blinding c coin amount D - deposit_blinding c coin amount' D') (generator_h c) = 0"
    if "deposit_runs c coin amount D \<and> deposit_runs c coin amount' D'"
    using deposit_runs_open [OF c, of coin amount D] deposit_runs_open [OF c, of coin amount' D'] that
    by (simp add: smul_diff_left [OF c] algebra_simps)
  show "\<forall>v b. decompress c change = Some (smul c v (basepoint c) + smul c b (generator_h c)) \<longrightarrow>
      decompress c coin = Some (smul c (change_serial c coin change E) (generator_g1 c) +
        (smul c v (basepoint c) + smul c b (generator_h c)))"
    if "g1_pok_runs c coin change E" using g1_pok_runs_open [OF c that] by auto
qed

definition toy_proof :: "8 word \<Rightarrow> bytes" where
  "toy_proof z = le_bytes 32 (0 :: h256) @ le_bytes 32 (ucast z :: h256)"

lemma toy_proof_at:
  "h256_at (toy_proof z @ r) 0 = 0" "h256_at (toy_proof z @ r) 32 = ucast z"
  "h256_at (toy_proof z) 0 = 0" "h256_at (toy_proof z) 32 = ucast z"
  "h256_at (toy_proof z @ le_bytes 32 (w :: h256)) 64 = w"
  using h256_at_le_bytes [of "ucast z" "[]"] h256_at_le_bytes [of w "[]"]
  by (simp_all add: toy_proof_def h256_at_le_bytes h256_at_skip)

lemma toy_challenges:
  "deposit_open_challenge toy_curve coin amount ctx R A = 5"
  "deposit_open_challenge (rewound (\<lambda>_ _ _. [4]) toy_curve) coin amount ctx R A = 4"
  "g1_pok_challenge toy_curve coin change ctx R A = 5"
  "g1_pok_challenge (rewound (\<lambda>_ _ _. [4]) toy_curve) coin change ctx R A = 4"
  by (simp_all add: deposit_open_challenge_def g1_pok_challenge_def toy_curve_def rewound_def)

lemma toy_generators: "generator_g1 toy_curve = 64" "generator_h toy_curve = 64"
  by (simp_all add: generator_g1_def generator_h_def toy_curve_def)

lemma toy_verifies:
  "verify_deposit_open toy_curve 71 7 (toy_proof 5 @ le_bytes 32 (0 :: h256)) []"
  "verify_deposit_open (rewound (\<lambda>_ _ _. [4]) toy_curve) 71 7 (toy_proof 4 @ le_bytes 32 (0 :: h256)) []"
  "verify_g1_pok toy_curve 71 7 (toy_proof 5) []"
  "verify_g1_pok (rewound (\<lambda>_ _ _. [4]) toy_curve) 71 7 (toy_proof 4) []"
proof -
  have [simp]: "length (toy_proof z) = 64" for z by (simp add: toy_proof_def)
  have [simp]: "decompress toy_curve w = Some (ucast w)" "smul toy_curve = (*)" "basepoint toy_curve = 1"
    "from_canonical_bytes toy_curve w = (if unat w < 256 then Some (ucast w) else None)"
    "from_canonical_bytes (rewound T toy_curve) w = (if unat w < 256 then Some (ucast w) else None)" for w T
    by (simp_all add: toy_curve_def rewound_def)
  show "verify_deposit_open toy_curve 71 7 (toy_proof 5 @ le_bytes 32 (0 :: h256)) []"
    "verify_deposit_open (rewound (\<lambda>_ _ _. [4]) toy_curve) 71 7 (toy_proof 4 @ le_bytes 32 (0 :: h256)) []"
    by (simp_all add: verify_deposit_open_def toy_proof_at toy_challenges toy_generators scalar_from_u64_def)
  show "verify_g1_pok toy_curve 71 7 (toy_proof 5) []"
    "verify_g1_pok (rewound (\<lambda>_ _ _. [4]) toy_curve) 71 7 (toy_proof 4) []"
    by (simp_all add: verify_g1_pok_def toy_proof_at toy_challenges toy_generators)
qed

lemma toy_reads:
  "decompress toy_curve w = Some (ucast w)" "smul toy_curve = (*)" "basepoint toy_curve = 1"
  "from_canonical_bytes toy_curve w = (if unat w < 256 then Some (ucast w) else None)"
  by (simp_all add: toy_curve_def)

theorem one_of_many_complete_witness:
  "\<exists>p. one_of_many_prove toy_curve [71, 5] 0 1 7 0 0 [] 9 = Some p \<and>
     one_of_many_verify toy_curve p [71, 5] 1 7 0 []"
proof -
  have curve: "decompress toy_curve w = Some (ucast w)" "smul toy_curve = (*)" "basepoint toy_curve = 1"
    "from_bytes_mod_order toy_curve = ucast" for w
    by (simp_all add: toy_curve_def)
  have "d_set toy_curve [71, 5] 1 7 0 = Some [0, 190]"
    by (simp add: d_set_def curve toy_generators scalar_from_u64_def)
  then have "\<exists>p. one_of_many_prove toy_curve [71, 5] 0 1 7 0 0 [] 9 = Some p"
    using is_power_of_two_exp [of 1] one_of_many_prove_total [of "[71, 5]" 0 toy_curve 1 7 0 "[0, 190]" 0 "[]" 9]
    by (simp add: curve numeral_2_eq_2)
  then show ?thesis using one_of_many_complete [OF toy_curve_laws, of "[71, 5]" 0 1 7 0 0 "[]" 9] by auto
qed

abbreviation toy_deposit_runs :: "8 word two_runs" where
  "toy_deposit_runs \<equiv>
    (\<lambda>_ _ _. [4], [], toy_proof 5 @ le_bytes 32 (0 :: h256), toy_proof 4 @ le_bytes 32 (0 :: h256), 1)"

abbreviation toy_change_runs :: "8 word two_runs" where
  "toy_change_runs \<equiv> (\<lambda>_ _ _. [4], [], toy_proof 5, toy_proof 4, 1)"

lemma toy_runs:
  "deposit_runs toy_curve 71 7 toy_deposit_runs" "g1_pok_runs toy_curve 71 7 toy_change_runs"
  "deposit_serial toy_curve 71 7 toy_deposit_runs = 1" "deposit_blinding toy_curve 71 7 toy_deposit_runs = 0"
  "change_serial toy_curve 71 7 toy_change_runs = 1"
  using toy_verifies
  by (simp_all add: toy_proof_at toy_challenges deposit_answer_def g1_pok_answer_def toy_reads)

theorem coin_proofs_extract_witness:
  "decompress toy_curve 71 = Some (smul toy_curve 1 (generator_g1 toy_curve) +
      smul toy_curve (scalar_from_u64 7) (basepoint toy_curve) + smul toy_curve 0 (generator_h toy_curve)) \<and>
   decompress toy_curve 71 = Some (smul toy_curve 1 (generator_g1 toy_curve) +
      (smul toy_curve 7 (basepoint toy_curve) + smul toy_curve 0 (generator_h toy_curve)))"
proof -
  have "decompress toy_curve 7 = Some (smul toy_curve 7 (basepoint toy_curve) + smul toy_curve 0 (generator_h toy_curve))"
    by (simp add: toy_reads)
  then show ?thesis
    using coin_proofs_extract [OF toy_curve_laws, of 71 7 toy_deposit_runs 7 toy_deposit_runs 7 toy_change_runs]
    unfolding toy_runs(3-5) using toy_runs(1,2) by blast
qed

end
