(* ===== verification/PedersenVerifier.thy ===== *)
theory PedersenVerifier
  imports CoinProofs ScanProofGuards
begin

text \<open>
  The Pedersen verifiers of \<open>scanproof/verifier/src/lib.rs\<close> that do not use coins - balance, opening,
  knowledge of an opening, subtraction, range - and \<open>RuntimeProofVerifier\<close> of
  \<open>scanproof/runtime/src/configs/mod.rs\<close>, which hands all of them to the proofs pallet of theory
  ScanProofCalls. \<open>sc_public_inputs\<close> is the struct \<open>ProofPublicInputs\<close>, which the verifier repeats.
\<close>

section \<open>Balance\<close>

definition balance_challenge :: "('g, 'k) curve \<Rightarrow> 'g \<Rightarrow> 'g \<Rightarrow> h256 \<Rightarrow> 'k" where
  "balance_challenge c r agg pi_hash =
     from_bytes_mod_order_wide c (challenge_bytes c ''NULLA_SCHNORR_BALANCE''
       [Msg ''pi_hash'' (le_bytes 32 pi_hash), Msg ''R'' (le_bytes 32 (compress c r)),
        Msg ''AGG'' (le_bytes 32 (compress c agg))] ''c'')"

definition verifier_blake2_256 :: "('g, 'k) curve \<Rightarrow> bytes \<Rightarrow> h256" where
  "verifier_blake2_256 c bs = h256_at (blake2b512 c bs) 0"

text \<open>The aggregation loops: every commitment is decompressed, a failure ends the verification.\<close>

fun agg_points :: "('g, 'k) curve \<Rightarrow> ('g \<Rightarrow> 'g \<Rightarrow> 'g) \<Rightarrow> h256 list \<Rightarrow> 'g \<Rightarrow> 'g option" where
  "agg_points c f [] agg = Some agg"
| "agg_points c f (w # ws) agg =
     (case decompress c w of None \<Rightarrow> None | Some p \<Rightarrow> agg_points c f ws (f agg p))"

definition sc_verify_bytes ::
  "('g::ab_group_add, 'k::comm_ring_1) curve \<Rightarrow> codec \<Rightarrow> bytes \<Rightarrow> bytes \<Rightarrow> bool" where
  "sc_verify_bytes c C prf public_inputs =
     (case decode_sc_public_inputs C public_inputs of None \<Rightarrow> False | Some inputs \<Rightarrow>
      let pi_hash = verifier_blake2_256 c public_inputs in
      if length prf \<noteq> 64 then False else
      case decompress c (h256_at prf 0) of None \<Rightarrow> False | Some r_pt \<Rightarrow>
      let s = from_bytes_mod_order c (h256_at prf 32) in
      case agg_points c (+) (input_commitments inputs) 0 of None \<Rightarrow> False | Some agg \<Rightarrow>
      case agg_points c (-) (new_commitments inputs) agg of None \<Rightarrow> False | Some agg \<Rightarrow>
      let ch = balance_challenge c r_pt agg pi_hash;
          lhs = smul c s (generator_h c);
          rhs = r_pt + smul c ch agg
      in lhs = rhs)"

section \<open>Openings\<close>

definition sc_verify_commitment ::
  "('g::ab_group_add, 'k::comm_ring_1) curve \<Rightarrow> u64 \<Rightarrow> h256 \<Rightarrow> h256 \<Rightarrow> bool" where
  "sc_verify_commitment c val blinding commitment =
     (case decompress c commitment of None \<Rightarrow> False | Some c_pt \<Rightarrow>
      let r = from_bytes_mod_order c blinding;
          v = scalar_from_u64 val;
          expected = smul c v (basepoint c) + smul c r (generator_h c)
      in expected = c_pt)"

definition opening_challenge :: "('g, 'k) curve \<Rightarrow> bytes \<Rightarrow> 'g \<Rightarrow> 'g \<Rightarrow> 'k" where
  "opening_challenge c bind_bytes r_pt a_pt =
     from_bytes_mod_order_wide c (challenge_bytes c ''NULLA_PEDERSEN_OPENING''
       [Msg ''bind'' bind_bytes, Msg ''R'' (le_bytes 32 (compress c r_pt)),
        Msg ''A'' (le_bytes 32 (compress c a_pt))] ''c'')"

definition verify_opening_knowledge ::
  "('g::ab_group_add, 'k::comm_ring_1) curve \<Rightarrow> u64 \<Rightarrow> h256 \<Rightarrow> bytes \<Rightarrow> bytes \<Rightarrow> bool" where
  "verify_opening_knowledge c val commitment prf bind_bytes =
     (if length prf \<noteq> 64 then False else
      case decompress c commitment of None \<Rightarrow> False | Some c_pt \<Rightarrow>
      let h = generator_h c;
          v = scalar_from_u64 val;
          a_pt = c_pt - smul c v (basepoint c) in
      case decompress c (h256_at prf 0) of None \<Rightarrow> False | Some r_pt \<Rightarrow>
      let s = from_bytes_mod_order c (h256_at prf 32);
          ch = opening_challenge c bind_bytes r_pt a_pt;
          lhs = smul c s h;
          rhs = r_pt + smul c ch a_pt
      in lhs = rhs)"

definition pedersen_subtract :: "('g::ab_group_add, 'k) curve \<Rightarrow> h256 \<Rightarrow> h256 \<Rightarrow> h256 option" where
  "pedersen_subtract c c_a c_b =
     (case decompress c c_a of None \<Rightarrow> None | Some pa \<Rightarrow>
      case decompress c c_b of None \<Rightarrow> None | Some pb \<Rightarrow>
      Some (compress c (pa - pb)))"

section \<open>Ranges\<close>

text \<open>
  \<open>verify_range_proof\<close>: the commitments are padded to a power of two with multiples of H, and the
  proof is handed to the bulletproofs crate, with the crate \<open>curve25519_dalek_ng\<close> for the same group.
\<close>

definition range_pad :: "('g, 'k) curve \<Rightarrow> h256 \<Rightarrow> nat \<Rightarrow> h256" where
  "range_pad c pi_hash i =
     (let r = from_bytes_mod_order_wide c
                (sha512 c (ascii ''PAD_R'' @ le_bytes 32 pi_hash @ le_bytes 4 (of_nat i :: u32)))
      in compress c (smul c r (generator_h c)))"

definition sc_verify_range_proof ::
  "('g, 'k) curve \<Rightarrow> bytes \<Rightarrow> h256 list \<Rightarrow> bytes \<Rightarrow> nat \<Rightarrow> bool" where
  "sc_verify_range_proof c range_proof commitments public_inputs nbits =
     (if commitments = [] then False
      else if nbits = 0 \<or> nbits > 64 then False
      else
        case range_from_bytes c range_proof of None \<Rightarrow> False | Some rp \<Rightarrow>
        let pc_gens = (basepoint c, generator_h c);
            m = length commitments;
            party_capacity = next_power_of_two m;
            bp_gens = (nbits, party_capacity);
            pi_hash = verifier_blake2_256 c public_inputs;
            t = (''NULLA_BULLETPROOF_RANGE'', [Msg ''pi_hash'' (le_bytes 32 pi_hash)]);
            cmts = (if party_capacity > m
                    then let pad = party_capacity - m in commitments @ map (range_pad c pi_hash) [0..<pad]
                    else commitments)
        in verify_multiple_with_rng c rp bp_gens pc_gens t cmts nbits (rng_new pi_hash))"

section \<open>The verifier of the runtime\<close>

definition RuntimeProofVerifier ::
  "('g::ab_group_add, 'k::comm_ring_1) curve \<Rightarrow> codec \<Rightarrow> sc_verify" where
  "RuntimeProofVerifier c C =
     \<lparr>sv_verify = sc_verify_bytes c C,
      sv_verify_commitment = sc_verify_commitment c,
      sv_verify_opening_knowledge = verify_opening_knowledge c,
      sv_verify_range_proof = sc_verify_range_proof c,
      sv_pedersen_subtract = pedersen_subtract c,
      sv_verify_one_of_many = one_of_many_verify c,
      sv_verify_deposit_open = verify_deposit_open c,
      sv_verify_g1_pok = verify_g1_pok c,
      sv_pad_group = pad_group c\<rparr>"

section \<open>Special soundness\<close>

lemma agg_points_plus:
  "agg_points c (+) ws (a :: 'g::ab_group_add) =
     map_option (\<lambda>Ps. a + sum_list Ps) (those (map (decompress c) ws))"
  by (induction ws arbitrary: a) (auto split: option.split simp: add.assoc option.map_comp o_def)

lemma agg_points_minus:
  "agg_points c (-) ws (a :: 'g::ab_group_add) =
     map_option (\<lambda>Ps. a - sum_list Ps) (those (map (decompress c) ws))"
  by (induction ws arbitrary: a) (auto split: option.split simp: diff_diff_eq option.map_comp o_def)

lemma verifier_blake2_256_rewound [simp]: "verifier_blake2_256 (rewound T c) bs = verifier_blake2_256 c bs"
  by (simp add: verifier_blake2_256_def rewound_def)

text \<open>What a proof answers: the verifier's challenge for it and the response it carries.\<close>

definition balance_point :: "('g::ab_group_add, 'k) curve \<Rightarrow> sc_public_inputs \<Rightarrow> 'g" where
  "balance_point c inputs = sum_list (map (the \<circ> decompress c) (input_commitments inputs)) -
     sum_list (map (the \<circ> decompress c) (new_commitments inputs))"

definition balance_answer ::
  "('g::ab_group_add, 'k::comm_ring_1) curve \<Rightarrow> sc_public_inputs \<Rightarrow> bytes \<Rightarrow> bytes \<Rightarrow> 'k \<times> 'k" where
  "balance_answer c inputs bs p =
     (balance_challenge c (the (decompress c (h256_at p 0))) (balance_point c inputs) (verifier_blake2_256 c bs),
      from_bytes_mod_order c (h256_at p 32))"

definition opening_answer ::
  "('g::ab_group_add, 'k::comm_ring_1) curve \<Rightarrow> u64 \<Rightarrow> h256 \<Rightarrow> bytes \<Rightarrow> bytes \<Rightarrow> 'k \<times> 'k" where
  "opening_answer c val w bnd p =
     (opening_challenge c bnd (the (decompress c (h256_at p 0)))
        (the (decompress c w) - smul c (scalar_from_u64 val) (basepoint c)),
      from_bytes_mod_order c (h256_at p 32))"

text \<open>Two runs of a prover, the second component being the encoded inputs or the binding of the proof.\<close>

fun balance_runs ::
  "('g::ab_group_add, 'k::comm_ring_1) curve \<Rightarrow> codec \<Rightarrow> sc_public_inputs \<Rightarrow> 'k two_runs \<Rightarrow> bool" where
  "balance_runs c C inputs (T, bs, p, p', u) \<longleftrightarrow>
     decode_sc_public_inputs C bs = Some inputs \<and> sc_verify_bytes c C p bs \<and> sc_verify_bytes (rewound T c) C p' bs \<and>
     h256_at p 0 = h256_at p' 0 \<and>
     u * (fst (balance_answer c inputs bs p) - fst (balance_answer (rewound T c) inputs bs p')) = 1"

fun opening_runs ::
  "('g::ab_group_add, 'k::comm_ring_1) curve \<Rightarrow> u64 \<Rightarrow> h256 \<Rightarrow> 'k two_runs \<Rightarrow> bool" where
  "opening_runs c val w (T, bnd, p, p', u) \<longleftrightarrow>
     verify_opening_knowledge c val w p bnd \<and> verify_opening_knowledge (rewound T c) val w p' bnd \<and>
     h256_at p 0 = h256_at p' 0 \<and>
     u * (fst (opening_answer c val w bnd p) - fst (opening_answer (rewound T c) val w bnd p')) = 1"

text \<open>The extractor of both: the blinding that the responses determine.\<close>

fun run_blinding :: "('g, 'k::comm_ring_1) curve \<Rightarrow> 'k two_runs \<Rightarrow> 'k" where
  "run_blinding c (T, bs, p, p', u) =
     u * (from_bytes_mod_order c (h256_at p 32) - from_bytes_mod_order c (h256_at p' 32))"

text \<open>Values and blindings that open a list of commitments.\<close>

definition opens :: "('g::ab_group_add, 'k) curve \<Rightarrow> h256 list \<Rightarrow> ('k \<times> 'k) list \<Rightarrow> bool" where
  "opens c ws vrs \<longleftrightarrow> map (decompress c) ws =
     map (\<lambda>(v, r). Some (smul c v (basepoint c) + smul c r (generator_h c))) vrs"

lemma sc_verify_bytesD:
  assumes "sc_verify_bytes c C p bs" and "decode_sc_public_inputs C bs = Some inputs"
    and "balance_answer c inputs bs p = (e, z)"
  shows "\<exists>R. decompress c (h256_at p 0) = Some R \<and>
    smul c z (generator_h c) = R + smul c e (balance_point c inputs)"
proof -
  have "map (the \<circ> decompress c) ws = Ps" if "those (map (decompress c) ws) = Some Ps" for ws Ps
    using that by (induction ws arbitrary: Ps) (auto split: option.splits)
  then show ?thesis
    using assms by (auto simp: sc_verify_bytes_def balance_answer_def balance_point_def agg_points_plus
        agg_points_minus Let_def split: if_splits option.splits)
qed

lemma verify_opening_knowledgeD:
  assumes "verify_opening_knowledge c val w p bnd" and "opening_answer c val w bnd p = (e, z)"
  shows "\<exists>P R. decompress c w = Some P \<and> decompress c (h256_at p 0) = Some R \<and>
    smul c z (generator_h c) = R + smul c e (P - smul c (scalar_from_u64 val) (basepoint c))"
  using assms by (auto simp: verify_opening_knowledge_def opening_answer_def Let_def split: if_splits option.splits)

lemma balance_runs_open:
  assumes c: "curve_laws c" and runs: "balance_runs c C inputs D"
  shows "balance_point c inputs = smul c (run_blinding c D) (generator_h c)"
proof -
  obtain T bs p p' u where D: "D = (T, bs, p, p', u)" by (cases D)
  obtain e z where e: "balance_answer c inputs bs p = (e, z)" by (cases "balance_answer c inputs bs p")
  obtain e' z' where e': "balance_answer (rewound T c) inputs bs p' = (e', z')"
    by (cases "balance_answer (rewound T c) inputs bs p'")
  have acc: "sc_verify_bytes c C p bs" "sc_verify_bytes (rewound T c) C p' bs" "h256_at p 0 = h256_at p' 0"
    and dec: "decode_sc_public_inputs C bs = Some inputs" and u: "u * (e - e') = 1"
    using runs by (simp_all add: D e e')
  have zs: "z = from_bytes_mod_order c (h256_at p 32)" "z' = from_bytes_mod_order c (h256_at p' 32)"
    using e e' by (simp_all add: balance_answer_def)
  have same: "balance_point (rewound T c) inputs = balance_point c inputs" by (simp add: balance_point_def)
  obtain R where 1: "decompress c (h256_at p 0) = Some R"
    "smul c z (generator_h c) = R + smul c e (balance_point c inputs)"
    using sc_verify_bytesD [OF acc(1) dec e] by blast
  have "smul c z' (generator_h c) = R + smul c e' (balance_point c inputs)"
    using sc_verify_bytesD [OF acc(2) dec e'] 1(1) acc(3) by (simp add: same)
  from schnorr_extract [OF c u 1(2) this] show ?thesis
    by (simp add: D zs smul_laws [OF c] smul_left_commute [OF c] algebra_simps)
qed

lemma opening_runs_open:
  assumes c: "curve_laws c" and runs: "opening_runs c val w D"
  shows "decompress c w = Some (smul c (scalar_from_u64 val) (basepoint c) + smul c (run_blinding c D) (generator_h c))"
proof -
  obtain T bnd p p' u where D: "D = (T, bnd, p, p', u)" by (cases D)
  obtain e z where e: "opening_answer c val w bnd p = (e, z)" by (cases "opening_answer c val w bnd p")
  obtain e' z' where e': "opening_answer (rewound T c) val w bnd p' = (e', z')"
    by (cases "opening_answer (rewound T c) val w bnd p'")
  have acc: "verify_opening_knowledge c val w p bnd" "verify_opening_knowledge (rewound T c) val w p' bnd"
    "h256_at p 0 = h256_at p' 0" and u: "u * (e - e') = 1"
    using runs by (simp_all add: D e e')
  have zs: "z = from_bytes_mod_order c (h256_at p 32)" "z' = from_bytes_mod_order c (h256_at p' 32)"
    using e e' by (simp_all add: opening_answer_def)
  let ?v = "smul c (scalar_from_u64 val :: 'b) (basepoint c)"
  obtain P R where 1: "decompress c w = Some P" "decompress c (h256_at p 0) = Some R"
    "smul c z (generator_h c) = R + smul c e (P - ?v)"
    using verify_opening_knowledgeD [OF acc(1) e] by blast
  have "smul c z' (generator_h c) = R + smul c e' (P - ?v)"
    using verify_opening_knowledgeD [OF acc(2) e'] 1(1,2) acc(3) by auto
  from schnorr_extract [OF c u 1(3) this]
  have "P = ?v + smul c (u * (z - z')) (generator_h c)"
    by (simp add: smul_laws [OF c] smul_left_commute [OF c] algebra_simps)
  with 1(1) show ?thesis by (simp add: D zs)
qed

lemma smul_sum_list:
  "curve_laws c \<Longrightarrow> (\<Sum>x\<leftarrow>xs. smul c (f x) P) = smul c (sum_list (map f xs)) P"
  by (induction xs) (simp_all add: smul_laws)

lemma opens_sum:
  assumes c: "curve_laws c" and "opens c ws vrs"
  shows "sum_list (map (the \<circ> decompress c) ws) =
    smul c (sum_list (map fst vrs)) (basepoint c) + smul c (sum_list (map snd vrs)) (generator_h c)"
proof -
  have "map (the \<circ> decompress c) ws = map the (map (decompress c) ws)" by simp
  also have "\<dots> = map (\<lambda>(v, r). smul c v (basepoint c) + smul c r (generator_h c)) vrs"
    using assms(2) by (simp add: opens_def case_prod_unfold comp_def)
  finally show ?thesis
    by (simp add: sum_list_addf smul_sum_list [OF c] case_prod_unfold comp_def)
qed

text \<open>
  C25. What accepted Pedersen proofs prove, by special soundness, with an extractor that computes it.
  From two accepted balance proofs with one first message, whose challenges differ by the inverse of
  \<open>u\<close>, it reads a blinding \<open>b\<close> such that, for all values and blindings that open the inputs and the outputs,
  (value in - value out) G + (blinding in - blinding out - b) H = 0: no value is created except by
  who can write down such a relation between the two generators. From two
  accepted knowledge proofs it reads the blinding with which the commitment opens to exactly the value;
  passing them for two values gives a relation whose coefficient of G is their difference. The opening
  check accepts exactly the commitments of the value and the blinding it is given.
\<close>
theorem pedersen_proofs_extract:
  fixes c :: "('g::ab_group_add, 'k::comm_ring_1) curve"
  assumes c: "curve_laws c"
  shows "(balance_runs c C inputs D \<longrightarrow>
      (\<forall>ins outs. opens c (input_commitments inputs) ins \<and> opens c (new_commitments inputs) outs \<longrightarrow>
        smul c (sum_list (map fst ins) - sum_list (map fst outs)) (basepoint c) +
        smul c (sum_list (map snd ins) - sum_list (map snd outs) - run_blinding c D) (generator_h c) = 0)) \<and>
    (opening_runs c val w K \<longrightarrow>
      decompress c w = Some (smul c (scalar_from_u64 val) (basepoint c) + smul c (run_blinding c K) (generator_h c))) \<and>
    (opening_runs c val w K \<and> opening_runs c val' w K' \<longrightarrow>
      smul c (scalar_from_u64 val - scalar_from_u64 val') (basepoint c) +
        smul c (run_blinding c K - run_blinding c K') (generator_h c) = 0) \<and>
    (sc_verify_commitment c val blinding w \<longleftrightarrow>
      decompress c w = Some (smul c (scalar_from_u64 val) (basepoint c) +
        smul c (from_bytes_mod_order c blinding) (generator_h c)))"
proof (intro conjI impI allI)
  show "smul c (sum_list (map fst ins) - sum_list (map fst outs)) (basepoint c) +
      smul c (sum_list (map snd ins) - sum_list (map snd outs) - run_blinding c D) (generator_h c) = 0"
    if "balance_runs c C inputs D"
      "opens c (input_commitments inputs) ins \<and> opens c (new_commitments inputs) outs" for ins outs
    using balance_runs_open [OF c that(1)] opens_sum [OF c, of "input_commitments inputs" ins]
      opens_sum [OF c, of "new_commitments inputs" outs] that(2)
    by (simp add: balance_point_def smul_laws [OF c] smul_diff_left [OF c] algebra_simps)
  show "decompress c w = Some (smul c (scalar_from_u64 val) (basepoint c) + smul c (run_blinding c K) (generator_h c))"
    if "opening_runs c val w K" using opening_runs_open [OF c that] .
  show "smul c (scalar_from_u64 val - scalar_from_u64 val') (basepoint c) +
      smul c (run_blinding c K - run_blinding c K') (generator_h c) = 0"
    if "opening_runs c val w K \<and> opening_runs c val' w K'"
    using opening_runs_open [OF c, of val w K] opening_runs_open [OF c, of val' w K'] that
    by (simp add: smul_diff_left [OF c] algebra_simps)
  show "sc_verify_commitment c val blinding w \<longleftrightarrow>
      decompress c w = Some (smul c (scalar_from_u64 val) (basepoint c) +
        smul c (from_bytes_mod_order c blinding) (generator_h c))"
    by (auto simp: sc_verify_commitment_def Let_def split: option.split)
qed

definition toy_inputs :: sc_public_inputs where
  "toy_inputs = \<lparr>merkle_root = 0, new_merkle_root = 0, input_commitments = [71], input_indices = [],
     input_paths = [], nullifiers = [], new_commitments = [7], ppi_tx_id = 0\<rparr>"

lemma toy_pedersen_challenges:
  "balance_challenge toy_curve R A h = 3" "balance_challenge (rewound (\<lambda>_ _ _. [2]) toy_curve) R A h = 2"
  "opening_challenge toy_curve b R A = 3" "opening_challenge (rewound (\<lambda>_ _ _. [2]) toy_curve) b R A = 2"
  by (simp_all add: balance_challenge_def opening_challenge_def toy_curve_def rewound_def)

lemma toy_pedersen_verifies:
  "sc_verify_bytes toy_curve le_codec (toy_proof 3) (encode_sc_public_inputs le_codec toy_inputs)"
  "sc_verify_bytes (rewound (\<lambda>_ _ _. [2]) toy_curve) le_codec (toy_proof 2)
     (encode_sc_public_inputs le_codec toy_inputs)"
  "verify_opening_knowledge toy_curve 7 71 (toy_proof 3) []"
  "verify_opening_knowledge (rewound (\<lambda>_ _ _. [2]) toy_curve) 7 71 (toy_proof 2) []"
proof -
  have [simp]: "length (toy_proof z) = 64" for z by (simp add: toy_proof_def)
  have [simp]: "decompress toy_curve w = Some (ucast w)" "smul toy_curve = (*)" "basepoint toy_curve = 1"
    "from_bytes_mod_order toy_curve w = ucast w" "from_bytes_mod_order (rewound T toy_curve) w = ucast w" for w T
    by (simp_all add: toy_curve_def rewound_def)
  have dec: "decode_sc_public_inputs le_codec (encode_sc_public_inputs le_codec toy_inputs) = Some toy_inputs"
    using decode_sc_public_inputs_enc [OF le_codec_laws, of toy_inputs "[]"] by simp
  show "sc_verify_bytes toy_curve le_codec (toy_proof 3) (encode_sc_public_inputs le_codec toy_inputs)"
    "sc_verify_bytes (rewound (\<lambda>_ _ _. [2]) toy_curve) le_codec (toy_proof 2)
       (encode_sc_public_inputs le_codec toy_inputs)"
    unfolding sc_verify_bytes_def dec
    by (simp_all add: toy_inputs_def toy_proof_at toy_pedersen_challenges toy_generators Let_def)
  show "verify_opening_knowledge toy_curve 7 71 (toy_proof 3) []"
    "verify_opening_knowledge (rewound (\<lambda>_ _ _. [2]) toy_curve) 7 71 (toy_proof 2) []"
    by (simp_all add: verify_opening_knowledge_def toy_proof_at toy_pedersen_challenges toy_generators
        scalar_from_u64_def)
qed

abbreviation toy_balance_runs :: "8 word two_runs" where
  "toy_balance_runs \<equiv>
    (\<lambda>_ _ _. [2], encode_sc_public_inputs le_codec toy_inputs, toy_proof 3, toy_proof 2, 1)"

abbreviation toy_opening_runs :: "8 word two_runs" where
  "toy_opening_runs \<equiv> (\<lambda>_ _ _. [2], [], toy_proof 3, toy_proof 2, 1)"

lemma toy_pedersen_runs:
  "balance_runs toy_curve le_codec toy_inputs toy_balance_runs" "opening_runs toy_curve 7 71 toy_opening_runs"
  "run_blinding toy_curve toy_balance_runs = 1" "run_blinding toy_curve toy_opening_runs = 1"
proof -
  have [simp]: "from_bytes_mod_order toy_curve w = ucast w" for w by (simp add: toy_curve_def)
  show "balance_runs toy_curve le_codec toy_inputs toy_balance_runs" "opening_runs toy_curve 7 71 toy_opening_runs"
    "run_blinding toy_curve toy_balance_runs = 1" "run_blinding toy_curve toy_opening_runs = 1"
    using toy_pedersen_verifies decode_sc_public_inputs_enc [OF le_codec_laws, of toy_inputs "[]"]
    by (simp_all add: toy_proof_at toy_pedersen_challenges balance_answer_def opening_answer_def toy_inputs_def)
qed

theorem pedersen_proofs_extract_witness:
  "smul toy_curve (sum_list (map fst [(7 :: 8 word, 1 :: 8 word)]) -
       sum_list (map fst [(7 :: 8 word, 0 :: 8 word)])) (basepoint toy_curve) +
     smul toy_curve (sum_list (map snd [(7 :: 8 word, 1 :: 8 word)]) -
       sum_list (map snd [(7 :: 8 word, 0 :: 8 word)]) - run_blinding toy_curve toy_balance_runs)
       (generator_h toy_curve) = 0 \<and>
   decompress toy_curve 71 = Some (smul toy_curve (scalar_from_u64 7) (basepoint toy_curve) +
     smul toy_curve (run_blinding toy_curve toy_opening_runs) (generator_h toy_curve))"
proof -
  have "opens toy_curve (input_commitments toy_inputs) [(7 :: 8 word, 1 :: 8 word)]"
    "opens toy_curve (new_commitments toy_inputs) [(7 :: 8 word, 0 :: 8 word)]"
    by (simp_all add: opens_def toy_inputs_def toy_reads toy_generators)
  then show ?thesis
    using pedersen_proofs_extract [OF toy_curve_laws, of le_codec toy_inputs toy_balance_runs 7 71
        toy_opening_runs 7 toy_opening_runs 0] toy_pedersen_runs(1,2)
    by (elim conjE) (intro conjI; blast)
qed

end
