(* ===== verification/CoinSpends.thy ===== *)
theory CoinSpends
  imports PedersenVerifier ScanProofLane
begin

text \<open>
  The coin extrinsics of the ScanProof pallet (theory ScanProofCalls) with the verifier of the runtime
  (theory PedersenVerifier): a padded group is one the prover accepts, the owner of a coin can spend
  it, and what the pallet does not check - that a serial is the canonical encoding of its scalar, and
  that the change of a purchase is not negative - shows in the two properties at the end.
\<close>

section \<open>Padded groups\<close>

lemma next_power_of_two_spec:
  "n \<noteq> 0 \<Longrightarrow> (\<exists>k. next_power_of_two n = 2 ^ k) \<and> n \<le> next_power_of_two n \<and> next_power_of_two n < 2 * n"
proof (induction n rule: next_power_of_two.induct)
  case (1 n)
  show ?case
  proof (cases "n \<le> 1")
    case True
    then show ?thesis using 1(2) by (subst (1 2 3) next_power_of_two.simps) (auto intro: exI [of _ 0])
  next
    case False
    then have nn: "next_power_of_two n = 2 * next_power_of_two ((n + 1) div 2)"
      by (subst next_power_of_two.simps) simp
    define m where "m = (n + 1) div 2"
    obtain k where k: "next_power_of_two m = 2 ^ k" and m: "m \<le> 2 ^ k" "(2::nat) ^ k < 2 * m"
      using 1(1) [OF False] False by (auto simp: m_def)
    have n: "n \<le> 2 * m" "2 * m \<le> n + 1" by (simp_all add: m_def)
    have "2 * (2::nat) ^ k < 2 * n"
    proof (cases k)
      case 0
      then show ?thesis using False by simp
    next
      case (Suc j)
      then have "(2::nat) ^ k = 2 * 2 ^ j" by simp
      then have "(2::nat) ^ j + 1 \<le> m" using m(2) by simp
      then show ?thesis using n \<open>(2::nat) ^ k = 2 * 2 ^ j\<close> by linarith
    qed
    moreover have "next_power_of_two n = 2 ^ Suc k" using nn k by (simp add: m_def)
    moreover have "n \<le> 2 ^ Suc k" using n(1) m(1) by simp
    ultimately show ?thesis by (metis power_Suc)
  qed
qed

lemma pad_loop_spec:
  assumes "length out \<le> n"
  shows "\<exists>pads. pad_loop c gid n out i = out @ pads \<and> length (out @ pads) = n \<and>
    (\<forall>w \<in> set pads. \<exists>P. w = compress c P)"
  using assms
proof (induction c gid n out i rule: pad_loop.induct)
  case (1 c gid n out i)
  show ?case
  proof (cases "length out < n")
    case True
    then obtain pads where "pad_loop c gid n (out @ [pad_coin c gid i]) (i + 1) = (out @ [pad_coin c gid i]) @ pads"
      "length ((out @ [pad_coin c gid i]) @ pads) = n" "\<forall>w \<in> set pads. \<exists>P. w = compress c P"
      using 1(1) by fastforce
    then show ?thesis using True
      by (subst pad_loop.simps) (auto simp: pad_coin_def intro!: exI [of _ "pad_coin c gid i # pads"])
  next
    case False
    then show ?thesis using 1(2) by (subst pad_loop.simps) auto
  qed
qed

text \<open>The group the prover and the verifier work on: the coins, then pads that are valid points.\<close>

lemma pad_group_spec:
  assumes c: "curve_laws c" and len: "length g \<le> 1024"
  obtains pads where "pad_group c g gid = g @ pads"
    "is_power_of_two (length (pad_group c g gid))" "2 \<le> length (pad_group c g gid)"
    "length (pad_group c g gid) < 2 ^ 64" "\<forall>w \<in> set pads. decompress c w \<noteq> None"
proof -
  define n where "n = next_power_of_two (max (length g) 2)"
  obtain k where n: "n = 2 ^ k" "max (length g) 2 \<le> n" "n < 2 * max (length g) 2"
    using next_power_of_two_spec [of "max (length g) 2"] by (auto simp: n_def)
  from n(2) have "length g \<le> n" by simp
  from pad_loop_spec [OF this, of c gid "of_nat (length g)"] obtain pads where
    pads: "pad_group c g gid = g @ pads" "length (g @ pads) = n" "\<forall>w \<in> set pads. \<exists>P. w = compress c P"
    by (auto simp: pad_group_def n_def)
  show thesis
  proof (rule that [of pads])
    show "is_power_of_two (length (pad_group c g gid))"
      using pads n(1) is_power_of_two_exp by simp
    show "length (pad_group c g gid) < 2 ^ 64" using pads n len by simp
  qed (use pads n(2) decompress_compress [OF c] in auto)
qed

section \<open>Spending a coin\<close>

lemma those_Some: "\<forall>w \<in> set ws. f w \<noteq> None \<Longrightarrow> those (map f ws) = Some (map (the \<circ> f) ws)"
  by (induction ws) auto

text \<open>
  The statement of a spend: the coin, less its serial part, the price and the change, is a multiple
  of the blinding generator.
\<close>

lemma owner_can_spend:
  assumes c: "curve_laws c" and len: "length g \<le> 1024" and dec: "\<forall>w \<in> set g. decompress c w \<noteq> None"
    and i: "i < length g" and P: "decompress c (g ! i) = Some P" and Q: "decompress c change = Some Q"
    and D: "P - (smul c (from_bytes_mod_order c serial) (generator_g1 c) +
              smul c (scalar_from_u64 price) (basepoint c) + Q) =
            smul c (from_bytes_mod_order c blinding) (generator_h c)"
  shows "\<exists>p. one_of_many_prove c (pad_group c g gid) i serial price change blinding ctx seed = Some p \<and>
    one_of_many_verify c p (pad_group c g gid) serial price change ctx"
proof -
  obtain pads where pads: "pad_group c g gid = g @ pads" and n: "is_power_of_two (length (pad_group c g gid))"
    "2 \<le> length (pad_group c g gid)" "length (pad_group c g gid) < 2 ^ 64"
    and pd: "\<forall>w \<in> set pads. decompress c w \<noteq> None"
    using pad_group_spec [OF c len] by blast
  let ?off = "smul c (from_bytes_mod_order c serial) (generator_g1 c) +
              smul c (scalar_from_u64 price) (basepoint c) + Q"
  have "those (map (decompress c) (g @ pads)) = Some (map (the \<circ> decompress c) (g @ pads))"
    using dec pd by (intro those_Some) auto
  then have d: "d_set c (pad_group c g gid) serial price change =
      Some (map (\<lambda>p. p - ?off) (map (the \<circ> decompress c) (g @ pads)))"
    by (simp add: d_set_def Q pads Let_def del: map_append)
  have "map (\<lambda>p. p - ?off) (map (the \<circ> decompress c) (g @ pads)) ! i =
      smul c (from_bytes_mod_order c blinding) (generator_h c)"
    using i P D by (simp add: nth_append)
  with one_of_many_prove_total [OF n(2,1) _ d] i pads
  obtain p where "one_of_many_prove c (pad_group c g gid) i serial price change blinding ctx seed = Some p"
    by fastforce
  with one_of_many_prove_verifies [OF c n(3)] show ?thesis by blast
qed

lemma owner_can_withdraw:
  assumes c: "curve_laws c" and len: "length g \<le> 1024" and dec: "\<forall>w \<in> set g. decompress c w \<noteq> None"
    and i: "i < length g" and coin: "g ! i = coin_commit c serial val blinding"
    and same: "from_bytes_mod_order c serial' = from_bytes_mod_order c serial"
  shows "\<exists>p. one_of_many_verify c p (pad_group c g gid) serial' val 0 ctx"
proof -
  obtain P where P: "decompress c (g ! i) = Some P"
    "P = smul c (from_bytes_mod_order c serial) (generator_g1 c) +
        smul c (scalar_from_u64 val) (basepoint c) + smul c (from_bytes_mod_order c blinding) (generator_h c)"
    using coin_commit_opens [OF c] coin by auto
  have "P - (smul c (from_bytes_mod_order c serial') (generator_g1 c) +
      smul c (scalar_from_u64 val) (basepoint c) + 0) =
      smul c (from_bytes_mod_order c blinding) (generator_h c)"
    by (simp add: P(2) same)
  from owner_can_spend [OF c len dec i P(1) decompress_zero [OF c] this] show ?thesis by blast
qed

text \<open>A \<open>withdraw_coin\<close> that pays out.\<close>

lemma withdraw_coin_pays:
  assumes "codec_laws (sc_codec cfg)" and "sc_verifier cfg = RuntimeProofVerifier c C"
    and "\<not> SerialUsed s (cw_serial inputs)" and "CoinGroups s (cw_group_id inputs) = Some g"
    and "one_of_many_verify c p (pad_group c g (cw_group_id inputs)) (cw_serial inputs) (cw_amount inputs) 0
      (le_bytes 32 (sc_blake2_256 cfg (encode_coin_withdraw_public (sc_codec cfg) inputs)))"
    and "sc_decode_account cfg (le_bytes 32 (cw_destination inputs)) = Some a"
    and "sc_transfer cfg (sc_pool cfg) a (ucast (cw_amount inputs)) AllowDeath (sc_ccy s) = Inr b"
  shows "\<exists>s'. withdraw_coin cfg Unsigned (encode_coin_withdraw_public (sc_codec cfg) inputs) p s = Inr s' \<and>
    sc_ccy s' = b \<and> CoinGroups s' = CoinGroups s \<and> SerialUsed s' = (SerialUsed s)(cw_serial inputs := True)"
  using assms decode_coin_withdraw_public_enc [OF assms(1), of inputs "[]"]
  by (simp add: withdraw_coin_def Let_def RuntimeProofVerifier_def group_get_def
      sc_currency_transfer_def sc_deposit_event_def)

lemma same_scalar:
  assumes c: "curve_laws c" and "unat serial + group_order c < 2 ^ 256"
  shows "from_bytes_mod_order c (serial + of_nat (group_order c)) = from_bytes_mod_order c serial"
proof -
  have "unat (serial + of_nat (group_order c)) = unat serial + group_order c"
    using assms(2) by (simp add: unat_word_ariths unat_of_nat)
  then show ?thesis
    using of_nat_group_order [OF c] by (simp add: from_bytes_mod_order_nat [OF c] del: of_nat_unat)
qed

text \<open>
  C12. One coin can be withdrawn twice. The verifier reduces the 32 bytes of a serial modulo the group
  order, the pallet records the bytes, and neither asks for the canonical encoding: the owner of a coin
  of value v who has withdrawn it with its serial can withdraw it again with the serial plus the group
  order, with an honestly made proof. Both calls succeed and the pool pays v both times, whatever the
  rest of the group holds.
\<close>
theorem coin_withdrawn_twice:
  fixes c :: "('g::ab_group_add, 'k::comm_ring_1) curve"
  assumes "curve_laws c" and "codec_laws (sc_codec cfg)" and "sc_verifier cfg = RuntimeProofVerifier c C"
    and "CoinGroups s gid = Some g" and "length g \<le> 1024" and "\<forall>w \<in> set g. decompress c w \<noteq> None"
    and "i < length g" and "g ! i = coin_commit c serial val blinding"
    and "0 < group_order c" and "unat serial + group_order c < 2 ^ 256"
    and "\<not> SerialUsed s serial" and "\<not> SerialUsed s (serial + of_nat (group_order c))"
    and "sc_decode_account cfg (le_bytes 32 dest) = Some a"
    and "sc_transfer cfg (sc_pool cfg) a (ucast val) AllowDeath (sc_ccy s) = Inr b1"
    and "sc_transfer cfg (sc_pool cfg) a (ucast val) AllowDeath b1 = Inr b2"
  shows "\<exists>p1 p2 s1 s2.
    withdraw_coin cfg Unsigned (encode_coin_withdraw_public (sc_codec cfg)
      \<lparr>cw_group_id = gid, cw_serial = serial, cw_amount = val, cw_destination = dest, cw_tx_id = tx\<rparr>) p1 s = Inr s1 \<and>
    withdraw_coin cfg Unsigned (encode_coin_withdraw_public (sc_codec cfg)
      \<lparr>cw_group_id = gid, cw_serial = serial + of_nat (group_order c), cw_amount = val,
        cw_destination = dest, cw_tx_id = tx'\<rparr>) p2 s1 = Inr s2 \<and>
    sc_ccy s1 = b1 \<and> sc_ccy s2 = b2"
proof -
  let ?in1 = "\<lparr>cw_group_id = gid, cw_serial = serial, cw_amount = val, cw_destination = dest, cw_tx_id = tx\<rparr>"
  let ?in2 = "\<lparr>cw_group_id = gid, cw_serial = serial + of_nat (group_order c), cw_amount = val,
        cw_destination = dest, cw_tx_id = tx'\<rparr>"
  note spend = owner_can_withdraw [OF assms(1,5,6,7,8)]
  from spend [OF refl] obtain p1 where p1: "one_of_many_verify c p1 (pad_group c g gid) serial val 0
      (le_bytes 32 (sc_blake2_256 cfg (encode_coin_withdraw_public (sc_codec cfg) ?in1)))" by blast
  from spend [OF same_scalar [OF assms(1,10)]] obtain p2 where
    p2: "one_of_many_verify c p2 (pad_group c g gid) (serial + of_nat (group_order c)) val 0
      (le_bytes 32 (sc_blake2_256 cfg (encode_coin_withdraw_public (sc_codec cfg) ?in2)))" by blast
  from withdraw_coin_pays [OF assms(2,3), of s ?in1 g p1 a b1] p1 assms obtain s1 where
    s1: "withdraw_coin cfg Unsigned (encode_coin_withdraw_public (sc_codec cfg) ?in1) p1 s = Inr s1"
    "sc_ccy s1 = b1" "CoinGroups s1 = CoinGroups s" "SerialUsed s1 = (SerialUsed s)(serial := True)"
    by auto
  have "(of_nat (group_order c) :: h256) \<noteq> 0"
    using assms(9,10) by (simp add: word_of_nat_eq_0_iff nat_dvd_not_less)
  then have "\<not> SerialUsed s1 (serial + of_nat (group_order c))"
    using s1(4) assms(12) by simp
  with withdraw_coin_pays [OF assms(2,3), of s1 ?in2 g p2 a b2] p2 assms s1 obtain s2 where
    "withdraw_coin cfg Unsigned (encode_coin_withdraw_public (sc_codec cfg) ?in2) p2 s1 = Inr s2"
    "sc_ccy s2 = b2"
    by auto
  with s1 show ?thesis by blast
qed

definition toy_sc :: "(nat, nat \<Rightarrow> nat) sc_config" where
  "toy_sc = demo_sc\<lparr>sc_verifier := RuntimeProofVerifier toy_curve le_codec\<rparr>"

lemma toy_sc_simps [simp]:
  "sc_codec toy_sc = le_codec" "sc_verifier toy_sc = RuntimeProofVerifier toy_curve le_codec"
  "sc_transfer toy_sc = demo_sc_transfer" "sc_pool toy_sc = 0" "sc_decode_account toy_sc d = Some 7"
  by (simp_all add: toy_sc_def demo_sc_def)

definition toy_coins :: "(nat \<Rightarrow> nat) sc_state" where
  "toy_coins = (sc_genesis (\<lambda>_. 100))\<lparr>CoinGroups := [0 \<mapsto> [coin_commit toy_curve 3 20 4]],
     RwaPrices := (\<lambda>_. 50)\<rparr>"

lemma toy_decompress [simp]: "decompress toy_curve w = Some (ucast w)" "group_order toy_curve = 256"
  by (simp_all add: toy_curve_def)

theorem coin_withdrawn_twice_witness:
  "\<exists>p1 p2 s1 s2.
    withdraw_coin toy_sc Unsigned (encode_coin_withdraw_public le_codec
      \<lparr>cw_group_id = 0, cw_serial = 3, cw_amount = 20, cw_destination = 7, cw_tx_id = 1\<rparr>) p1 toy_coins = Inr s1 \<and>
    withdraw_coin toy_sc Unsigned (encode_coin_withdraw_public le_codec
      \<lparr>cw_group_id = 0, cw_serial = 259, cw_amount = 20, cw_destination = 7, cw_tx_id = 2\<rparr>) p2 s1 = Inr s2 \<and>
    sc_ccy s1 = (\<lambda>_. 100)(0 := 80, 7 := 120) \<and> sc_ccy s2 = (\<lambda>_. 100)(0 := 60, 7 := 140)"
  using coin_withdrawn_twice [OF toy_curve_laws, where cfg = toy_sc and C = le_codec and s = toy_coins
      and gid = 0 and g = "[coin_commit toy_curve 3 20 4]" and i = 0 and serial = 3 and val = 20
      and blinding = 4 and dest = 7 and a = 7 and tx = 1 and tx' = 2
      and ?b1.0 = "(\<lambda>_. 100)(0 := 80, 7 := 120)" and ?b2.0 = "(\<lambda>_. 100)(0 := 60, 7 := 140)"]
  by (simp add: le_codec_laws toy_coins_def sc_genesis_def demo_sc_transfer_def fun_eq_iff)

section \<open>Change\<close>

text \<open>
  C13. The change of a coin purchase may be negative. A purchase with change proves that coin, price
  and change commitment balance and that the change coin carries the change, but nothing bounds the
  value inside the change commitment. So the owner of a coin of any value v - also of value 0 - buys an
  asset of any price with honestly made proofs: the change commits to the scalar v - price. The call
  succeeds and sends the purchase message of the full price to the RWA chain.
\<close>
theorem coin_buys_above_its_value:
  fixes c :: "('g::ab_group_add, 'k::comm_ring_1) curve" and tx :: h128 and oc :: h256
  assumes "curve_laws c" and "codec_laws (sc_codec cfg)" and "sc_verifier cfg = RuntimeProofVerifier c C"
    and "CoinGroups s gid = Some g" and "length g \<le> 1024" and "\<forall>w \<in> set g. decompress c w \<noteq> None"
    and "i < length g" and "g ! i = coin_commit c serial val blinding"
    and "\<not> SerialUsed s serial" and "RwaPrices s rwa = price" and "price > 0"
    and "change = compress c (smul c (scalar_from_u64 val - scalar_from_u64 price) (basepoint c) +
           smul c r' (generator_h c))" and "change \<noteq> 0"
    and "new_coin = compress c (smul c (from_bytes_mod_order c serial') (generator_g1 c) +
           smul c (scalar_from_u64 val - scalar_from_u64 price) (basepoint c) + smul c r' (generator_h c))"
    and "new_coin \<noteq> 0" and "CoinLocation s new_coin = None"
    and "length (group_get s (CurrentGroup s)) < 1024"
  defines "inputs \<equiv> \<lparr>cs_group_id = gid, cs_serial = serial, cs_rwa_id = rwa, cs_tx_id = tx,
      cs_ownership_commitment = oc, cs_change = change, cs_change_coin = new_coin\<rparr>"
  shows "\<exists>p q s'. purchase_coin cfg Unsigned (encode_coin_spend_public (sc_codec cfg) inputs) p q s = Inr s' \<and>
    sc_sent s' = sc_sent s @ [ScRwaSend rwa serial serial price tx oc] \<and>
    group_get s' (CurrentGroup s) = group_get s (CurrentGroup s) @ [new_coin]"
proof -
  let ?pin = "encode_coin_spend_public (sc_codec cfg) inputs"
  let ?ctx = "le_bytes 32 (sc_blake2_256 cfg ?pin)"
  note c = assms(1)
  note in_defs = inputs_def
  obtain P where P: "decompress c (g ! i) = Some P"
    "P = smul c (from_bytes_mod_order c serial) (generator_g1 c) +
        smul c (scalar_from_u64 val) (basepoint c) + smul c (from_bytes_mod_order c blinding) (generator_h c)"
    using coin_commit_opens [OF c] assms(8) by auto
  define Q where "Q = smul c (scalar_from_u64 val - scalar_from_u64 price) (basepoint c) +
           smul c r' (generator_h c)"
  define N where "N = smul c (from_bytes_mod_order c serial') (generator_g1 c) + Q"
  have Q: "decompress c change = Some Q" and N: "decompress c new_coin = Some N"
    by (simp_all add: assms(12,14) Q_def N_def add.assoc decompress_compress [OF c])
  define b where "b = scalar_bytes c (from_bytes_mod_order c blinding - r')"
  have "P - (smul c (from_bytes_mod_order c serial) (generator_g1 c) +
      smul c (scalar_from_u64 price) (basepoint c) + Q) = smul c (from_bytes_mod_order c b) (generator_h c)"
    by (simp add: P(2) Q_def b_def from_bytes_scalar_bytes [OF c] smul_laws [OF c] algebra_simps)
  from owner_can_spend [OF c assms(5,6,7) P(1) Q this] obtain p where
    p: "one_of_many_verify c p (pad_group c g gid) serial price change ?ctx" by blast
  have "N - Q = smul c (from_bytes_mod_order c serial') (generator_g1 c)" by (simp add: N_def)
  from prove_g1_pok_accepted [OF c N Q this] obtain q where
    q: "verify_g1_pok c new_coin change q ?ctx" by blast
  show ?thesis
    using p q assms(3,4,9-11,13,15-17) decode_coin_spend_public_enc [OF assms(2), of inputs "[]"]
    by (intro exI [of _ p] exI [of _ q])
      (simp add: purchase_coin_def Let_def in_defs RuntimeProofVerifier_def group_get_def
        register_change_coin_def add_coin_def sc_deposit_event_def sc_dispatch_send_def)
qed

theorem coin_buys_above_its_value_witness:
  "\<exists>p q s'. purchase_coin toy_sc Unsigned (encode_coin_spend_public le_codec
      \<lparr>cs_group_id = 0, cs_serial = 3, cs_rwa_id = 8, cs_tx_id = 1, cs_ownership_commitment = 2,
        cs_change = 226, cs_change_coin = 34\<rparr>) p q toy_coins = Inr s' \<and>
    sc_sent s' = [ScRwaSend 8 3 3 50 1 2] \<and>
    group_get s' 0 = [coin_commit toy_curve 3 20 4, 34]"
proof -
  have "compress toy_curve = ucast" "smul toy_curve = (*)" "basepoint toy_curve = 1"
    "from_bytes_mod_order toy_curve = ucast"
    by (simp_all add: toy_curve_def)
  then show ?thesis
    using coin_buys_above_its_value [OF toy_curve_laws, where cfg = toy_sc and C = le_codec and s = toy_coins
        and gid = 0 and g = "[coin_commit toy_curve 3 20 4]" and i = 0 and serial = 3 and val = 20
        and blinding = 4 and rwa = 8 and price = 50 and change = 226 and r' = 0 and new_coin = 34
        and serial' = 5 and tx = 1 and oc = 2]
    by (simp add: le_codec_laws toy_coins_def sc_genesis_def toy_generators scalar_from_u64_def
        group_get_def)
qed

end
