(* ===== verification/NoteSpends.thy ===== *)
theory NoteSpends
  imports PedersenVerifier ScanProofLane
begin

text \<open>
  The v1 notes of the ScanProof pallet with the verifier of the runtime (theory PedersenVerifier): the
  owner of a commitment can prove its opening for any binding, and what a deposit and the withdrawals
  of its note do not check - that the amount paid is the value committed to, and that the note was
  spent before.
\<close>

section \<open>Opening a commitment\<close>

text \<open>The proof with nonce 0; the transcript contributes only the challenge.\<close>

definition open_note :: "('g::ab_group_add, 'k::comm_ring_1) curve \<Rightarrow> 'k \<Rightarrow> bytes \<Rightarrow> bytes" where
  "open_note c b bind_bytes =
     le_bytes 32 (compress c 0) @ le_bytes 32 (scalar_bytes c
       (opening_challenge c bind_bytes 0 (smul c b (generator_h c)) * b))"

lemma length_open_note [simp]: "length (open_note c b bnd) = 64"
  by (simp add: open_note_def)

lemma open_note_complete:
  assumes c: "curve_laws c"
    and w: "decompress c w = Some (smul c (scalar_from_u64 val) (basepoint c) + smul c b (generator_h c))"
  shows "verify_opening_knowledge c val w (open_note c b bnd) bnd"
proof -
  let ?ch = "opening_challenge c bnd 0 (smul c b (generator_h c))"
  have at: "h256_at (open_note c b bnd) 0 = compress c 0"
    "h256_at (open_note c b bnd) 32 = scalar_bytes c (?ch * b)"
    using h256_at_le_bytes [of "scalar_bytes c (?ch * b)" "[]"]
    by (simp_all add: open_note_def h256_at_le_bytes h256_at_skip)
  show ?thesis
    by (simp add: verify_opening_knowledge_def w at decompress_compress [OF c]
        from_bytes_scalar_bytes [OF c] smul_mult [OF c] Let_def)
qed

section \<open>A deposit and its note\<close>

definition deposit_wire :: "bytes \<Rightarrow> u64 \<Rightarrow> bytes" where
  "deposit_wire bp amount = 1 # le_bytes 4 (of_nat (length bp) :: u32) @ bp @ le_bytes 8 amount"

lemma parse_deposit_wire:
  assumes "length bp < 2 ^ 31"
  shows "parse_deposit_wire (deposit_wire bp amount) = Wire bp amount"
proof -
  let ?l = "of_nat (length bp) :: u32"
  have u: "unat ?l = length bp" "unat (5 + ?l) = 5 + length bp" "unat (5 + ?l + 8) = 13 + length bp"
    "unat (of_nat (13 + length bp) :: u32) = 13 + length bp"
    using assms by (simp_all add: unat_of_nat unat_word_ariths)
  have "drop (5 + length bp) (deposit_wire bp amount) = le_bytes 8 amount"
    by (simp add: deposit_wire_def drop_Cons')
  then show ?thesis
    using u by (simp add: parse_deposit_wire_def deposit_wire_def Let_def word_le_nat_alt
        of_le_bytes_le_bytes)
qed

text \<open>
  C14. A deposit mints value. The amount of \<open>deposit_public\<close> is read from the wire next to the range proof,
  and nothing compares it with the value inside the commitment: whoever pays a, for a commitment to any
  v with an honest range proof, then withdraws v from the pool, and withdraws it again under
  another nullifier. Every call is accepted; all the pool needs is the money.
\<close>
theorem deposit_mints_value:
  fixes c :: "('g::ab_group_add, 'k::comm_ring_1) curve" and v amount :: u64
  assumes "curve_laws c" and "sc_verifier cfg = RuntimeProofVerifier c C"
    and "w = compress c (smul c (scalar_from_u64 v) (basepoint c) + smul c b (generator_h c))"
    and "sc_verify_range_proof c bp [w] [] 64" and "length bp < 2 ^ 31"
    and "CommitmentIndex s w = None" and "length (Leaves s) < 1048576"
    and "n1 \<noteq> n2" and "\<not> NullifierUsed s n1" and "\<not> NullifierUsed s n2"
    and "length d = 32" and "sc_decode_account cfg d = Some dest"
    and "sc_transfer cfg who (sc_pool cfg) (ucast amount) KeepAlive (sc_ccy s) = Inr b0"
    and "sc_transfer cfg (sc_pool cfg) dest (ucast v) AllowDeath b0 = Inr b1"
    and "sc_transfer cfg (sc_pool cfg) dest (ucast v) AllowDeath b1 = Inr b2"
  shows "\<exists>p1 p2 s0 s1 s2.
    sc_apply cfg (Signed who, sc_call_deposit_public (le_bytes 32 w) (deposit_wire bp amount) hints) s = Inr s0 \<and>
    sc_apply cfg (Unsigned, sc_call_withdraw_private w n1 p1 d v) s0 = Inr s1 \<and>
    sc_apply cfg (Unsigned, sc_call_withdraw_private w n2 p2 d v) s1 = Inr s2 \<and>
    sc_ccy s0 = b0 \<and> sc_ccy s1 = b1 \<and> sc_ccy s2 = b2"
proof -
  have w: "decompress c w = Some (smul c (scalar_from_u64 v) (basepoint c) + smul c b (generator_h c))"
    by (simp add: assms(3) decompress_compress [OF assms(1)])
  have op: "sv_verify_opening_knowledge (sc_verifier cfg) v w (open_note c b bnd) bnd" for bnd
    using open_note_complete [OF assms(1) w] by (simp add: assms(2) RuntimeProofVerifier_def)
  have rp: "sv_verify_range_proof (sc_verifier cfg) bp [w] [] 64"
    using assms(4) by (simp add: assms(2) RuntimeProofVerifier_def)
  obtain s0 where s0: "sc_apply cfg (Signed who, sc_call_deposit_public (le_bytes 32 w) (deposit_wire bp amount) hints) s
      = Inr s0" "sc_ccy s0 = b0" "NullifierUsed s0 = NullifierUsed s" "CommitmentIndex s0 w \<noteq> None"
    using assms(6,7,13) rp
    by (simp add: sc_apply_def sc_dispatch_def sc_deposit_public_def parse_deposit_wire [OF assms(5)]
        of_le_bytes_le_bytes sc_currency_transfer_def sc_insert_commitment_def push_leaf_def
        sc_put_leaves_def sc_deposit_event_def Let_def)
  have "sc_apply cfg (Unsigned, sc_call_withdraw_private w n1 (open_note c b (withdraw_binding n1 w)) d v) s0 =
      Inr (sc_deposit_event (WithdrawCompleted n1 d v)
        (s0\<lparr>sc_ccy := b1, NullifierUsed := (NullifierUsed s0)(n1 := True)\<rparr>))"
    using assms(9,11,12,14) s0 op
    by (simp add: sc_apply_def sc_validate_defs ValidTransaction_def sc_dispatch_def
        sc_withdraw_private_def sc_currency_transfer_def)
  moreover have "\<exists>s2. sc_apply cfg (Unsigned, sc_call_withdraw_private w n2 (open_note c b (withdraw_binding n2 w)) d v)
      (sc_deposit_event (WithdrawCompleted n1 d v)
        (s0\<lparr>sc_ccy := b1, NullifierUsed := (NullifierUsed s0)(n1 := True)\<rparr>)) = Inr s2 \<and> sc_ccy s2 = b2"
    using assms(8,10,11,12,15) s0 op
    by (simp add: sc_apply_def sc_validate_defs ValidTransaction_def sc_dispatch_def
        sc_withdraw_private_def sc_currency_transfer_def sc_deposit_event_def)
  ultimately show ?thesis using s0(1,2) by (fastforce simp: sc_deposit_event_def)
qed

section \<open>A transfer multiplies its input\<close>

text \<open>The balance proof with nonce 0, for inputs and outputs that differ by \<open>b\<close> times H.\<close>

definition balance_proof :: "('g::ab_group_add, 'k::comm_ring_1) curve \<Rightarrow> 'k \<Rightarrow> bytes \<Rightarrow> bytes" where
  "balance_proof c b public_inputs =
     le_bytes 32 (compress c 0) @ le_bytes 32 (scalar_bytes c
       (balance_challenge c 0 (smul c b (generator_h c)) (verifier_blake2_256 c public_inputs) * b))"

lemma length_balance_proof [simp]: "length (balance_proof c b bs) = 64"
  by (simp add: balance_proof_def)

lemma balance_proof_complete:
  assumes c: "curve_laws c" and d: "decode_sc_public_inputs C bs = Some inputs"
    and ins: "those (map (decompress c) (input_commitments inputs)) = Some ins"
    and outs: "those (map (decompress c) (new_commitments inputs)) = Some outs"
    and sum: "sum_list ins = sum_list outs + smul c b (generator_h c)"
  shows "sc_verify_bytes c C (balance_proof c b bs) bs"
proof -
  let ?ch = "balance_challenge c 0 (smul c b (generator_h c)) (verifier_blake2_256 c bs)"
  have at: "h256_at (balance_proof c b bs) 0 = compress c 0"
    "h256_at (balance_proof c b bs) 32 = scalar_bytes c (?ch * b)"
    using h256_at_le_bytes [of "scalar_bytes c (?ch * b)" "[]"]
    by (simp_all add: balance_proof_def h256_at_le_bytes h256_at_skip)
  show ?thesis
    by (simp add: sc_verify_bytes_def d agg_points_plus agg_points_minus ins outs sum at
        decompress_compress [OF c] from_bytes_scalar_bytes [OF c] smul_mult [OF c] Let_def)
qed

definition value_note :: "('g::ab_group_add, 'k::comm_ring_1) curve \<Rightarrow> 'k \<Rightarrow> 'k \<Rightarrow> h256" where
  "value_note c v b = compress c (smul c v (basepoint c) + smul c b (generator_h c))"

lemma decompress_value_note:
  "curve_laws c \<Longrightarrow> decompress c (value_note c v b) = Some (smul c v (basepoint c) + smul c b (generator_h c))"
  by (simp add: value_note_def decompress_compress)

lemma those_replicate: "f x = Some y \<Longrightarrow> those (map f (replicate k x)) = Some (replicate k y)"
  by (induction k) simp_all

lemma sum_replicate_smul:
  assumes c: "curve_laws c"
  shows "sum_list (replicate k P) = smul c (of_nat k) P"
  by (induction k) (simp_all add: smul_laws [OF c] algebra_simps)

definition multiply_inputs :: "h256 \<Rightarrow> nat \<Rightarrow> h256 \<Rightarrow> h256 list \<Rightarrow> h256 \<Rightarrow> h128 \<Rightarrow> sc_public_inputs" where
  "multiply_inputs anchor k w ns u tx =
     \<lparr>merkle_root = anchor, new_merkle_root = 0, input_commitments = replicate k w,
      input_indices = replicate k 0, input_paths = [], nullifiers = ns, new_commitments = [u],
      ppi_tx_id = tx\<rparr>"

text \<open>
  C15. A transfer multiplies a note. \<open>submit_proof\<close> neither ties a nullifier to the note it stands for nor
  requires the inputs of a transfer to differ: the owner of one note of value v lists it k times,
  under k fresh nullifiers, and balances them against one output of value k v, which the honest balance
  proof shows. The transfer is accepted and puts the output note into the tree, whatever k is as long
  as k v is an amount of 64 bits.
\<close>
theorem transfer_multiplies_note:
  fixes c :: "('g::ab_group_add, 'k::comm_ring_1) curve"
  assumes c: "curve_laws c" and C: "codec_laws C"
    and cfg: "sc_verifier cfg = RuntimeProofVerifier c C" "sc_codec cfg = C"
    and w: "w = value_note c (scalar_from_u64 v) b" and u: "u = value_note c (scalar_from_u64 v') b'"
    and v': "unat v' = k * unat v"
    and bs: "bs = encode_sc_public_inputs C (multiply_inputs (CurrentRoot s) k w ns u tx)"
    and rp: "sc_verify_range_proof c bp [u] bs 64" "length bp \<le> unat (MaxRangeProofSize cfg)"
    and sizes: "64 \<le> unat (MaxProofSize cfg)" "1 \<le> MaxOutputs cfg"
    and tree: "CommitmentIndex s w = Some i" "i < RootLeafCount s (CurrentRoot s)" "CommitmentIndex s u = None"
      "length (Leaves s) < 1048576"
    and ns: "length ns = k" "distinct ns" "\<forall>n\<in>set ns. \<not> NullifierUsed s n"
  shows "\<exists>p s'. sc_apply cfg (Unsigned, sc_call_submit_proof p bp bs hints) s = Inr s' \<and>
    CommitmentIndex s' u = Some (of_nat (length (Leaves s))) \<and> Leaves s' = Leaves s @ [sc_leaf_hash cfg u]"
proof -
  let ?I = "multiply_inputs (CurrentRoot s) k w ns u tx"
  define p where "p = balance_proof c (of_nat k * b - b') bs"
  have dec: "decode_sc_public_inputs C bs = Some ?I"
    using decode_sc_public_inputs_enc [OF C, of ?I "[]"] bs by simp
  have "sc_verify_bytes c C p bs"
    unfolding p_def
  proof (rule balance_proof_complete [OF c dec])
    show "those (map (decompress c) (input_commitments ?I)) =
        Some (replicate k (smul c (scalar_from_u64 v) (basepoint c) + smul c b (generator_h c)))"
      unfolding multiply_inputs_def sc_public_inputs.simps
      by (rule those_replicate) (simp add: w decompress_value_note [OF c])
    show "those (map (decompress c) (new_commitments ?I)) =
        Some [smul c (scalar_from_u64 v') (basepoint c) + smul c b' (generator_h c)]"
      by (simp add: multiply_inputs_def u decompress_value_note [OF c])
    have "(scalar_from_u64 v' :: 'k) = of_nat k * scalar_from_u64 v"
      by (simp add: scalar_from_u64_def v')
    then show "sum_list (replicate k (smul c (scalar_from_u64 v) (basepoint c) + smul c b (generator_h c))) =
        sum_list [smul c (scalar_from_u64 v') (basepoint c) + smul c b' (generator_h c)] +
        smul c (of_nat k * b - b') (generator_h c)"
      by (simp add: sum_replicate_smul [OF c] smul_laws [OF c] smul_left_commute [OF c, of "of_nat k"]
          algebra_simps)
  qed
  then have ok: "sv_verify (sc_verifier cfg) p bs" "sv_verify_range_proof (sc_verifier cfg) bp [u] bs 64"
    "length p = 64"
    using rp by (simp_all add: cfg RuntimeProofVerifier_def p_def)
  have fresh: "\<not> list_ex (NullifierUsed s) ns" "list_all (\<lambda>n. \<not> NullifierUsed s n) ns"
    using ns(3) by (auto simp: list_ex_iff list_all_iff)
  have val: "sc_validate_unsigned cfg (sc_call_submit_proof p bp bs hints) s =
      ValidTransaction ''ProofSubmission'' [Tag128 tx, TagList ns] 64"
    using ok(3) rp(2) sizes(1) ns fresh
    by (simp add: sc_validate_defs validate_submit_proof_def cfg(2) dec) (simp add: multiply_inputs_def)
  have known: "list_all (input_known cfg ?I s) (enumerate 0 (replicate k w))"
    using tree(1,2) by (auto simp: list_all_iff input_known_def multiply_inputs_def in_set_enumerate_eq)
  have "submit_proof cfg Unsigned p bp bs hints s =
      (let (leaves, index) = push_leaf cfg u (Leaves s, CommitmentIndex s);
           s = s\<lparr>NullifierUsed := fold (\<lambda>n used. used(n := True)) ns (NullifierUsed s), CommitmentIndex := index\<rparr>;
           computed_root = sc_compute_merkle_root cfg leaves
       in Inr (sc_deposit_event (ProofAccepted tx computed_root [u] hints) (sc_put_leaves leaves computed_root s)))"
    using ok rp(2) sizes known fresh tree
    unfolding submit_proof_def cfg(2) dec
    by (simp add: multiply_inputs_def push_leaf_def Let_def)
  then show ?thesis
    using val
    by (intro exI [of _ p])
      (auto simp: sc_apply_def ValidTransaction_def sc_dispatch_def push_leaf_def sc_put_leaves_def
        sc_deposit_event_def Let_def)
qed

text \<open>
  C16. A note buys above its value. Nothing bounds the value inside the change commitment of
  \<open>purchase_rwa\<close>: for a note of any value v, also 0, and an asset of any price, the change is a
  commitment to v minus the price as a scalar, the opening the buyer proves is that of the difference,
  and the purchase is dispatched at the full price.
\<close>
theorem note_buys_above_its_value:
  fixes c :: "('g::ab_group_add, 'k::comm_ring_1) curve"
  assumes c: "curve_laws c" and cfg: "sc_verifier cfg = RuntimeProofVerifier c C"
    and w: "w = value_note c (scalar_from_u64 v) b"
    and u: "u = value_note c (scalar_from_u64 v - scalar_from_u64 price) b'"
    and tree: "CommitmentIndex s w \<noteq> None" "CommitmentIndex s u = None" "length (Leaves s) < 1048576"
    and price: "RwaPrices s rwa_id = price" "price > 0" and n: "\<not> NullifierUsed s n"
  shows "\<exists>p s'. sc_apply cfg (Unsigned, sc_call_purchase_rwa w p n rwa_id tx oc (Some u)) s = Inr s' \<and>
    sc_sent s' = sc_sent s @ [ScRwaSend rwa_id n 0 price tx oc]"
proof -
  let ?e = "value_note c (scalar_from_u64 price) (b - b')"
  define p where "p = open_note c (b - b') (purchase_binding n rwa_id tx (Some u))"
  have sub: "pedersen_subtract c w u = Some ?e"
    by (simp add: pedersen_subtract_def w u decompress_value_note [OF c])
      (simp add: value_note_def smul_laws [OF c] algebra_simps)
  have op: "verify_opening_knowledge c price ?e p (purchase_binding n rwa_id tx (Some u))"
    unfolding p_def by (rule open_note_complete [OF c decompress_value_note [OF c]])
  have len: "length p = 64" by (simp add: p_def)
  have "\<exists>s'. sc_apply cfg (Unsigned, sc_call_purchase_rwa w p n rwa_id tx oc (Some u)) s = Inr s' \<and>
      sc_sent s' = sc_sent s @ [ScRwaSend rwa_id n 0 price tx oc]"
    using tree price n sub op len
    by (simp add: sc_apply_def sc_validate_defs validate_opening_def ValidTransaction_def
        sc_dispatch_def sc_purchase_rwa_def effective_commitment_def cfg RuntimeProofVerifier_def
        sc_insert_change_def sc_insert_commitment_def push_leaf_def sc_put_leaves_def sc_deposit_event_def
        sc_dispatch_send_def Let_def word_neq_0_conv)
  then show ?thesis by blast
qed

section \<open>Concrete instances\<close>

definition range_curve :: "(8 word, 8 word) curve" where
  "range_curve = toy_curve\<lparr>range_from_bytes := Some, verify_multiple_with_rng := (\<lambda>_ _ _ _ _ _ _. True)\<rparr>"

lemma range_curve_laws: "curve_laws range_curve"
proof -
  have eqs: "smul range_curve = smul toy_curve" "compress range_curve = compress toy_curve"
    "decompress range_curve = decompress toy_curve"
    "from_bytes_mod_order range_curve = from_bytes_mod_order toy_curve"
    "from_canonical_bytes range_curve = from_canonical_bytes toy_curve"
    "scalar_bytes range_curve = scalar_bytes toy_curve" "group_order range_curve = group_order toy_curve"
    "blake2b512 range_curve = blake2b512 toy_curve"
    by (simp_all add: range_curve_def)
  show ?thesis using toy_curve_laws unfolding curve_laws_def eqs .
qed

text \<open>A payment of 5 for a commitment to 40 takes 80 out of a pool of 105.\<close>

theorem deposit_mints_value_witness:
  "\<exists>p1 p2 s0 s1 s2.
    sc_apply (demo_sc\<lparr>sc_verifier := RuntimeProofVerifier range_curve le_codec\<rparr>) (Signed 1, sc_call_deposit_public
      (le_bytes 32 (compress range_curve (smul range_curve (scalar_from_u64 40) (basepoint range_curve) +
        smul range_curve 4 (generator_h range_curve)))) (deposit_wire [] 5) []) (sc_genesis (\<lambda>_. 100)) = Inr s0 \<and>
    sc_apply (demo_sc\<lparr>sc_verifier := RuntimeProofVerifier range_curve le_codec\<rparr>) (Unsigned, sc_call_withdraw_private
      (compress range_curve (smul range_curve (scalar_from_u64 40) (basepoint range_curve) +
        smul range_curve 4 (generator_h range_curve))) 1 p1 (replicate 32 0) 40) s0 = Inr s1 \<and>
    sc_apply (demo_sc\<lparr>sc_verifier := RuntimeProofVerifier range_curve le_codec\<rparr>) (Unsigned, sc_call_withdraw_private
      (compress range_curve (smul range_curve (scalar_from_u64 40) (basepoint range_curve) +
        smul range_curve 4 (generator_h range_curve))) 2 p2 (replicate 32 0) 40) s1 = Inr s2 \<and>
    sc_ccy s0 = (\<lambda>_. 100)(1 := 95, 0 := 105) \<and> sc_ccy s1 = (\<lambda>_. 100)(1 := 95, 0 := 65, 7 := 140) \<and>
    sc_ccy s2 = (\<lambda>_. 100)(1 := 95, 0 := 25, 7 := 180)"
  by (rule deposit_mints_value [OF range_curve_laws, where C = le_codec and dest = 7])
    (simp_all add: demo_sc_def sc_genesis_def demo_sc_transfer_def fun_eq_iff sc_verify_range_proof_def
      range_curve_def Let_def)

text \<open>The pallet right after the insertion of one note.\<close>

definition one_note :: "h256 \<Rightarrow> (nat \<Rightarrow> nat) sc_state" where
  "one_note w = sc_put_leaves [sc_leaf_hash demo_sc w] (sc_compute_merkle_root demo_sc [sc_leaf_hash demo_sc w])
     ((sc_genesis (\<lambda>_. 100))\<lparr>CommitmentIndex := [w \<mapsto> 0], RwaPrices := (\<lambda>_. 9)\<rparr>)"

lemma one_note_simps:
  "CommitmentIndex (one_note w) = [w \<mapsto> 0]" "RootLeafCount (one_note w) (CurrentRoot (one_note w)) = 1"
  "length (Leaves (one_note w)) = 1" "\<not> NullifierUsed (one_note w) n" "RwaPrices (one_note w) r = 9"
  "sc_sent (one_note w) = []"
  by (simp_all add: one_note_def sc_put_leaves_def sc_genesis_def Let_def)

lemma range_curve_notes:
  "value_note range_curve v b = ucast (v + b * 64)"
  by (simp add: value_note_def range_curve_def generator_h_def toy_curve_def)

lemma range_curve_range: "sc_verify_range_proof range_curve bp [u] bs 64"
  by (simp add: sc_verify_range_proof_def range_curve_def Let_def)

text \<open>Three times 20 make 60; a note of 0 buys for 9.\<close>

theorem transfer_multiplies_note_witness:
  "\<exists>p s'. sc_apply (demo_sc\<lparr>sc_verifier := RuntimeProofVerifier range_curve le_codec\<rparr>) (Unsigned, sc_call_submit_proof p []
      (encode_sc_public_inputs le_codec (multiply_inputs (CurrentRoot (one_note 20)) 3 20 [1, 2, 3] 60 8)) [])
      (one_note 20) = Inr s' \<and>
    CommitmentIndex s' 60 = Some (of_nat (length (Leaves (one_note 20)))) \<and>
    Leaves s' = Leaves (one_note 20) @
      [sc_leaf_hash (demo_sc\<lparr>sc_verifier := RuntimeProofVerifier range_curve le_codec\<rparr>) 60]"
  by (rule transfer_multiplies_note [OF range_curve_laws le_codec_laws, where v = 20 and v' = 60 and b = 0 and b' = 0
        and k = 3 and ns = "[1, 2, 3]" and w = 20])
    (simp_all add: one_note_simps range_curve_notes range_curve_range scalar_from_u64_def)

theorem note_buys_above_its_value_witness:
  "\<exists>p s'. sc_apply (demo_sc\<lparr>sc_verifier := RuntimeProofVerifier range_curve le_codec\<rparr>)
      (Unsigned, sc_call_purchase_rwa 0 p 1 2 3 4 (Some (value_note range_curve (- 9) 0))) (one_note 0) = Inr s' \<and>
    sc_sent s' = sc_sent (one_note 0) @ [ScRwaSend 2 1 0 9 3 4]"
  by (rule note_buys_above_its_value [OF range_curve_laws, where C = le_codec and v = 0 and b = 0 and b' = 0])
    (simp_all add: one_note_simps range_curve_notes scalar_from_u64_def)

end
