(* ===== verification/OneOfManySound.thy ===== *)
theory OneOfManySound
  imports OneOfManyComplete CoinProofs
begin

text \<open>
  Special soundness of the one-of-many proof of theory OneOfMany. A prover that is rewound \<open>m\<close> times and
  answers \<open>m + 1\<close> different challenges for one first message over \<open>2 ^ m\<close> coins has said which coin it
  spends: the extractor below computes its index and blinding from the answers - or a relation
  between the generators G and H, which the two-generator commitments rule out.
\<close>

section \<open>Interpolation\<close>

text \<open>Weights of the points \<open>xs\<close> that pick the leading coefficient of a polynomial.\<close>

fun weights :: "'k::field list \<Rightarrow> 'k list" where
  "weights [] = []"
| "weights (y # xs) = (if xs = [] then [1] else
     let ls = map2 (\<lambda>l x. l / (x - y)) (weights xs) xs in (- sum_list ls) # ls)"

lemma length_weights [simp]: "length (weights xs) = length xs"
  by (induction xs rule: weights.induct) (auto simp: Let_def)

lemma weights_moment:
  fixes xs :: "'k::field list"
  assumes "distinct xs" and "t < length xs"
  shows "(\<Sum>(l, x)\<leftarrow>zip (weights xs) xs. l * x ^ t) = of_bool (Suc t = length xs)"
  using assms
proof (induction xs arbitrary: t rule: weights.induct)
  case (2 y xs)
  show ?case
  proof (cases "xs = []")
    case True
    then show ?thesis using 2(3) by simp
  next
    case False
    define zs where "zs = zip (weights xs) xs"
    have ne: "x \<noteq> y" if "(l, x) \<in> set zs" for l x
      using that 2(2) by (auto simp: zs_def dest: set_zip_rightD)
    have zip: "zip (map2 (\<lambda>l x. l / (x - y)) (weights xs) xs) xs = map (\<lambda>(l, x). (l / (x - y), x)) zs"
      by (auto simp: zs_def intro: nth_equalityI)
    have "(\<Sum>(l, x)\<leftarrow>zip (weights (y # xs)) (y # xs). l * x ^ t) =
        - (\<Sum>(l, x)\<leftarrow>zs. l / (x - y)) * y ^ t + (\<Sum>(l, x)\<leftarrow>zs. l / (x - y) * x ^ t)"
      using False zip by (simp add: Let_def o_def case_prod_unfold zs_def)
    also have "\<dots> = (\<Sum>(l, x)\<leftarrow>zs. l / (x - y) * (x ^ t - y ^ t))"
      by (induction zs) (auto simp: algebra_simps)
    also have "\<dots> = (\<Sum>(l, x)\<leftarrow>zs. l * (\<Sum>s<t. y ^ (t - Suc s) * x ^ s))"
    proof (rule arg_cong [where f = sum_list], rule map_cong [OF refl])
      fix z assume "z \<in> set zs"
      then have "snd z \<noteq> y" using ne [of "fst z" "snd z"] by simp
      then show "(case z of (l, x) \<Rightarrow> l / (x - y) * (x ^ t - y ^ t)) =
          (case z of (l, x) \<Rightarrow> l * (\<Sum>s<t. y ^ (t - Suc s) * x ^ s))"
        by (cases z) (simp add: power_diff_sumr2)
    qed
    also have "\<dots> = (\<Sum>s<t. y ^ (t - Suc s) * (\<Sum>(l, x)\<leftarrow>zs. l * x ^ s))"
      by (induction zs) (auto simp: sum_distrib_left sum.distrib algebra_simps)
    also have "\<dots> = (\<Sum>s<t. y ^ (t - Suc s) * of_bool (Suc s = length xs))"
      using 2(1) [OF False] 2(2,3) by (auto simp: zs_def intro!: sum.cong)
    also have "\<dots> = (\<Sum>s<t. if s = length xs - 1 then y ^ (t - Suc s) else 0)"
      by (rule sum.cong [OF refl]) (use False in \<open>cases xs; auto\<close>)
    also have "\<dots> = (if length xs - 1 < t then y ^ (t - Suc (length xs - 1)) else 0)"
      by (subst sum.delta) auto
    also have "\<dots> = of_bool (Suc t = length (y # xs))"
      using False 2(3) by (cases xs) (auto simp: less_Suc_eq)
    finally show ?thesis .
  qed
qed simp

text \<open>The same with the points by index, and applied to a polynomial with coefficients in the group.\<close>

lemma weights_sum:
  fixes xs :: "'k::field list"
  assumes "distinct xs" and "length xs = Suc m" and "t \<le> m"
  shows "(\<Sum>k\<le>m. weights xs ! k * (xs ! k) ^ t) = of_bool (t = m)"
proof -
  have "zip (weights xs) xs = map (\<lambda>k. (weights xs ! k, xs ! k)) [0..<Suc m]"
    using assms(2) by (auto intro!: nth_equalityI simp del: upt_Suc)
  then have "(\<Sum>(l, x)\<leftarrow>zip (weights xs) xs. l * x ^ t) = (\<Sum>k<Suc m. weights xs ! k * (xs ! k) ^ t)"
    by (simp add: o_def interv_sum_list_conv_sum_set_nat atLeast0LessThan del: upt_Suc sum.lessThan_Suc)
  then show ?thesis
    using weights_moment [OF assms(1), of t] assms(2,3) by (simp add: lessThan_Suc_atMost del: sum.lessThan_Suc)
qed

lemma leading_point:
  fixes c :: "('g::ab_group_add, 'k::field) curve" and xs :: "'k list"
  assumes c: "curve_laws c" and xs: "distinct xs" "length xs = Suc m"
    and Z: "\<And>k. k \<le> m \<Longrightarrow> Z k = (\<Sum>t\<le>m. smul c ((xs ! k) ^ t) (E t))"
  shows "(\<Sum>k\<le>m. smul c (weights xs ! k) (Z k)) = E m"
proof -
  have "(\<Sum>k\<le>m. smul c (weights xs ! k) (Z k)) =
      (\<Sum>k\<le>m. \<Sum>t\<le>m. smul c (weights xs ! k * (xs ! k) ^ t) (E t))"
    by (intro sum.cong refl) (simp add: Z smul_sum_right [OF c] smul_mult [OF c])
  also have "\<dots> = (\<Sum>t\<le>m. \<Sum>k\<le>m. smul c (weights xs ! k * (xs ! k) ^ t) (E t))"
    by (rule sum.swap)
  also have "\<dots> = (\<Sum>t\<le>m. smul c (of_bool (t = m)) (E t))"
    by (intro sum.cong refl) (simp add: smul_sum_left [OF c, symmetric] weights_sum [OF xs])
  also have "\<dots> = (\<Sum>t\<le>m. if t = m then E t else 0)"
    by (intro sum.cong refl) (simp add: smul_laws [OF c])
  finally show ?thesis by simp
qed

section \<open>The extractor\<close>

text \<open>What a proof answers, with its challenge: the scalars after the first message of \<open>1 + 128 m\<close> bytes.\<close>

record 'k answer =
  ans_x :: 'k
  ans_f :: "'k list"
  ans_za :: "'k list"
  ans_zb :: "'k list"
  ans_zd :: 'k

definition answer_of ::
  "('g::ab_group_add, 'k::comm_ring_1) curve \<Rightarrow> bytes \<Rightarrow> h256 list \<Rightarrow> h256 \<Rightarrow> u64 \<Rightarrow> h256 \<Rightarrow> bytes \<Rightarrow> 'k answer" where
  "answer_of c prf coins serial price change ctx =
     (let m = trailing_zeros (length coins)
      in \<lparr>ans_x = fs_challenge c (group_hash c coins) serial price change ctx
            (the (read_points c prf 1 m)) (the (read_points c prf (1 + 32 * m) m))
            (the (read_points c prf (1 + 64 * m) m)) (the (read_points c prf (1 + 96 * m) m)),
          ans_f = the (read_scalars c prf (1 + 128 * m) m),
          ans_za = the (read_scalars c prf (1 + 160 * m) m),
          ans_zb = the (read_scalars c prf (1 + 192 * m) m),
          ans_zd = the (from_canonical_bytes c (h256_at prf (1 + 224 * m)))\<rparr>)"

text \<open>
  The first two answers open the commitment of every bit to \<open>extract_bit\<close> and its offset
  commitment to \<open>extract_offset\<close>, each with its blinding.
\<close>

definition slope :: "'k::field answer list \<Rightarrow> ('k answer \<Rightarrow> 'k) \<Rightarrow> 'k" where
  "slope as z = (z (as ! 0) - z (as ! 1)) / (ans_x (as ! 0) - ans_x (as ! 1))"

definition offset0 :: "'k::field answer list \<Rightarrow> ('k answer \<Rightarrow> 'k) \<Rightarrow> 'k" where
  "offset0 as z = z (as ! 0) - slope as z * ans_x (as ! 0)"

definition extract_bit :: "'k::field answer list \<Rightarrow> nat \<Rightarrow> 'k" where
  "extract_bit as j = slope as (\<lambda>A. ans_f A ! j)"

definition extract_index :: "nat \<Rightarrow> 'k::field answer list \<Rightarrow> nat" where
  "extract_index m as = horner_sum of_bool 2 (map (\<lambda>j. extract_bit as j = 1) [0..<m])"

definition extract_blinding :: "'k::field answer list \<Rightarrow> 'k" where
  "extract_blinding as = (\<Sum>(w, z)\<leftarrow>zip (weights (map ans_x as)) (map ans_zd as). w * z)"

text \<open>
  Relations \<open>a G + b H = 0\<close> that accepted answers imply: a bit is 0 or 1, and every response lies
  on the line through the first two.
\<close>

definition bit_relation :: "'k::field answer list \<Rightarrow> nat \<Rightarrow> 'k \<times> 'k" where
  "bit_relation as j =
     (let l = extract_bit as j;
          u = (ans_x (as ! 0) - ans_x (as ! 1)) * (1 - l)
      in (u * l, u * slope as (\<lambda>A. ans_za A ! j) - (ans_zb (as ! 0) ! j - ans_zb (as ! 1) ! j)))"

definition answer_relation :: "'k::field answer list \<Rightarrow> nat \<Rightarrow> 'k answer \<Rightarrow> 'k \<times> 'k" where
  "answer_relation as j A =
     (extract_bit as j * ans_x A + offset0 as (\<lambda>A. ans_f A ! j) - ans_f A ! j,
      slope as (\<lambda>A. ans_za A ! j) * ans_x A + offset0 as (\<lambda>A. ans_za A ! j) - ans_za A ! j)"

definition extract_relations :: "nat \<Rightarrow> 'k::field answer list \<Rightarrow> ('k \<times> 'k) list" where
  "extract_relations m as = concat (map (\<lambda>j. bit_relation as j # map (answer_relation as j) as) [0..<m])"

section \<open>What accepted answers determine\<close>

text \<open>The two lines through two answers to a linear equation.\<close>

lemma line_open:
  fixes c :: "('g::ab_group_add, 'k::field) curve"
  assumes c: "curve_laws c" and x: "x0 \<noteq> x1"
    and "smul c x0 P + Q = smul c f0 G + smul c z0 H" and "smul c x1 P + Q = smul c f1 G + smul c z1 H"
  defines "l \<equiv> (f0 - f1) / (x0 - x1)" and "r \<equiv> (z0 - z1) / (x0 - x1)"
  shows "P = smul c l G + smul c r H"
    and "Q = smul c (f0 - l * x0) G + smul c (z0 - r * x0) H"
proof -
  let ?u = "inverse (x0 - x1)"
  have "smul c (x0 - x1) P = (smul c x0 P + Q) - (smul c x1 P + Q)"
    by (simp add: smul_laws [OF c])
  also have "\<dots> = smul c (f0 - f1) G + smul c (z0 - z1) H"
    by (simp add: assms(3,4) smul_laws [OF c])
  finally have "smul c (?u * (x0 - x1)) P = smul c (?u * (f0 - f1)) G + smul c (?u * (z0 - z1)) H"
    by (simp only: smul_laws [OF c])
  then show P: "P = smul c l G + smul c r H"
    using x by (simp add: l_def r_def smul_one [OF c] divide_inverse mult.commute)
  have "Q = smul c f0 G + smul c z0 H - smul c x0 P"
    using assms(3) by (simp add: algebra_simps)
  then show "Q = smul c (f0 - l * x0) G + smul c (z0 - r * x0) H"
    unfolding P by (simp add: smul_laws [OF c] smul_left_commute [OF c] algebra_simps)
qed

lemma check_bitsD:
  assumes "check_bits c m x (cl, ca, cb) (fj, zaj, zbj)" and "j < m"
  shows "smul c x (cl ! j) + ca ! j = smul c (fj ! j) (basepoint c) + smul c (zaj ! j) (generator_h c)"
    and "smul c (x - fj ! j) (cl ! j) + cb ! j = smul c (zbj ! j) (generator_h c)"
  using assms by (auto simp: check_bits_def list_all_iff)

definition answers_bits ::
  "('g::ab_group_add, 'k::comm_ring_1) curve \<Rightarrow> nat \<Rightarrow> 'g list \<times> 'g list \<times> 'g list \<Rightarrow> 'k answer list \<Rightarrow> bool" where
  "answers_bits c m pts as \<longleftrightarrow> (\<forall>A\<in>set as. check_bits c m (ans_x A) pts (ans_f A, ans_za A, ans_zb A))"

lemma bits_open:
  fixes c :: "('g::ab_group_add, 'k::field) curve"
  assumes c: "curve_laws c" and as: "1 < length as" "ans_x (as ! 0) \<noteq> ans_x (as ! 1)"
    and acc: "answers_bits c m (cl, ca, cb) as" and j: "j < m"
  shows "cl ! j = smul c (extract_bit as j) (basepoint c) + smul c (slope as (\<lambda>A. ans_za A ! j)) (generator_h c)"
    and "ca ! j = smul c (offset0 as (\<lambda>A. ans_f A ! j)) (basepoint c) +
           smul c (offset0 as (\<lambda>A. ans_za A ! j)) (generator_h c)"
proof -
  have "check_bits c m (ans_x (as ! k)) (cl, ca, cb) (ans_f (as ! k), ans_za (as ! k), ans_zb (as ! k))"
    if "k \<le> 1" for k
    using acc as(1) that by (auto simp: answers_bits_def)
  from check_bitsD(1) [OF this j, of 0] check_bitsD(1) [OF this j, of 1]
  show "cl ! j = smul c (extract_bit as j) (basepoint c) + smul c (slope as (\<lambda>A. ans_za A ! j)) (generator_h c)"
    and "ca ! j = smul c (offset0 as (\<lambda>A. ans_f A ! j)) (basepoint c) +
           smul c (offset0 as (\<lambda>A. ans_za A ! j)) (generator_h c)"
    using line_open [OF c as(2)] unfolding extract_bit_def slope_def offset0_def by blast+
qed

lemma relations_hold:
  fixes c :: "('g::ab_group_add, 'k::field) curve"
  assumes c: "curve_laws c" and as: "1 < length as" "ans_x (as ! 0) \<noteq> ans_x (as ! 1)"
    and acc: "answers_bits c m (cl, ca, cb) as" and ab: "(a, b) \<in> set (extract_relations m as)"
  shows "smul c a (basepoint c) + smul c b (generator_h c) = 0"
proof -
  let ?G = "basepoint c" and ?H = "generator_h c"
  from ab obtain j where j: "j < m"
    and or: "(a, b) = bit_relation as j \<or> (\<exists>A\<in>set as. (a, b) = answer_relation as j A)"
    by (fastforce simp: extract_relations_def)
  note P = bits_open [OF c as acc j]
  have acc0: "check_bits c m (ans_x A) (cl, ca, cb) (ans_f A, ans_za A, ans_zb A)" if "A \<in> set as" for A
    using acc that by (simp add: answers_bits_def)
  show ?thesis
    using or
  proof (elim disjE bexE)
    fix A assume A: "A \<in> set as" and eq: "(a, b) = answer_relation as j A"
    have ab: "a = extract_bit as j * ans_x A + offset0 as (\<lambda>A. ans_f A ! j) - ans_f A ! j"
      "b = slope as (\<lambda>A. ans_za A ! j) * ans_x A + offset0 as (\<lambda>A. ans_za A ! j) - ans_za A ! j"
      using eq by (simp_all add: answer_relation_def)
    have "smul c a ?G + smul c b ?H =
        (smul c (ans_x A) (cl ! j) + ca ! j) - (smul c (ans_f A ! j) ?G + smul c (ans_za A ! j) ?H)"
      unfolding P ab by (simp add: smul_laws [OF c] smul_left_commute [OF c] algebra_simps)
    then show ?thesis by (simp add: check_bitsD(1) [OF acc0 [OF A] j])
  next
    assume eq: "(a, b) = bit_relation as j"
    have "as ! 0 \<in> set as" "as ! 1 \<in> set as" using as(1) by (auto intro: nth_mem)
    note zb = check_bitsD(2) [OF acc0 [OF this(1)] j] check_bitsD(2) [OF acc0 [OF this(2)] j]
    define u where "u = (ans_x (as ! 0) - ans_x (as ! 1)) * (1 - extract_bit as j)"
    have ab: "a = u * extract_bit as j"
      "b = u * slope as (\<lambda>A. ans_za A ! j) - (ans_zb (as ! 0) ! j - ans_zb (as ! 1) ! j)"
      using eq by (simp_all add: bit_relation_def u_def Let_def)
    have "extract_bit as j * (ans_x (as ! 0) - ans_x (as ! 1)) = ans_f (as ! 0) ! j - ans_f (as ! 1) ! j"
      using as(2) by (simp add: extract_bit_def slope_def)
    then have u: "u = (ans_x (as ! 0) - ans_f (as ! 0) ! j) - (ans_x (as ! 1) - ans_f (as ! 1) ! j)"
      by (simp add: u_def algebra_simps)
    have "smul c u (cl ! j) = smul c (ans_zb (as ! 0) ! j - ans_zb (as ! 1) ! j) ?H"
    proof -
      have "smul c u (cl ! j) = smul c (ans_x (as ! 0) - ans_f (as ! 0) ! j) (cl ! j) -
          smul c (ans_x (as ! 1) - ans_f (as ! 1) ! j) (cl ! j)"
        unfolding u by (rule smul_diff_left [OF c])
      also have "\<dots> = (smul c (ans_zb (as ! 0) ! j) ?H - cb ! j) - (smul c (ans_zb (as ! 1) ! j) ?H - cb ! j)"
        by (simp only: zb [symmetric] add_diff_cancel_right')
      finally show ?thesis by (simp add: smul_diff_left [OF c])
    qed
    then show ?thesis
      unfolding P ab by (simp add: smul_laws [OF c] algebra_simps)
  qed
qed

text \<open>Without a nontrivial relation the responses are those of the honest prover for one index.\<close>

lemma responses_of_bits:
  fixes as :: "'k::field answer list"
  assumes triv: "\<And>a b. (a, b) \<in> set (extract_relations m as) \<Longrightarrow> a = 0"
    and x: "ans_x (as ! 0) \<noteq> ans_x (as ! 1)" and j: "j < m"
  shows "extract_bit as j = of_bool (extract_bit as j = 1)"
    and "A \<in> set as \<Longrightarrow> ans_f A ! j = extract_bit as j * ans_x A + offset0 as (\<lambda>A. ans_f A ! j)"
proof -
  have "bit_relation as j \<in> set (extract_relations m as)"
    using j by (auto simp: extract_relations_def)
  then have "fst (bit_relation as j) = 0" using triv by (metis prod.collapse)
  then show "extract_bit as j = of_bool (extract_bit as j = 1)"
    using x by (auto simp: bit_relation_def Let_def)
  assume "A \<in> set as"
  then have "answer_relation as j A \<in> set (extract_relations m as)"
    using j by (auto simp: extract_relations_def)
  then have "fst (answer_relation as j A) = 0" using triv by (metis prod.collapse)
  then show "ans_f A ! j = extract_bit as j * ans_x A + offset0 as (\<lambda>A. ans_f A ! j)"
    by (simp add: answer_relation_def)
qed

lemma extract_index_bits:
  "extract_index m as < 2 ^ m"
  "j < m \<Longrightarrow> drop_bit j (extract_index m as) AND 1 = of_bool (extract_bit as j = 1)"
proof -
  show "extract_index m as < 2 ^ m"
    using horner_sum_of_bool_2_less [of "map (\<lambda>j. extract_bit as j = 1) [0..<m]"]
    by (simp add: extract_index_def)
  show "j < m \<Longrightarrow> drop_bit j (extract_index m as) AND 1 = of_bool (extract_bit as j = 1)"
    unfolding drop_bit_and_1 by (simp add: extract_index_def bit_horner_sum_bit_iff)
qed

text \<open>The membership equation as a polynomial in the challenge, with the spent coin leading.\<close>

lemma membership_polynomial:
  fixes x :: "'k::comm_ring_1" and d :: "'g::ab_group_add list"
  assumes c: "curve_laws c" and n: "n = 2 ^ m" and l: "l < n" and d: "length d = n" and gk: "length gk = m"
    and bits: "bits = map (\<lambda>j. drop_bit j l AND 1) [0..<m]"
    and fj: "\<And>j. j < m \<Longrightarrow> fj ! j = of_nat (bits ! j) * x + aj ! j"
    and mem: "check_membership c n m x fj d gk zd"
  defines "E \<equiv> \<lambda>t. if t = m then d ! l else (\<Sum>i<n. smul c (poly_coeffs m bits aj i ! t) (d ! i)) - gk ! t"
  shows "smul c zd (generator_h c) = (\<Sum>t\<le>m. smul c (x ^ t) (E t))"
proof -
  define p where "p i k = poly_coeffs m bits aj i ! k" for i k
  have ex: "exponents n m x fj ! i = (\<Sum>k<m. p i k * x ^ k) + of_bool (i = l) * x ^ m" if "i < n" for i
    unfolding p_def by (rule exponents_poly [OF n l that bits fj])
  have "smul c zd (generator_h c) =
      (\<Sum>i<n. smul c (exponents n m x fj ! i) (d ! i)) + (\<Sum>k<m. smul c (- (x ^ k)) (gk ! k))"
    using mem exponents_spec [OF n, of x fj] d gk
    by (simp add: check_membership_def Let_def multiscalar_mul_append multiscalar_mul_sum [of _ n] powers_eq
        multiscalar_mul_sum [of _ m])
  also have "(\<Sum>i<n. smul c (exponents n m x fj ! i) (d ! i)) =
      (\<Sum>i<n. \<Sum>k<m. smul c (p i k * x ^ k) (d ! i)) + smul c (x ^ m) (d ! l)"
    by (rule exponents_sum [OF c l ex])
  also have "(\<Sum>i<n. \<Sum>k<m. smul c (p i k * x ^ k) (d ! i)) = (\<Sum>k<m. smul c (x ^ k) (\<Sum>i<n. smul c (p i k) (d ! i)))"
    by (subst sum.swap) (simp add: smul_sum_right [OF c] smul_mult [OF c, symmetric] mult.commute)
  finally show ?thesis
    by (simp add: E_def p_def lessThan_Suc_atMost [symmetric] smul_laws [OF c] sum_subtractf sum_negf)
qed

lemma extract_blinding_sum:
  assumes "length as = Suc m"
  shows "extract_blinding as = (\<Sum>k\<le>m. weights (map ans_x as) ! k * ans_zd (as ! k))"
proof -
  have "zip (weights (map ans_x as)) (map ans_zd as) =
      map (\<lambda>k. (weights (map ans_x as) ! k, ans_zd (as ! k))) [0..<Suc m]"
    using assms by (auto intro!: nth_equalityI simp del: upt_Suc)
  then show ?thesis
    by (simp add: extract_blinding_def o_def interv_sum_list_conv_sum_set_nat atLeast0LessThan
        lessThan_Suc_atMost del: upt_Suc sum.lessThan_Suc)
qed

lemma coin_extracted:
  fixes c :: "('g::ab_group_add, 'k::field) curve" and as :: "'k answer list"
  assumes c: "curve_laws c" and n: "n = 2 ^ m" and m: "0 < m" and d: "length d = n" and gk: "length gk = m"
    and as: "length as = Suc m" "distinct (map ans_x as)"
    and triv: "\<And>a b. (a, b) \<in> set (extract_relations m as) \<Longrightarrow> a = 0"
    and mem: "\<And>A. A \<in> set as \<Longrightarrow> check_membership c n m (ans_x A) (ans_f A) d gk (ans_zd A)"
  shows "d ! extract_index m as = smul c (extract_blinding as) (generator_h c)"
proof -
  define l where "l = extract_index m as"
  define bits where "bits = map (\<lambda>j. drop_bit j l AND 1) [0..<m]"
  define aj where "aj = map (\<lambda>j. offset0 as (\<lambda>A. ans_f A ! j)) [0..<m]"
  define E where "E = (\<lambda>t. if t = m then d ! l else
    (\<Sum>i<n. smul c (poly_coeffs m bits aj i ! t) (d ! i)) - gk ! t)"
  have l: "l < n" using extract_index_bits(1) n by (simp add: l_def)
  have x: "ans_x (as ! 0) \<noteq> ans_x (as ! 1)"
    using as m nth_eq_iff_index_eq [OF as(2), of 0 1] by simp
  have Z: "smul c (ans_zd A) (generator_h c) = (\<Sum>t\<le>m. smul c (ans_x A ^ t) (E t))" if A: "A \<in> set as" for A
  proof -
    have "ans_f A ! j = of_nat (bits ! j) * ans_x A + aj ! j" if j: "j < m" for j
      using responses_of_bits(2) [OF triv x j A] responses_of_bits(1) [OF triv x j]
        extract_index_bits(2) [OF j, of as] j
      by (simp add: bits_def aj_def l_def)
    then show ?thesis
      unfolding E_def by (rule membership_polynomial [OF c n l d gk bits_def _ mem [OF A]])
  qed
  have "E m = (\<Sum>k\<le>m. smul c (weights (map ans_x as) ! k) (smul c (ans_zd (as ! k)) (generator_h c)))"
    by (rule leading_point [OF c as(2), symmetric]) (use as(1) Z in simp_all)
  then show ?thesis
    by (simp add: E_def l_def extract_blinding_sum [OF as(1)] smul_sum_left [OF c] smul_mult [OF c])
qed

section \<open>From the bytes of the proofs\<close>

lemma read_points_take:
  assumes "off + 32 * m \<le> k"
  shows "read_points c (take k p) off m = read_points c p off m"
proof -
  have "h256_at (take k p) (off + 32 * i) = h256_at p (off + 32 * i)" if "i < m" for i
    using assms that by (simp add: h256_at_def drop_take min_absorb1)
  then show ?thesis
    unfolding read_points_def by (intro arg_cong [where f = those] map_cong refl) simp
qed

lemma rewound_checks [simp]:
  "check_bits (rewound T c) = check_bits c" "check_membership (rewound T c) = check_membership c"
  "d_set (rewound T c) = d_set c" "read_points (rewound T c) = read_points c"
proof -
  have "from_bytes_mod_order (rewound T c) = from_bytes_mod_order c" by (simp add: rewound_def)
  then show "check_bits (rewound T c) = check_bits c" "check_membership (rewound T c) = check_membership c"
    "d_set (rewound T c) = d_set c" "read_points (rewound T c) = read_points c"
    by (intro ext; simp add: check_bits_def check_membership_def vartime_multiscalar_mul_def d_set_def
        read_points_def cong: option.case_cong)+
qed

lemma verify_answer:
  assumes acc: "one_of_many_verify (rewound T c) p coins serial price change ctx"
    and m: "m = trailing_zeros (length coins)" and first: "take (1 + 128 * m) p = first"
    and A: "A = answer_of (rewound T c) p coins serial price change ctx"
  defines "pts off \<equiv> the (read_points c first off m)"
  shows "length coins = 2 ^ m" and "0 < m"
    and "check_bits c m (ans_x A) (pts 1, pts (1 + 32 * m), pts (1 + 64 * m)) (ans_f A, ans_za A, ans_zb A)"
    and "length (pts (1 + 96 * m)) = m"
    and "\<exists>d. d_set c coins serial price change = Some d \<and>
      check_membership c (length coins) m (ans_x A) (ans_f A) d (pts (1 + 96 * m)) (ans_zd A)"
proof -
  have pts: "pts off = the (read_points c p off m)" if "off \<le> 1 + 96 * m" for off
    using read_points_take [of off m "1 + 128 * m" c p] that first by (simp add: pts_def)
  note v = acc [unfolded one_of_many_verify_def Let_def, folded m]
  have n: "2 \<le> length coins" "is_power_of_two (length coins)"
    using v by (auto split: if_splits)
  show n2: "length coins = 2 ^ m" using power_of_twoD [OF n(2)] m by simp
  show "0 < m" using n(1) n2 by (cases m) auto
  show "check_bits c m (ans_x A) (pts 1, pts (1 + 32 * m), pts (1 + 64 * m)) (ans_f A, ans_za A, ans_zb A)"
    using v unfolding A answer_of_def Let_def m [symmetric]
    by (auto simp: pts split: if_splits option.splits)
  show "\<exists>d. d_set c coins serial price change = Some d \<and>
      check_membership c (length coins) m (ans_x A) (ans_f A) d (pts (1 + 96 * m)) (ans_zd A)"
    using v unfolding A answer_of_def Let_def m [symmetric]
    by (auto simp: pts split: if_splits option.splits)
  obtain gk where "read_points c p (1 + 96 * m) m = Some gk"
    using v by (auto split: if_splits option.splits)
  then show "length (pts (1 + 96 * m)) = m"
    by (auto simp: pts read_points_def dest: those_SomeD)
qed

lemma d_set_nth:
  assumes "d_set c coins serial price change = Some d" and "i < length coins"
  shows "\<exists>P D. decompress c (coins ! i) = Some P \<and> decompress c change = Some D \<and>
    P = smul c (from_bytes_mod_order c serial) (generator_g1 c) + smul c (scalar_from_u64 price) (basepoint c) +
        D + d ! i"
  using assms by (auto simp: d_set_def Let_def split: option.splits dest!: those_SomeD)

text \<open>
  C11. What an accepted one-of-many proof proves, by special soundness. Take any \<open>m + 1\<close> accepted proofs
  over a group of \<open>2 ^ m\<close> coins with the same first message and distinct challenges (a prover rewound
  \<open>m\<close> times). Then the extractor reads off the answers either an explicit relation \<open>a G + b H = 0\<close>
  with \<open>a \<noteq> 0\<close> between the two generators, or the index of a coin of the group together with its
  blinding: that coin opens to exactly the serial and the price of the spend, plus the change.
  The spender cannot name another serial, pay another price or spend a coin outside the group.
\<close>
theorem one_of_many_extracts:
  fixes c :: "('g::ab_group_add, 'k::field) curve"
  assumes c: "curve_laws c" and m: "m = trailing_zeros (length coins)"
    and acc: "\<forall>(T, p)\<in>set runs. one_of_many_verify (rewound T c) p coins serial price change ctx \<and>
      take (1 + 128 * m) p = first"
    and as: "as = map (\<lambda>(T, p). answer_of (rewound T c) p coins serial price change ctx) runs"
    and runs: "length runs = Suc m" "distinct (map ans_x as)"
  shows "(\<exists>(a, b)\<in>set (extract_relations m as).
      a \<noteq> 0 \<and> smul c a (basepoint c) + smul c b (generator_h c) = 0) \<or>
    extract_index m as < length coins \<and>
    (\<exists>P D. decompress c (coins ! extract_index m as) = Some P \<and> decompress c change = Some D \<and>
      P = smul c (from_bytes_mod_order c serial) (generator_g1 c) + smul c (scalar_from_u64 price) (basepoint c) +
          D + smul c (extract_blinding as) (generator_h c))"
proof -
  define pts where "pts off = the (read_points c first off m)" for off
  have len: "length as = Suc m" using runs as by simp
  have ans: "length coins = 2 ^ m \<and> 0 < m \<and> length (pts (1 + 96 * m)) = m \<and>
      check_bits c m (ans_x A) (pts 1, pts (1 + 32 * m), pts (1 + 64 * m)) (ans_f A, ans_za A, ans_zb A) \<and>
      (\<exists>d. d_set c coins serial price change = Some d \<and>
         check_membership c (length coins) m (ans_x A) (ans_f A) d (pts (1 + 96 * m)) (ans_zd A))"
    if "A \<in> set as" for A
  proof -
    from that as obtain T p where run: "(T, p) \<in> set runs"
      and A: "A = answer_of (rewound T c) p coins serial price change ctx" by auto
    with acc show ?thesis using verify_answer [OF _ m _ A, of first] by (auto simp: pts_def)
  qed
  have "as ! 0 \<in> set as" using len by simp
  from ans [OF this] obtain d where n: "length coins = 2 ^ m" "0 < m" "length (pts (1 + 96 * m)) = m"
    and d: "d_set c coins serial price change = Some d" by blast
  have x: "ans_x (as ! 0) \<noteq> ans_x (as ! 1)" "1 < length as"
    using len n(2) nth_eq_iff_index_eq [OF runs(2), of 0 1] by simp_all
  have bits: "answers_bits c m (pts 1, pts (1 + 32 * m), pts (1 + 64 * m)) as"
    using ans by (simp add: answers_bits_def)
  show ?thesis
  proof (cases "\<exists>(a, b)\<in>set (extract_relations m as). a \<noteq> 0")
    case True
    then show ?thesis using relations_hold [OF c x(2,1) bits] by blast
  next
    case False
    have "check_membership c (length coins) m (ans_x A) (ans_f A) d (pts (1 + 96 * m)) (ans_zd A)"
      if "A \<in> set as" for A
      using ans [OF that] d by auto
    moreover have "a = 0" if "(a, b) \<in> set (extract_relations m as)" for a b
      using False that by fastforce
    ultimately have "d ! extract_index m as = smul c (extract_blinding as) (generator_h c)"
      using coin_extracted [OF c n(1,2) d_set_length [OF d] n(3) len runs(2)] by blast
    moreover have "extract_index m as < length coins" using extract_index_bits(1) n(1) by simp
    ultimately show ?thesis using d_set_nth [OF d] by fastforce
  qed
qed

section \<open>A concrete instance\<close>

text \<open>The field with two elements, as scalars and as points: one bit, so that the proofs are short.\<close>

datatype gf2 = Gf0 | Gf1

instantiation gf2 :: field
begin

definition zero_gf2 :: gf2 where "zero_gf2 = Gf0"
definition one_gf2 :: gf2 where "one_gf2 = Gf1"
definition plus_gf2 :: "gf2 \<Rightarrow> gf2 \<Rightarrow> gf2" where "plus_gf2 a b = (if a = b then Gf0 else Gf1)"
definition times_gf2 :: "gf2 \<Rightarrow> gf2 \<Rightarrow> gf2" where "times_gf2 a b = (if a = Gf0 then Gf0 else b)"
definition minus_gf2 :: "gf2 \<Rightarrow> gf2 \<Rightarrow> gf2" where "minus_gf2 a b = (if a = b then Gf0 else Gf1)"
definition uminus_gf2 :: "gf2 \<Rightarrow> gf2" where "uminus_gf2 a = a"
definition inverse_gf2 :: "gf2 \<Rightarrow> gf2" where "inverse_gf2 a = a"
definition divide_gf2 :: "gf2 \<Rightarrow> gf2 \<Rightarrow> gf2" where "divide_gf2 a b = times a b"

lemmas gf2_defs = zero_gf2_def one_gf2_def plus_gf2_def times_gf2_def minus_gf2_def uminus_gf2_def
  inverse_gf2_def divide_gf2_def

instance
proof
  fix a b c :: gf2
  show "a * b * c = a * (b * c)" "a + b + c = a + (b + c)" "(a + b) * c = a * c + b * c"
    by (cases a; cases b; cases c; simp add: gf2_defs)+
  show "a * b = b * a" "a + b = b + a" "a - b = a + - b" "a div b = a * inverse b"
    by (cases a; cases b; simp add: gf2_defs)+
  show "1 * a = a" "0 + a = a" "- a + a = 0" "(0 :: gf2) \<noteq> 1" "inverse (0 :: gf2) = 0"
    and "a \<noteq> 0 \<Longrightarrow> inverse a * a = 1"
    by (cases a; simp add: gf2_defs)+
qed

end

definition gf2_bytes :: "gf2 \<Rightarrow> h256" where
  "gf2_bytes a = of_bool (a = Gf1)"

definition gf2_of_bytes :: "h256 \<Rightarrow> gf2 option" where
  "gf2_of_bytes w = (if w = 0 then Some Gf0 else if w = 1 then Some Gf1 else None)"

definition gf2_curve :: "(gf2, gf2) curve" where
  "gf2_curve =
     \<lparr>smul = (*), basepoint = 1, compress = gf2_bytes, decompress = gf2_of_bytes,
      from_uniform_bytes = (\<lambda>_. 1), from_bytes_mod_order = (\<lambda>w. of_nat (unat w)),
      from_bytes_mod_order_wide = (\<lambda>bs. of_nat (unat (bs ! 0))), from_canonical_bytes = gf2_of_bytes,
      scalar_bytes = gf2_bytes, group_order = 2, sha512 = (\<lambda>_. replicate 64 0),
      blake2b512 = (\<lambda>_. replicate 64 0), challenge_bytes = (\<lambda>_ _ _. replicate 64 0),
      range_from_bytes = (\<lambda>_. None), verify_multiple_with_rng = (\<lambda>_ _ _ _ _ _ _. False)\<rparr>"

lemma gf2_numerals: "(2 :: gf2) = 0" "(3 :: gf2) = 1"
proof -
  show two: "(2 :: gf2) = 0" unfolding one_add_one [symmetric] by (simp add: gf2_defs)
  have "(3 :: gf2) = 2 + 1" by simp
  then show "(3 :: gf2) = 1" unfolding two by simp
qed

lemma gf2_curve_laws: "curve_laws (rewound T gf2_curve)" "curve_laws gf2_curve"
proof -
  have "gf2_of_bytes (gf2_bytes a) = Some a" "of_nat (unat (gf2_bytes a)) = a" for a
    by (cases a; simp add: gf2_bytes_def gf2_of_bytes_def gf2_defs)+
  then show laws: "curve_laws (rewound T gf2_curve)" for T
    by (simp add: curve_laws_def rewound_def gf2_curve_def gf2_of_bytes_def zero_gf2_def [symmetric]
        gf2_numerals algebra_simps)
  show "curve_laws gf2_curve"
    using laws [of "challenge_bytes gf2_curve"] by (simp add: rewound_def)
qed

text \<open>
  The group of the coins 1 and 0. The serial 1 and the price 1 cancel, so the second coin is spent;
  its bit is committed as 1, and the response to the challenge \<open>x\<close> is \<open>x\<close>.
\<close>

definition gf2_proof :: "gf2 \<Rightarrow> bytes" where
  "gf2_proof f = [1] @ encode_points gf2_curve [1] @ encode_points gf2_curve [0] @
     encode_points gf2_curve [0] @ encode_points gf2_curve [0] @ encode_scalars gf2_curve [f] @
     encode_scalars gf2_curve [0] @ encode_scalars gf2_curve [0] @ le_bytes 32 (scalar_bytes gf2_curve 0)"

definition gf2_run :: "u8 \<Rightarrow> (string \<Rightarrow> tmsg list \<Rightarrow> string \<Rightarrow> bytes) \<times> bytes" where
  "gf2_run x = (\<lambda>_ _ _. replicate 64 x, gf2_proof (of_nat (unat x)))"

lemma gf2_two: "is_power_of_two 2" "trailing_zeros 2 = 1"
  using is_power_of_two_exp [of 1] trailing_zeros_exp [of 1] by simp_all

lemma gf2_encoded:
  "snd (gf2_run x) = [of_nat 1] @ encode_points (rewound T gf2_curve) [1] @ encode_points (rewound T gf2_curve) [0] @
     encode_points (rewound T gf2_curve) [0] @ encode_points (rewound T gf2_curve) [0] @
     encode_scalars (rewound T gf2_curve) [of_nat (unat x)] @ encode_scalars (rewound T gf2_curve) [0] @
     encode_scalars (rewound T gf2_curve) [0] @ le_bytes 32 (scalar_bytes (rewound T gf2_curve) 0)"
  by (simp add: gf2_run_def gf2_proof_def encode_points_def encode_scalars_def) (simp add: rewound_def)

lemma gf2_d_set: "d_set gf2_curve [1, 0] 1 1 0 = Some [1, 0]"
  by (simp add: d_set_def gf2_curve_def gf2_of_bytes_def generator_g1_def scalar_from_u64_def gf2_numerals
      zero_gf2_def [symmetric] one_gf2_def [symmetric])

lemma gf2_challenge:
  "fs_challenge (rewound (fst (gf2_run x)) gf2_curve) ghash serial price change ctx cl ca cb gk = of_nat (unat x)"
  by (simp add: fs_challenge_def rewound_def gf2_run_def gf2_curve_def Let_def)

lemma gf2_answer:
  "answer_of (rewound (fst (gf2_run x)) gf2_curve) (snd (gf2_run x)) [1, 0] 1 1 0 [] =
     \<lparr>ans_x = of_nat (unat x), ans_f = [of_nat (unat x)], ans_za = [0], ans_zb = [0], ans_zd = 0\<rparr>"
proof -
  note r = reads_encoded [OF gf2_curve_laws(1) _ _ _ _ _ _ _ gf2_encoded [of x "fst (gf2_run x)"], simplified]
  show ?thesis
    using r by (simp add: answer_of_def gf2_two gf2_challenge numeral_2_eq_2 [symmetric])
qed

lemma gf2_accepts:
  "one_of_many_verify (rewound (fst (gf2_run x)) gf2_curve) (snd (gf2_run x)) [1, 0] 1 1 0 []"
proof -
  have gens: "generator_h gf2_curve = 1" "basepoint gf2_curve = 1" "smul gf2_curve = (*)"
    by (simp_all add: generator_h_def gf2_curve_def)
  have "check_bits gf2_curve 1 y ([1], [0], [0]) ([y], [0], [0])" for y
    by (simp add: check_bits_def gens)
  moreover have "check_membership gf2_curve 2 1 y [y] [1, 0] [0] 0" for y
    using exponents_spec [of 2 1 y "[y]"]
    by (simp add: check_membership_def vartime_multiscalar_mul_def gens exponents_def expand_exps_def powers_def
        numeral_2_eq_2 Let_def)
  ultimately show ?thesis
    by (subst verify_encoded [OF gf2_curve_laws(1) _ _ _ _ _ _ _ _ _ _ _ _ gf2_encoded, of _ 2])
      (simp_all add: gf2_two gf2_d_set gf2_challenge Let_def)
qed

theorem one_of_many_extracts_witness:
  "let as = map (\<lambda>(T, p). answer_of (rewound T gf2_curve) p [1, 0] 1 1 0 []) [gf2_run 0, gf2_run 1]
   in extract_index 1 as = 1 \<and>
      decompress gf2_curve ([1, 0] ! 1) = Some (smul gf2_curve (from_bytes_mod_order gf2_curve 1) (generator_g1 gf2_curve) +
        smul gf2_curve (scalar_from_u64 1) (basepoint gf2_curve) + 0 +
        smul gf2_curve (extract_blinding as) (generator_h gf2_curve))"
proof -
  define as where "as = map (\<lambda>(T, p). answer_of (rewound T gf2_curve) p [1, 0] 1 1 0 []) [gf2_run 0, gf2_run 1]"
  have ans: "as = [\<lparr>ans_x = 0, ans_f = [0], ans_za = [0], ans_zb = [0], ans_zd = 0\<rparr>,
      \<lparr>ans_x = 1, ans_f = [1], ans_za = [0], ans_zb = [0], ans_zd = 0\<rparr>]"
    using gf2_answer [of 0] gf2_answer [of 1] by (simp add: as_def case_prod_beta)
  have bit: "extract_bit as 0 = 1" by (simp add: extract_bit_def slope_def ans)
  then have idx: "extract_index 1 as = 1" by (simp add: extract_index_def)
  have rel: "\<forall>(a, b)\<in>set (extract_relations 1 as). a = 0"
    using bit by (simp add: extract_relations_def bit_relation_def answer_relation_def slope_def offset0_def ans)
  have first: "take (1 + 128 * 1) (snd (gf2_run x)) = take 129 (gf2_proof 0)" for x
    by (simp add: gf2_run_def gf2_proof_def)
  have acc: "\<forall>(T, p)\<in>set [gf2_run 0, gf2_run 1]. one_of_many_verify (rewound T gf2_curve) p [1, 0] 1 1 0 [] \<and>
      take (1 + 128 * 1) p = take 129 (gf2_proof 0)"
    by (simp only: list.set ball_simps case_prod_beta gf2_accepts first simp_thms)
  have two: "1 = trailing_zeros (length [1, 0 :: h256])" by (simp add: gf2_two numeral_2_eq_2 [symmetric])
  have "length [gf2_run 0, gf2_run 1] = Suc 1" "distinct (map ans_x as)" by (simp_all add: ans)
  note main = one_of_many_extracts [OF gf2_curve_laws(2) two acc as_def this, unfolded idx]
  have "\<not> (\<exists>(a, b)\<in>set (extract_relations 1 as).
      a \<noteq> 0 \<and> smul gf2_curve a (basepoint gf2_curve) + smul gf2_curve b (generator_h gf2_curve) = 0)"
    using rel by blast
  with main have "\<exists>P D. decompress gf2_curve ([1, 0] ! 1) = Some P \<and> decompress gf2_curve 0 = Some D \<and>
      P = smul gf2_curve (from_bytes_mod_order gf2_curve 1) (generator_g1 gf2_curve) +
        smul gf2_curve (scalar_from_u64 1) (basepoint gf2_curve) + D +
        smul gf2_curve (extract_blinding as) (generator_h gf2_curve)"
    by (simp only: HOL.simp_thms)
  moreover have "decompress gf2_curve 0 = Some 0" by (rule decompress_zero [OF gf2_curve_laws(2)])
  ultimately show ?thesis unfolding as_def [symmetric] Let_def using idx by simp
qed

end
