(* ===== verification/IdentityMigration.thy ===== *)
theory IdentityMigration
  imports Xcm
begin

text \<open>
  The identity reaper of the relay chain, \<open>src/runtime/src/impls.rs\<close>: when an identity is removed, the
  deposit that the People chain will ask for it is withdrawn from the account and teleported there, with
  a call that reserves it. The asset transactor, the sending of \<open>pallet_xcm\<close>, the deposit constants of
  the chain and the database weights are not part of the repository: they are the fields of
  \<open>reaper_env\<close>, over an abstract state; \<open>reaper_laws\<close> says what they do to balances and to the outbox.
\<close>

section \<open>The weight of the poke\<close>

definition poke_deposit :: "(u64 \<Rightarrow> weight) \<Rightarrow> (u64 \<Rightarrow> weight) \<Rightarrow> weight" where
  "poke_deposit reads writes =
     weight_add (weight_add (weight_add (125776000, 0) (0, 11003)) (reads 3)) (writes 3)"

section \<open>The reaper\<close>

datatype people_instruction =
    UnpaidExecutionUnlimited
  | ReceiveTeleportedAsset "asset list"
  | DepositAllCounted u32 location
  | TransactSuperuser bytes weight

datatype reap_error = LowBalance | CannotCheckOutTeleport | SendError nat

record ('s, 'acct) reaper_env =
  deposit :: "u32 \<Rightarrow> u32 \<Rightarrow> u128"
  EXISTENTIAL_DEPOSIT :: u128
  db_reads :: "u64 \<Rightarrow> weight"
  db_writes :: "u64 \<Rightarrow> weight"
  account_bytes :: "'acct \<Rightarrow> h256"
  enc_account :: "'acct \<Rightarrow> bytes"
  withdraw_asset :: "asset \<Rightarrow> location \<Rightarrow> 's \<Rightarrow> 's \<times> bool"
  can_check_out :: "location \<Rightarrow> asset \<Rightarrow> 's \<Rightarrow> bool"
  check_out :: "location \<Rightarrow> asset \<Rightarrow> 's \<Rightarrow> 's"
  pallet_xcm_send :: "location \<Rightarrow> people_instruction list \<Rightarrow> 's \<Rightarrow> 's \<times> nat option"

definition calculate_remote_deposit :: "('s, 'acct) reaper_env \<Rightarrow> u32 \<Rightarrow> u32 \<Rightarrow> u128" where
  "calculate_remote_deposit env bs subs =
     (let para_basic_deposit = deposit env 1 17 div 100;
          para_byte_deposit = deposit env 0 1 div 100;
          para_sub_account_deposit = deposit env 1 53 div 100;
          para_existential_deposit = EXISTENTIAL_DEPOSIT env div 10;
          id_deposit = sat_add para_basic_deposit (sat_mul para_byte_deposit (ucast bs));
          subs_deposit = sat_mul para_sub_account_deposit (ucast subs)
      in sat_add (sat_add id_deposit subs_deposit) (sat_mul para_existential_deposit 2))"

text \<open>
  \<open>PeopleRuntimePallets::IdentityMigrator(PokeDeposit(who))\<close>, encoded: the indices of pallet and call,
  then the account.
\<close>

definition poke_call :: "('s, 'acct) reaper_env \<Rightarrow> 'acct \<Rightarrow> bytes" where
  "poke_call env who = [248, 1] @ enc_account env who"

text \<open>
  The state is returned on errors too: what has been withdrawn by then is only restored by the storage
  transaction around the call.
\<close>

definition on_reap_identity ::
  "('s, 'acct) reaper_env \<Rightarrow> 'acct \<Rightarrow> u32 \<Rightarrow> u32 \<Rightarrow> 's \<Rightarrow> 's \<times> (reap_error + unit)" where
  "on_reap_identity env who flds subs s =
     (let total_to_send = calculate_remote_deposit env flds subs;
          wnd = \<lparr>xcm_asset_id = (0, []), fungible = total_to_send\<rparr>;
          destination = (0, [Parachain 1004]);
          who_origin = (0, [AccountId32 (account_bytes env who)]);
          (s, withdrawn) = withdraw_asset env wnd who_origin s
      in if \<not> withdrawn then (s, Inl LowBalance)
      else if \<not> can_check_out env destination wnd s then (s, Inl CannotCheckOutTeleport)
      else
        let s = check_out env destination wnd s;
            wnd_reanchored = [\<lparr>xcm_asset_id = (1, []), fungible = total_to_send\<rparr>];
            poke = poke_call env who;
            remote_weight_limit = weight_mul (poke_deposit (db_reads env) (db_writes env)) 2;
            program =
              [UnpaidExecutionUnlimited,
               ReceiveTeleportedAsset wnd_reanchored,
               DepositAllCounted 1 (0, [AccountId32 (account_bytes env who)]),
               TransactSuperuser poke remote_weight_limit]
        in case pallet_xcm_send env destination program s of
             (s, Some e) \<Rightarrow> (s, Inl (SendError e))
           | (s, None) \<Rightarrow> (s, Inr ()))"

text \<open>The storage transaction around the call, and a sequence of reaped identities.\<close>

definition in_transaction :: "('s \<Rightarrow> 's \<times> ('e + unit)) \<Rightarrow> 's \<Rightarrow> 's" where
  "in_transaction f s = (case f s of (s', Inr _) \<Rightarrow> s' | (_, Inl _) \<Rightarrow> s)"

fun reap_all :: "('s, 'acct) reaper_env \<Rightarrow> ('acct \<times> u32 \<times> u32) list \<Rightarrow> 's \<Rightarrow> 's" where
  "reap_all env [] s = s"
| "reap_all env ((who, flds, subs) # rs) s =
     reap_all env rs (in_transaction (on_reap_identity env who flds subs) s)"

section \<open>The deposit\<close>

lemma min_sum: "min (min a M + min b M) M = min (a + b) (M :: nat)" "min (min a M + b) M = min (a + b) M"
    "min (a + min b M) M = min (a + b) M"
  by linarith+

text \<open>
  The deposit sent is the sum the comment lists - basic, per byte, per sub-account, twice the existential
  deposit, each at its parachain rate - and stops at the largest balance instead of wrapping.
\<close>
theorem remote_deposit_exact:
  "unat (calculate_remote_deposit env bs subs) =
     min (unat (deposit env 1 17) div 100 + unat (deposit env 0 1) div 100 * unat bs +
          unat (deposit env 1 53) div 100 * unat subs + unat (EXISTENTIAL_DEPOSIT env) div 10 * 2)
       (2 ^ 128 - 1)"
  by (simp only: calculate_remote_deposit_def Let_def unat_sat unat_div_distrib min_sum)
    (simp add: unat_ucast_up)

section \<open>Conservation\<close>

text \<open>What a message of the outbox brings to an account of the People chain.\<close>

definition teleports_to :: "location \<Rightarrow> location \<times> people_instruction list \<Rightarrow> nat" where
  "teleports_to w msg = (case msg of
     (dest, [UnpaidExecutionUnlimited, ReceiveTeleportedAsset as, DepositAllCounted _ b, TransactSuperuser _ _]) \<Rightarrow>
       if dest = (0, [Parachain 1004]) \<and> b = w then (\<Sum>a\<leftarrow>as. unat (fungible a)) else 0
   | _ \<Rightarrow> 0)"

definition in_flight :: "(location \<times> people_instruction list) list \<Rightarrow> location \<Rightarrow> nat" where
  "in_flight msgs w = (\<Sum>msg\<leftarrow>msgs. teleports_to w msg)"

text \<open>
  A successful withdrawal takes the amount from the account; without teleport tracking, as configured,
  checking out changes no balance; a message of Root costs no delivery fee, and is queued or refused.
\<close>

definition reaper_laws ::
  "('s, 'acct) reaper_env \<Rightarrow> ('s \<Rightarrow> location \<Rightarrow> nat) \<Rightarrow> ('s \<Rightarrow> (location \<times> people_instruction list) list) \<Rightarrow> bool" where
  "reaper_laws env bal outbox \<longleftrightarrow>
     (\<forall>a w s s'. withdraw_asset env a w s = (s', True) \<longrightarrow>
        unat (fungible a) \<le> bal s w \<and> bal s' = (bal s)(w := bal s w - unat (fungible a)) \<and> outbox s' = outbox s) \<and>
     (\<forall>d a s. bal (check_out env d a s) = bal s \<and> outbox (check_out env d a s) = outbox s) \<and>
     (\<forall>d p s s'. pallet_xcm_send env d p s = (s', None) \<longrightarrow> bal s' = bal s \<and> outbox s' = outbox s @ [(d, p)])"

lemma reaper_lawsD:
  assumes "reaper_laws env bal outbox"
  shows "withdraw_asset env a w s = (s', True) \<Longrightarrow> unat (fungible a) \<le> bal s w"
    and "withdraw_asset env a w s = (s', True) \<Longrightarrow> bal s' = (bal s)(w := bal s w - unat (fungible a))"
    and "withdraw_asset env a w s = (s', True) \<Longrightarrow> outbox s' = outbox s"
    and "bal (check_out env d a s) = bal s" and "outbox (check_out env d a s) = outbox s"
    and "pallet_xcm_send env d p s = (s', None) \<Longrightarrow> bal s' = bal s"
    and "pallet_xcm_send env d p s = (s', None) \<Longrightarrow> outbox s' = outbox s @ [(d, p)]"
  using assms unfolding reaper_laws_def by blast+

text \<open>An accepted reap withdraws the deposit and queues it, addressed to the same account.\<close>

lemma on_reap_identity_Inr:
  assumes "reaper_laws env bal outbox" and "on_reap_identity env who flds subs s = (s', Inr ())"
  defines "w \<equiv> (0, [AccountId32 (account_bytes env who)])"
    and "amount \<equiv> unat (calculate_remote_deposit env flds subs)"
  shows "amount \<le> bal s w" and "bal s' = (bal s)(w := bal s w - amount)"
    and "\<exists>msg. outbox s' = outbox s @ [msg] \<and> teleports_to v msg = (if v = w then amount else 0)"
proof -
  define wnd where "wnd = \<lparr>xcm_asset_id = (0, []), fungible = calculate_remote_deposit env flds subs\<rparr>"
  obtain s1 p where s1: "withdraw_asset env wnd w s = (s1, True)"
    and s': "pallet_xcm_send env (0, [Parachain 1004]) p (check_out env (0, [Parachain 1004]) wnd s1) = (s', None)"
    and p: "p = [UnpaidExecutionUnlimited,
      ReceiveTeleportedAsset [\<lparr>xcm_asset_id = (1, []), fungible = calculate_remote_deposit env flds subs\<rparr>],
      DepositAllCounted 1 w,
      TransactSuperuser (poke_call env who) (weight_mul (poke_deposit (db_reads env) (db_writes env)) 2)]"
    using assms(2) unfolding on_reap_identity_def Let_def wnd_def w_def
    by (auto split: prod.splits if_splits option.splits)
  show "amount \<le> bal s w" and "bal s' = (bal s)(w := bal s w - amount)"
    using reaper_lawsD(1,2) [OF assms(1) s1] reaper_lawsD(6) [OF assms(1) s'] reaper_lawsD(4) [OF assms(1)]
    by (simp_all add: amount_def wnd_def)
  have "outbox s' = outbox s @ [((0, [Parachain 1004]), p)]"
    using reaper_lawsD(3) [OF assms(1) s1] reaper_lawsD(7) [OF assms(1) s'] reaper_lawsD(5) [OF assms(1)]
    by simp
  moreover have "teleports_to v ((0, [Parachain 1004]), p) = (if v = w then amount else 0)"
    by (simp add: teleports_to_def p amount_def)
  ultimately show "\<exists>msg. outbox s' = outbox s @ [msg] \<and> teleports_to v msg = (if v = w then amount else 0)"
    by blast
qed

lemma reap_conserves:
  assumes "reaper_laws env bal outbox"
    and s': "s' = in_transaction (on_reap_identity env who flds subs) s"
  shows "bal s' v + in_flight (outbox s') v = bal s v + in_flight (outbox s) v"
proof (cases "on_reap_identity env who flds subs s")
  case (Pair t r)
  show ?thesis
  proof (cases r)
    case Inl
    then show ?thesis using Pair by (simp add: s' in_transaction_def)
  next
    case (Inr u)
    with Pair have "s' = t" "on_reap_identity env who flds subs s = (t, Inr ())"
      by (simp_all add: s' in_transaction_def)
    note t = on_reap_identity_Inr [OF assms(1) this(2)]
    from t(3) [of v] obtain msg where "outbox t = outbox s @ [msg]"
      "teleports_to v msg = (if v = (0, [AccountId32 (account_bytes env who)])
         then unat (calculate_remote_deposit env flds subs) else 0)"
      by blast
    with t(1,2) \<open>s' = t\<close> show ?thesis by (simp add: in_flight_def)
  qed
qed

text \<open>
  No sequence of reaped identities, accepted or refused at any of the three points of failure, creates
  or burns a balance: what an account has on the relay chain and in flight to the People chain stays
  the same.
\<close>
theorem reap_all_conserves:
  assumes "reaper_laws env bal outbox"
  shows "bal (reap_all env rs s) v + in_flight (outbox (reap_all env rs s)) v = bal s v + in_flight (outbox s) v"
proof (induction rs arbitrary: s)
  case (Cons r rs)
  obtain who flds subs where "r = (who, flds, subs)" by (cases r)
  then show ?case using Cons reap_conserves [OF assms refl] by simp
qed simp

section \<open>A concrete instance\<close>

text \<open>A ledger of balances with an outbox; a message is refused when two are waiting.\<close>

type_synonym toy_ledger = "(location \<Rightarrow> nat) \<times> (location \<times> people_instruction list) list"

definition toy_reaper :: "(toy_ledger, h256) reaper_env" where
  "toy_reaper =
     \<lparr>deposit = (\<lambda>items bs. 1000 * ucast items + 100 * ucast bs), EXISTENTIAL_DEPOSIT = 50,
      db_reads = (\<lambda>n. (25 * n, 0)), db_writes = (\<lambda>n. (100 * n, 0)),
      account_bytes = (\<lambda>a. a), enc_account = le_bytes 32,
      withdraw_asset = (\<lambda>a w (b, out).
        if unat (fungible a) \<le> b w then ((b(w := b w - unat (fungible a)), out), True) else ((b, out), False)),
      can_check_out = (\<lambda>_ _ _. True), check_out = (\<lambda>_ _ s. s),
      pallet_xcm_send = (\<lambda>d p (b, out). if length out < 2 then ((b, out @ [(d, p)]), None) else ((b, out), Some 7))\<rparr>"

lemma toy_reaper_laws: "reaper_laws toy_reaper fst snd"
  by (auto simp: reaper_laws_def toy_reaper_def split: if_splits)

lemma reap_all_conserves_witness:
  "fst (reap_all toy_reaper [(5, 3, 1), (5, 0, 0)] (\<lambda>_. 1000, [])) w +
     in_flight (snd (reap_all toy_reaper [(5, 3, 1), (5, 0, 0)] (\<lambda>_. 1000, []))) w = 1000"
  using reap_all_conserves [OF toy_reaper_laws, of "[(5, 3, 1), (5, 0, 0)]" "(\<lambda>_. 1000, [])" w]
  by (simp add: in_flight_def)

text \<open>
  The warning above the implementation is true: a message that is refused has already cost the account
  its deposit, unless the storage transaction undoes it.
\<close>
theorem reap_burns_outside_transaction:
  "\<exists>s. case on_reap_identity toy_reaper 5 0 0 s of (s', r) \<Rightarrow>
     r = Inl (SendError 7) \<and> fst s' (0, [AccountId32 5]) < fst s (0, [AccountId32 5]) \<and> snd s' = snd s"
  by (rule exI [of _ "(\<lambda>_. 1000, [((0, []), []), ((0, []), [])])"])
    (simp add: on_reap_identity_def calculate_remote_deposit_def toy_reaper_def sat_add_def sat_mul_def Let_def)

end
