(* ===== verification/Spec2Isabelle.thy ===== *)
theory Spec2Isabelle
  imports RelayXcm RelayOrigins RelayTrust RelayGenesis Transactions LegacyFees Transcripts
    ProofHubPool ProofHubNode AuthGate RwaMarketplace
    ScanProofLane CoinSpends NoteSpends OneOfManySound Xcm Relay IdentityMigration
begin

text \<open>
  Nulla relay: a verification development.

  The program. Nulla is a relay chain with four parachains. ProofHub (para 2000, \<open>src/proofhub\<close>) and
  ScanProof (para 2002, \<open>src/scanproof\<close>) keep pools of shielded notes: a user deposits public balance
  into a note and later spends the note, unlinkably, to buy an asset or access or to withdraw. ProofHub's
  notes are leaves of a Poseidon Merkle tree and spends are STARK proofs with ML-DSA signatures;
  ScanProof's are Pedersen commitments with Bulletproofs, and coins spent by one-of-many proofs. The RWA
  chain (para 2001, \<open>src/rwa-parachain\<close>) registers and trades assets; AuthGate (para 2003,
  \<open>src/authgate-parachain\<close>) keeps access keys. A purchase on a hub sends an XCM message to one of these
  two. The relay chain itself (\<open>src/runtime\<close>) configures the Polkadot SDK.

  Foundations. Prelude holds bytes, little-endian words, lists and results; Frame origins, dispatch
  errors, transaction validity, runs of extrinsics (\<open>run\<close>, \<open>accepted\<close>: a failed extrinsic leaves
  the state as it was), the locale \<open>one_shot\<close> of guarded calls and the lemmas about invariants and
  provenance over runs; Codec the SCALE formats.

  ProofHub. Poseidon and MerkleV2 model module \<open>v2\<close> of \<open>proofhub/verifier/src/lib.rs\<close>: the hashes and the
  incremental frontier, proved equal to the reference tree; paths are complete and binding. MerkleV1 is
  the tree of the pallet's first lane. ProofHub holds the state and helpers of
  \<open>proofhub/pallets/proofs/src/lib.rs\<close>, ProofHubCalls its validation and eleven dispatchables;
  ProofHubGuards shows what each accepted call has checked and that no nullifier, tag or transaction is
  consumed twice; ProofHubLane the consistency of tree, index and root window, that validation
  refuses exactly what dispatch would refuse, and that the first lane is dead; ProofHubPool that the pool
  covers the notes and that a valid withdrawal succeeds. Verifier holds the entry points of the
  verifier crate and their wire formats.

  Circuits. StarkAir says when a trace satisfies a circuit. StarkV1 holds the three circuits of the
  first lane, SpendAir and DepositAir those of the second: soundness (a satisfied circuit has a note
  with the right hashes, path and balance of integers) and exactness. Transcripts holds the declared
  degrees of the five and the field elements that bind a proof to its statement. TraceTable, SpendProver
  and SpendComplete model the prover and show that its trace satisfies the circuit for every honest witness.
  ProofHubNode wires the pallet to the verifier as \<open>proofhub/runtime/src/configs/mod.rs\<close> does and joins
  the parts: every accepted spend is backed by a note of the tree.

  ScanProof. ScanProof and ScanProofCalls hold the pallet \<open>scanproof/pallets/proofs/src/lib.rs\<close>, with
  names that ProofHub also uses prefixed \<open>sc_\<close>; ScanProofGuards and ScanProofLane its guards, trees and
  coin groups. Curve, OneOfMany, CoinProofs and PedersenVerifier hold \<open>scanproof/verifier/src/lib.rs\<close>;
  OneOfManyPoly and OneOfManyComplete show that honest one-of-many proofs verify, OneOfManySound that
  accepted ones determine a coin, by an extractor that computes it; CoinProofs and PedersenVerifier
  compute in the same way what the proofs of opening and of balance claim to know. CoinSpends and
  NoteSpends join pallet and verifier and state what the pair lets through: coins withdrawn twice,
  change of any value, deposits and transfers that multiply a note.

  The older pallet. LegacyProofs models \<open>scanproof/pallets/proof/src/lib.rs\<close>, an earlier proofs pallet whose
  names take the prefix \<open>lg_\<close>. LegacyReplay maps its note lane into the current pallet and shows that every
  accepted run replays there with the same tree, nullifiers and messages; LegacyFees follows its fee lane:
  the fees that are open are covered and block authors are paid, and a faucet commitment is never used up.

  The other chains. AuthGate and RwaMarketplace hold the pallets of AuthGate and of the RWA chain (registry
  and marketplace over one state), with what each call may do to a listing, single use and provenance. Xcm holds the dispatchers
  of the hubs, the barriers and the decoding of the receivers; this theory states what crosses the chains.
  Relay holds the relay chain's proxy filters, governance tracks, spending limits and era payout;
  RelayOrigins the guards on its custom origins, the signed phase of elections and the thresholds of the
  voter bags; IdentityMigration its identity reaper, which neither creates nor burns balances. XcmTypes has
  the locations and assets the XCM parts share; RelayXcm the price of every XCM instruction over the two
  benchmark tables and the location filters of \<open>runtime/src/xcm_config.rs\<close>.

  Genesis. Presets holds the genesis presets of the parachains with the assets the RWA chain starts
  from, RelayGenesis those of the relay chain with the keys of its staging network: they are complete, fit the
  pallets' bounds and fund whom they need to, but ProofHub's takes an id at which no chain listens to it.
  RelayTrust holds the teleporters and origins the relay chain trusts and the hubs' reserve rule; Transactions
  the making of signed extrinsics and the parachains' fee polynomial.

  Reading the definitions. A \<open>[u8; 32]\<close> is a \<open>256 word\<close>, little-endian; integers keep their width and
  wrap as in the source; \<open>usize\<close> is 32 bits in the runtime, and a slice that would trap is a value of its
  own. Storage is a record of maps and functions, a \<open>Result\<close> a sum, a handler the chain of its checks in
  order. Loops are structural folds or functions with a measure; no fuel is used. The Merkle depth is
  the code's 20, traces have the code's 8192, 512, 128 and 65 rows.

  Parameters. What is not under \<open>src/\<close> is an argument, with its documented behaviour as a named
  hypothesis: SCALE (\<open>codec_laws\<close>), the STARK field (\<open>field_laws\<close>, \<open>f128_laws\<close>), the proof system
  (\<open>stark_sound\<close>: it accepts only satisfiable circuits), the Ristretto group with its scalars,
  transcripts and Bulletproofs (\<open>curve_laws\<close>), balances (\<open>currency_laws\<close>), XCM (\<open>xcm_laws\<close>, \<open>reaper_laws\<close>),
  fixed-point arithmetic (\<open>fixed_laws\<close>), ML-DSA and the hash functions (no law). Each is instantiated by a
  concrete function where a property assumes it. Hash collisions are not excluded by hypothesis; where
  a property depends on them it says which collision would refute it.

  Not modelled: the generated weights of the SDK pallets, which only their calls read (the tables for XCM
  and for the identity migrator are modelled); runtime assembly, APIs, the XCM combinators and the
  configuration of SDK pallets (data for third-party code); the node binary; test and proof-generation
  drivers. The vault pallet that the RWA runtime configures is not in the repository.
\<close>

section \<open>Across the chains\<close>

text \<open>
  C3. An access purchase on ProofHub opens a session on AuthGate. When \<open>purchase_access_v2\<close> is accepted,
  the hub sends exactly one message; once AuthGate has executed it, in any state reached from the empty
  pallet in which the app is active and the purchase id is free, \<open>use_access_key\<close> succeeds for
  the blinding that the purchase's commitment was made of, whoever calls it.
\<close>
theorem access_purchase_opens_session:
  assumes "codec_laws (ph_codec cfg)" and "xcm_laws X" and "ag = ag_runtime_config X b3"
    and "ph_apply cfg (orig, call_purchase_access_v2 auth pin prf) s = Inr s'"
    and "decode_spend_public_v2 (ph_codec cfg) pin = Some i"
    and "sp_ownership_commitment i = compute_access_key_commitment ag (sp_rwa_id i) b"
    and "AppRegistry (run (ag_apply ag) cs ag_empty) (sp_rwa_id i) = Some slot" and "slot_active slot"
    and "AccessGrants (run (ag_apply ag) cs ag_empty) (sp_tx_id i) = None"
  shows "\<exists>m g. sent s' = sent s @ [m] \<and>
    ag_apply ag (Signed who, call_use_access_key (sp_tx_id i) b)
      (ag_receive X b3 (ph_codec cfg) other (1, [Parachain 2000]) (ph_xcm (ph_codec cfg) m)
        (run (ag_apply ag) cs ag_empty)) = Inr g"
proof -
  let ?g = "run (ag_apply ag) cs ag_empty"
    and ?m = "AccessSend (sp_rwa_id i) (sp_nullifier i) (sp_tx_id i) (sp_ownership_commitment i)"
  have "ph_dispatch cfg orig (call_purchase_access_v2 auth pin prf) s = Inr s'"
    using assms(4) by (rule ph_apply_dispatch)
  then have "sent s' = sent s @ [?m]"
    using assms(5) by (auto simp: ph_dispatch_def dispatch_send_def dest!: purchase_access_v2_accepted)
  moreover have "\<not> KeyUsed ?g (sp_tx_id i)"
    using assms(9) ag_inv_reached [of ag cs] by (simp add: ag_inv_def)
  moreover have "xb_sibling X 2000 = ProofHubSovereign ag \<or> xb_sibling X 2000 = ProofHubSovereign2 ag"
    by (simp add: assms(3) ag_runtime_config_def)
  ultimately obtain g where "ag_apply ag (Signed who, call_use_access_key (sp_tx_id i) b)
      (run (ag_apply ag) [(Signed (xb_sibling X 2000), call_xcm_record_access_grant (sp_rwa_id i)
         (sp_nullifier i) (sp_tx_id i) (sp_ownership_commitment i))] ?g) = Inr g"
    using granted_key_opens [OF _ assms(7-9)] assms(6) by metis
  then have "ag_apply ag (Signed who, call_use_access_key (sp_tx_id i) b)
      (ag_receive X b3 (ph_codec cfg) other (1, [Parachain 2000]) (ph_xcm (ph_codec cfg) ?m) ?g) = Inr g"
    unfolding access_message_received(1) [OF assms(1,2)] assms(3) .
  with \<open>sent s' = sent s @ [?m]\<close> show ?thesis by blast
qed

text \<open>
  AuthGate with a hash that reads the blinding; a hub whose proofs all verify, with one app of price 3, and the purchase of
  access to it.
\<close>

abbreviation demo_gate :: "nat ag_config" where
  "demo_gate \<equiv> ag_runtime_config demo_xcm (\<lambda>bs. of_le_bytes (drop 51 bs))"

definition access_cfg :: "(nat, nat \<Rightarrow> nat) ph_config" where
  "access_cfg = demo_cfg\<lparr>ProofVerifier := demo_verify\<lparr>pv_verify_spend_v2 := (\<lambda>_ _ _ _ _ _ _ _. True)\<rparr>\<rparr>"

definition access_state :: "(nat \<Rightarrow> nat) ph_state" where
  "access_state = (ph_genesis (\<lambda>_. 100))
     \<lparr>ph_state.AccessKeyConfigs := [1 \<mapsto> \<lparr>ac_price = 3, ac_payment_account = 0\<rparr>]\<rparr>"

definition access_inputs :: spend_public_v2 where
  "access_inputs = \<lparr>sp_merkle_root = 0, sp_nullifier = 4, sp_rwa_id = 1, sp_tx_id = 9,
     sp_ownership_commitment = compute_access_key_commitment demo_gate 1 3, sp_change_leaf = 5,
     sp_change_pkd = 0\<rparr>"

abbreviation access_call :: ph_call where
  "access_call \<equiv> call_purchase_access_v2 (replicate 1312 0) (encode_spend_public_v2 le_codec access_inputs) []"

lemma access_inputs_decode:
  "decode_spend_public_v2 (ph_codec access_cfg) (encode_spend_public_v2 le_codec access_inputs) = Some access_inputs"
  using codec_laws_dec(4) [OF le_codec_laws, of _ "[]"] le_codec_laws
  by (simp add: decode_spend_public_v2_def encode_spend_public_v2_def access_cfg_def demo_cfg_def dec_then_def)

lemma access_demo: "sent access_state = []" "ph_codec access_cfg = le_codec" "sp_tx_id access_inputs = 9"
  by (simp_all add: access_state_def ph_genesis_def access_cfg_def demo_cfg_def access_inputs_def)

lemma access_applies: "\<exists>s'. ph_apply access_cfg (Unsigned, access_call) access_state = Inr s'"
proof -
  obtain ns c where "v2_insert_leaf (\<lambda>a b. a) (replicate MERKLE_DEPTH 0) 0 5 =
      Some (ns, c, shown_root (\<lambda>a b. a) [5])"
    using v2.ins_room [OF v2.rep_empty, of "\<lambda>a b. a" 5] by (auto simp: MERKLE_DEPTH_def)
  then show ?thesis
    using access_inputs_decode
    by (simp add: ph_apply_def validate_unsigned_def ph_dispatch_def purchase_access_v2_def access_inputs_def
        v2_root_anchored_def access_state_def ph_genesis_def access_cfg_def demo_cfg_def demo_verify_def
        demo_transfer_def ValidTransaction_def v2_insert_def after_insert_def currency_transfer_def
        MERKLE_DEPTH_def deposit_event_def Let_def del: replicate.simps)
qed

abbreviation demo_gate_state :: ag_state where
  "demo_gate_state \<equiv> run (ag_apply demo_gate) [(Root, call_list_access_slot 1 [] 10 4)] ag_empty"

theorem access_purchase_opens_session_witness:
  "\<exists>(s' :: (nat \<Rightarrow> nat) ph_state) m g. ph_apply access_cfg (Unsigned, access_call) access_state = Inr s' \<and>
    sent s' = [m] \<and>
    ag_apply demo_gate (Signed 5, call_use_access_key 9 3)
      (ag_receive demo_xcm (\<lambda>bs. of_le_bytes (drop 51 bs)) le_codec (\<lambda>_. None) (1, [Parachain 2000])
        (ph_xcm le_codec m) demo_gate_state) = Inr g"
proof -
  obtain s' where s': "ph_apply access_cfg (Unsigned, access_call) access_state = Inr s'"
    using access_applies by blast
  have reg: "AppRegistry demo_gate_state (sp_rwa_id access_inputs) =
      Some \<lparr>slot_name = [], slot_price = 10, slot_payment_account = 4, slot_active = True\<rparr>"
    "AccessGrants demo_gate_state (sp_tx_id access_inputs) = None"
    by (simp_all add: ag_apply_def ag_handlers ag_runtime_config_def ag_empty_def access_inputs_def Let_def)
  have "\<exists>m g. sent s' = sent access_state @ [m] \<and>
    ag_apply demo_gate (Signed 5, call_use_access_key (sp_tx_id access_inputs) 3)
      (ag_receive demo_xcm (\<lambda>bs. of_le_bytes (drop 51 bs)) (ph_codec access_cfg) (\<lambda>_. None) (1, [Parachain 2000])
        (ph_xcm (ph_codec access_cfg) m) demo_gate_state) = Inr g"
    by (rule access_purchase_opens_session [OF _ demo_xcm_laws refl s' access_inputs_decode _ reg(1) _ reg(2)])
      (simp_all add: access_cfg_def demo_cfg_def le_codec_laws access_inputs_def)
  then have "\<exists>m g. sent s' = [m] \<and>
    ag_apply demo_gate (Signed 5, call_use_access_key 9 3)
      (ag_receive demo_xcm (\<lambda>bs. of_le_bytes (drop 51 bs)) le_codec (\<lambda>_. None) (1, [Parachain 2000])
        (ph_xcm le_codec m) demo_gate_state) = Inr g"
    by (simp only: access_demo append_Nil)
  with s' show ?thesis by blast
qed

text \<open>
  C17. No RWA purchase ever reaches the RWA chain. Whatever messages ProofHub and ScanProof send, in
  whatever state the RWA chain is, executing those routed to it leaves its state as it was: no
  purchase is recorded and no ownership is transferred.
\<close>
theorem rwa_purchases_never_arrive:
  assumes "codec_laws C"
  shows "fold (rwa_receive X b3 C other from) (xcm_to 2001 (map (ph_xcm C) ms @ map (sc_xcm C) ms')) r = r"
proof -
  have "rwa_receive X b3 C other from m r' = r'"
    if "m \<in> set (xcm_to 2001 (map (ph_xcm C) ms @ map (sc_xcm C) ms'))" for m r'
    using xcm_to_rwa [OF that] by (elim disjE exE) (simp_all only: rwa_messages_ignored [OF assms])
  then have "fold (rwa_receive X b3 C other from) xs r = r"
    if "set xs \<subseteq> set (xcm_to 2001 (map (ph_xcm C) ms @ map (sc_xcm C) ms'))" for xs
    using that by (induction xs) simp_all
  then show ?thesis by blast
qed

theorem rwa_purchases_never_arrive_witness:
  "fold (rwa_receive demo_xcm (\<lambda>_. 0) le_codec (\<lambda>_. None) (1, [Parachain 2000]))
    (xcm_to 2001 (map (ph_xcm le_codec) [RwaSend 1 2 3 4 5 6, AccessSend 1 2 3 4, RwaSendTransfer 5 7 8] @
      map (sc_xcm le_codec) [ScRwaSend 1 2 3 4 5 6])) (rwa_genesis [] None) = rwa_genesis [] None"
  by (rule rwa_purchases_never_arrive [OF le_codec_laws])

end
